(* ===== verification/Prelude.thy ===== *)
theory Prelude
  imports Main "HOL-Library.Word" "HOL-Library.Multiset"
begin

text \<open>
  Shared vocabulary of the development: the machine integer types of the Rust
  code, the result type of its fallible functions with the bind that models the
  question-mark operator, checked slicing, big-endian byte codecs, and the two
  general locales (machines with an invariant, and parsers that work on a growing
  buffer) that the component theories interpret.
\<close>

section \<open>Machine integers and results\<close>

type_synonym u8 = "8 word"
type_synonym u16 = "16 word"
type_synonym u32 = "32 word"
type_synonym u64 = "64 word"
type_synonym i16 = "16 word"
type_synonym bytes = "8 word list"

text \<open>Unicode text is a list of code points; \<open>lit\<close> turns an ASCII literal into one.\<close>

type_synonym utext = "nat list"

definition lit :: "string \<Rightarrow> utext" where
  "lit s = map of_char s"

definition ascii :: "string \<Rightarrow> bytes" where
  "ascii s = map (\<lambda>c. of_nat (of_char c)) s"

text \<open>\<open>std::io::Error\<close>, by its kind.\<close>

datatype io_error = Io_Error string

named_theorems result_simps
named_theorems codec_simps

abbreviation Err :: "'e \<Rightarrow> 'e + 'a" where "Err \<equiv> Inl"
abbreviation Ok :: "'a \<Rightarrow> 'e + 'a" where "Ok \<equiv> Inr"

definition rbind :: "'e + 'a \<Rightarrow> ('a \<Rightarrow> 'e + 'b) \<Rightarrow> 'e + 'b" where
  "rbind m f = (case m of Inl e \<Rightarrow> Inl e | Inr a \<Rightarrow> f a)"

definition ok :: "'e + 'a \<Rightarrow> 'a option" where
  "ok m = (case m of Inl _ \<Rightarrow> None | Inr a \<Rightarrow> Some a)"

definition ok_or :: "'e \<Rightarrow> 'a option \<Rightarrow> 'e + 'a" where
  "ok_or e m = (case m of None \<Rightarrow> Inl e | Some a \<Rightarrow> Inr a)"

lemma rbind_simps [simp, result_simps]:
  "rbind (Inl e) f = Inl e" "rbind (Inr a) f = f a"
  by (simp_all add: rbind_def)

lemma ok_simps [simp, result_simps]: "ok (Inl e) = None" "ok (Inr a) = Some a"
  by (simp_all add: ok_def)

lemma ok_or_simps [simp, result_simps]: "ok_or e None = Inl e" "ok_or e (Some a) = Inr a"
  by (simp_all add: ok_or_def)

lemma rbind_eq_Inr_iff: "rbind m f = Inr b \<longleftrightarrow> (\<exists>a. m = Inr a \<and> f a = Inr b)"
  by (cases m) auto

lemma rbind_eq_Inl_iff: "rbind m f = Inl e \<longleftrightarrow> m = Inl e \<or> (\<exists>a. m = Inr a \<and> f a = Inl e)"
  by (cases m) auto

lemma rbind_assoc: "rbind (rbind m f) g = rbind m (\<lambda>x. rbind (f x) g)"
  by (cases m) auto

lemma rbind_cong [fundef_cong]:
  "m = m' \<Longrightarrow> (\<And>a. m' = Inr a \<Longrightarrow> f a = f' a) \<Longrightarrow> rbind m f = rbind m' f'"
  by (cases m') auto

lemma ok_eq_Some_iff: "ok m = Some a \<longleftrightarrow> m = Inr a"
  by (cases m) auto

lemma ok_eq_None_iff: "ok m = None \<longleftrightarrow> (\<exists>e. m = Inl e)"
  by (cases m) auto

text \<open>\<open>Iterator::position\<close> and \<open>slice::split\<close> at single elements.\<close>

fun position :: "('a \<Rightarrow> bool) \<Rightarrow> 'a list \<Rightarrow> nat option" where
  "position f [] = None"
| "position f (x # xs) = (if f x then Some 0 else map_option Suc (position f xs))"

lemma position_Some:
  "position f xs = Some n \<longleftrightarrow> n < length xs \<and> f (xs ! n) \<and> (\<forall>i<n. \<not> f (xs ! i))"
proof (induction xs arbitrary: n)
  case Nil
  then show ?case by simp
next
  case (Cons x xs)
  show ?case by (cases n) (auto simp: Cons All_less_Suc2)
qed

lemma position_None: "position f xs = None \<longleftrightarrow> list_all (\<lambda>x. \<not> f x) xs"
  by (induction xs) auto

fun split_on :: "'a \<Rightarrow> 'a list \<Rightarrow> 'a list list" where
  "split_on c [] = [[]]"
| "split_on c (x # xs) =
     (if x = c then [] # split_on c xs
      else (case split_on c xs of [] \<Rightarrow> [[x]] | ys # yss \<Rightarrow> (x # ys) # yss))"

fun rfold :: "('s \<Rightarrow> 'a \<Rightarrow> 'e + 's) \<Rightarrow> 's \<Rightarrow> 'a list \<Rightarrow> 'e + 's" where
  "rfold f s [] = Inr s"
| "rfold f s (x # xs) = rbind (f s x) (\<lambda>s'. rfold f s' xs)"

fun rmap :: "('a \<Rightarrow> 'e + 'b) \<Rightarrow> 'a list \<Rightarrow> 'e + 'b list" where
  "rmap f [] = Inr []"
| "rmap f (x # xs) = rbind (f x) (\<lambda>y. rbind (rmap f xs) (\<lambda>ys. Inr (y # ys)))"

lemma rmap_length: "rmap f xs = Inr ys \<Longrightarrow> length ys = length xs"
  by (induction xs arbitrary: ys) (auto simp: rbind_eq_Inr_iff)

lemma rbind_Inr_right [simp]: "rbind m Inr = m"
  by (cases m) auto

lemma rfold_append: "rfold f s (xs @ ys) = rbind (rfold f s xs) (\<lambda>s'. rfold f s' ys)"
  by (induction xs arbitrary: s) (simp_all add: rbind_assoc)

text \<open>
  The order in which a hash map iterates is not determined by the source. It is a
  parameter: any function that permutes its argument is an order (one that does not
  is replaced by the identity, so that no hypothesis is needed).
\<close>

definition hash_order :: "('a list \<Rightarrow> 'a list) \<Rightarrow> 'a list \<Rightarrow> 'a list" where
  "hash_order enum xs = (if mset (enum xs) = mset xs then enum xs else xs)"

lemma mset_hash_order [simp]: "mset (hash_order enum xs) = mset xs"
  by (simp add: hash_order_def)

lemma set_hash_order [simp]: "set (hash_order enum xs) = set xs"
  by (metis mset_hash_order set_mset_mset)

text \<open>\<open>*map.entry(k).or_insert(0) += 1\<close>: counters in the order of their first insertion.\<close>

fun bump :: "'k \<Rightarrow> ('k \<times> nat) list \<Rightarrow> ('k \<times> nat) list" where
  "bump k [] = [(k, 1)]"
| "bump k ((k', n) # cs) = (if k' = k then (k', n + 1) # cs else (k', n) # bump k cs)"

definition count_of :: "'k \<Rightarrow> ('k \<times> nat) list \<Rightarrow> nat" where
  "count_of k cs = (case map_of cs k of None \<Rightarrow> 0 | Some n \<Rightarrow> n)"

lemma count_of_bump: "count_of k (bump k' cs) = count_of k cs + (if k = k' then 1 else 0)"
  by (induction k' cs rule: bump.induct) (auto simp: count_of_def split: option.splits)

lemma bump_mem: "(k, n) \<in> set (bump k' cs) \<Longrightarrow> (k = k' \<and> 0 < n) \<or> (k, n) \<in> set cs"
  by (induction k' cs rule: bump.induct) (auto split: if_splits)

lemma bump_keys: "set (map fst (bump k cs)) = insert k (set (map fst cs))"
  by (induction k cs rule: bump.induct) auto

lemma bump_distinct: "distinct (map fst cs) \<Longrightarrow> distinct (map fst (bump k cs))"
  by (induction k cs rule: bump.induct) (auto simp: bump_keys simp del: set_map)

text \<open>A bounded queue that drops its oldest element keeps the last \<open>n\<close> elements.\<close>

definition keep_last :: "nat \<Rightarrow> 'a list \<Rightarrow> 'a list" where
  "keep_last n xs = drop (length xs - n) xs"

lemma keep_last_short [simp]: "length xs \<le> n \<Longrightarrow> keep_last n xs = xs"
  by (simp add: keep_last_def)

lemma length_keep_last [simp]: "length (keep_last n xs) = min n (length xs)"
  by (simp add: keep_last_def)

lemma keep_last_append: "keep_last n (keep_last n xs @ ys) = keep_last n (xs @ ys)"
proof (cases "length xs \<le> n")
  case True
  then show ?thesis by simp
next
  case False
  then show ?thesis by (simp add: keep_last_def add.commute)
qed

section \<open>Slices\<close>

text \<open>\<open>slice.get(a..b)\<close>: \<open>None\<close> when the range is not inside the slice.\<close>

definition slice_get :: "'a list \<Rightarrow> nat \<Rightarrow> nat \<Rightarrow> 'a list option" where
  "slice_get xs a b = (if a \<le> b \<and> b \<le> length xs then Some (take (b - a) (drop a xs)) else None)"

definition elem_get :: "'a list \<Rightarrow> nat \<Rightarrow> 'a option" where
  "elem_get xs i = (if i < length xs then Some (xs ! i) else None)"

lemma slice_get_eq_Some:
  "slice_get xs a b = Some ys \<longleftrightarrow> a \<le> b \<and> b \<le> length xs \<and> ys = take (b - a) (drop a xs)"
  by (auto simp: slice_get_def)

lemma slice_get_length: "slice_get xs a b = Some ys \<Longrightarrow> length ys = b - a"
  by (auto simp: slice_get_def split: if_splits)

lemma slice_get_append:
  "length pre = a \<Longrightarrow> b = a + length mid \<Longrightarrow> slice_get (pre @ mid @ suf) a b = Some mid"
  by (simp add: slice_get_def)

lemma drop_eq_append_length:
  "drop n xs = ys @ zs \<Longrightarrow> n \<le> length xs \<Longrightarrow> n + length ys + length zs = length xs"
  by (metis add.assoc le_add_diff_inverse length_append length_drop)

lemma drop_add_of_append:
  "drop n xs = ys @ zs \<Longrightarrow> drop (n + length ys) xs = zs"
  by (metis add.commute append_eq_conv_conj drop_drop)

section \<open>Big-endian codecs\<close>

definition be_nat :: "bytes \<Rightarrow> nat" where
  "be_nat bs = foldl (\<lambda>n b. 256 * n + unat b) 0 bs"

fun be_bytes :: "nat \<Rightarrow> nat \<Rightarrow> bytes" where
  "be_bytes 0 n = []"
| "be_bytes (Suc k) n = be_bytes k (n div 256) @ [of_nat (n mod 256)]"

lemma be_bytes_2: "be_bytes 2 n = [of_nat (n div 256 mod 256), of_nat (n mod 256)]"
  by (simp add: numeral_2_eq_2)

lemma be_nat_snoc [simp]: "be_nat (bs @ [b]) = 256 * be_nat bs + unat b"
  by (simp add: be_nat_def)

lemma be_nat_Nil [simp]: "be_nat [] = 0"
  by (simp add: be_nat_def)

lemma length_be_bytes [simp]: "length (be_bytes k n) = k"
  by (induction k arbitrary: n) auto

lemma unat_byte_lt [simp]: "unat (b :: u8) < 256"
  using unsigned_less [of b] by simp

lemma unat_u16_less [simp]: "unat (x :: u16) < 65536"
  using unsigned_less [of x] by simp

lemma unat_u32_less [simp]: "unat (x :: u32) < 4294967296"
  using unsigned_less [of x] by simp

lemma be_nat_bound: "be_nat bs < 256 ^ length bs"
proof (induction bs rule: rev_induct)
  case Nil
  then show ?case by simp
next
  case (snoc b bs)
  have "256 * (be_nat bs + 1) \<le> 256 * 256 ^ length bs"
    using snoc by (intro mult_le_mono) simp_all
  then have "256 * be_nat bs + 256 \<le> 256 ^ length (bs @ [b])"
    by simp
  moreover have "unat b < 256" by simp
  ultimately show ?case unfolding be_nat_snoc by linarith
qed

lemma be_nat_be_bytes: "n < 256 ^ k \<Longrightarrow> be_nat (be_bytes k n) = n"
proof (induction k arbitrary: n)
  case 0
  then show ?case by simp
next
  case (Suc k)
  have "unat (of_nat (n mod 256) :: u8) = n mod 256"
    by (simp add: unat_of_nat)
  moreover have "n div 256 < 256 ^ k"
    using Suc.prems by (simp add: less_mult_imp_div_less mult.commute)
  ultimately show ?case using Suc.IH by simp
qed

lemma be_bytes_be_nat: "be_bytes (length bs) (be_nat bs) = bs"
proof (induction bs rule: rev_induct)
  case Nil
  then show ?case by simp
next
  case (snoc b bs)
  have "(256 * be_nat bs + unat b) div 256 = be_nat bs"
    by simp
  moreover have "(256 * be_nat bs + unat b) mod 256 = unat b"
    by simp
  ultimately show ?case using snoc by simp
qed

section \<open>Runs of a machine with outputs\<close>

text \<open>
  A component is a step function from a state and an input to a new state and the
  outputs it emits. \<open>run_io\<close> feeds it a list of inputs and collects the outputs.
\<close>

fun run_io :: "('s \<Rightarrow> 'i \<Rightarrow> 's \<times> 'o list) \<Rightarrow> 's \<Rightarrow> 'i list \<Rightarrow> 's \<times> 'o list" where
  "run_io step s [] = (s, [])"
| "run_io step s (i # is) =
     (let (s1, out1) = step s i; (s2, out2) = run_io step s1 is in (s2, out1 @ out2))"

lemma run_io_append:
  "run_io step s (xs @ ys) =
     (let (s1, o1) = run_io step s xs; (s2, o2) = run_io step s1 ys in (s2, o1 @ o2))"
  by (induction xs arbitrary: s) (auto simp: Let_def split: prod.splits)

locale io_machine =
  fixes step :: "'s \<Rightarrow> 'i \<Rightarrow> 's \<times> 'o list"
    and inv :: "'s \<Rightarrow> bool"
    and good :: "'o \<Rightarrow> bool"
  assumes step_inv: "inv s \<Longrightarrow> inv (fst (step s i))"
    and step_good: "inv s \<Longrightarrow> list_all good (snd (step s i))"
begin

lemma run_inv: "inv s \<Longrightarrow> inv (fst (run_io step s is))"
proof (induction "is" arbitrary: s)
  case Nil
  then show ?case by simp
next
  case (Cons i "is")
  have "inv (fst (step s i))" using Cons.prems by (rule step_inv)
  then show ?case using Cons.IH by (simp add: Let_def split_beta)
qed

lemma run_good: "inv s \<Longrightarrow> list_all good (snd (run_io step s is))"
proof (induction "is" arbitrary: s)
  case Nil
  then show ?case by simp
next
  case (Cons i "is")
  have "inv (fst (step s i))" using Cons.prems by (rule step_inv)
  then show ?case using Cons.IH step_good [OF Cons.prems] by (simp add: Let_def split_beta)
qed

end

text \<open>
  A monitor reads the outputs one by one and refuses those its protocol forbids. A
  machine is \<^emph>\<open>monitored\<close> when its outputs drive the monitor along the abstraction of
  its states: then the protocol holds of every run.
\<close>

fun monitor :: "('m \<Rightarrow> 'o \<Rightarrow> 'm option) \<Rightarrow> 'm \<Rightarrow> 'o list \<Rightarrow> 'm option" where
  "monitor f m [] = Some m"
| "monitor f m (x # xs) = Option.bind (f m x) (\<lambda>m'. monitor f m' xs)"

lemma monitor_append: "monitor f m (xs @ ys) = Option.bind (monitor f m xs) (\<lambda>m'. monitor f m' ys)"
  by (induction xs arbitrary: m) (auto split: bind_split)

lemma monitor_append_Some:
  "monitor f m xs = Some m' \<Longrightarrow> monitor f m (xs @ ys) = monitor f m' ys"
  by (simp add: monitor_append)

locale monitored_machine = io_machine +
  fixes mon :: "'m \<Rightarrow> 'c \<Rightarrow> 'm option"
    and abs :: "'a \<Rightarrow> 'm"
  assumes step_mon: "inv s \<Longrightarrow> monitor mon (abs s) (snd (step s i)) = Some (abs (fst (step s i)))"
begin

lemma run_mon:
  "inv s \<Longrightarrow> monitor mon (abs s) (snd (run_io step s is)) = Some (abs (fst (run_io step s is)))"
proof (induction "is" arbitrary: s)
  case Nil
  then show ?case by simp
next
  case (Cons i "is")
  have "inv (fst (step s i))" using Cons.prems by (rule step_inv)
  then show ?case
    using Cons.IH step_mon [OF Cons.prems]
    by (simp add: Let_def split_beta monitor_append_Some)
qed

end

section \<open>A keyed store\<close>

text \<open>
  The contract of a map: lookup after insert, with an invariant on the representation.
\<close>

locale keyed_store =
  fixes store0 :: 'm
    and ins :: "'k \<Rightarrow> 'v \<Rightarrow> 'm \<Rightarrow> 'm"
    and look :: "'m \<Rightarrow> 'k \<Rightarrow> 'v option"
    and wf :: "'m \<Rightarrow> bool"
  assumes wf_store0: "wf store0"
    and wf_ins: "wf m \<Longrightarrow> wf (ins k v m)"
    and look_store0: "look store0 k = None"
    and look_ins: "wf m \<Longrightarrow> look (ins k v m) k' = (if k' = k then Some v else look m k')"
begin

lemma wf_ins_all: "wf m \<Longrightarrow> wf (fold (\<lambda>(k, v). ins k v) kvs m)"
  by (induction kvs arbitrary: m) (auto intro: wf_ins)

lemma look_ins_all:
  assumes "wf m"
  shows "look (fold (\<lambda>(k, v). ins k v) kvs m) k =
    (case map_of (rev kvs) k of None \<Rightarrow> look m k | Some v \<Rightarrow> Some v)"
  using assms
proof (induction kvs arbitrary: m)
  case Nil
  then show ?case by simp
next
  case (Cons kv kvs)
  obtain a b where kv: "kv = (a, b)" by (cases kv)
  have wf: "wf (ins a b m)" using Cons.prems by (rule wf_ins)
  show ?case
    using Cons.IH [OF wf] look_ins [OF Cons.prems, of a b k]
    by (simp add: kv map_add_def split: option.splits)
qed

lemma look_ins_all_store0:
  "look (fold (\<lambda>(k, v). ins k v) kvs store0) k = map_of (rev kvs) k"
  using look_ins_all [OF wf_store0] by (simp add: look_store0 split: option.splits)

end

section \<open>Parsers over a growing buffer\<close>

text \<open>
  A parser over an accumulating buffer answers \<open>Inr None\<close> while it needs more
  bytes. It is \<^emph>\<open>stable\<close> when any other answer survives the arrival of more bytes.
  \<open>feed\<close> is the read loop around it: parse, and if there is no answer yet append the
  next read and try again; \<open>None\<close> is the end of the reads. For a stable parser the
  loop's answer depends on the bytes only, not on how the reads split them.
\<close>

fun feed :: "(bytes \<Rightarrow> 'e + 'a option) \<Rightarrow> bytes \<Rightarrow> bytes list \<Rightarrow> ('e + 'a \<times> bytes \<times> bytes list) option" where
  "feed p buf reads =
     (case p buf of
        Inl e \<Rightarrow> Some (Inl e)
      | Inr (Some a) \<Rightarrow> Some (Inr (a, buf, reads))
      | Inr None \<Rightarrow> (case reads of [] \<Rightarrow> None | r # rs \<Rightarrow> feed p (buf @ r) rs))"

declare feed.simps [simp del]

locale growing_parser =
  fixes p :: "bytes \<Rightarrow> 'e + 'a option"
  assumes stable: "p buf \<noteq> Inr None \<Longrightarrow> p (buf @ more) = p buf"
begin

lemma needs_more_prefix: "p (buf @ more) = Inr None \<Longrightarrow> p buf = Inr None"
  using stable by metis

lemma feed_answer:
  "(case feed p buf reads of
      None \<Rightarrow> p (buf @ concat reads) = Inr None
    | Some (Inl e) \<Rightarrow> p (buf @ concat reads) = Inl e
    | Some (Inr (a, buf', rest)) \<Rightarrow>
        p (buf @ concat reads) = Inr (Some a) \<and> p buf' = Inr (Some a) \<and>
        buf' @ concat rest = buf @ concat reads)"
proof (induction reads arbitrary: buf)
  case Nil
  then show ?case by (simp add: feed.simps split: sum.splits option.splits)
next
  case (Cons r rs)
  show ?case
  proof (cases "p buf = Inr None")
    case True
    then have "feed p buf (r # rs) = feed p (buf @ r) rs"
      by (simp add: feed.simps [of p buf "r # rs"])
    with Cons.IH [of "buf @ r"] show ?thesis
      unfolding append_assoc concat.simps by simp
  next
    case False
    then have "p (buf @ concat (r # rs)) = p buf"
      by (rule stable)
    with False show ?thesis
      by (auto simp: feed.simps [of p buf] split: sum.splits option.splits)
  qed
qed

lemma feed_split_irrelevant:
  assumes "concat reads = concat reads'"
  shows "(case feed p buf reads of None \<Rightarrow> None | Some (Inl e) \<Rightarrow> Some (Inl e)
            | Some (Inr (a, _, _)) \<Rightarrow> Some (Inr a)) =
         (case feed p buf reads' of None \<Rightarrow> None | Some (Inl e) \<Rightarrow> Some (Inl e)
            | Some (Inr (a, _, _)) \<Rightarrow> Some (Inr a))"
  using feed_answer [of buf reads] feed_answer [of buf reads'] assms
  by (auto split: option.splits sum.splits prod.splits)

end

end
