(* ===== verification/Ascii.thy ===== *)
theory Ascii
  imports Prelude
begin

text \<open>
  The byte classes and the digit readers of Rust's \<open>core\<close> that the text formats use:
  \<open>is_ascii_digit\<close>, \<open>is_ascii_hexdigit\<close>, \<open>is_ascii_alphanumeric\<close>,
  \<open>eq_ignore_ascii_case\<close> and \<open>from_str_radix\<close> on digits, on bytes.
\<close>

abbreviation CR :: u8 where "CR \<equiv> 13"
abbreviation LF :: u8 where "LF \<equiv> 10"
abbreviation CRLF :: bytes where "CRLF \<equiv> [13, 10]"
abbreviation SP :: u8 where "SP \<equiv> 32"
abbreviation HTAB :: u8 where "HTAB \<equiv> 9"

definition is_digit :: "u8 \<Rightarrow> bool" where
  "is_digit b = (48 \<le> b \<and> b \<le> 57)"

definition is_upper :: "u8 \<Rightarrow> bool" where
  "is_upper b = (65 \<le> b \<and> b \<le> 90)"

definition is_lower :: "u8 \<Rightarrow> bool" where
  "is_lower b = (97 \<le> b \<and> b \<le> 122)"

definition is_alphanumeric :: "u8 \<Rightarrow> bool" where
  "is_alphanumeric b = (is_digit b \<or> is_upper b \<or> is_lower b)"

definition is_hexdigit :: "u8 \<Rightarrow> bool" where
  "is_hexdigit b = (is_digit b \<or> (65 \<le> b \<and> b \<le> 70) \<or> (97 \<le> b \<and> b \<le> 102))"

definition to_lower :: "u8 \<Rightarrow> u8" where
  "to_lower b = (if is_upper b then b + 32 else b)"

definition eq_ignore_case :: "bytes \<Rightarrow> bytes \<Rightarrow> bool" where
  "eq_ignore_case a b = (map to_lower a = map to_lower b)"

definition hex_digit_value :: "u8 \<Rightarrow> nat" where
  "hex_digit_value b =
     (if is_digit b then unat b - 48 else if is_upper b then unat b - 55 else unat b - 87)"

definition dec_value :: "bytes \<Rightarrow> nat" where
  "dec_value ds = foldl (\<lambda>n d. 10 * n + (unat d - 48)) 0 ds"

definition hex_value :: "bytes \<Rightarrow> nat" where
  "hex_value ds = foldl (\<lambda>n d. 16 * n + hex_digit_value d) 0 ds"

text \<open>The upper-case hexadecimal digit of a value below sixteen.\<close>

definition hex_digit :: "nat \<Rightarrow> u8" where
  "hex_digit n = of_nat (if n < 10 then 48 + n else 55 + n)"

lemma hex_digit_value_digit: "n < 16 \<Longrightarrow> hex_digit_value (hex_digit n) = n"
proof -
  assume "n < 16"
  then have "n \<in> set [0..<16]" by simp
  moreover have "\<forall>n\<in>set [0..<16]. hex_digit_value (hex_digit n) = n" by code_simp
  ultimately show ?thesis by blast
qed

lemma hex_digit_is_hexdigit: "n < 16 \<Longrightarrow> is_hexdigit (hex_digit n)"
proof -
  assume "n < 16"
  then have "n \<in> set [0..<16]" by simp
  moreover have "\<forall>n\<in>set [0..<16]. is_hexdigit (hex_digit n)" by code_simp
  ultimately show ?thesis by blast
qed

text \<open>A fact about all bytes is 256 facts.\<close>

lemma byte_cases:
  assumes "\<And>n. n < 256 \<Longrightarrow> P (of_nat n :: u8)"
  shows "P b"
  using assms [of "unat b"] by simp

fun hex_digits :: "nat \<Rightarrow> nat \<Rightarrow> bytes" where
  "hex_digits 0 n = []"
| "hex_digits (Suc k) n = hex_digits k (n div 16) @ [hex_digit (n mod 16)]"

lemma length_hex_digits [simp]: "length (hex_digits k n) = k"
  by (induction k arbitrary: n) simp_all

lemma hex_value_digits: "n < 16 ^ k \<Longrightarrow> hex_value (hex_digits k n) = n"
proof (induction k arbitrary: n)
  case 0
  then show ?case by (simp add: hex_value_def)
next
  case (Suc k)
  have "n div 16 < 16 ^ k" using Suc.prems by (simp add: less_mult_imp_div_less mult.commute)
  then show ?case using Suc.IH by (simp add: hex_value_def hex_digit_value_digit)
qed

lemma hex_digits_all: "list_all is_hexdigit (hex_digits k n)"
  by (induction k arbitrary: n) (simp_all add: hex_digit_is_hexdigit)

end
