(* ===== verification/Floats.thy ===== *)
theory Floats
  imports Prelude Complex_Main
begin

text \<open>
  The part of IEEE 754 binary arithmetic that the Rust code relies on: the values
  of \<open>f32\<close> and \<open>f64\<close>, correctly rounded arithmetic (to nearest, ties to even,
  gradual underflow, overflow to infinity), comparisons with NaN, \<open>floor\<close>,
  \<open>round\<close>, \<open>clamp\<close>, \<open>min\<close>, the saturating \<open>as\<close> casts to integers and the
  conversions from integers and between the two widths. Everything computes on
  rationals. NaN payloads and the sign of a NaN are not represented: no modelled
  code observes them.
\<close>

section \<open>Values and formats\<close>

text \<open>\<open>FFin s m\<close> is the finite value of sign \<open>s\<close> (true for negative) and magnitude \<open>m\<close>.\<close>

datatype fp = FNaN | FInf bool | FFin bool rat

record fmt =
  prec :: nat
  emin :: int
  emax :: int

definition F32 :: fmt where
  "F32 = \<lparr>prec = 24, emin = -126, emax = 127\<rparr>"

definition F64 :: fmt where
  "F64 = \<lparr>prec = 53, emin = -1022, emax = 1023\<rparr>"

fun fp_val :: "fp \<Rightarrow> rat" where
  "fp_val (FFin s m) = (if s then - m else m)"
| "fp_val _ = 0"

fun fp_is_finite :: "fp \<Rightarrow> bool" where
  "fp_is_finite (FFin _ _) = True"
| "fp_is_finite _ = False"

section \<open>Rounding a rational to a format\<close>

definition pow2 :: "int \<Rightarrow> rat" where
  "pow2 e = (if 0 \<le> e then 2 ^ nat e else 1 / 2 ^ nat (- e))"

text \<open>
  The exponent of a positive rational: the greatest \<open>e\<close> with \<open>2^e \<le> m\<close>, found by
  halving the integer part of \<open>m\<close> or of its inverse.
\<close>

function ilog2i :: "int \<Rightarrow> int" where
  "ilog2i n = (if n \<le> 1 then 0 else 1 + ilog2i (n div 2))"
  by auto
termination by (relation "measure nat") auto

declare ilog2i.simps [simp del]

lemma ilog2i_numerals [simp]:
  "ilog2i 0 = 0" "ilog2i 1 = 0"
  "ilog2i (numeral (Num.Bit0 w)) = 1 + ilog2i (numeral w)"
  "ilog2i (numeral (Num.Bit1 w)) = 1 + ilog2i (numeral w)"
  by (simp_all add: ilog2i.simps)

definition ilog2 :: "rat \<Rightarrow> int" where
  "ilog2 m = (if 1 \<le> m then ilog2i \<lfloor>m\<rfloor>
              else let b = ilog2i \<lfloor>1 / m\<rfloor> in if m = pow2 (- b) then - b else - (b + 1))"

definition round_half_even :: "rat \<Rightarrow> int" where
  "round_half_even r =
     (let f = \<lfloor>r\<rfloor>; d = r - of_int f
      in if d < 1/2 then f else if 1/2 < d then f + 1 else if even f then f else f + 1)"

text \<open>The value of format \<open>F\<close> nearest to the magnitude \<open>m\<close>, with sign \<open>s\<close>.\<close>

definition round_fp :: "fmt \<Rightarrow> bool \<Rightarrow> rat \<Rightarrow> fp" where
  "round_fp F s m =
     (if m = 0 then FFin s 0
      else let q = max (ilog2 m) (emin F) - (int (prec F) - 1);
               v = of_int (round_half_even (m / pow2 q)) * pow2 q
           in if pow2 (emax F + 1) \<le> v then FInf s else FFin s v)"

definition round_rat :: "fmt \<Rightarrow> bool \<Rightarrow> rat \<Rightarrow> fp" where
  "round_rat F zs r = (if r = 0 then FFin zs 0 else round_fp F (r < 0) \<bar>r\<bar>)"

section \<open>Arithmetic\<close>

fun fneg :: "fp \<Rightarrow> fp" where
  "fneg FNaN = FNaN"
| "fneg (FInf s) = FInf (\<not> s)"
| "fneg (FFin s m) = FFin (\<not> s) m"

fun fadd :: "fmt \<Rightarrow> fp \<Rightarrow> fp \<Rightarrow> fp" where
  "fadd F FNaN _ = FNaN"
| "fadd F (FInf s) FNaN = FNaN"
| "fadd F (FFin s m) FNaN = FNaN"
| "fadd F (FInf s) (FInf t) = (if s = t then FInf s else FNaN)"
| "fadd F (FInf s) (FFin t n) = FInf s"
| "fadd F (FFin s m) (FInf t) = FInf t"
| "fadd F (FFin s m) (FFin t n) = round_rat F (s \<and> t) (fp_val (FFin s m) + fp_val (FFin t n))"

definition fsub :: "fmt \<Rightarrow> fp \<Rightarrow> fp \<Rightarrow> fp" where
  "fsub F a b = fadd F a (fneg b)"

fun fmul :: "fmt \<Rightarrow> fp \<Rightarrow> fp \<Rightarrow> fp" where
  "fmul F FNaN _ = FNaN"
| "fmul F (FInf s) FNaN = FNaN"
| "fmul F (FFin s m) FNaN = FNaN"
| "fmul F (FInf s) (FInf t) = FInf (s \<noteq> t)"
| "fmul F (FInf s) (FFin t n) = (if n = 0 then FNaN else FInf (s \<noteq> t))"
| "fmul F (FFin s m) (FInf t) = (if m = 0 then FNaN else FInf (s \<noteq> t))"
| "fmul F (FFin s m) (FFin t n) = round_fp F (s \<noteq> t) (m * n)"

fun fdiv :: "fmt \<Rightarrow> fp \<Rightarrow> fp \<Rightarrow> fp" where
  "fdiv F FNaN _ = FNaN"
| "fdiv F (FInf s) FNaN = FNaN"
| "fdiv F (FFin s m) FNaN = FNaN"
| "fdiv F (FInf s) (FInf t) = FNaN"
| "fdiv F (FInf s) (FFin t n) = FInf (s \<noteq> t)"
| "fdiv F (FFin s m) (FInf t) = FFin (s \<noteq> t) 0"
| "fdiv F (FFin s m) (FFin t n) =
     (if n = 0 then (if m = 0 then FNaN else FInf (s \<noteq> t)) else round_fp F (s \<noteq> t) (m / n))"

section \<open>Comparisons and rounding to integers\<close>

fun flt :: "fp \<Rightarrow> fp \<Rightarrow> bool" where
  "flt FNaN _ = False"
| "flt (FInf s) FNaN = False"
| "flt (FFin s m) FNaN = False"
| "flt (FInf s) (FInf t) = (s \<and> \<not> t)"
| "flt (FInf s) (FFin t n) = s"
| "flt (FFin s m) (FInf t) = (\<not> t)"
| "flt (FFin s m) (FFin t n) = (fp_val (FFin s m) < fp_val (FFin t n))"

fun feq :: "fp \<Rightarrow> fp \<Rightarrow> bool" where
  "feq (FInf s) (FInf t) = (s = t)"
| "feq (FFin s m) (FFin t n) = (fp_val (FFin s m) = fp_val (FFin t n))"
| "feq _ _ = False"

definition fle :: "fp \<Rightarrow> fp \<Rightarrow> bool" where
  "fle a b = (flt a b \<or> feq a b)"

fun ffloor :: "fp \<Rightarrow> fp" where
  "ffloor (FFin s m) = (if s then FFin True (of_int \<lceil>m\<rceil>) else FFin False (of_int \<lfloor>m\<rfloor>))"
| "ffloor x = x"

text \<open>\<open>f32::round\<close>: to the nearest integer, halves away from zero.\<close>

fun fround :: "fp \<Rightarrow> fp" where
  "fround (FFin s m) = FFin s (of_int \<lfloor>m + 1/2\<rfloor>)"
| "fround x = x"

definition fclamp :: "fp \<Rightarrow> fp \<Rightarrow> fp \<Rightarrow> fp" where
  "fclamp x lo hi = (let y = if flt x lo then lo else x in if flt hi y then hi else y)"

definition fmin2 :: "fp \<Rightarrow> fp \<Rightarrow> fp" where
  "fmin2 a b = (if a = FNaN then b else if b = FNaN then a else if flt b a then b else a)"

text \<open>The saturating \<open>as\<close> cast to an integer type with the range \<open>lo..hi\<close>; NaN gives 0.\<close>

fun fp_to_int :: "int \<Rightarrow> int \<Rightarrow> fp \<Rightarrow> int" where
  "fp_to_int lo hi FNaN = 0"
| "fp_to_int lo hi (FInf s) = (if s then lo else hi)"
| "fp_to_int lo hi (FFin s m) = max lo (min hi (if s then - \<lfloor>m\<rfloor> else \<lfloor>m\<rfloor>))"

definition fp_to_u8 :: "fp \<Rightarrow> u8" where
  "fp_to_u8 x = of_int (fp_to_int 0 255 x)"

definition fp_to_u16 :: "fp \<Rightarrow> u16" where
  "fp_to_u16 x = of_int (fp_to_int 0 65535 x)"

definition fp_to_i32 :: "fp \<Rightarrow> int" where
  "fp_to_i32 x = fp_to_int (- (2 ^ 31)) (2 ^ 31 - 1) x"

definition fp_to_i64 :: "fp \<Rightarrow> int" where
  "fp_to_i64 x = fp_to_int (- (2 ^ 63)) (2 ^ 63 - 1) x"

section \<open>Conversions\<close>

definition fp_of_nat :: "fmt \<Rightarrow> nat \<Rightarrow> fp" where
  "fp_of_nat F n = round_fp F False (of_nat n)"

text \<open>A decimal literal of the source, as the value the compiler rounds it to.\<close>

definition f32lit :: "rat \<Rightarrow> fp" where
  "f32lit r = round_rat F32 False r"

definition f64lit :: "rat \<Rightarrow> fp" where
  "f64lit r = round_rat F64 False r"

text \<open>Widening is exact; narrowing rounds.\<close>

definition f32_to_f64 :: "fp \<Rightarrow> fp" where
  "f32_to_f64 x = x"

fun f64_to_f32 :: "fp \<Rightarrow> fp" where
  "f64_to_f32 (FFin s m) = round_fp F32 s m"
| "f64_to_f32 x = x"

text \<open>\<open>f32::from_be_bytes\<close> on the 32-bit pattern.\<close>

definition f32_of_bits :: "u32 \<Rightarrow> fp" where
  "f32_of_bits w =
     (let n = uint w; s = (2 ^ 31 \<le> n); e = (n div 2 ^ 23) mod 256; f = n mod 2 ^ 23
      in if e = 255 then (if f = 0 then FInf s else FNaN)
         else if e = 0 then FFin s (of_int f * pow2 (-149))
         else FFin s (of_int (2 ^ 23 + f) * pow2 (e - 150)))"

section \<open>Facts shared by the components\<close>

named_theorems float_eval

lemmas float_eval_defs [float_eval] =
  f32lit_def f64lit_def round_rat_def round_fp_def F32_def F64_def pow2_def ilog2_def
  round_half_even_def fp_of_nat_def f32_of_bits_def Let_def

lemma rat_floor_numeral [float_eval]:
  "\<lfloor>numeral a / numeral b :: rat\<rfloor> = numeral a div numeral b"
  "\<lfloor>1 / numeral b :: rat\<rfloor> = 1 div numeral b"
  using floor_divide_of_int_eq [of "numeral a" "numeral b", where ?'a = rat]
    floor_divide_of_int_eq [of 1 "numeral b", where ?'a = rat] by simp_all

lemma fp_to_int_bounds:
  "lo \<le> 0 \<Longrightarrow> 0 \<le> hi \<Longrightarrow> lo \<le> fp_to_int lo hi x \<and> fp_to_int lo hi x \<le> hi"
  by (cases x) auto

lemma pow2_pos [simp]: "0 < pow2 e"
  by (simp add: pow2_def)

lemma pow2_nonneg [simp]: "0 \<le> pow2 e"
  by (rule less_imp_le [OF pow2_pos])

lemma round_half_even_mono_nonneg: "0 \<le> r \<Longrightarrow> 0 \<le> round_half_even r"
  by (auto simp: round_half_even_def Let_def)

lemma round_fp_sign: "\<exists>m. round_fp F s r = FFin s m \<or> round_fp F s r = FInf s"
  by (auto simp: round_fp_def Let_def)

lemma round_fp_number: "round_fp F s r \<noteq> FNaN"
  using round_fp_sign [of F s r] by auto

text \<open>A clamped value is NaN or between its bounds.\<close>

lemma flt_irrefl [simp]: "\<not> flt x x"
  by (cases x) auto

lemma fclamp_bounds:
  assumes "\<not> flt hi lo"
  shows "\<not> flt (fclamp x lo hi) lo \<and> \<not> flt hi (fclamp x lo hi)"
  using assms by (auto simp: fclamp_def Let_def)

lemma fp_to_int_clamped:
  assumes "lo = FFin False (of_int a)" "hi = FFin False (of_int b)" "0 \<le> a" "a \<le> b" "x \<noteq> FNaN"
    "c \<le> a" "c \<le> 0" "b \<le> d"
  shows "a \<le> fp_to_int c d (fclamp x lo hi) \<and> fp_to_int c d (fclamp x lo hi) \<le> b"
proof -
  let ?y = "fclamp x lo hi"
  have le: "\<not> flt hi lo" using assms by simp
  have y: "?y \<noteq> FNaN" "\<not> flt ?y lo" "\<not> flt hi ?y"
    using fclamp_bounds [OF le, of x] assms by (auto simp: fclamp_def Let_def)
  show ?thesis
  proof (cases ?y)
    case FNaN
    with y show ?thesis by simp
  next
    case (FInf s)
    with y assms show ?thesis by (cases s) auto
  next
    case (FFin s m)
    have "\<not> flt (FFin s m) lo" "\<not> flt hi (FFin s m)"
      using y FFin by simp_all
    then have v: "of_int a \<le> fp_val (FFin s m)" "fp_val (FFin s m) \<le> of_int b"
      unfolding assms(1,2) by auto
    show ?thesis
    proof (cases s)
      case True
      with v assms have "of_int a \<le> - m" "- m \<le> of_int b" by auto
      have "- \<lfloor>m\<rfloor> = \<lceil>- m\<rceil>" by (simp add: ceiling_def)
      moreover have "a \<le> \<lceil>- m\<rceil>" "\<lceil>- m\<rceil> \<le> b"
        using \<open>of_int a \<le> - m\<close> \<open>- m \<le> of_int b\<close> by (auto simp: ceiling_le_iff le_ceiling_iff)
      ultimately show ?thesis using assms FFin True by auto
    next
      case False
      with v have "a \<le> \<lfloor>m\<rfloor>" "\<lfloor>m\<rfloor> \<le> b"
        by (auto simp: le_floor_iff floor_le_iff)
      then show ?thesis using assms FFin False by auto
    qed
  qed
qed

section \<open>Representable values\<close>

lemma pow2_powi: "pow2 e = 2 powi e"
  by (simp add: pow2_def power_int_def inverse_eq_divide power_one_over)

lemma pow2_add: "pow2 (a + b) = pow2 a * pow2 b"
  by (simp add: pow2_powi power_int_add)

lemma pow2_less_iff [simp]: "pow2 a < pow2 b \<longleftrightarrow> a < b"
proof -
  have "pow2 x < pow2 y" if "x < y" for x y
    unfolding pow2_powi using that by (intro power_int_strict_increasing) simp_all
  then show ?thesis by (metis less_asym linorder_neqE)
qed

lemma pow2_nonneg_int: "0 \<le> e \<Longrightarrow> pow2 e = of_int (2 ^ nat e)"
  by (simp add: pow2_def)

lemma ilog2i_spec:
  "1 \<le> n \<Longrightarrow> 0 \<le> ilog2i n \<and> 2 ^ nat (ilog2i n) \<le> n \<and> n < 2 ^ (nat (ilog2i n) + 1)"
proof (induction n rule: ilog2i.induct)
  case (1 n)
  show ?case
  proof (cases "n \<le> 1")
    case True
    with 1 have "n = 1" by simp
    then show ?thesis by simp
  next
    case False
    let ?k = "ilog2i (n div 2)"
    have IH: "0 \<le> ?k" "2 ^ nat ?k \<le> n div 2" "n div 2 < 2 ^ (nat ?k + 1)"
      using 1 False by auto
    have eq: "ilog2i n = 1 + ?k" "nat (1 + ?k) = Suc (nat ?k)"
      using False IH(1) by (simp_all add: ilog2i.simps [of n] nat_add_distrib)
    show ?thesis
      unfolding eq using IH by (auto simp: power_Suc)
  qed
qed

lemma ilog2_spec:
  assumes "0 < m"
  shows "pow2 (ilog2 m) \<le> m \<and> m < pow2 (ilog2 m + 1)"
proof -
  have big: "pow2 (ilog2i \<lfloor>x\<rfloor>) \<le> x \<and> x < pow2 (ilog2i \<lfloor>x\<rfloor> + 1)" if "1 \<le> x" for x :: rat
  proof -
    let ?n = "\<lfloor>x\<rfloor>" and ?e = "ilog2i \<lfloor>x\<rfloor>"
    have "1 \<le> ?n" using that by simp
    note s = ilog2i_spec [OF this]
    have "of_int (2 ^ nat ?e) \<le> x" using s by (simp add: le_floor_iff)
    moreover have "x < of_int (2 ^ (nat ?e + 1))"
    proof -
      have "?n + 1 \<le> 2 ^ (nat ?e + 1)" using s by simp
      then have "of_int (?n + 1) \<le> (of_int (2 ^ (nat ?e + 1)) :: rat)"
        by (simp only: of_int_le_iff)
      then show ?thesis using floor_correct [of x] by linarith
    qed
    ultimately show ?thesis
      using s by (simp add: pow2_nonneg_int nat_add_distrib)
  qed
  show ?thesis
  proof (cases "1 \<le> m")
    case True
    then show ?thesis using big by (simp add: ilog2_def)
  next
    case False
    let ?b = "ilog2i \<lfloor>1 / m\<rfloor>"
    have "1 \<le> 1 / m" using False assms by (simp add: field_simps)
    note b = big [OF this]
    have inv: "pow2 (- e) = 1 / pow2 e" for e
      by (simp add: pow2_powi power_int_minus divide_inverse)
    have le: "m \<le> pow2 (- ?b)"
      using b assms by (simp add: inv field_simps)
    have "1 < m * pow2 (?b + 1)"
      using b assms by (simp add: field_simps)
    then have gt: "pow2 (- (?b + 1)) < m"
      unfolding inv using pow2_pos [of "?b + 1"] by (simp add: divide_less_eq)
    show ?thesis
    proof (cases "m = pow2 (- ?b)")
      case True
      have "ilog2 m = - ?b" using True False unfolding ilog2_def Let_def by (simp only: if_True if_False refl)
      moreover have "pow2 (- ?b) < pow2 (- ?b + 1)" by simp
      ultimately show ?thesis using True by (simp only: order_refl simp_thms)
    next
      case neq: False
      then have "ilog2 m = - (?b + 1)" using False by (simp add: ilog2_def Let_def)
      then show ?thesis using le gt neq by simp
    qed
  qed
qed

definition representable :: "fmt \<Rightarrow> rat \<Rightarrow> bool" where
  "representable F m =
     (\<exists>k q. 0 \<le> k \<and> k < 2 ^ prec F \<and> emin F - (int (prec F) - 1) \<le> q \<and>
        m = of_int k * pow2 q \<and> m < pow2 (emax F + 1))"

lemma round_half_even_of_int [simp]: "round_half_even (of_int k) = k"
  by (simp add: round_half_even_def)

text \<open>Rounding leaves a representable value alone.\<close>

lemma round_fp_exact:
  assumes "representable F m"
  shows "round_fp F s m = FFin s m"
proof (cases "m = 0")
  case True
  then show ?thesis by (simp add: round_fp_def)
next
  case False
  obtain k q where k: "0 \<le> k" "k < 2 ^ prec F" "emin F - (int (prec F) - 1) \<le> q"
    and m: "m = of_int k * pow2 q" and hi: "m < pow2 (emax F + 1)"
    using assms by (auto simp: representable_def)
  have kpos: "0 < k" using False k(1) m by (cases "k = 0") auto
  then have mpos: "0 < m" by (simp add: m)
  let ?e = "ilog2 m"
  let ?q = "max ?e (emin F) - (int (prec F) - 1)"
  have "of_int k < (of_int (2 ^ prec F) :: rat)" using k(2) by (simp only: of_int_less_iff)
  then have "of_int k < pow2 (int (prec F))" by (simp add: pow2_def)
  then have "m < pow2 (q + int (prec F))" by (simp add: m pow2_add mult.commute)
  then have "?e < q + int (prec F)"
    using ilog2_spec [OF mpos] by (meson order_le_less_trans pow2_less_iff)
  then have "?q \<le> q" using k(3) by simp
  then have d: "0 \<le> q - ?q" by simp
  have "pow2 q = of_int (2 ^ nat (q - ?q)) * pow2 ?q"
    using pow2_add [of "q - ?q" ?q] unfolding pow2_nonneg_int [OF d] by simp
  then have "m = of_int (k * 2 ^ nat (q - ?q)) * pow2 ?q"
    unfolding m by (simp only: of_int_mult mult.assoc)
  then have "m / pow2 ?q = of_int (k * 2 ^ nat (q - ?q))"
    by (metis nonzero_eq_divide_eq order_less_irrefl pow2_pos)
  then have "of_int (round_half_even (m / pow2 ?q)) * pow2 ?q = m"
    by (metis nonzero_eq_divide_eq order_less_irrefl pow2_pos round_half_even_of_int)
  then show ?thesis
    using False hi by (simp add: round_fp_def Let_def)
qed

lemma representable_F32I:
  "0 \<le> k \<Longrightarrow> k < 2 ^ 24 \<Longrightarrow> -149 \<le> q \<Longrightarrow> m = of_int k * pow2 q \<Longrightarrow> m < pow2 128 \<Longrightarrow>
   representable F32 m"
  unfolding representable_def F32_def by fastforce

lemma f32_of_bits_cases:
  obtains e f S where "0 \<le> e" "e < 256" "0 \<le> f" "f < 2 ^ 23"
    "f32_of_bits w =
       (if e = 255 then (if f = 0 then FInf S else FNaN)
        else if e = 0 then FFin S (of_int f * pow2 (-149))
        else FFin S (of_int (2 ^ 23 + f) * pow2 (e - 150)))"
  by (rule that [of "(uint w div 2 ^ 23) mod 256" "uint w mod 2 ^ 23" "2 ^ 31 \<le> uint w"])
    (simp_all add: f32_of_bits_def Let_def)

lemma f32_of_bits_representable:
  assumes "f32_of_bits w = FFin s m"
  shows "representable F32 m"
proof -
  obtain e f S where e: "0 \<le> e" "e < 256" and f: "0 \<le> f" "f < 2 ^ 23"
    and w: "f32_of_bits w =
       (if e = 255 then (if f = 0 then FInf S else FNaN)
        else if e = 0 then FFin S (of_int f * pow2 (-149))
        else FFin S (of_int (2 ^ 23 + f) * pow2 (e - 150)))"
    by (rule f32_of_bits_cases)
  show ?thesis
  proof (cases "e = 0")
    case True
    then have m: "m = of_int f * pow2 (-149)" using assms w by simp
    have "f < 2 ^ 277" by (rule less_trans [OF f(2)]) simp
    then have "of_int f < (of_int (2 ^ 277) :: rat)" by (simp only: of_int_less_iff)
    then have "of_int f < pow2 277" by (simp add: pow2_def)
    then have "m < pow2 128" using pow2_add [of 277 "-149"] by (simp add: m)
    then show ?thesis using f m by (intro representable_F32I [of f "-149"]) simp_all
  next
    case False
    then have ne: "e \<noteq> 255" and m: "m = of_int (2 ^ 23 + f) * pow2 (e - 150)"
      using assms w by (auto split: if_splits)
    have lt24: "2 ^ 23 + f < 2 ^ 24" using f(2) by simp
    then have "of_int (2 ^ 23 + f) < (of_int (2 ^ 24) :: rat)"
      by (simp only: of_int_less_iff)
    then have "of_int (2 ^ 23 + f) < pow2 24" by (simp add: pow2_def)
    then have "m < pow2 24 * pow2 (e - 150)" by (simp add: m)
    also have "\<dots> = pow2 (e - 126)" by (simp flip: pow2_add)
    also have "\<dots> \<le> pow2 128" using e ne by (simp flip: not_less)
    finally show ?thesis
      using lt24 f e False m by (intro representable_F32I [of "2 ^ 23 + f" "e - 150"]) simp_all
  qed
qed
end
