(* ===== verification/Decoder_Types.thy ===== *)
theory Decoder_Types
  imports Floats
begin

text \<open>
  The decoder's data: \<open>types/*.rs\<close> and \<open>error.rs\<close> of the crate \<open>nexrad-decoder\<close>.
  Record fields carry a prefix for the Rust struct they belong to (\<open>pd_\<close> for
  \<open>ProductData\<close>, \<open>r_\<close> for \<open>Radial\<close>, \<open>sw_\<close> for \<open>Sweep\<close> and so on). The fixed-array
  \<open>ProductMap\<close> is a list of seven slots; the locale \<open>keyed_store\<close> states what a
  client of a keyed map relies on, and is interpreted on it.
\<close>

section \<open>Errors and product kinds\<close>

datatype decode_error = Truncated string

datatype product_kind = Ref | Vel | SpectrumWidth | Zdr | Phi | Rho | Cfp

definition PRODUCT_KIND_COUNT :: nat where
  "PRODUCT_KIND_COUNT = 7"

definition from_block_id :: "bytes \<Rightarrow> product_kind option" where
  "from_block_id bid =
     (if bid = ascii ''DREF'' then Some Ref
      else if bid = ascii ''DVEL'' then Some Vel
      else if bid = ascii ''DSW '' then Some SpectrumWidth
      else if bid = ascii ''DZDR'' then Some Zdr
      else if bid = ascii ''DPHI'' then Some Phi
      else if bid = ascii ''DRHO'' then Some Rho
      else if bid = ascii ''DCFP'' then Some Cfp
      else None)"

fun kind_index :: "product_kind \<Rightarrow> nat" where
  "kind_index Ref = 0"
| "kind_index Vel = 1"
| "kind_index SpectrumWidth = 2"
| "kind_index Zdr = 3"
| "kind_index Phi = 4"
| "kind_index Rho = 5"
| "kind_index Cfp = 6"

definition ALL_PRODUCT_KINDS :: "product_kind list" where
  "ALL_PRODUCT_KINDS = [Ref, Vel, SpectrumWidth, Zdr, Phi, Rho, Cfp]"

lemma kind_index_less [simp]: "kind_index k < PRODUCT_KIND_COUNT"
  by (cases k) (simp_all add: PRODUCT_KIND_COUNT_def)

lemma kind_index_inj [simp]: "kind_index k = kind_index k' \<longleftrightarrow> k = k'"
  by (cases k; cases k') simp_all

lemma ALL_PRODUCT_KINDS_index: "ALL_PRODUCT_KINDS ! kind_index k = k"
  by (cases k) (simp_all add: ALL_PRODUCT_KINDS_def)

instantiation product_kind :: linorder
begin

definition less_eq_product_kind :: "product_kind \<Rightarrow> product_kind \<Rightarrow> bool" where
  "less_eq_product_kind a b = (kind_index a \<le> kind_index b)"

definition less_product_kind :: "product_kind \<Rightarrow> product_kind \<Rightarrow> bool" where
  "less_product_kind a b = (kind_index a < kind_index b)"

instance
  by standard (auto simp: less_eq_product_kind_def less_product_kind_def)

end

section \<open>Product data\<close>

record product_data =
  pd_gate_count :: u16
  pd_first_gate_m :: u16
  pd_gate_width_m :: u16
  pd_word_size :: u8
  pd_scale :: fp
  pd_offset :: fp
  pd_data :: bytes

definition raw_gate :: "product_data \<Rightarrow> nat \<Rightarrow> u16 option" where
  "raw_gate pd i =
     (if pd_word_size pd = 8 then map_option (\<lambda>b. of_nat (unat b)) (elem_get (pd_data pd) i)
      else if pd_word_size pd = 16 then
        (case elem_get (pd_data pd) (i * 2) of
           None \<Rightarrow> None
         | Some hi \<Rightarrow>
             (case elem_get (pd_data pd) (i * 2 + 1) of
                None \<Rightarrow> None
              | Some lo \<Rightarrow> Some (of_nat (be_nat [hi, lo]))))
      else None)"

definition pd_physical_value :: "product_data \<Rightarrow> nat \<Rightarrow> fp option" where
  "pd_physical_value pd i =
     (case raw_gate pd i of
        None \<Rightarrow> None
      | Some raw \<Rightarrow>
          if raw < 2 then None
          else Some (fdiv F32 (fsub F32 (fp_of_nat F32 (unat raw)) (pd_offset pd)) (pd_scale pd)))"

text \<open>What \<open>parse_product\<close> establishes of the data it returns.\<close>

definition wf_product_data :: "product_data \<Rightarrow> bool" where
  "wf_product_data pd =
     ((pd_word_size pd = 8 \<or> pd_word_size pd = 16) \<and>
      length (pd_data pd) = unat (pd_gate_count pd) * (unat (pd_word_size pd) div 8))"

lemma raw_gate_some_iff:
  assumes "wf_product_data pd"
  shows "raw_gate pd i \<noteq> None \<longleftrightarrow> i < unat (pd_gate_count pd)"
proof (cases "pd_word_size pd = 8")
  case True
  with assms show ?thesis by (simp add: wf_product_data_def raw_gate_def elem_get_def)
next
  case False
  with assms have "pd_word_size pd = 16" "length (pd_data pd) = unat (pd_gate_count pd) * 2"
    by (simp_all add: wf_product_data_def)
  then show ?thesis by (auto simp: raw_gate_def elem_get_def)
qed

section \<open>ProductMap\<close>

record product_map =
  slots :: "product_data option list"

definition product_map_new :: product_map where
  "product_map_new = \<lparr>slots = replicate PRODUCT_KIND_COUNT None\<rparr>"

definition product_map_insert :: "product_kind \<Rightarrow> product_data \<Rightarrow> product_map \<Rightarrow> product_map" where
  "product_map_insert k d m = m\<lparr>slots := (slots m)[kind_index k := Some d]\<rparr>"

definition product_map_get :: "product_map \<Rightarrow> product_kind \<Rightarrow> product_data option" where
  "product_map_get m k = slots m ! kind_index k"

definition product_map_contains_key :: "product_map \<Rightarrow> product_kind \<Rightarrow> bool" where
  "product_map_contains_key m k = (slots m ! kind_index k \<noteq> None)"

text \<open>
  The iterator: the state is the next slot index; \<open>next\<close> skips the empty slots.
  \<open>product_map_iter\<close> collects what repeated calls of \<open>next\<close> yield.
\<close>

function iter_next :: "product_map \<Rightarrow> nat \<Rightarrow> ((product_kind \<times> product_data) \<times> nat) option" where
  "iter_next m i =
     (if i < PRODUCT_KIND_COUNT then
        (case slots m ! i of
           Some d \<Rightarrow> Some ((ALL_PRODUCT_KINDS ! i, d), i + 1)
         | None \<Rightarrow> iter_next m (i + 1))
      else None)"
  by auto
termination by (relation "measure (\<lambda>(m, i). PRODUCT_KIND_COUNT - i)") auto

declare iter_next.simps [simp del]

lemma iter_next_index: "iter_next m i = Some (kd, j) \<Longrightarrow> i < j \<and> j \<le> PRODUCT_KIND_COUNT"
  by (induction m i rule: iter_next.induct)
    (auto simp: iter_next.simps split: if_splits option.splits)

function iter_from :: "product_map \<Rightarrow> nat \<Rightarrow> (product_kind \<times> product_data) list" where
  "iter_from m i = (case iter_next m i of None \<Rightarrow> [] | Some (kd, j) \<Rightarrow> kd # iter_from m j)"
  by auto
termination
  by (relation "measure (\<lambda>(m, i). PRODUCT_KIND_COUNT - i)") (auto dest: iter_next_index)

declare iter_from.simps [simp del]

definition product_map_iter :: "product_map \<Rightarrow> (product_kind \<times> product_data) list" where
  "product_map_iter m = iter_from m 0"

definition product_map_keys :: "product_map \<Rightarrow> product_kind list" where
  "product_map_keys m = map fst (product_map_iter m)"

definition wf_product_map :: "product_map \<Rightarrow> bool" where
  "wf_product_map m = (length (slots m) = PRODUCT_KIND_COUNT)"

interpretation pmap: keyed_store product_map_new product_map_insert product_map_get wf_product_map
  by unfold_locales
    (auto simp: wf_product_map_def product_map_new_def product_map_insert_def product_map_get_def
      nth_list_update)

text \<open>The iterator yields the filled slots, in slot order.\<close>

lemma iter_from_step:
  "iter_from m i =
     (if i < PRODUCT_KIND_COUNT then
        (case slots m ! i of None \<Rightarrow> iter_from m (i + 1)
         | Some d \<Rightarrow> (ALL_PRODUCT_KINDS ! i, d) # iter_from m (i + 1))
      else [])"
proof (cases "i < PRODUCT_KIND_COUNT")
  case True
  show ?thesis
  proof (cases "slots m ! i")
    case None
    with True have "iter_next m i = iter_next m (i + 1)"
      by (simp add: iter_next.simps [of m i])
    with True None show ?thesis
      by (simp add: iter_from.simps [of m i] iter_from.simps [of m "Suc i"])
  next
    case (Some d)
    with True show ?thesis
      by (simp add: iter_from.simps [of m i] iter_next.simps [of m i])
  qed
next
  case False
  then show ?thesis by (simp add: iter_from.simps iter_next.simps)
qed

lemma product_map_iter_eq:
  "product_map_iter m =
     List.map_filter (\<lambda>k. map_option (Pair k) (product_map_get m k)) ALL_PRODUCT_KINDS"
proof -
  have "iter_from m 0 =
    List.map_filter (\<lambda>i. map_option (Pair (ALL_PRODUCT_KINDS ! i)) (slots m ! i)) [0, 1, 2, 3, 4, 5, 6]"
    by (simp add: iter_from_step PRODUCT_KIND_COUNT_def map_filter_simps eval_nat_numeral
        split: option.split)
  then show ?thesis
    by (simp add: product_map_iter_def product_map_get_def ALL_PRODUCT_KINDS_def map_filter_simps
        split: option.split)
qed

section \<open>Radials, sweeps, volumes\<close>

datatype radial_status =
  StartOfElevation | Intermediate | EndOfElevation | StartOfVolume | EndOfVolume
| StartOfLastElevation | Unknown u8

definition status_from_code :: "u8 \<Rightarrow> radial_status" where
  "status_from_code code =
     (if code = 0 then StartOfElevation
      else if code = 1 then Intermediate
      else if code = 2 then EndOfElevation
      else if code = 3 then StartOfVolume
      else if code = 4 then EndOfVolume
      else if code = 5 then StartOfLastElevation
      else Unknown code)"

record site_parameters =
  sp_latitude :: fp
  sp_longitude :: fp
  sp_site_amsl_m :: i16
  sp_feedhorn_agl_m :: u16
  sp_calib_dbz :: fp
  sp_txpower_h :: fp
  sp_txpower_v :: fp
  sp_sys_zdr :: fp
  sp_phidp0 :: fp
  sp_vcp_number :: u16
  sp_processing_status :: u16

record radial =
  r_site_id :: bytes
  r_scan_time_ms :: u32
  r_julian_date :: u16
  r_azimuth_deg :: fp
  r_elevation_deg :: fp
  r_azimuth_number :: u16
  r_azimuth_spacing_code :: u8
  r_radial_status :: radial_status
  r_elevation_number :: u8
  r_unambiguous_range_km :: "fp option"
  r_nyquist_velocity_mps :: "fp option"
  r_site_parameters :: "site_parameters option"
  r_products :: product_map

record sweep =
  sw_elevation_number :: u8
  sw_elevation_deg :: fp
  sw_nyquist_velocity_mps :: "fp option"
  sw_unambiguous_range_km :: "fp option"
  sw_radials :: "radial list"
  sw_complete :: bool

record vcp_elevation_cut =
  ec_elevation_deg :: fp
  ec_channel_config :: u8
  ec_waveform :: u8
  ec_super_res :: u8

record vcp_definition =
  vd_vcp_number :: u16
  vd_pattern_type :: u16
  vd_elevations :: "vcp_elevation_cut list"

datatype volume_status = InProgress | Complete | Superseded | TimedOut

record volume_scan =
  vs_site_id :: bytes
  vs_scan_time_ms :: u32
  vs_julian_date :: u16
  vs_vcp_number :: u16
  vs_latitude :: fp
  vs_longitude :: fp
  vs_site_amsl_m :: i16
  vs_sweeps :: "sweep list"
  vs_status :: volume_status

definition volume_sweep :: "volume_scan \<Rightarrow> u8 \<Rightarrow> sweep option" where
  "volume_sweep v e = find (\<lambda>s. sw_elevation_number s = e) (vs_sweeps v)"

end
