(* ===== verification/Display_Product.thy ===== *)
theory Display_Product
  imports Decoder_Types
begin

text \<open>
  The products a user can select, \<open>DisplayProduct\<close> of \<open>compute/mod.rs\<close>: the enum
  with its derived order, the base table, the source moment, and the short names that
  the configuration uses, with their round trip.
\<close>

datatype display_product = Reflectivity | Velocity | SpectrumWidth_P | Zdr_P | Cc | EchoTops | Vil

fun product_rank :: "display_product \<Rightarrow> nat" where
  "product_rank Reflectivity = 0"
| "product_rank Velocity = 1"
| "product_rank SpectrumWidth_P = 2"
| "product_rank Zdr_P = 3"
| "product_rank Cc = 4"
| "product_rank EchoTops = 5"
| "product_rank Vil = 6"

lemma product_rank_inj [simp]: "product_rank a = product_rank b \<longleftrightarrow> a = b"
  by (cases a; cases b) simp_all

instantiation display_product :: linorder
begin

definition less_eq_display_product :: "display_product \<Rightarrow> display_product \<Rightarrow> bool" where
  "less_eq_display_product a b = (product_rank a \<le> product_rank b)"

definition less_display_product :: "display_product \<Rightarrow> display_product \<Rightarrow> bool" where
  "less_display_product a b = (product_rank a < product_rank b)"

instance
  by standard (auto simp: less_eq_display_product_def less_display_product_def)

end

definition BASE_PRODUCTS :: "(display_product \<times> product_kind) list" where
  "BASE_PRODUCTS =
     [(Reflectivity, Ref), (Velocity, Vel), (SpectrumWidth_P, SpectrumWidth), (Zdr_P, Zdr),
      (Cc, Rho)]"

definition ALL_PRODUCTS :: "display_product list" where
  "ALL_PRODUCTS = [Reflectivity, Velocity, SpectrumWidth_P, Zdr_P, Cc, EchoTops, Vil]"

definition source_moment :: "display_product \<Rightarrow> product_kind option" where
  "source_moment p = map_option snd (find (\<lambda>(q, _). q = p) BASE_PRODUCTS)"

fun product_name :: "display_product \<Rightarrow> utext" where
  "product_name Reflectivity = lit ''ref''"
| "product_name Velocity = lit ''vel''"
| "product_name SpectrumWidth_P = lit ''sw''"
| "product_name Zdr_P = lit ''zdr''"
| "product_name Cc = lit ''cc''"
| "product_name EchoTops = lit ''echo_tops''"
| "product_name Vil = lit ''vil''"

definition parse_product_name :: "utext \<Rightarrow> display_product option" where
  "parse_product_name s = find (\<lambda>p. product_name p = s) ALL_PRODUCTS"

lemma product_name_inj: "product_name a = product_name b \<longleftrightarrow> a = b"
  by (cases a; cases b) (simp_all add: lit_def)

lemma ALL_PRODUCTS_sorted: "sorted ALL_PRODUCTS" "distinct ALL_PRODUCTS" "p \<in> set ALL_PRODUCTS"
  by (cases p; simp add: ALL_PRODUCTS_def less_eq_display_product_def)+

lemma BASE_PRODUCTS_sorted: "sorted_wrt (<) (map fst BASE_PRODUCTS)"
  by (simp add: BASE_PRODUCTS_def less_display_product_def)

lemma parse_product_name_iff: "parse_product_name s = Some p \<longleftrightarrow> product_name p = s"
proof
  assume "parse_product_name s = Some p"
  then show "product_name p = s"
    by (auto simp: parse_product_name_def find_Some_iff)
next
  assume "product_name p = s"
  then show "parse_product_name s = Some p"
    by (cases p) (auto simp: parse_product_name_def ALL_PRODUCTS_def lit_def)
qed

end
