(* ===== verification/Http_Error.thy ===== *)
theory Http_Error
  imports Prelude
begin

text \<open>
  The errors and limits of the crate \<open>http-ingest\<close> (\<open>error.rs\<close>, \<open>config.rs\<close>) and
  the closed set of hosts (\<open>host.rs\<close>). Lengths in errors are naturals: the code
  computes them in 64 bits and the model makes the overflow a branch where it occurs.
\<close>

datatype phase = Connect_Phase | Tls_Phase | Headers_Phase | Body_Phase

datatype http_error =
  HostNotAllowed utext
| Connect_Error io_error
| Tls_Error io_error
| Protocol string
| Http_Status u16
| Timeout phase
| Closed
| BodyTooLarge nat nat
| InvalidInput string

record limits =
  max_head_bytes :: nat
  max_header_count :: nat
  max_body_bytes :: nat

definition default_limits :: limits where
  "default_limits =
     \<lparr>max_head_bytes = 64 * 1024, max_header_count = 128, max_body_bytes = 64 * 1024 * 1024\<rparr>"

datatype bucket = Chunks | Archive

fun bucket_host :: "bucket \<Rightarrow> bytes" where
  "bucket_host Chunks = ascii ''unidata-nexrad-level2-chunks.s3.amazonaws.com''"
| "bucket_host Archive = ascii ''unidata-nexrad-level2.s3.amazonaws.com''"

definition bucket_from_host :: "bytes \<Rightarrow> bucket option" where
  "bucket_from_host h = find (\<lambda>b. bucket_host b = h) [Chunks, Archive]"

lemma bucket_roundtrip: "bucket_from_host (bucket_host b) = Some b"
  by (cases b) (simp_all add: bucket_from_host_def ascii_def)

end
