(* ===== verification/Event.thy ===== *)
theory Event
  imports Display_Product Http_Error
begin

text \<open>
  The typed events of \<open>event.rs\<close> with the poll error they carry, and the bounded
  event log. The text of an event is the parameter \<open>show_event\<close> of \<open>log_recent\<close>; the
  time of a push is an argument. Texts that come from the network are their UTF-8 bytes. The log is an instance of \<open>io_machine\<close>, with the
  bound as its invariant.
\<close>

datatype xml_error = Xml_Error string

datatype poll_error = Poll_Http http_error | Poll_Xml xml_error

datatype task_kind = IngestPipeline

datatype event =
  PollFailed poll_error
| UnrecognizedKeySuffix bytes
| UnrecognizedVolumeFolder bytes
| ReAnchored nat nat nat
| AdvancedPastStalledVolume nat nat nat
| LateRadialsDiscarded_E u8 nat
| MissingStartChunk_E
| TaskPanicked task_kind
| TaskRestarted task_kind nat
| ConfigUnreadable utext utext
| ConfigLineUnparseable nat
| ConfigUnknownSite utext
| ConfigValueInvalid utext utext
| ConfigPollIntervalClamped nat nat
| UnknownAzimuthSpacingCode u8 nat
| DegenerateGateGeometry display_product u8
| InconsistentGateGeometry display_product u8 nat
| DuplicateAzimuthSlot display_product u8 nat
| RetainedGridSetBounded u8
| PaletteLineUnparseable display_product nat
| UserPaletteUnreadable display_product utext utext
| UserPaletteMalformed display_product utext
| OverlayBundleInvalid string
| OverlayLayerUnknownKind u32

section \<open>The event log\<close>

definition EVENT_LOG_CAPACITY :: nat where
  "EVENT_LOG_CAPACITY = 64"

type_synonym event_log = "(nat \<times> event) list"

definition log_new :: event_log where
  "log_new = []"

definition log_push :: "event_log \<Rightarrow> nat \<times> event \<Rightarrow> event_log" where
  "log_push l e =
     (let l = (if length l = EVENT_LOG_CAPACITY then tl l else l) in l @ [e])"

definition log_recent :: "(event \<Rightarrow> utext) \<Rightarrow> event_log \<Rightarrow> nat \<Rightarrow> (nat \<times> utext) list" where
  "log_recent show_event l n = map (\<lambda>(t, e). (t, show_event e)) (drop (length l - n) l)"

definition log_step :: "event_log \<Rightarrow> nat \<times> event \<Rightarrow> event_log \<times> unit list" where
  "log_step l e = (log_push l e, [])"

interpretation elog: io_machine log_step "\<lambda>l. length l \<le> EVENT_LOG_CAPACITY" "\<lambda>_. True"
  by unfold_locales (auto simp: log_step_def log_push_def EVENT_LOG_CAPACITY_def Let_def)

lemma log_push_all:
  "length l \<le> EVENT_LOG_CAPACITY \<Longrightarrow>
   foldl log_push l es = drop (length (l @ es) - EVENT_LOG_CAPACITY) (l @ es)"
proof (induction es rule: rev_induct)
  case Nil
  then show ?case by simp
next
  case (snoc e es)
  let ?k = "length (l @ es) - EVENT_LOG_CAPACITY"
  have IH: "foldl log_push l es = drop ?k (l @ es)"
    using snoc by simp
  show ?case
  proof (cases "EVENT_LOG_CAPACITY \<le> length (l @ es)")
    case True
    then have "length (drop ?k (l @ es)) = EVENT_LOG_CAPACITY" by simp
    then have "foldl log_push l (es @ [e]) = tl (drop ?k (l @ es)) @ [e]"
      by (simp only: foldl_append foldl.simps IH log_push_def Let_def refl if_True)
    also have "tl (drop ?k (l @ es)) = drop (Suc ?k) (l @ es)"
      by (simp only: drop_Suc tl_drop)
    also have "\<dots> @ [e] = drop (Suc ?k) (l @ es @ [e])"
      using True by (simp add: EVENT_LOG_CAPACITY_def)
    also have "Suc ?k = length (l @ es @ [e]) - EVENT_LOG_CAPACITY"
      using True by (simp add: Suc_diff_le)
    finally show ?thesis by simp
  next
    case False
    then have "length (drop ?k (l @ es)) \<noteq> EVENT_LOG_CAPACITY" by simp
    then have "foldl log_push l (es @ [e]) = drop ?k (l @ es) @ [e]"
      by (simp only: foldl_append foldl.simps IH log_push_def Let_def if_False)
    with False show ?thesis by simp
  qed
qed

section \<open>Properties\<close>

text \<open>
  After any sequence of reports the event log holds exactly the last 64 of them,
  oldest first: it never grows past its bound and never drops a newer event for an
  older one.
\<close>

theorem event_log_keeps_latest:
  "foldl log_push log_new es = drop (length es - 64) es \<and> length (foldl log_push log_new es) \<le> 64"
  using log_push_all [of log_new es] by (simp add: log_new_def EVENT_LOG_CAPACITY_def)

text \<open>
  The short name of every product reads back as that product, and no other text
  reads as one.
\<close>

theorem product_name_roundtrip:
  "(parse_product_name s = Some p) = (s = product_name p)"
  unfolding parse_product_name_iff by (rule eq_commute)

end
