(* ===== verification/Listing.thy ===== *)
theory Listing
  imports Ascii Event
begin

text \<open>
  The reader of an S3 listing, \<open>parse_list_xml\<close> of \<open>ingest/s3_poll.rs\<close>. The XML
  tokenizer is a parameter: a function from the body to the events it yields, each of
  which may be an error, up to the end of the file. A \<open>String\<close> is its UTF-8 bytes.
\<close>

section \<open>Tokens\<close>

text \<open>
  A general reference carries what the tokenizer's \<open>resolve_char_ref\<close> and \<open>decode\<close>
  answer for it: the UTF-8 bytes of a numeric reference, if it is one, and its name.
\<close>

datatype xml_event =
  Xml_Start bytes
| Xml_Text "xml_error + bytes"
| Xml_General_Ref "xml_error + bytes option" "xml_error + bytes"
| Xml_End bytes
| Xml_Other

type_synonym xml_reader = "bytes \<Rightarrow> (xml_error + xml_event) list"

datatype list_tag = Tag_Key | Tag_Is_Truncated | Tag_Next_Continuation_Token | Tag_Common_Prefix | Tag_Other

record list_page =
  lp_keys :: "bytes list"
  lp_common_prefixes :: "bytes list"
  lp_is_truncated :: bool
  lp_next_token :: "bytes option"

definition resolve_general_ref :: "xml_error + bytes option \<Rightarrow> xml_error + bytes \<Rightarrow> xml_error + bytes" where
  "resolve_general_ref char_ref decoded =
     rbind char_ref (\<lambda>ch.
       case ch of
         Some ch \<Rightarrow> Ok ch
       | None \<Rightarrow>
           rbind decoded (\<lambda>name.
           if name = ascii ''amp'' then Ok [38]
           else if name = ascii ''lt'' then Ok [60]
           else if name = ascii ''gt'' then Ok [62]
           else if name = ascii ''apos'' then Ok [39]
           else if name = ascii ''quot'' then Ok [34]
           else Err (Xml_Error ''unrecognized entity'')))"

section \<open>The reader\<close>

record list_state =
  ls_page :: list_page
  ls_in_tag :: list_tag
  ls_in_common_prefixes :: bool
  ls_current_text :: bytes

definition list_state_new :: list_state where
  "list_state_new =
     \<lparr>ls_page = \<lparr>lp_keys = [], lp_common_prefixes = [], lp_is_truncated = False, lp_next_token = None\<rparr>,
      ls_in_tag = Tag_Other, ls_in_common_prefixes = False, ls_current_text = []\<rparr>"

definition on_start_tag :: "bytes \<Rightarrow> list_state \<Rightarrow> list_state" where
  "on_start_tag name s =
     (let s = s\<lparr>ls_current_text := []\<rparr> in
      if name = ascii ''CommonPrefixes'' then s\<lparr>ls_in_common_prefixes := True, ls_in_tag := Tag_Other\<rparr>
      else if name = ascii ''Key'' then s\<lparr>ls_in_tag := Tag_Key\<rparr>
      else if name = ascii ''IsTruncated'' then s\<lparr>ls_in_tag := Tag_Is_Truncated\<rparr>
      else if name = ascii ''NextContinuationToken'' then s\<lparr>ls_in_tag := Tag_Next_Continuation_Token\<rparr>
      else if name = ascii ''Prefix'' \<and> ls_in_common_prefixes s then s\<lparr>ls_in_tag := Tag_Common_Prefix\<rparr>
      else s\<lparr>ls_in_tag := Tag_Other\<rparr>)"

definition on_end_tag :: "bytes \<Rightarrow> list_state \<Rightarrow> list_state" where
  "on_end_tag name s =
     (let page = ls_page s; text = ls_current_text s;
          s = (case ls_in_tag s of
                 Tag_Key \<Rightarrow> s\<lparr>ls_page := page\<lparr>lp_keys := lp_keys page @ [text]\<rparr>, ls_current_text := []\<rparr>
               | Tag_Common_Prefix \<Rightarrow>
                   s\<lparr>ls_page := page\<lparr>lp_common_prefixes := lp_common_prefixes page @ [text]\<rparr>,
                     ls_current_text := []\<rparr>
               | Tag_Is_Truncated \<Rightarrow> s\<lparr>ls_page := page\<lparr>lp_is_truncated := (text = ascii ''true'')\<rparr>\<rparr>
               | Tag_Next_Continuation_Token \<Rightarrow>
                   s\<lparr>ls_page := page\<lparr>lp_next_token := Some text\<rparr>, ls_current_text := []\<rparr>
               | Tag_Other \<Rightarrow> s);
          s = (if name = ascii ''CommonPrefixes'' then s\<lparr>ls_in_common_prefixes := False\<rparr> else s)
      in s\<lparr>ls_in_tag := Tag_Other\<rparr>)"

definition list_event :: "list_state \<Rightarrow> xml_error + xml_event \<Rightarrow> xml_error + list_state" where
  "list_event s ev =
     rbind ev (\<lambda>ev.
       case ev of
         Xml_Start name \<Rightarrow> Ok (on_start_tag name s)
       | Xml_Text t \<Rightarrow>
           if ls_in_tag s \<noteq> Tag_Other
           then rbind t (\<lambda>t. Ok (s\<lparr>ls_current_text := ls_current_text s @ t\<rparr>))
           else Ok s
       | Xml_General_Ref char_ref decoded \<Rightarrow>
           if ls_in_tag s \<noteq> Tag_Other
           then rbind (resolve_general_ref char_ref decoded) (\<lambda>ch.
                Ok (s\<lparr>ls_current_text := ls_current_text s @ ch\<rparr>))
           else Ok s
       | Xml_End name \<Rightarrow> Ok (on_end_tag name s)
       | Xml_Other \<Rightarrow> Ok s)"

definition parse_list_xml :: "xml_reader \<Rightarrow> bytes \<Rightarrow> xml_error + list_page" where
  "parse_list_xml xml body = rbind (rfold list_event list_state_new (xml body)) (\<lambda>s. Ok (ls_page s))"

section \<open>Names and numbers\<close>

text \<open>\<open>str::parse::<u64>\<close>: an optional plus sign and at least one digit, within 64 bits.\<close>

definition parse_u64 :: "bytes \<Rightarrow> nat option" where
  "parse_u64 s =
     (let ds = (case s of [] \<Rightarrow> [] | b # bs \<Rightarrow> if b = 43 then bs else s)
      in if ds = [] \<or> \<not> list_all is_digit ds \<or> 2 ^ 64 \<le> dec_value ds then None
         else Some (dec_value ds))"

definition strip_prefix :: "'a list \<Rightarrow> 'a list \<Rightarrow> 'a list option" where
  "strip_prefix pre s = (if take (length pre) s = pre then Some (drop (length pre) s) else None)"

definition strip_suffix :: "'a list \<Rightarrow> 'a list \<Rightarrow> 'a list option" where
  "strip_suffix suf s = map_option rev (strip_prefix (rev suf) (rev s))"

definition parse_volume_folder :: "bytes \<Rightarrow> bytes \<Rightarrow> nat option" where
  "parse_volume_folder pre common_prefix =
     Option.bind (strip_prefix pre common_prefix) (\<lambda>s.
     Option.bind (strip_suffix [47] s) parse_u64)"

text \<open>The decimal text of a number, as \<open>format!\<close> writes it.\<close>

fun dec_bytes :: "nat \<Rightarrow> bytes" where
  "dec_bytes n = (if n < 10 then [of_nat (48 + n)] else dec_bytes (n div 10) @ [of_nat (48 + n mod 10)])"

declare dec_bytes.simps [simp del]

lemma dec_digit:
  assumes "n < 10"
  shows "is_digit (of_nat (48 + n))" "unat (of_nat (48 + n) :: u8) - 48 = n"
proof -
  have "n \<in> set [0..<10]" using assms by simp
  moreover have "\<forall>n\<in>set [0..<10]. is_digit (of_nat (48 + n)) \<and> unat (of_nat (48 + n) :: u8) - 48 = n"
    by code_simp
  ultimately show "is_digit (of_nat (48 + n))" "unat (of_nat (48 + n) :: u8) - 48 = n" by blast+
qed

lemma dec_bytes_value: "dec_value (dec_bytes n) = n \<and> list_all is_digit (dec_bytes n) \<and> dec_bytes n \<noteq> []"
proof (induction n rule: dec_bytes.induct)
  case (1 n)
  show ?case
  proof (cases "n < 10")
    case True
    then show ?thesis
      using dec_digit [OF True] by (simp add: dec_bytes.simps [of n] dec_value_def del: of_nat_add)
  next
    case False
    then have IH: "dec_value (dec_bytes (n div 10)) = n div 10" "list_all is_digit (dec_bytes (n div 10))"
      using 1 by simp_all
    have "n mod 10 < 10" by simp
    then show ?thesis
      using dec_digit [of "n mod 10"] IH False
      by (simp add: dec_bytes.simps [of n] dec_value_def del: of_nat_add)
  qed
qed

lemma parse_volume_folder_name:
  assumes "n < 2 ^ 64"
  shows "parse_volume_folder pre (pre @ dec_bytes n @ [47]) = Some n"
proof -
  have "hd (dec_bytes n) \<noteq> 43"
    using dec_bytes_value [of n] by (cases "dec_bytes n") (auto simp: is_digit_def)
  then show ?thesis
    using dec_bytes_value [of n] assms
    by (cases "dec_bytes n") (auto simp: parse_volume_folder_def strip_prefix_def strip_suffix_def parse_u64_def)
qed

section \<open>Reading a rendered listing back\<close>

text \<open>A text as the tokenizer may yield it: pieces of text and references, in any split.\<close>

datatype piece = Plain bytes | Amp | Numeric bytes

fun piece_event :: "piece \<Rightarrow> xml_error + xml_event" where
  "piece_event (Plain t) = Ok (Xml_Text (Ok t))"
| "piece_event Amp = Ok (Xml_General_Ref (Ok None) (Ok (ascii ''amp'')))"
| "piece_event (Numeric ch) = Ok (Xml_General_Ref (Ok (Some ch)) (Ok []))"

fun piece_text :: "piece \<Rightarrow> bytes" where
  "piece_text (Plain t) = t"
| "piece_text Amp = [38]"
| "piece_text (Numeric ch) = ch"

definition element :: "string \<Rightarrow> piece list \<Rightarrow> (xml_error + xml_event) list" where
  "element name ps = [Ok (Xml_Start (ascii name))] @ map piece_event ps @ [Ok (Xml_End (ascii name))]"

definition pieces_text :: "piece list \<Rightarrow> bytes" where
  "pieces_text ps = concat (map piece_text ps)"

text \<open>
  Whatever else a listing holds: an element with its content, text between elements, and what
  is neither (the declaration, a comment, an empty element). It is of no concern to the reader
  when no element in it has one of the reserved names.
\<close>

datatype xml_node = Text_Node "piece list" | Misc_Node | Element_Node bytes "xml_node list"

fun node_events :: "xml_node \<Rightarrow> (xml_error + xml_event) list" where
  "node_events (Text_Node ps) = map piece_event ps"
| "node_events Misc_Node = [Ok Xml_Other]"
| "node_events (Element_Node name ns) =
     Ok (Xml_Start name) # concat (map node_events ns) @ [Ok (Xml_End name)]"

fun without_names :: "bytes list \<Rightarrow> xml_node \<Rightarrow> bool" where
  "without_names reserved (Element_Node name ns) = (name \<notin> set reserved \<and> list_all (without_names reserved) ns)"
| "without_names reserved _ = True"

definition listing_names :: "bytes list" where
  "listing_names = [ascii ''CommonPrefixes'', ascii ''Key'', ascii ''IsTruncated'', ascii ''NextContinuationToken'']"

definition folder_names :: "bytes list" where
  "folder_names = ascii ''Prefix'' # listing_names"

definition other_events :: "xml_node list \<Rightarrow> (xml_error + xml_event) list" where
  "other_events ns = concat (map node_events ns)"

text \<open>
  The parts of a listing, in any order: the contents with the key anywhere among the other
  fields of the object, the folders, the flag, the token, and whatever else the service sends
  (the name of the bucket, the echoed prefix, the counts, blanks).
\<close>

datatype list_item =
  Item_Contents "xml_node list" "piece list" "xml_node list"
| Item_Common_Prefix "xml_node list" "piece list" "xml_node list"
| Item_Truncated bool
| Item_Token "piece list"
| Item_Other xml_node

fun item_events :: "list_item \<Rightarrow> (xml_error + xml_event) list" where
  "item_events (Item_Contents ns key ns') =
     [Ok (Xml_Start (ascii ''Contents''))] @ other_events ns @ element ''Key'' key @ other_events ns' @
     [Ok (Xml_End (ascii ''Contents''))]"
| "item_events (Item_Common_Prefix ns ps ns') =
     [Ok (Xml_Start (ascii ''CommonPrefixes''))] @ other_events ns @ element ''Prefix'' ps @ other_events ns' @
     [Ok (Xml_End (ascii ''CommonPrefixes''))]"
| "item_events (Item_Truncated b) =
     element ''IsTruncated'' [Plain (ascii (if b then ''true'' else ''false''))]"
| "item_events (Item_Token ps) = element ''NextContinuationToken'' ps"
| "item_events (Item_Other n) = node_events n"

fun item_ok :: "list_item \<Rightarrow> bool" where
  "item_ok (Item_Contents ns key ns') = list_all (without_names listing_names) (ns @ ns')"
| "item_ok (Item_Common_Prefix ns ps ns') = list_all (without_names folder_names) (ns @ ns')"
| "item_ok (Item_Other n) = without_names listing_names n"
| "item_ok _ = True"

text \<open>A whole document: what precedes the root, the root with its parts, what follows it.\<close>

definition listing_document :: "xml_node list \<Rightarrow> list_item list \<Rightarrow> xml_node list \<Rightarrow> (xml_error + xml_event) list" where
  "listing_document prolog its epilog =
     other_events prolog @ [Ok (Xml_Start (ascii ''ListBucketResult''))] @ concat (map item_events its) @
     [Ok (Xml_End (ascii ''ListBucketResult''))] @ other_events epilog"

definition listing_ok :: "xml_node list \<Rightarrow> list_item list \<Rightarrow> xml_node list \<Rightarrow> bool" where
  "listing_ok prolog its epilog =
     (list_all (without_names listing_names) (prolog @ epilog) \<and> list_all item_ok its)"

fun item_page :: "list_item \<Rightarrow> list_page \<Rightarrow> list_page" where
  "item_page (Item_Contents ns key ns') p = p\<lparr>lp_keys := lp_keys p @ [pieces_text key]\<rparr>"
| "item_page (Item_Common_Prefix ns ps ns') p =
     p\<lparr>lp_common_prefixes := lp_common_prefixes p @ [pieces_text ps]\<rparr>"
| "item_page (Item_Truncated b) p = p\<lparr>lp_is_truncated := b\<rparr>"
| "item_page (Item_Token ps) p = p\<lparr>lp_next_token := Some (pieces_text ps)\<rparr>"
| "item_page (Item_Other n) p = p"

lemma list_event_piece [simp]:
  "list_event s (piece_event p) =
     Inr (if ls_in_tag s \<noteq> Tag_Other then s\<lparr>ls_current_text := ls_current_text s @ piece_text p\<rparr> else s)"
  by (cases p) (simp_all add: list_event_def resolve_general_ref_def)

lemma list_event_start [simp]: "list_event s (Inr (Xml_Start n)) = Inr (on_start_tag n s)"
  by (simp add: list_event_def)

lemma list_event_end [simp]: "list_event s (Inr (Xml_End n)) = Inr (on_end_tag n s)"
  by (simp add: list_event_def)

lemma pieces_fold [simp]:
  "rfold list_event s (map piece_event ps) =
     Inr (if ls_in_tag s \<noteq> Tag_Other then s\<lparr>ls_current_text := ls_current_text s @ pieces_text ps\<rparr> else s)"
  by (induction ps arbitrary: s) (simp_all add: pieces_text_def)

text \<open>Between two parts no tag is open; inside a folder only the flag for it is set.\<close>

definition idle :: "bool \<Rightarrow> list_state \<Rightarrow> bool" where
  "idle folder s = (ls_in_tag s = Tag_Other \<and> ls_in_common_prefixes s = folder)"

lemmas tag_simps = on_start_tag_def on_end_tag_def ascii_def Let_def

definition reserved_in :: "bool \<Rightarrow> bytes list" where
  "reserved_in folder = (if folder then folder_names else listing_names)"

lemma start_unreserved:
  "idle folder s \<Longrightarrow> name \<notin> set (reserved_in folder) \<Longrightarrow>
   on_start_tag name s = s\<lparr>ls_current_text := [], ls_in_tag := Tag_Other\<rparr>"
  by (auto simp: idle_def reserved_in_def folder_names_def listing_names_def on_start_tag_def Let_def split: if_splits)

lemma end_unreserved:
  "idle folder s \<Longrightarrow> name \<notin> set (reserved_in folder) \<Longrightarrow> on_end_tag name s = s"
  by (auto simp: idle_def reserved_in_def folder_names_def listing_names_def on_end_tag_def Let_def split: if_splits)

lemma nodes_fold:
  assumes "\<And>n s. n \<in> set ns \<Longrightarrow> idle folder s \<Longrightarrow>
      \<exists>s'. rfold list_event s (node_events n) = Inr s' \<and> idle folder s' \<and> ls_page s' = ls_page s"
    and "idle folder s"
  shows "\<exists>s'. rfold list_event s (concat (map node_events ns)) = Inr s' \<and> idle folder s' \<and> ls_page s' = ls_page s"
  using assms
proof (induction ns arbitrary: s)
  case (Cons n ns)
  obtain s1 where s1: "rfold list_event s (node_events n) = Inr s1" "idle folder s1" "ls_page s1 = ls_page s"
    using Cons.prems by (meson list.set_intros(1))
  have "\<exists>s'. rfold list_event s1 (concat (map node_events ns)) = Inr s' \<and> idle folder s' \<and> ls_page s' = ls_page s1"
    using Cons.prems(1) s1(2) by (intro Cons.IH) auto
  then show ?case using s1 by (auto simp: rfold_append)
qed simp

lemma node_fold:
  "idle folder s \<Longrightarrow> without_names (reserved_in folder) n \<Longrightarrow>
   \<exists>s'. rfold list_event s (node_events n) = Inr s' \<and> idle folder s' \<and> ls_page s' = ls_page s"
proof (induction n arbitrary: s)
  case (Text_Node ps)
  then show ?case by (simp add: idle_def)
next
  case Misc_Node
  then show ?case by (simp add: list_event_def)
next
  case (Element_Node name ns)
  have name: "name \<notin> set (reserved_in folder)" using Element_Node.prems(2) by simp
  let ?s = "on_start_tag name s"
  have s: "idle folder ?s" "ls_page ?s = ls_page s"
    using start_unreserved [OF Element_Node.prems(1) name] Element_Node.prems(1) by (simp_all add: idle_def)
  have "\<exists>s'. rfold list_event ?s (concat (map node_events ns)) = Inr s' \<and> idle folder s' \<and> ls_page s' = ls_page ?s"
    using Element_Node.IH Element_Node.prems(2) s(1) by (intro nodes_fold) (auto simp: list_all_iff)
  then obtain s' where s': "rfold list_event ?s (concat (map node_events ns)) = Inr s'" "idle folder s'"
      "ls_page s' = ls_page s" using s(2) by auto
  then show ?case using end_unreserved [OF s'(2) name] by (auto simp: rfold_append)
qed

lemma other_fold:
  "idle folder s \<Longrightarrow> list_all (without_names (reserved_in folder)) ns \<Longrightarrow>
   \<exists>s'. rfold list_event s (other_events ns) = Inr s' \<and> idle folder s' \<and> ls_page s' = ls_page s"
  unfolding other_events_def using node_fold by (intro nodes_fold) (auto simp: list_all_iff)

lemma element_fold:
  assumes "idle folder s"
  shows "\<exists>s'. rfold list_event s (element ''Key'' ps) = Inr s' \<and> idle folder s' \<and>
      ls_page s' = (ls_page s)\<lparr>lp_keys := lp_keys (ls_page s) @ [pieces_text ps]\<rparr>"
    "\<exists>s'. rfold list_event s (element ''NextContinuationToken'' ps) = Inr s' \<and> idle folder s' \<and>
      ls_page s' = (ls_page s)\<lparr>lp_next_token := Some (pieces_text ps)\<rparr>"
    "\<exists>s'. rfold list_event s (element ''IsTruncated'' ps) = Inr s' \<and> idle folder s' \<and>
      ls_page s' = (ls_page s)\<lparr>lp_is_truncated := (pieces_text ps = ascii ''true'')\<rparr>"
    "folder \<Longrightarrow> \<exists>s'. rfold list_event s (element ''Prefix'' ps) = Inr s' \<and> idle folder s' \<and>
      ls_page s' = (ls_page s)\<lparr>lp_common_prefixes := lp_common_prefixes (ls_page s) @ [pieces_text ps]\<rparr>"
  using assms by (auto simp: idle_def element_def rfold_append tag_simps simp del: piece_event.simps)

lemma item_fold:
  assumes "idle False s" "item_ok it"
  shows "\<exists>s'. rfold list_event s (item_events it) = Inr s' \<and> idle False s' \<and> ls_page s' = item_page it (ls_page s)"
proof (cases it)
  case (Item_Contents ns key ns')
  have name: "ascii ''Contents'' \<notin> set (reserved_in False)"
    by (simp add: reserved_in_def listing_names_def ascii_def)
  let ?s = "on_start_tag (ascii ''Contents'') s"
  have s: "idle False ?s" "ls_page ?s = ls_page s"
    using start_unreserved [OF assms(1) name] assms(1) by (simp_all add: idle_def)
  have others: "list_all (without_names (reserved_in False)) ns" "list_all (without_names (reserved_in False)) ns'"
    using assms(2) by (simp_all add: Item_Contents reserved_in_def)
  obtain s1 where s1: "rfold list_event ?s (other_events ns) = Inr s1" "idle False s1" "ls_page s1 = ls_page s"
    using other_fold [OF s(1) others(1)] s(2) by auto
  obtain s2 where s2: "rfold list_event s1 (element ''Key'' key) = Inr s2" "idle False s2"
      "ls_page s2 = (ls_page s)\<lparr>lp_keys := lp_keys (ls_page s) @ [pieces_text key]\<rparr>"
    using element_fold(1) [OF s1(2)] s1(3) by auto
  obtain s3 where s3: "rfold list_event s2 (other_events ns') = Inr s3" "idle False s3" "ls_page s3 = ls_page s2"
    using other_fold [OF s2(2) others(2)] by auto
  show ?thesis
    using s1(1) s2 s3 end_unreserved [OF s3(2) name] by (simp add: Item_Contents rfold_append)
next
  case (Item_Common_Prefix ns ps ns')
  let ?s = "on_start_tag (ascii ''CommonPrefixes'') s"
  have s: "idle True ?s" "ls_page ?s = ls_page s"
    using assms(1) by (simp_all add: idle_def on_start_tag_def)
  have others: "list_all (without_names (reserved_in True)) ns" "list_all (without_names (reserved_in True)) ns'"
    using assms(2) by (simp_all add: Item_Common_Prefix reserved_in_def)
  obtain s1 where s1: "rfold list_event ?s (other_events ns) = Inr s1" "idle True s1" "ls_page s1 = ls_page s"
    using other_fold [OF s(1) others(1)] s(2) by auto
  obtain s2 where s2: "rfold list_event s1 (element ''Prefix'' ps) = Inr s2" "idle True s2"
      "ls_page s2 = (ls_page s)\<lparr>lp_common_prefixes := lp_common_prefixes (ls_page s) @ [pieces_text ps]\<rparr>"
    using element_fold(4) [OF s1(2)] s1(3) by auto
  obtain s3 where s3: "rfold list_event s2 (other_events ns') = Inr s3" "idle True s3" "ls_page s3 = ls_page s2"
    using other_fold [OF s2(2) others(2)] by auto
  have "idle False (on_end_tag (ascii ''CommonPrefixes'') s3) \<and>
      ls_page (on_end_tag (ascii ''CommonPrefixes'') s3) = ls_page s3"
    using s3(2) by (simp add: idle_def on_end_tag_def Let_def)
  then show ?thesis using s1(1) s2 s3 by (simp add: Item_Common_Prefix rfold_append)
next
  case (Item_Truncated b)
  have flag: "(pieces_text [Plain (ascii (if b then ''true'' else ''false''))] = ascii ''true'') = b"
    by (simp add: pieces_text_def ascii_def)
  show ?thesis
    using element_fold(3) [OF assms(1), of "[Plain (ascii (if b then ''true'' else ''false''))]"]
    unfolding Item_Truncated item_events.simps item_page.simps flag .
next
  case (Item_Token ps)
  then show ?thesis using element_fold(2) [OF assms(1)] by simp
next
  case (Item_Other n)
  then show ?thesis using node_fold [OF assms(1), of n] assms(2) by (simp add: reserved_in_def)
qed

lemma items_fold:
  assumes "idle False s" "list_all item_ok its"
  shows "\<exists>s'. rfold list_event s (concat (map item_events its)) = Inr s' \<and> idle False s' \<and>
    ls_page s' = fold item_page its (ls_page s)"
  using assms
proof (induction its arbitrary: s)
  case Nil
  then show ?case by simp
next
  case (Cons it its)
  obtain s1 where s1: "rfold list_event s (item_events it) = Inr s1" "idle False s1"
    "ls_page s1 = item_page it (ls_page s)"
    using item_fold [OF Cons.prems(1), of it] Cons.prems(2) by auto
  show ?case using Cons.IH [OF s1(2)] Cons.prems(2) s1 by (auto simp: rfold_append)
qed

lemma document_fold:
  assumes "listing_ok prolog its epilog"
  shows "\<exists>s'. rfold list_event list_state_new (listing_document prolog its epilog) = Inr s' \<and>
    ls_page s' = fold item_page its (ls_page list_state_new)"
proof -
  have idle: "idle False list_state_new" by (simp add: idle_def list_state_new_def)
  have name: "ascii ''ListBucketResult'' \<notin> set (reserved_in False)"
    by (simp add: reserved_in_def listing_names_def ascii_def)
  have ok: "list_all (without_names (reserved_in False)) prolog" "list_all (without_names (reserved_in False)) epilog"
      "list_all item_ok its"
    using assms by (simp_all add: listing_ok_def reserved_in_def)
  obtain s1 where s1: "rfold list_event list_state_new (other_events prolog) = Inr s1" "idle False s1"
      "ls_page s1 = ls_page list_state_new"
    using other_fold [OF idle ok(1)] by blast
  let ?s = "on_start_tag (ascii ''ListBucketResult'') s1"
  have s: "idle False ?s" "ls_page ?s = ls_page s1"
    using start_unreserved [OF s1(2) name] s1(2) by (simp_all add: idle_def)
  obtain s2 where s2: "rfold list_event ?s (concat (map item_events its)) = Inr s2" "idle False s2"
      "ls_page s2 = fold item_page its (ls_page list_state_new)"
    using items_fold [OF s(1) ok(3)] s(2) s1(3) by auto
  obtain s3 where s3: "rfold list_event s2 (other_events epilog) = Inr s3" "ls_page s3 = ls_page s2"
    using other_fold [OF s2(2) ok(2)] by blast
  show ?thesis
    using s1(1) s2 s3 end_unreserved [OF s2(2) name] by (simp add: listing_document_def rfold_append)
qed

section \<open>Properties\<close>


text \<open>The witness: a listing as the service sends it.\<close>

definition leaf :: "string \<Rightarrow> string \<Rightarrow> xml_node" where
  "leaf name t = Element_Node (ascii name) [Text_Node [Plain (ascii t)]]"

definition sample_listing :: "list_item list" where
  "sample_listing =
     [Item_Other (Text_Node [Plain [10, 32]]), Item_Other (leaf ''Name'' ''unidata-nexrad-level2-chunks''),
      Item_Other (leaf ''Prefix'' ''KDOX/''), Item_Token [Plain (ascii ''1x''), Amp, Plain (ascii ''=='')],
      Item_Other (leaf ''KeyCount'' ''1''), Item_Other (leaf ''MaxKeys'' ''1000''), Item_Truncated True,
      Item_Contents [Text_Node [Plain [10]]] [Plain (ascii ''KDOX/5/a''), Amp, Plain (ascii ''b-S'')]
        [leaf ''LastModified'' ''2026-07-28T09:53:00.000Z'',
         Element_Node (ascii ''ETag'') [Text_Node [Numeric [34], Plain (ascii ''e''), Numeric [34]]],
         leaf ''Size'' ''12345'', Element_Node (ascii ''Owner'') [leaf ''ID'' ''x'', Misc_Node]],
      Item_Common_Prefix [] [Plain (ascii ''KDOX/5/'')] [Text_Node [Plain [10]]]]"


end
