(* ===== verification/Ingest_Status.thy ===== *)
theory Ingest_Status
  imports Event
begin

text \<open>
  The poller's published health, \<open>IngestErrorKind\<close>, \<open>IngestState\<close> and \<open>IngestStatus\<close> of
  \<open>ingest/s3_poll.rs\<close>, read by the poller itself and by the application state. Counts and
  volume numbers are naturals; the poller checks their width where it adds.
\<close>

datatype ingest_error_kind = Network | Http_Kind u16 | MalformedListing | Protocol_Kind

fun error_kind_of :: "poll_error \<Rightarrow> ingest_error_kind" where
  "error_kind_of (Poll_Http e) =
     (case e of
        Http_Status status \<Rightarrow> Http_Kind status
      | Connect_Error _ \<Rightarrow> Network
      | Tls_Error _ \<Rightarrow> Network
      | Timeout _ \<Rightarrow> Network
      | Closed \<Rightarrow> Network
      | _ \<Rightarrow> Protocol_Kind)"
| "error_kind_of (Poll_Xml _) = MalformedListing"

datatype ingest_state = Polling | Retrying nat | Stalled | ReAnchoring

record ingest_status =
  is_state :: ingest_state
  is_last_success :: "nat option"
  is_last_error :: "ingest_error_kind option"
  is_current_volume :: "nat option"

definition ingest_status_default :: ingest_status where
  "ingest_status_default =
     \<lparr>is_state = Polling, is_last_success = None, is_last_error = None, is_current_volume = None\<rparr>"

end
