(* ===== verification/Cursor.thy ===== *)
theory Cursor
  imports Decoder_Types
begin

text \<open>
  The bounds-checked cursor of \<open>parse/cursor.rs\<close>. A read returns the value and the
  advanced cursor, or the \<open>Truncated\<close> error with the context string of the source;
  the locale \<open>field_codec\<close> states what every fixed-width read promises and is
  interpreted on each of them, so that the block parsers below evaluate by rewriting.
\<close>

record cursor =
  cdata :: bytes
  pos :: nat

definition cursor_new :: "bytes \<Rightarrow> cursor" where
  "cursor_new d = \<lparr>cdata = d, pos = 0\<rparr>"

definition cursor_at :: "bytes \<Rightarrow> nat \<Rightarrow> decode_error + cursor" where
  "cursor_at d off =
     (if length d < off then Err (Truncated ''cursor::at'') else Ok \<lparr>cdata = d, pos = off\<rparr>)"

definition remaining :: "cursor \<Rightarrow> nat" where
  "remaining c = length (cdata c) - pos c"

definition skip_bytes :: "nat \<Rightarrow> cursor \<Rightarrow> decode_error + cursor" where
  "skip_bytes n c =
     (if pos c + n \<le> length (cdata c) then Ok (c\<lparr>pos := pos c + n\<rparr>)
      else Err (Truncated ''skip''))"

definition read_u8 :: "cursor \<Rightarrow> decode_error + (u8 \<times> cursor)" where
  "read_u8 c =
     rbind (ok_or (Truncated ''read_u8'') (elem_get (cdata c) (pos c))) (\<lambda>b.
     Ok (b, c\<lparr>pos := pos c + 1\<rparr>))"

definition read_be :: "nat \<Rightarrow> string \<Rightarrow> cursor \<Rightarrow> decode_error + (bytes \<times> cursor)" where
  "read_be n ctx c =
     rbind (ok_or (Truncated ctx) (slice_get (cdata c) (pos c) (pos c + n))) (\<lambda>s.
     Ok (s, c\<lparr>pos := pos c + n\<rparr>))"

definition read_u16_be :: "cursor \<Rightarrow> decode_error + (u16 \<times> cursor)" where
  "read_u16_be c = rbind (read_be 2 ''read_u16_be'' c) (\<lambda>(s, c). Ok (of_nat (be_nat s), c))"

definition read_i16_be :: "cursor \<Rightarrow> decode_error + (i16 \<times> cursor)" where
  "read_i16_be c = read_u16_be c"

definition read_u32_be :: "cursor \<Rightarrow> decode_error + (u32 \<times> cursor)" where
  "read_u32_be c = rbind (read_be 4 ''read_u32_be'' c) (\<lambda>(s, c). Ok (of_nat (be_nat s), c))"

definition read_f32_be :: "cursor \<Rightarrow> decode_error + (fp \<times> cursor)" where
  "read_f32_be c =
     rbind (read_be 4 ''read_f32_be'' c) (\<lambda>(s, c). Ok (f32_of_bits (of_nat (be_nat s)), c))"

definition read_array4 :: "cursor \<Rightarrow> decode_error + (bytes \<times> cursor)" where
  "read_array4 c = read_be 4 ''read_array4'' c"

definition read_bytes :: "nat \<Rightarrow> cursor \<Rightarrow> decode_error + (bytes \<times> cursor)" where
  "read_bytes n c =
     rbind (ok_or (Truncated ''read_bytes'') (slice_get (cdata c) (pos c) (pos c + n))) (\<lambda>s.
     Ok (s, c\<lparr>pos := pos c + n\<rparr>))"

definition for_block :: "bytes \<Rightarrow> u32 \<Rightarrow> (cursor \<times> bytes) option" where
  "for_block body ptr =
     (if ptr = 0 then None
      else ok (rbind (cursor_at body (unat ptr)) (\<lambda>c.
               rbind (read_array4 c) (\<lambda>(block_id, c). Ok (c, block_id)))))"

section \<open>Fields at an offset\<close>

text \<open>What a field of the layout holds: the bytes at an offset, and their decodings.\<close>

definition bytes_at :: "bytes \<Rightarrow> nat \<Rightarrow> nat \<Rightarrow> bytes" where
  "bytes_at d off n = take n (drop off d)"

definition u8_at :: "bytes \<Rightarrow> nat \<Rightarrow> u8" where
  "u8_at d off = d ! off"

definition u16_at :: "bytes \<Rightarrow> nat \<Rightarrow> u16" where
  "u16_at d off = of_nat (be_nat (bytes_at d off 2))"

definition u32_at :: "bytes \<Rightarrow> nat \<Rightarrow> u32" where
  "u32_at d off = of_nat (be_nat (bytes_at d off 4))"

definition f32_at :: "bytes \<Rightarrow> nat \<Rightarrow> fp" where
  "f32_at d off = f32_of_bits (u32_at d off)"

locale field_codec =
  fixes rd :: "cursor \<Rightarrow> decode_error + ('a \<times> cursor)"
    and width :: nat
    and field_at :: "bytes \<Rightarrow> nat \<Rightarrow> 'a"
    and why :: string
  assumes rd_ok: "pos c + width \<le> length (cdata c) \<Longrightarrow>
      rd c = Inr (field_at (cdata c) (pos c), c\<lparr>pos := pos c + width\<rparr>)"
    and rd_short: "length (cdata c) < pos c + width \<Longrightarrow> rd c = Inl (Truncated why)"
begin

lemma rd_eq:
  "rd c = (if pos c + width \<le> length (cdata c)
           then Inr (field_at (cdata c) (pos c), c\<lparr>pos := pos c + width\<rparr>)
           else Inl (Truncated why))"
  using rd_ok rd_short by (simp add: not_le)

lemma rd_succeeds_iff: "(\<exists>r. rd c = Inr r) \<longleftrightarrow> pos c + width \<le> length (cdata c)"
  by (simp add: rd_eq)

lemma rd_advances: "rd c = Inr (a, c') \<Longrightarrow> pos c' = pos c + width \<and> cdata c' = cdata c"
  by (auto simp: rd_eq split: if_splits)

text \<open>Reading is local: bytes after the field do not matter.\<close>

lemma rd_pos: "rd \<lparr>cdata = d, pos = n\<rparr> =
    (if n + width \<le> length d then Inr (field_at d n, \<lparr>cdata = d, pos = n + width\<rparr>)
     else Inl (Truncated why))"
  by (simp add: rd_eq)

end

interpretation u8f: field_codec read_u8 1 u8_at "''read_u8''"
  by unfold_locales (auto simp: read_u8_def elem_get_def u8_at_def)

lemma read_be_eq:
  "read_be n ctx c =
     (if pos c + n \<le> length (cdata c) then Inr (bytes_at (cdata c) (pos c) n, c\<lparr>pos := pos c + n\<rparr>)
      else Inl (Truncated ctx))"
  by (simp add: read_be_def slice_get_def bytes_at_def)

interpretation u16f: field_codec read_u16_be 2 u16_at "''read_u16_be''"
  by unfold_locales (auto simp: read_u16_be_def read_be_eq u16_at_def)

interpretation i16f: field_codec read_i16_be 2 u16_at "''read_u16_be''"
  by unfold_locales (auto simp: read_i16_be_def u16f.rd_eq)

interpretation u32f: field_codec read_u32_be 4 u32_at "''read_u32_be''"
  by unfold_locales (auto simp: read_u32_be_def read_be_eq u32_at_def)

interpretation f32f: field_codec read_f32_be 4 f32_at "''read_f32_be''"
  by unfold_locales (auto simp: read_f32_be_def read_be_eq f32_at_def u32_at_def)

interpretation arr4f: field_codec read_array4 4 "\<lambda>d off. bytes_at d off 4" "''read_array4''"
  by unfold_locales (auto simp: read_array4_def read_be_eq)

interpretation bytesf: field_codec "read_bytes n" n "\<lambda>d off. bytes_at d off n" "''read_bytes''"
  for n
  by unfold_locales (auto simp: read_bytes_def slice_get_def bytes_at_def)

lemmas field_reads =
  u8f.rd_pos u16f.rd_pos i16f.rd_pos u32f.rd_pos f32f.rd_pos arr4f.rd_pos bytesf.rd_pos

lemma for_block_eq:
  "for_block body ptr =
     (if ptr \<noteq> 0 \<and> unat ptr + 4 \<le> length body
      then Some (\<lparr>cdata = body, pos = unat ptr + 4\<rparr>, bytes_at body (unat ptr) 4) else None)"
  by (simp add: for_block_def cursor_at_def arr4f.rd_pos)

lemma length_bytes_at [simp]: "off + n \<le> length d \<Longrightarrow> length (bytes_at d off n) = n"
  by (simp add: bytes_at_def)

section \<open>Fields of encoded data\<close>

text \<open>
  A field of a concatenation of encoded parts: step over the parts before it, then
  decode it. These rules evaluate every field of an encoded header.
\<close>

lemma bytes_at_skip [codec_simps]:
  "length a \<le> off \<Longrightarrow> bytes_at (a @ b) off n = bytes_at b (off - length a) n"
  by (simp add: bytes_at_def)

lemma bytes_at_here [codec_simps]:
  "length a = n \<Longrightarrow> bytes_at (a @ b) 0 n = a"
  "length a = n \<Longrightarrow> bytes_at a 0 n = a"
  by (simp_all add: bytes_at_def)

lemma u16_at_codec [codec_simps]:
  "length a \<le> off \<Longrightarrow> u16_at (a @ b) off = u16_at b (off - length a)"
  "u16_at (be_bytes 2 (unat (x :: u16)) @ b) 0 = x"
  "u16_at (be_bytes 2 (unat x)) 0 = x"
  by (simp_all add: u16_at_def codec_simps be_nat_be_bytes)

lemma u32_at_codec [codec_simps]:
  "length a \<le> off \<Longrightarrow> u32_at (a @ b) off = u32_at b (off - length a)"
  "u32_at (be_bytes 4 (unat (x :: u32)) @ b) 0 = x"
  "u32_at (be_bytes 4 (unat x)) 0 = x"
  by (simp_all add: u32_at_def codec_simps be_nat_be_bytes)

lemma f32_at_codec [codec_simps]:
  "length a \<le> off \<Longrightarrow> f32_at (a @ b) off = f32_at b (off - length a)"
  "f32_at (be_bytes 4 (unat (x :: u32)) @ b) 0 = f32_of_bits x"
  "f32_at (be_bytes 4 (unat x)) 0 = f32_of_bits x"
  by (simp_all add: f32_at_def codec_simps)

lemma u8_at_codec [codec_simps]:
  "length a \<le> off \<Longrightarrow> u8_at (a @ b) off = u8_at b (off - length a)"
  "u8_at (x # b) 0 = x"
  "0 < off \<Longrightarrow> u8_at (x # b) off = u8_at b (off - 1)"
  by (simp_all add: u8_at_def nth_append)

lemma field_at_Cons [codec_simps]:
  "0 < off \<Longrightarrow> bytes_at (x # b) off n = bytes_at b (off - 1) n"
  "0 < off \<Longrightarrow> u16_at (x # b) off = u16_at b (off - 1)"
  "0 < off \<Longrightarrow> u32_at (x # b) off = u32_at b (off - 1)"
  "0 < off \<Longrightarrow> f32_at (x # b) off = f32_at b (off - 1)"
  by (cases off; simp add: bytes_at_def u16_at_def u32_at_def f32_at_def)+

end
