(* ===== verification/Decoder.thy ===== *)
theory Decoder
  imports Cursor
begin

text \<open>
  The message body parsers of \<open>nexrad-decoder/src/parse\<close>: the RVOL and RRAD
  constant blocks (\<open>blocks.rs\<close>), the moment blocks (\<open>product.rs\<close>), the Message 31
  radial (\<open>radial.rs\<close>) and the Message 5 volume coverage pattern (\<open>message5.rs\<close>),
  each a chain of cursor reads in the order of the source. The layout lemmas say
  which bytes each field comes from; the property theorems give the round trips
  with independent encoders and the exact conditions under which a record is
  refused.
\<close>

section \<open>Constant blocks\<close>

definition parse_rvol :: "bytes \<Rightarrow> u32 \<Rightarrow> site_parameters option" where
  "parse_rvol body ptr =
     (case for_block body ptr of
        None \<Rightarrow> None
      | Some (c, block_id) \<Rightarrow>
          if block_id \<noteq> ascii ''RVOL'' then None
          else ok (
            rbind (read_u16_be c) (\<lambda>(_, c).
            rbind (read_u8 c) (\<lambda>(_, c).
            rbind (read_u8 c) (\<lambda>(_, c).
            rbind (read_f32_be c) (\<lambda>(latitude, c).
            rbind (read_f32_be c) (\<lambda>(longitude, c).
            rbind (read_i16_be c) (\<lambda>(site_amsl_m, c).
            rbind (read_u16_be c) (\<lambda>(feedhorn_agl_m, c).
            rbind (read_f32_be c) (\<lambda>(calib_dbz, c).
            rbind (read_f32_be c) (\<lambda>(txpower_h, c).
            rbind (read_f32_be c) (\<lambda>(txpower_v, c).
            rbind (read_f32_be c) (\<lambda>(sys_zdr, c).
            rbind (read_f32_be c) (\<lambda>(phidp0, c).
            rbind (read_u16_be c) (\<lambda>(vcp_number, c).
            rbind (read_u16_be c) (\<lambda>(processing_status, c).
            Ok \<lparr>sp_latitude = latitude, sp_longitude = longitude, sp_site_amsl_m = site_amsl_m,
                sp_feedhorn_agl_m = feedhorn_agl_m, sp_calib_dbz = calib_dbz,
                sp_txpower_h = txpower_h, sp_txpower_v = txpower_v, sp_sys_zdr = sys_zdr,
                sp_phidp0 = phidp0, sp_vcp_number = vcp_number,
                sp_processing_status = processing_status\<rparr>))))))))))))))))"

record rrad_constants =
  rc_unambiguous_range_km :: fp
  rc_nyquist_velocity_mps :: fp

definition parse_rrad :: "bytes \<Rightarrow> u32 \<Rightarrow> rrad_constants option" where
  "parse_rrad body ptr =
     (case for_block body ptr of
        None \<Rightarrow> None
      | Some (c, block_id) \<Rightarrow>
          if block_id \<noteq> ascii ''RRAD'' then None
          else ok (
            rbind (read_u16_be c) (\<lambda>(block_size, c).
            rbind (read_u16_be c) (\<lambda>(unamb_range_raw, c).
            rbind (read_f32_be c) (\<lambda>(_, c).
            rbind (read_f32_be c) (\<lambda>(_, c).
            rbind (read_u16_be c) (\<lambda>(nyquist_raw, c).
            Ok \<lparr>rc_unambiguous_range_km =
                  fdiv F32 (fp_of_nat F32 (unat unamb_range_raw)) (f32lit 8),
                rc_nyquist_velocity_mps =
                  fdiv F32 (fp_of_nat F32 (unat nyquist_raw)) (f32lit 100)\<rparr>)))))))"

section \<open>Moment blocks\<close>

definition parse_product :: "bytes \<Rightarrow> u32 \<Rightarrow> (product_kind \<times> product_data) option" where
  "parse_product body ptr =
     (case for_block body ptr of
        None \<Rightarrow> None
      | Some (c, block_id) \<Rightarrow>
          (case from_block_id block_id of
             None \<Rightarrow> None
           | Some kind \<Rightarrow>
               (case ok (
                  rbind (read_u16_be c) (\<lambda>(_, c).
                  rbind (read_u16_be c) (\<lambda>(_, c).
                  rbind (read_u16_be c) (\<lambda>(gate_count, c).
                  rbind (read_u16_be c) (\<lambda>(first_gate_m, c).
                  rbind (read_u16_be c) (\<lambda>(gate_width_m, c).
                  rbind (read_u16_be c) (\<lambda>(_, c).
                  rbind (read_u16_be c) (\<lambda>(_, c).
                  rbind (read_u8 c) (\<lambda>(_, c).
                  rbind (read_u8 c) (\<lambda>(word_size, c).
                  rbind (read_f32_be c) (\<lambda>(scale, c).
                  rbind (read_f32_be c) (\<lambda>(offset_val, c).
                  Ok (gate_count, first_gate_m, gate_width_m, word_size, scale, offset_val, c)
                  )))))))))))) of
                  None \<Rightarrow> None
                | Some (gate_count, first_gate_m, gate_width_m, word_size, scale, offset_val, c) \<Rightarrow>
                    if word_size \<noteq> 8 \<and> word_size \<noteq> 16 then None
                    else
                      (case ok (read_bytes (unat gate_count * (unat word_size div 8)) c) of
                         None \<Rightarrow> None
                       | Some (raw, _) \<Rightarrow>
                           Some (kind,
                             \<lparr>pd_gate_count = gate_count, pd_first_gate_m = first_gate_m,
                              pd_gate_width_m = gate_width_m, pd_word_size = word_size,
                              pd_scale = scale, pd_offset = offset_val, pd_data = raw\<rparr>)))))"

section \<open>Message 31\<close>

definition M31_BODY_OFFSET :: nat where
  "M31_BODY_OFFSET = 28"

text \<open>The pointer loop: one pointer is read per product, an unreadable block is left out.\<close>

fun read_product_ptrs ::
  "bytes \<Rightarrow> nat \<Rightarrow> cursor \<Rightarrow> product_map \<Rightarrow> decode_error + product_map" where
  "read_product_ptrs body 0 c products = Ok products"
| "read_product_ptrs body (Suc n) c products =
     rbind (read_u32_be c) (\<lambda>(ptr, c).
     read_product_ptrs body n c
       (case parse_product body ptr of
          Some (kind, data) \<Rightarrow> product_map_insert kind data products
        | None \<Rightarrow> products))"

definition parse_message31 :: "bytes \<Rightarrow> decode_error + radial" where
  "parse_message31 record =
     (if length record < M31_BODY_OFFSET + 32 then Err (Truncated ''msg31 record'')
      else
        let body = drop M31_BODY_OFFSET record;
            c = cursor_new body
        in rbind (read_array4 c) (\<lambda>(site_id, c).
           rbind (read_u32_be c) (\<lambda>(scan_time_ms, c).
           rbind (read_u16_be c) (\<lambda>(julian_date, c).
           rbind (read_u16_be c) (\<lambda>(az_num, c).
           rbind (read_f32_be c) (\<lambda>(az_angle, c).
           rbind (read_u8 c) (\<lambda>(_, c).
           rbind (read_u8 c) (\<lambda>(_, c).
           rbind (read_u16_be c) (\<lambda>(_, c).
           rbind (read_u8 c) (\<lambda>(azimuth_spacing_code, c).
           rbind (read_u8 c) (\<lambda>(radial_status_code, c).
           rbind (read_u8 c) (\<lambda>(el_num, c).
           rbind (read_u8 c) (\<lambda>(_, c).
           rbind (read_f32_be c) (\<lambda>(el_angle, c).
           rbind (read_u8 c) (\<lambda>(_, c).
           rbind (read_u8 c) (\<lambda>(_, c).
           rbind (read_u16_be c) (\<lambda>(num_data_blks, c).
           rbind (read_u32_be c) (\<lambda>(vol_ptr, c).
           rbind (read_u32_be c) (\<lambda>(_, c).
           rbind (read_u32_be c) (\<lambda>(rad_ptr, c).
           rbind (read_product_ptrs body (unat num_data_blks - 3) c product_map_new) (\<lambda>products.
           let site_parameters = parse_rvol body vol_ptr;
               rrad = parse_rrad body rad_ptr
           in Ok \<lparr>r_site_id = site_id, r_scan_time_ms = scan_time_ms, r_julian_date = julian_date,
                  r_azimuth_deg = az_angle, r_elevation_deg = el_angle, r_azimuth_number = az_num,
                  r_azimuth_spacing_code = azimuth_spacing_code,
                  r_radial_status = status_from_code radial_status_code,
                  r_elevation_number = el_num,
                  r_unambiguous_range_km = map_option rc_unambiguous_range_km rrad,
                  r_nyquist_velocity_mps = map_option rc_nyquist_velocity_mps rrad,
                  r_site_parameters = site_parameters, r_products = products\<rparr>
           )))))))))))))))))))))"

section \<open>Message 5\<close>

definition M5_BODY_OFFSET :: nat where
  "M5_BODY_OFFSET = 28"

definition VCP_HEADER_SIZE :: nat where
  "VCP_HEADER_SIZE = 22"

definition EL_CUT_SIZE :: nat where
  "EL_CUT_SIZE = 46"

definition EL_CUT_DECODED_SIZE :: nat where
  "EL_CUT_DECODED_SIZE = 5"

definition el_angle_deg :: "u16 \<Rightarrow> fp" where
  "el_angle_deg raw =
     fdiv F32 (fmul F32 (fp_of_nat F32 (unat raw)) (f32lit 360)) (f32lit 65536)"

fun read_el_cuts :: "nat \<Rightarrow> cursor \<Rightarrow> decode_error + (vcp_elevation_cut list \<times> cursor)" where
  "read_el_cuts 0 c = Ok ([], c)"
| "read_el_cuts (Suc n) c =
     rbind (read_u16_be c) (\<lambda>(el_angle_raw, c).
     rbind (read_u8 c) (\<lambda>(channel_config, c).
     rbind (read_u8 c) (\<lambda>(waveform, c).
     rbind (read_u8 c) (\<lambda>(super_res, c).
     rbind (read_bytes (EL_CUT_SIZE - EL_CUT_DECODED_SIZE) c) (\<lambda>(_, c).
     rbind (read_el_cuts n c) (\<lambda>(cuts, c).
     Ok (\<lparr>ec_elevation_deg = el_angle_deg el_angle_raw, ec_channel_config = channel_config,
          ec_waveform = waveform, ec_super_res = super_res\<rparr> # cuts, c)))))))"

definition parse_vcp :: "bytes \<Rightarrow> decode_error + vcp_definition" where
  "parse_vcp record =
     (if length record < M5_BODY_OFFSET + VCP_HEADER_SIZE then Err (Truncated ''msg5 header'')
      else
        let body = drop M5_BODY_OFFSET record;
            c = cursor_new body
        in rbind (read_u16_be c) (\<lambda>(_, c).
           rbind (read_u16_be c) (\<lambda>(pattern_type, c).
           rbind (read_u16_be c) (\<lambda>(vcp_number, c).
           rbind (read_u16_be c) (\<lambda>(num_el_cuts, c).
           rbind (read_u8 c) (\<lambda>(_, c).
           rbind (read_u8 c) (\<lambda>(_, c).
           rbind (read_u8 c) (\<lambda>(_, c).
           rbind (read_u8 c) (\<lambda>(_, c).
           rbind (read_bytes 4 c) (\<lambda>(_, c).
           rbind (read_u16_be c) (\<lambda>(_, c).
           rbind (read_u16_be c) (\<lambda>(_, c).
           rbind (read_bytes 2 c) (\<lambda>(_, c).
           rbind (read_el_cuts (unat num_el_cuts) c) (\<lambda>(elevations, c).
           Ok \<lparr>vd_vcp_number = vcp_number, vd_pattern_type = pattern_type,
               vd_elevations = elevations\<rparr>))))))))))))))"

section \<open>Layout lemmas\<close>

lemma parse_rvol_eq:
  "parse_rvol body ptr =
     (let b = unat ptr in
      if ptr \<noteq> 0 \<and> b + 44 \<le> length body \<and> bytes_at body b 4 = ascii ''RVOL'' then
        Some \<lparr>sp_latitude = f32_at body (b + 8), sp_longitude = f32_at body (b + 12),
              sp_site_amsl_m = u16_at body (b + 16), sp_feedhorn_agl_m = u16_at body (b + 18),
              sp_calib_dbz = f32_at body (b + 20), sp_txpower_h = f32_at body (b + 24),
              sp_txpower_v = f32_at body (b + 28), sp_sys_zdr = f32_at body (b + 32),
              sp_phidp0 = f32_at body (b + 36), sp_vcp_number = u16_at body (b + 40),
              sp_processing_status = u16_at body (b + 42)\<rparr>
      else None)"
proof (cases "ptr \<noteq> 0 \<and> unat ptr + 44 \<le> length body")
  case True
  then show ?thesis
    by (simp add: parse_rvol_def for_block_eq field_reads Let_def ac_simps)
next
  case False
  then show ?thesis
    by (auto simp: parse_rvol_def for_block_eq field_reads Let_def ac_simps)
qed

lemma parse_product_eq:
  "parse_product body ptr =
     (let b = unat ptr; ws = u8_at body (b + 19);
          len = unat (u16_at body (b + 8)) * (unat ws div 8) in
      if ptr \<noteq> 0 \<and> b + 28 + len \<le> length body \<and> (ws = 8 \<or> ws = 16) then
        map_option (\<lambda>kind. (kind,
          \<lparr>pd_gate_count = u16_at body (b + 8), pd_first_gate_m = u16_at body (b + 10),
           pd_gate_width_m = u16_at body (b + 12), pd_word_size = ws,
           pd_scale = f32_at body (b + 20), pd_offset = f32_at body (b + 24),
           pd_data = bytes_at body (b + 28) len\<rparr>)) (from_block_id (bytes_at body b 4))
      else None)"
proof (cases "ptr \<noteq> 0 \<and> unat ptr + 28 \<le> length body")
  case True
  then show ?thesis
    by (simp add: parse_product_def for_block_eq field_reads Let_def ac_simps split: option.split)
next
  case False
  then show ?thesis
    by (auto simp: parse_product_def for_block_eq field_reads Let_def ac_simps split: option.split)
qed

lemma parse_rrad_eq:
  "parse_rrad body ptr =
     (let b = unat ptr in
      if ptr \<noteq> 0 \<and> b + 18 \<le> length body \<and> bytes_at body b 4 = ascii ''RRAD'' then
        Some \<lparr>rc_unambiguous_range_km =
                fdiv F32 (fp_of_nat F32 (unat (u16_at body (b + 6)))) (f32lit 8),
              rc_nyquist_velocity_mps =
                fdiv F32 (fp_of_nat F32 (unat (u16_at body (b + 16)))) (f32lit 100)\<rparr>
      else None)"
proof (cases "ptr \<noteq> 0 \<and> unat ptr + 18 \<le> length body")
  case True
  then show ?thesis
    by (simp add: parse_rrad_def for_block_eq field_reads Let_def ac_simps)
next
  case False
  then show ?thesis
    by (auto simp: parse_rrad_def for_block_eq field_reads Let_def ac_simps)
qed

lemma read_product_ptrs_eq:
  "read_product_ptrs body n \<lparr>cdata = d, pos = p\<rparr> m =
     (if n = 0 \<or> p + 4 * n \<le> length d then
        Inr (fold (\<lambda>(k, v). product_map_insert k v)
              (List.map_filter (parse_product body) (map (\<lambda>i. u32_at d (p + 4 * i)) [0..<n])) m)
      else Inl (Truncated ''read_u32_be''))"
proof (induction n arbitrary: p m)
  case 0
  then show ?case by (simp add: map_filter_simps)
next
  case (Suc n)
  have upt: "map (\<lambda>i. u32_at d (p + 4 * i)) [0..<Suc n] =
      u32_at d p # map (\<lambda>i. u32_at d (p + 4 + 4 * i)) [0..<n]"
    by (simp add: upt_conv_Cons map_Suc_upt [symmetric] comp_def algebra_simps del: upt_Suc)
  show ?case
  proof (cases "p + 4 \<le> length d")
    case True
    then show ?thesis
      using Suc.IH [of "p + 4"]
      unfolding upt by (auto simp: field_reads map_filter_simps split: option.splits)
  next
    case False
    then show ?thesis by (simp add: field_reads)
  qed
qed

text \<open>The radial that the bytes of a record describe.\<close>

definition msg31_ptrs :: "bytes \<Rightarrow> u32 list" where
  "msg31_ptrs body =
     map (\<lambda>i. u32_at body (44 + 4 * i)) [0..<unat (u16_at body 30) - 3]"

definition msg31_radial :: "bytes \<Rightarrow> radial" where
  "msg31_radial body =
     (let rrad = parse_rrad body (u32_at body 40) in
      \<lparr>r_site_id = bytes_at body 0 4, r_scan_time_ms = u32_at body 4,
       r_julian_date = u16_at body 8, r_azimuth_deg = f32_at body 12,
       r_elevation_deg = f32_at body 24, r_azimuth_number = u16_at body 10,
       r_azimuth_spacing_code = u8_at body 20,
       r_radial_status = status_from_code (u8_at body 21),
       r_elevation_number = u8_at body 22,
       r_unambiguous_range_km = map_option rc_unambiguous_range_km rrad,
       r_nyquist_velocity_mps = map_option rc_nyquist_velocity_mps rrad,
       r_site_parameters = parse_rvol body (u32_at body 32),
       r_products = fold (\<lambda>(k, v). product_map_insert k v)
         (List.map_filter (parse_product body) (msg31_ptrs body)) product_map_new\<rparr>)"

lemma parse_message31_eq:
  "parse_message31 record =
     (if length record < 60 then Inl (Truncated ''msg31 record'')
      else let body = drop 28 record in
        if 72 + 4 * (unat (u16_at body 30) - 3) \<le> length record then Inr (msg31_radial body)
        else Inl (Truncated ''read_u32_be''))"
proof (cases "length record < 60")
  case True
  then show ?thesis
    by (simp add: parse_message31_def M31_BODY_OFFSET_def)
next
  case False
  define body where "body = drop 28 record"
  have body: "drop 28 record = body" "length record = 28 + length body" "32 \<le> length body"
    using False by (simp_all add: body_def)
  show ?thesis
  proof (cases "44 \<le> length body")
    case True
    then show ?thesis
      by (auto simp: parse_message31_def M31_BODY_OFFSET_def cursor_new_def field_reads Let_def
          read_product_ptrs_eq msg31_radial_def msg31_ptrs_def body)
  next
    case False
    then show ?thesis
      using body(3)
      by (simp add: parse_message31_def M31_BODY_OFFSET_def cursor_new_def field_reads Let_def body)
  qed
qed

lemma read_el_cuts_eq:
  "read_el_cuts n \<lparr>cdata = d, pos = p\<rparr> =
     (if n = 0 \<or> p + 46 * n \<le> length d then
        Inr (map (\<lambda>i. let b = p + 46 * i in
               \<lparr>ec_elevation_deg = el_angle_deg (u16_at d b), ec_channel_config = u8_at d (b + 2),
                ec_waveform = u8_at d (b + 3), ec_super_res = u8_at d (b + 4)\<rparr>) [0..<n],
             \<lparr>cdata = d, pos = p + 46 * n\<rparr>)
      else read_el_cuts n \<lparr>cdata = d, pos = p\<rparr>)"
proof (induction n arbitrary: p)
  case 0
  then show ?case by simp
next
  case (Suc n)
  have upt: "[0..<Suc n] = 0 # map Suc [0..<n]"
    by (simp add: upt_conv_Cons map_Suc_upt del: upt_Suc)
  show ?case
  proof (cases "p + 46 * Suc n \<le> length d")
    case True
    have suc: "Suc (Suc (Suc p)) = p + 3" "Suc (Suc (Suc (Suc p))) = p + 4" by simp_all
    show ?thesis
      using Suc.IH [of "p + 46"] True
      unfolding upt by (simp add: suc field_reads EL_CUT_SIZE_def EL_CUT_DECODED_SIZE_def Let_def ac_simps)
  next
    case False
    then show ?thesis by simp
  qed
qed

lemma read_el_cuts_short:
  "n \<noteq> 0 \<Longrightarrow> length d < p + 46 * n \<Longrightarrow> \<exists>e. read_el_cuts n \<lparr>cdata = d, pos = p\<rparr> = Inl e"
proof (induction n arbitrary: p)
  case 0
  then show ?case by simp
next
  case (Suc n)
  show ?case
  proof (cases "p + 46 \<le> length d")
    case True
    then have "n \<noteq> 0" "length d < p + 46 + 46 * n" using Suc.prems by auto
    then obtain e where "read_el_cuts n \<lparr>cdata = d, pos = p + 46\<rparr> = Inl e"
      using Suc.IH by blast
    with True show ?thesis
      by (simp add: field_reads EL_CUT_SIZE_def EL_CUT_DECODED_SIZE_def ac_simps)
  next
    case False
    then show ?thesis
      by (auto simp: field_reads EL_CUT_SIZE_def EL_CUT_DECODED_SIZE_def ac_simps)
  qed
qed

definition vcp_cut_at :: "bytes \<Rightarrow> nat \<Rightarrow> vcp_elevation_cut" where
  "vcp_cut_at d b =
     \<lparr>ec_elevation_deg = el_angle_deg (u16_at d b), ec_channel_config = u8_at d (b + 2),
      ec_waveform = u8_at d (b + 3), ec_super_res = u8_at d (b + 4)\<rparr>"

lemma parse_vcp_ok:
  assumes "28 + 22 + 46 * unat (u16_at (drop 28 record) 6) \<le> length record"
  shows "parse_vcp record =
    Inr \<lparr>vd_vcp_number = u16_at (drop 28 record) 4, vd_pattern_type = u16_at (drop 28 record) 2,
         vd_elevations = map (\<lambda>i. vcp_cut_at (drop 28 record) (22 + 46 * i))
           [0..<unat (u16_at (drop 28 record) 6)]\<rparr>"
proof -
  define body where "body = drop 28 record"
  have body: "drop 28 record = body" "length record = 28 + length body"
    "22 + 46 * unat (u16_at body 6) \<le> length body"
    using assms by (simp_all add: body_def)
  then show ?thesis
    by (auto simp: parse_vcp_def M5_BODY_OFFSET_def VCP_HEADER_SIZE_def cursor_new_def field_reads
        Let_def read_el_cuts_eq [of "unat (u16_at body 6)"] vcp_cut_at_def
        simp del: add_2_eq_Suc add_2_eq_Suc')
qed

lemma parse_vcp_short:
  assumes "length record < 28 + 22 + 46 * unat (u16_at (drop 28 record) 6)"
  shows "\<exists>e. parse_vcp record = Inl e"
proof (cases "length record < 50")
  case True
  then show ?thesis by (simp add: parse_vcp_def M5_BODY_OFFSET_def VCP_HEADER_SIZE_def)
next
  case False
  define body where "body = drop 28 record"
  have body: "drop 28 record = body" "length record = 28 + length body" "22 \<le> length body"
    "length body < 22 + 46 * unat (u16_at body 6)"
    using assms False by (simp_all add: body_def)
  then have "unat (u16_at body 6) \<noteq> 0" by auto
  then obtain e where "read_el_cuts (unat (u16_at body 6)) \<lparr>cdata = body, pos = 22\<rparr> = Inl e"
    using read_el_cuts_short body(4) by blast
  with body show ?thesis
    by (simp add: parse_vcp_def M5_BODY_OFFSET_def VCP_HEADER_SIZE_def cursor_new_def field_reads
        Let_def del: add_2_eq_Suc add_2_eq_Suc')
qed

section \<open>Encoders\<close>

text \<open>
  Independent encoders of the record formats, for the round trips: the fields are
  written one after the other as the interface control document lays them out.
\<close>

fun block_id_of :: "product_kind \<Rightarrow> bytes" where
  "block_id_of Ref = ascii ''DREF''"
| "block_id_of Vel = ascii ''DVEL''"
| "block_id_of SpectrumWidth = ascii ''DSW ''"
| "block_id_of Zdr = ascii ''DZDR''"
| "block_id_of Phi = ascii ''DPHI''"
| "block_id_of Rho = ascii ''DRHO''"
| "block_id_of Cfp = ascii ''DCFP''"

lemma length_block_id_of [simp]: "length (block_id_of k) = 4"
  by (cases k) (simp_all add: ascii_def)

lemma from_block_id_of [simp]: "from_block_id (block_id_of k) = Some k"
  by (cases k) (simp_all add: from_block_id_def ascii_def)

record product_fields =
  pf_kind :: product_kind
  pf_block_size :: u16
  pf_version :: u16
  pf_gate_count :: u16
  pf_first_gate_m :: u16
  pf_gate_width_m :: u16
  pf_tover :: u16
  pf_snr :: u16
  pf_spare :: u8
  pf_word_size :: u8
  pf_scale_bits :: u32
  pf_offset_bits :: u32
  pf_gates :: bytes

definition encode_product :: "product_fields \<Rightarrow> bytes" where
  "encode_product p =
     block_id_of (pf_kind p) @ be_bytes 2 (unat (pf_block_size p)) @
     be_bytes 2 (unat (pf_version p)) @ be_bytes 2 (unat (pf_gate_count p)) @
     be_bytes 2 (unat (pf_first_gate_m p)) @ be_bytes 2 (unat (pf_gate_width_m p)) @
     be_bytes 2 (unat (pf_tover p)) @ be_bytes 2 (unat (pf_snr p)) @
     [pf_spare p, pf_word_size p] @ be_bytes 4 (unat (pf_scale_bits p)) @
     be_bytes 4 (unat (pf_offset_bits p)) @ pf_gates p"

definition product_of_fields :: "product_fields \<Rightarrow> product_data" where
  "product_of_fields p =
     \<lparr>pd_gate_count = pf_gate_count p, pd_first_gate_m = pf_first_gate_m p,
      pd_gate_width_m = pf_gate_width_m p, pd_word_size = pf_word_size p,
      pd_scale = f32_of_bits (pf_scale_bits p), pd_offset = f32_of_bits (pf_offset_bits p),
      pd_data = pf_gates p\<rparr>"

lemma length_encode_product [simp]:
  "length (encode_product p) = 28 + length (pf_gates p)"
  by (simp add: encode_product_def)

lemma parse_product_encoded:
  assumes ws: "pf_word_size p = 8 \<or> pf_word_size p = 16"
    and len: "length (pf_gates p) = unat (pf_gate_count p) * (unat (pf_word_size p) div 8)"
    and pre: "unat ptr = length pre" "ptr \<noteq> 0"
  shows "parse_product (pre @ encode_product p @ suf) ptr = Some (pf_kind p, product_of_fields p)"
proof -
  let ?b = "pre @ encode_product p @ suf"
  have at: "u8_at ?b (length pre + 19) = pf_word_size p"
    "u16_at ?b (length pre + 8) = pf_gate_count p"
    "u16_at ?b (length pre + 10) = pf_first_gate_m p"
    "u16_at ?b (length pre + 12) = pf_gate_width_m p"
    "f32_at ?b (length pre + 20) = f32_of_bits (pf_scale_bits p)"
    "f32_at ?b (length pre + 24) = f32_of_bits (pf_offset_bits p)"
    "bytes_at ?b (length pre) 4 = block_id_of (pf_kind p)"
    "bytes_at ?b (length pre + 28) (length (pf_gates p)) = pf_gates p"
    by (simp_all add: encode_product_def codec_simps)
  show ?thesis
    using ws by (simp add: parse_product_eq Let_def pre at len [symmetric] product_of_fields_def)
qed


record msg31_fields =
  mf_site :: bytes
  mf_time :: u32
  mf_date :: u16
  mf_aznum :: u16
  mf_az_bits :: u32
  mf_compression :: u8
  mf_spare :: u8
  mf_radial_len :: u16
  mf_az_spacing :: u8
  mf_status :: u8
  mf_el_num :: u8
  mf_sector :: u8
  mf_el_bits :: u32
  mf_spot :: u8
  mf_az_mode :: u8
  mf_num_blks :: u16
  mf_vol_ptr :: u32
  mf_el_ptr :: u32
  mf_rad_ptr :: u32
  mf_ptrs :: "u32 list"
  mf_blocks :: bytes

definition encode_ptrs :: "u32 list \<Rightarrow> bytes" where
  "encode_ptrs ps = concat (map (\<lambda>p. be_bytes 4 (unat p)) ps)"

definition encode_msg31_header :: "msg31_fields \<Rightarrow> bytes" where
  "encode_msg31_header m =
     mf_site m @ be_bytes 4 (unat (mf_time m)) @ be_bytes 2 (unat (mf_date m)) @
     be_bytes 2 (unat (mf_aznum m)) @ be_bytes 4 (unat (mf_az_bits m)) @
     [mf_compression m, mf_spare m] @ be_bytes 2 (unat (mf_radial_len m)) @
     [mf_az_spacing m, mf_status m, mf_el_num m, mf_sector m] @
     be_bytes 4 (unat (mf_el_bits m)) @ [mf_spot m, mf_az_mode m] @
     be_bytes 2 (unat (mf_num_blks m)) @ be_bytes 4 (unat (mf_vol_ptr m)) @
     be_bytes 4 (unat (mf_el_ptr m)) @ be_bytes 4 (unat (mf_rad_ptr m))"

definition encode_msg31_body :: "msg31_fields \<Rightarrow> bytes" where
  "encode_msg31_body m = encode_msg31_header m @ encode_ptrs (mf_ptrs m) @ mf_blocks m"

lemma length_encode_ptrs [simp]: "length (encode_ptrs ps) = 4 * length ps"
  by (induction ps) (simp_all add: encode_ptrs_def)

lemma length_encode_msg31_header [simp]:
  "length (mf_site m) = 4 \<Longrightarrow> length (encode_msg31_header m) = 44"
  by (simp add: encode_msg31_header_def)

lemma length_encode_msg31_body [simp]:
  "length (mf_site m) = 4 \<Longrightarrow>
   length (encode_msg31_body m) = 44 + 4 * length (mf_ptrs m) + length (mf_blocks m)"
  by (simp add: encode_msg31_body_def)

lemma u32s_at_encode_ptrs:
  "map (\<lambda>i. u32_at (pre @ encode_ptrs ps @ suf) (length pre + 4 * i)) [0..<length ps] = ps"
proof (induction ps arbitrary: pre)
  case Nil
  then show ?case by simp
next
  case (Cons p ps)
  have upt: "[0..<length (p # ps)] = 0 # map Suc [0..<length ps]"
    by (simp add: upt_conv_Cons map_Suc_upt del: upt_Suc)
  show ?case
    using Cons.IH [of "pre @ be_bytes 4 (unat p)"]
    unfolding upt by (simp add: encode_ptrs_def codec_simps ac_simps comp_def)
qed

lemma num_blks_encoded [simp]:
  "length (mf_site m) = 4 \<Longrightarrow> u16_at (encode_msg31_body m) 30 = mf_num_blks m"
  by (simp add: encode_msg31_body_def encode_msg31_header_def codec_simps)

lemma msg31_ptrs_encoded:
  assumes "length (mf_site m) = 4" "length (mf_ptrs m) = unat (mf_num_blks m) - 3"
  shows "msg31_ptrs (encode_msg31_body m) = mf_ptrs m"
proof -
  show ?thesis
    using u32s_at_encode_ptrs [of "encode_msg31_header m" "mf_ptrs m" "mf_blocks m"] assms
    unfolding msg31_ptrs_def num_blks_encoded [OF assms(1)] by (simp add: encode_msg31_body_def)
qed

lemma msg31_radial_encoded:
  assumes "length (mf_site m) = 4" "length (mf_ptrs m) = unat (mf_num_blks m) - 3"
  shows "msg31_radial (encode_msg31_body m) =
    (let body = encode_msg31_body m; rrad = parse_rrad body (mf_rad_ptr m) in
      \<lparr>r_site_id = mf_site m, r_scan_time_ms = mf_time m, r_julian_date = mf_date m,
       r_azimuth_deg = f32_of_bits (mf_az_bits m), r_elevation_deg = f32_of_bits (mf_el_bits m),
       r_azimuth_number = mf_aznum m, r_azimuth_spacing_code = mf_az_spacing m,
       r_radial_status = status_from_code (mf_status m), r_elevation_number = mf_el_num m,
       r_unambiguous_range_km = map_option rc_unambiguous_range_km rrad,
       r_nyquist_velocity_mps = map_option rc_nyquist_velocity_mps rrad,
       r_site_parameters = parse_rvol body (mf_vol_ptr m),
       r_products = fold (\<lambda>(k, v). product_map_insert k v)
         (List.map_filter (parse_product body) (mf_ptrs m)) product_map_new\<rparr>)"
proof -
  let ?b = "encode_msg31_body m"
  have at: "bytes_at ?b 0 4 = mf_site m" "u32_at ?b 4 = mf_time m" "u16_at ?b 8 = mf_date m"
    "u16_at ?b 10 = mf_aznum m" "f32_at ?b 12 = f32_of_bits (mf_az_bits m)"
    "u8_at ?b 20 = mf_az_spacing m" "u8_at ?b 21 = mf_status m" "u8_at ?b 22 = mf_el_num m"
    "f32_at ?b 24 = f32_of_bits (mf_el_bits m)" "u32_at ?b 32 = mf_vol_ptr m"
    "u32_at ?b 40 = mf_rad_ptr m"
    using assms(1) by (simp_all add: encode_msg31_body_def encode_msg31_header_def codec_simps)
  show ?thesis
    unfolding msg31_radial_def msg31_ptrs_encoded [OF assms] at Let_def by simp
qed

record cut_fields =
  cf_angle :: u16
  cf_channel :: u8
  cf_waveform :: u8
  cf_super_res :: u8
  cf_rest :: bytes

definition encode_cut :: "cut_fields \<Rightarrow> bytes" where
  "encode_cut f =
     be_bytes 2 (unat (cf_angle f)) @ [cf_channel f, cf_waveform f, cf_super_res f] @ cf_rest f"

definition cut_of_fields :: "cut_fields \<Rightarrow> vcp_elevation_cut" where
  "cut_of_fields f =
     \<lparr>ec_elevation_deg = el_angle_deg (cf_angle f), ec_channel_config = cf_channel f,
      ec_waveform = cf_waveform f, ec_super_res = cf_super_res f\<rparr>"

definition encode_vcp_body :: "u16 \<Rightarrow> u16 \<Rightarrow> u16 \<Rightarrow> u16 \<Rightarrow> bytes \<Rightarrow> cut_fields list \<Rightarrow> bytes" where
  "encode_vcp_body size_hw pattern number ncuts mid cuts =
     be_bytes 2 (unat size_hw) @ be_bytes 2 (unat pattern) @ be_bytes 2 (unat number) @
     be_bytes 2 (unat ncuts) @ mid @ concat (map encode_cut cuts)"

lemma length_encode_cuts:
  "\<forall>c\<in>set cuts. length (cf_rest c) = 41 \<Longrightarrow> length (concat (map encode_cut cuts)) = 46 * length cuts"
  by (induction cuts) (simp_all add: encode_cut_def)

lemma vcp_cuts_encoded:
  "\<forall>c\<in>set cuts. length (cf_rest c) = 41 \<Longrightarrow>
   map (\<lambda>i. vcp_cut_at (pre @ concat (map encode_cut cuts) @ suf) (length pre + 46 * i))
     [0..<length cuts] = map cut_of_fields cuts"
proof (induction cuts arbitrary: pre)
  case Nil
  then show ?case by simp
next
  case (Cons c cuts)
  have upt: "[0..<length (c # cuts)] = 0 # map Suc [0..<length cuts]"
    by (simp add: upt_conv_Cons map_Suc_upt del: upt_Suc)
  have len: "length (pre @ encode_cut c) = length pre + 46"
    using Cons.prems by (simp add: encode_cut_def)
  have "vcp_cut_at (pre @ encode_cut c @ concat (map encode_cut cuts) @ suf) (length pre) =
      cut_of_fields c"
    by (simp add: vcp_cut_at_def encode_cut_def cut_of_fields_def codec_simps)
  then show ?case
    using Cons.IH [of "pre @ encode_cut c"] Cons.prems
    unfolding upt len by (simp add: ac_simps comp_def)
qed

lemma parse_vcp_encoded:
  assumes hdr: "length ctm = 28" and mid: "length mid = 14"
    and rest: "\<forall>c\<in>set cuts. length (cf_rest c) = 41" and n: "unat ncuts = length cuts"
  shows "parse_vcp (ctm @ encode_vcp_body size_hw pattern number ncuts mid cuts @ pad) =
    Inr \<lparr>vd_vcp_number = number, vd_pattern_type = pattern,
         vd_elevations = map cut_of_fields cuts\<rparr>"
proof -
  let ?pre = "be_bytes 2 (unat size_hw) @ be_bytes 2 (unat pattern) @ be_bytes 2 (unat number) @
     be_bytes 2 (unat ncuts) @ mid"
  let ?rec = "ctm @ encode_vcp_body size_hw pattern number ncuts mid cuts @ pad"
  have body: "drop 28 ?rec = ?pre @ concat (map encode_cut cuts) @ pad"
    using hdr by (simp add: encode_vcp_body_def)
  have at: "u16_at (drop 28 ?rec) 6 = ncuts" "u16_at (drop 28 ?rec) 4 = number"
    "u16_at (drop 28 ?rec) 2 = pattern"
    unfolding body by (simp_all add: codec_simps)
  have "length ?rec = 28 + 22 + 46 * length cuts + length pad"
    using hdr mid length_encode_cuts [OF rest] by (simp add: encode_vcp_body_def)
  then have "28 + 22 + 46 * unat (u16_at (drop 28 ?rec) 6) \<le> length ?rec"
    unfolding at n by simp
  note ok = parse_vcp_ok [OF this]
  have "map (\<lambda>i. vcp_cut_at (drop 28 ?rec) (22 + 46 * i)) [0..<length cuts] = map cut_of_fields cuts"
    using vcp_cuts_encoded [OF rest, of ?pre pad] mid unfolding body by simp
  with ok show ?thesis unfolding at n by simp
qed


section \<open>Properties\<close>

definition sample_product :: product_fields where
  "sample_product =
     \<lparr>pf_kind = Zdr, pf_block_size = 0, pf_version = 1, pf_gate_count = 2, pf_first_gate_m = 2125,
      pf_gate_width_m = 250, pf_tover = 0, pf_snr = 0, pf_spare = 0, pf_word_size = 16,
      pf_scale_bits = 0x42000000, pf_offset_bits = 0x43D10000, pf_gates = [1, 162, 0, 1]\<rparr>"

definition sample_msg31 :: msg31_fields where
  "sample_msg31 =
     \<lparr>mf_site = ascii ''KDOX'', mf_time = 65460000, mf_date = 20634, mf_aznum = 1,
      mf_az_bits = 0x43653FBC, mf_compression = 0, mf_spare = 0, mf_radial_len = 80,
      mf_az_spacing = 1, mf_status = 3, mf_el_num = 1, mf_sector = 0, mf_el_bits = 0x3F000000,
      mf_spot = 0, mf_az_mode = 0, mf_num_blks = 4, mf_vol_ptr = 0, mf_el_ptr = 0,
      mf_rad_ptr = 0, mf_ptrs = [48], mf_blocks = encode_product sample_product\<rparr>"

definition sample_cut :: cut_fields where
  "sample_cut = \<lparr>cf_angle = 88, cf_channel = 0, cf_waveform = 1, cf_super_res = 11,
                 cf_rest = replicate 41 0\<rparr>"

text \<open>
  A moment block written in the ICD layout anywhere in a radial's body, with any
  bytes before and after it, decodes to exactly the kind, the geometry, the scale and
  offset and the gate bytes that were written.
\<close>

theorem parse_product_roundtrip:
  assumes "pf_word_size p = 8 \<or> pf_word_size p = 16"
    and "length (pf_gates p) = unat (pf_gate_count p) * (unat (pf_word_size p) div 8)"
    and "unat ptr = length pre" and "ptr \<noteq> 0"
  shows "parse_product (pre @ encode_product p @ suf) ptr = Some (pf_kind p, product_of_fields p)"
  using assms by (rule parse_product_encoded)

theorem parse_product_roundtrip_witness:
  "parse_product (replicate 48 0 @ encode_product sample_product @ [7]) 48 =
     Some (Zdr, product_of_fields sample_product)"
  using parse_product_roundtrip [of sample_product 48 "replicate 48 0" "[7]"]
  by (simp add: sample_product_def)

text \<open>
  Whatever the bytes and the pointer are, a decoded moment has a word size of 8 or
  16 bits and exactly the bytes of its gate count, so that every gate below the count
  can be read and none beyond it.
\<close>

theorem parse_product_sound:
  assumes "parse_product body ptr = Some (kind, pd)"
  shows "wf_product_data pd \<and> (raw_gate pd i \<noteq> None \<longleftrightarrow> i < unat (pd_gate_count pd))"
proof -
  have "wf_product_data pd"
    using assms by (auto simp: parse_product_eq Let_def wf_product_data_def split: if_splits)
  then show ?thesis using raw_gate_some_iff by blast
qed

theorem parse_product_sound_witness:
  "wf_product_data (product_of_fields sample_product) \<and>
   (raw_gate (product_of_fields sample_product) 1 \<noteq> None \<longleftrightarrow>
      1 < unat (pd_gate_count (product_of_fields sample_product)))"
  by (rule parse_product_sound [of "replicate 48 0 @ encode_product sample_product @ []" 48 Zdr])
    (use parse_product_encoded [of sample_product 48 "replicate 48 0" "[]"] in
      \<open>simp add: sample_product_def\<close>)

text \<open>
  A Message 31 record is refused only for being shorter than its fixed header and
  its block pointer table; then the error is \<open>Truncated\<close>. Otherwise it decodes to the
  radial its bytes describe: an absent, unknown or unreadable block never loses it.
\<close>

theorem parse_message31_accepts:
  "parse_message31 record =
     (if length record < 60 then Inl (Truncated ''msg31 record'')
      else if length record < 72 + 4 * (unat (u16_at (drop 28 record) 30) - 3)
      then Inl (Truncated ''read_u32_be'')
      else Inr (msg31_radial (drop 28 record)))"
  by (simp add: parse_message31_eq Let_def)

text \<open>
  C5: a Message 31 record written in the ICD layout decodes to the header fields that
  were written, and its moments come from the pointers that were written.
\<close>

theorem parse_message31_roundtrip:
  assumes "length ctm = 28" and "length (mf_site m) = 4"
    and "length (mf_ptrs m) = unat (mf_num_blks m) - 3"
  shows "parse_message31 (ctm @ encode_msg31_body m) =
    (let body = encode_msg31_body m; rrad = parse_rrad body (mf_rad_ptr m) in
     Inr \<lparr>r_site_id = mf_site m, r_scan_time_ms = mf_time m, r_julian_date = mf_date m,
       r_azimuth_deg = f32_of_bits (mf_az_bits m), r_elevation_deg = f32_of_bits (mf_el_bits m),
       r_azimuth_number = mf_aznum m, r_azimuth_spacing_code = mf_az_spacing m,
       r_radial_status = status_from_code (mf_status m), r_elevation_number = mf_el_num m,
       r_unambiguous_range_km = map_option rc_unambiguous_range_km rrad,
       r_nyquist_velocity_mps = map_option rc_nyquist_velocity_mps rrad,
       r_site_parameters = parse_rvol body (mf_vol_ptr m),
       r_products = fold (\<lambda>(k, v). product_map_insert k v)
         (List.map_filter (parse_product body) (mf_ptrs m)) product_map_new\<rparr>)"
  using assms msg31_radial_encoded [OF assms(2,3)]
  by (simp add: parse_message31_eq Let_def)

theorem parse_message31_roundtrip_witness:
  "\<exists>r. parse_message31 (replicate 28 0 @ encode_msg31_body sample_msg31) = Inr r \<and>
       r_site_id r = ascii ''KDOX'' \<and> r_radial_status r = StartOfVolume"
  using parse_message31_roundtrip [of "replicate 28 0" sample_msg31]
  by (simp add: sample_msg31_def ascii_def status_from_code_def Let_def)

text \<open>
  The moment a decoded radial holds for a kind is that of the last block pointer
  whose block is readable and of that kind, and it holds none when there is no such
  pointer: duplicates overwrite, unreadable blocks leave no trace.
\<close>

theorem parse_message31_products:
  assumes "parse_message31 record = Inr r"
  shows "product_map_get (r_products r) kind =
    map_of (rev (List.map_filter (parse_product (drop 28 record)) (msg31_ptrs (drop 28 record)))) kind"
proof -
  have "r = msg31_radial (drop 28 record)"
    using assms by (auto simp: parse_message31_eq Let_def split: if_splits)
  then show ?thesis by (simp add: msg31_radial_def Let_def pmap.look_ins_all_store0)
qed

theorem parse_message31_products_witness:
  "\<exists>r. parse_message31 (replicate 28 0 @ encode_msg31_body sample_msg31) = Inr r \<and>
     product_map_get (r_products r) Zdr =
       map_of (rev (List.map_filter
         (parse_product (drop 28 (replicate 28 0 @ encode_msg31_body sample_msg31)))
         (msg31_ptrs (drop 28 (replicate 28 0 @ encode_msg31_body sample_msg31))))) Zdr"
proof -
  let ?rec = "replicate 28 0 @ encode_msg31_body sample_msg31"
  have "u16_at (encode_msg31_body sample_msg31) 30 = mf_num_blks sample_msg31"
    by (rule num_blks_encoded) (simp add: sample_msg31_def ascii_def)
  then have "u16_at (encode_msg31_body sample_msg31) 30 = 4"
    by (simp add: sample_msg31_def)
  moreover have "length (encode_msg31_body sample_msg31) = 80"
    by (simp add: sample_msg31_def ascii_def sample_product_def)
  ultimately have r: "parse_message31 ?rec = Inr (msg31_radial (drop 28 ?rec))"
    by (simp add: parse_message31_eq Let_def)
  show ?thesis
    by (rule exI conjI r parse_message31_products [OF r])+
qed

text \<open>
  A Message 5 record written in the ICD layout decodes to the pattern number, the
  pattern type and the elevation cuts that were written, in order.
\<close>

theorem parse_vcp_roundtrip:
  assumes "length ctm = 28" and "length mid = 14"
    and "\<forall>c\<in>set cuts. length (cf_rest c) = 41" and "unat ncuts = length cuts"
  shows "parse_vcp (ctm @ encode_vcp_body size_hw pattern number ncuts mid cuts @ pad) =
    Inr \<lparr>vd_vcp_number = number, vd_pattern_type = pattern,
         vd_elevations = map cut_of_fields cuts\<rparr>"
  using assms by (rule parse_vcp_encoded)

theorem parse_vcp_roundtrip_witness:
  "parse_vcp (replicate 28 0 @
     encode_vcp_body 80 2 35 2 (replicate 14 0) [sample_cut, sample_cut] @ []) =
   Inr \<lparr>vd_vcp_number = 35, vd_pattern_type = 2,
        vd_elevations = map cut_of_fields [sample_cut, sample_cut]\<rparr>"
  by (rule parse_vcp_roundtrip) (simp_all add: sample_cut_def)

end
