(* ===== verification/Message_Walk.thy ===== *)
theory Message_Walk
  imports Decoder
begin

text \<open>
  The framing walk of \<open>parse/mod.rs\<close>: \<open>for_each_message\<close> over the flat message
  stream, and its two clients \<open>parse_radial_stream\<close> and \<open>parse_metadata_stream\<close>. The
  callback is a function of the message type, the record and the accumulator. The
  walk is total (every step moves on by at least one halfword record) and is proved
  equal to a fold over the records of any framed stream.
\<close>

section \<open>The walk\<close>

definition CTM_HEADER_SIZE :: nat where
  "CTM_HEADER_SIZE = 12"

definition MSG_HEADER_SIZE :: nat where
  "MSG_HEADER_SIZE = 16"

definition LEGACY_MSG_SIZE :: nat where
  "LEGACY_MSG_SIZE = 2432"

definition SIZE_HW_OFFSET :: nat where
  "SIZE_HW_OFFSET = CTM_HEADER_SIZE"

lemmas walk_consts =
  CTM_HEADER_SIZE_def MSG_HEADER_SIZE_def LEGACY_MSG_SIZE_def SIZE_HW_OFFSET_def

text \<open>\<open>(n + 3) & !3\<close>: up to the next multiple of four.\<close>

definition align4 :: "nat \<Rightarrow> nat" where
  "align4 n = ((n + 3) div 4) * 4"

lemma align4_ge: "n \<le> align4 n"
  unfolding align4_def by (simp add: dividend_less_div_times)

lemma align4_pos: "0 < n \<Longrightarrow> 0 < align4 n"
  using align4_ge [of n] by simp

type_synonym 'a visitor = "u8 \<Rightarrow> bytes \<Rightarrow> 'a \<Rightarrow> decode_error + 'a"

text \<open>The three header fields that the walk reads at an offset: size, channel, type.\<close>

definition read_msg_header :: "bytes \<Rightarrow> nat \<Rightarrow> decode_error + (u16 \<times> u8)" where
  "read_msg_header data offset =
     rbind (cursor_at data (offset + SIZE_HW_OFFSET)) (\<lambda>hdr.
     rbind (read_u16_be hdr) (\<lambda>(size_hw, hdr).
     rbind (read_u8 hdr) (\<lambda>(_, hdr).
     rbind (read_u8 hdr) (\<lambda>(msg_type, hdr).
     Ok (size_hw, msg_type)))))"

function walk_from :: "'a visitor \<Rightarrow> bytes \<Rightarrow> nat \<Rightarrow> 'a \<Rightarrow> decode_error + 'a" where
  "walk_from f data offset acc =
     (if offset + CTM_HEADER_SIZE + MSG_HEADER_SIZE \<le> length data then
        rbind (read_msg_header data offset) (\<lambda>(size_hw, msg_type).
        if size_hw = 0 then walk_from f data (offset + LEGACY_MSG_SIZE) acc
        else
          let msg_size_bytes = unat size_hw * 2 in
          if msg_type = 31 then
            let record_end = offset + CTM_HEADER_SIZE + msg_size_bytes in
            rbind (ok_or (Truncated ''msg31 record slice'') (slice_get data offset record_end))
              (\<lambda>record.
            rbind (f msg_type record acc) (\<lambda>acc.
            walk_from f data (offset + align4 (CTM_HEADER_SIZE + msg_size_bytes)) acc))
          else
            let record_end = min (offset + LEGACY_MSG_SIZE) (length data);
                record = take (record_end - offset) (drop offset data) in
            rbind (f msg_type record acc) (\<lambda>acc.
            walk_from f data (offset + LEGACY_MSG_SIZE) acc))
      else Ok acc)"
  by auto
termination
  by (relation "measure (\<lambda>(f, data, offset, acc). length data - offset)")
    (auto simp: walk_consts intro!: diff_less_mono2 align4_pos)

declare walk_from.simps [simp del]

definition for_each_message :: "'a visitor \<Rightarrow> bytes \<Rightarrow> 'a \<Rightarrow> decode_error + 'a" where
  "for_each_message f data acc = walk_from f data 0 acc"

definition parse_radial_stream :: "bytes \<Rightarrow> decode_error + radial list" where
  "parse_radial_stream data =
     for_each_message
       (\<lambda>msg_type record radials.
          if msg_type = 31 then rbind (parse_message31 record) (\<lambda>r. Ok (radials @ [r]))
          else Ok radials)
       data []"

record volume_metadata =
  vm_vcp :: "vcp_definition option"

definition parse_metadata_stream :: "bytes \<Rightarrow> decode_error + volume_metadata" where
  "parse_metadata_stream data =
     for_each_message
       (\<lambda>msg_type record metadata.
          if msg_type = 5 then rbind (parse_vcp record) (\<lambda>v. Ok (metadata\<lparr>vm_vcp := Some v\<rparr>))
          else Ok metadata)
       data \<lparr>vm_vcp = None\<rparr>"

section \<open>Framed streams\<close>

text \<open>
  A stream as the radar product generator writes it: legacy blocks of 2432 bytes, with
  a zero size field (skipped) or of another message type, and Message 31 records of
  the size their header gives, padded to a multiple of four.
\<close>

datatype frame_item = Skip_Block bytes | Radial_Rec bytes | Block_Rec bytes

fun item_bytes :: "frame_item \<Rightarrow> bytes" where
  "item_bytes (Skip_Block b) = b"
| "item_bytes (Radial_Rec r) = r @ replicate (align4 (length r) - length r) 0"
| "item_bytes (Block_Rec b) = b"

fun wf_item :: "frame_item \<Rightarrow> bool" where
  "wf_item (Skip_Block b) = (length b = 2432 \<and> u16_at b 12 = 0)"
| "wf_item (Radial_Rec r) =
     (28 \<le> length r \<and> length r = 12 + 2 * unat (u16_at r 12) \<and> u8_at r 15 = 31)"
| "wf_item (Block_Rec b) = (length b = 2432 \<and> u16_at b 12 \<noteq> 0 \<and> u8_at b 15 \<noteq> 31)"

fun item_records :: "frame_item \<Rightarrow> (u8 \<times> bytes) list" where
  "item_records (Skip_Block b) = []"
| "item_records (Radial_Rec r) = [(31, r)]"
| "item_records (Block_Rec b) = [(u8_at b 15, b)]"

definition stream_bytes :: "frame_item list \<Rightarrow> bytes" where
  "stream_bytes items = concat (map item_bytes items)"

definition stream_records :: "frame_item list \<Rightarrow> (u8 \<times> bytes) list" where
  "stream_records items = concat (map item_records items)"

lemma read_msg_header_eq:
  "offset + 28 \<le> length data \<Longrightarrow>
   read_msg_header data offset = Inr (u16_at data (offset + 12), u8_at data (offset + 15))"
  by (simp add: read_msg_header_def cursor_at_def walk_consts field_reads ac_simps)

lemma header_fields_at:
  assumes "28 \<le> length b"
  shows "u16_at (pre @ b @ rest) (length pre + 12) = u16_at b 12"
    "u8_at (pre @ b @ rest) (length pre + 15) = u8_at b 15"
  using assms by (simp_all add: u16_at_def bytes_at_def u8_at_def nth_append)

lemma walk_item:
  assumes "wf_item it"
  shows "walk_from f (pre @ item_bytes it @ rest) (length pre) acc =
    rbind (rfold (\<lambda>a (t, r). f t r a) acc (item_records it)) (\<lambda>acc'.
      walk_from f (pre @ item_bytes it @ rest) (length (pre @ item_bytes it)) acc')"
proof (cases it)
  case (Skip_Block b)
  with assms have b: "length b = 2432" "u16_at b 12 = 0" by simp_all
  then show ?thesis
    using header_fields_at [of b pre rest]
    by (simp add: Skip_Block walk_from.simps [of f _ "length pre"] read_msg_header_eq walk_consts)
next
  case (Block_Rec b)
  with assms have b: "length b = 2432" "u16_at b 12 \<noteq> 0" "u8_at b 15 \<noteq> 31" by simp_all
  then show ?thesis
    using header_fields_at [of b pre rest]
    by (simp add: Block_Rec walk_from.simps [of f _ "length pre"] read_msg_header_eq walk_consts)
next
  case (Radial_Rec r)
  let ?pad = "replicate (align4 (length r) - length r) (0 :: u8)"
  have r: "28 \<le> length r" "length r = 12 + 2 * unat (u16_at r 12)" "u8_at r 15 = 31"
    using assms Radial_Rec by simp_all
  then have nz: "u16_at r 12 \<noteq> 0" by auto
  have len: "12 + unat (u16_at r 12) * 2 = length r"
    using r(2) by simp
  have rec: "slice_get (pre @ r @ ?pad @ rest) (length pre) (length pre + length r) = Some r"
    by (rule slice_get_append) simp_all
  have adv: "length (pre @ item_bytes it) = length pre + align4 (length r)"
    using align4_ge [of "length r"] by (simp add: Radial_Rec)
  show ?thesis
    using header_fields_at [of r pre "?pad @ rest"] r(1,3) nz rec
    unfolding adv
    by (simp add: Radial_Rec walk_from.simps [of f _ "length pre"] read_msg_header_eq walk_consts
        len add.assoc)
qed

lemma walk_items:
  assumes "list_all wf_item items"
  shows "walk_from f (pre @ stream_bytes items @ rest) (length pre) acc =
    rbind (rfold (\<lambda>a (t, r). f t r a) acc (stream_records items)) (\<lambda>acc'.
      walk_from f (pre @ stream_bytes items @ rest) (length (pre @ stream_bytes items)) acc')"
  using assms
proof (induction items arbitrary: pre acc)
  case Nil
  then show ?case by (simp add: stream_bytes_def stream_records_def)
next
  case (Cons it items)
  have bytes: "stream_bytes (it # items) = item_bytes it @ stream_bytes items"
    by (simp add: stream_bytes_def)
  have recs: "stream_records (it # items) = item_records it @ stream_records items"
    by (simp add: stream_records_def)
  have it: "wf_item it" using Cons.prems by simp
  have IH: "walk_from f ((pre @ item_bytes it) @ stream_bytes items @ rest)
      (length (pre @ item_bytes it)) a =
    rbind (rfold (\<lambda>a (t, r). f t r a) a (stream_records items)) (\<lambda>acc'.
      walk_from f ((pre @ item_bytes it) @ stream_bytes items @ rest)
        (length ((pre @ item_bytes it) @ stream_bytes items)) acc')" for a
    using Cons.IH [of "pre @ item_bytes it" a] Cons.prems by simp
  show ?case
    using walk_item [OF it, of f pre "stream_bytes items @ rest" acc] IH
    by (simp add: bytes recs rfold_append rbind_assoc)
qed

lemma walk_end: "length data < offset + 28 \<Longrightarrow> walk_from f data offset acc = Inr acc"
  by (simp add: walk_from.simps walk_consts)

lemma for_each_message_stream:
  assumes "list_all wf_item items" and "length trail < 28"
  shows "for_each_message f (stream_bytes items @ trail) acc =
    rfold (\<lambda>a (t, r). f t r a) acc (stream_records items)"
proof -
  have "walk_from f (stream_bytes items @ trail) (length (stream_bytes items)) a = Inr a" for a
    using assms(2) by (simp add: walk_end)
  then have "walk_from f (stream_bytes items @ trail) 0 acc =
      rbind (rfold (\<lambda>a (t, r). f t r a) acc (stream_records items)) Inr"
    using walk_items [OF assms(1), of f "[]" trail acc] by simp
  then show ?thesis by (simp add: for_each_message_def rbind_Inr_right)
qed

text \<open>The Message 31 records of a stream, and the Message 5 records.\<close>

definition radial_recs :: "frame_item list \<Rightarrow> bytes list" where
  "radial_recs items = map snd (filter (\<lambda>(t, _). t = 31) (stream_records items))"

definition vcp_recs :: "frame_item list \<Rightarrow> bytes list" where
  "vcp_recs items = map snd (filter (\<lambda>(t, _). t = 5) (stream_records items))"

lemma rfold_radials:
  "rfold (\<lambda>radials (t, r). if t = 31 then rbind (parse_message31 r) (\<lambda>x. Ok (radials @ [x]))
                      else Ok radials) acc recs =
   rbind (rmap parse_message31 (map snd (filter (\<lambda>(t, _). t = 31) recs))) (\<lambda>rs. Inr (acc @ rs))"
proof (induction recs arbitrary: acc)
  case Nil
  then show ?case by simp
next
  case (Cons tr recs)
  then show ?case
    by (cases tr) (simp add: rbind_assoc split_beta cong: rbind_cong)
qed

lemma rfold_vcps:
  "rfold (\<lambda>metadata (t, r). if t = 5 then rbind (parse_vcp r) (\<lambda>v. Ok (metadata\<lparr>vm_vcp := Some v\<rparr>))
                       else Ok metadata) acc recs =
   rbind (rmap parse_vcp (map snd (filter (\<lambda>(t, _). t = 5) recs)))
     (\<lambda>vs. Inr (if vs = [] then acc else \<lparr>vm_vcp = Some (last vs)\<rparr>))"
proof (induction recs arbitrary: acc)
  case Nil
  then show ?case by simp
next
  case (Cons tr recs)
  then show ?case
    by (cases tr; cases acc) (auto simp: rbind_assoc split_beta intro!: rbind_cong)
qed

text \<open>A last Message 31 record that the stream cuts short.\<close>

lemma walk_truncated:
  assumes "28 \<le> length r" "length r < 12 + 2 * unat (u16_at r 12)" "u8_at r 15 = 31"
  shows "walk_from f (pre @ r) (length pre) acc = Inl (Truncated ''msg31 record slice'')"
proof -
  have "u16_at r 12 \<noteq> 0" using assms by auto
  then show ?thesis
    using header_fields_at [OF assms(1), of pre "[]"] assms
    by (simp add: walk_from.simps read_msg_header_eq walk_consts slice_get_def)
qed

section \<open>Properties\<close>

definition encode_record :: "u16 \<Rightarrow> u8 \<Rightarrow> bytes \<Rightarrow> bytes" where
  "encode_record size_hw msg_type body =
     replicate 12 0 @ be_bytes 2 (unat size_hw) @ [0, msg_type] @ replicate 12 0 @ body"

lemma encode_record_fields [simp]:
  "u16_at (encode_record hw t body) 12 = hw" "u8_at (encode_record hw t body) 15 = t"
  "length (encode_record hw t body) = 28 + length body"
  by (simp_all add: encode_record_def codec_simps)

lemma take_encode_record: "28 \<le> n \<Longrightarrow> take n (encode_record hw t body) = encode_record hw t (take (n - 28) body)"
  by (simp add: encode_record_def take_Cons')

definition sample_record :: bytes where
  "sample_record = encode_record 48 31 (encode_msg31_body sample_msg31)"

definition sample_skip :: bytes where
  "sample_skip = encode_record 0 0 (replicate 2404 0)"

definition sample_block :: bytes where
  "sample_block = encode_record 76 5
     (encode_vcp_body 80 2 35 1 (replicate 14 0) [sample_cut] @ replicate 2336 0)"

definition sample_items :: "frame_item list" where
  "sample_items = [Skip_Block sample_skip, Block_Rec sample_block, Radial_Rec sample_record]"

lemma length_sample_msg31: "length (encode_msg31_body sample_msg31) = 80"
  by (simp add: sample_msg31_def ascii_def sample_product_def)

lemma sample_items_wf: "list_all wf_item sample_items"
  by (simp add: sample_items_def sample_skip_def sample_record_def sample_block_def
      length_sample_msg31 encode_vcp_body_def sample_cut_def encode_cut_def)

text \<open>
  C4: over any framed stream, with up to 27 bytes of trailing rubbish, the walk calls
  the callback on exactly the records that were framed, each once, in order and whole,
  and stops at the callback's first error; padding and legacy filler are never seen.
\<close>

theorem for_each_message_visits:
  assumes "list_all wf_item items" and "length trail < 28"
  shows "for_each_message f (stream_bytes items @ trail) acc =
    rfold (\<lambda>a (t, r). f t r a) acc (stream_records items)"
  using assms by (rule for_each_message_stream)

theorem for_each_message_visits_witness:
  "for_each_message (\<lambda>t r a. Inr (a @ [(t, length r)])) (stream_bytes sample_items @ [1, 2, 3]) [] =
     rfold (\<lambda>a (t, r). Inr (a @ [(t, length r)])) [] (stream_records sample_items)"
  by (rule for_each_message_visits) (simp_all add: sample_items_wf)

text \<open>
  The radial stream of a framed chunk is the list of its Message 31 records, each
  decoded, in order; the first record that does not decode is the error of the whole.
\<close>

theorem parse_radial_stream_spec:
  assumes "list_all wf_item items" and "length trail < 28"
  shows "parse_radial_stream (stream_bytes items @ trail) =
    rmap parse_message31 (radial_recs items)"
proof -
  have "parse_radial_stream (stream_bytes items @ trail) =
      rfold (\<lambda>radials (t, r). if t = 31 then rbind (parse_message31 r) (\<lambda>x. Ok (radials @ [x]))
                         else Ok radials) [] (stream_records items)"
    unfolding parse_radial_stream_def by (rule for_each_message_stream [OF assms])
  then show ?thesis by (simp add: rfold_radials radial_recs_def)
qed

theorem parse_radial_stream_spec_witness:
  "parse_radial_stream (stream_bytes sample_items @ []) =
     rmap parse_message31 (radial_recs sample_items)"
  by (rule parse_radial_stream_spec) (simp_all add: sample_items_wf)

text \<open>
  The metadata of a framed chunk is the volume coverage pattern of its last
  Message 5 record, or none when it has no such record.
\<close>

theorem parse_metadata_stream_spec:
  assumes "list_all wf_item items" and "length trail < 28"
  shows "parse_metadata_stream (stream_bytes items @ trail) =
    rbind (rmap parse_vcp (vcp_recs items))
      (\<lambda>vs. Inr \<lparr>vm_vcp = if vs = [] then None else Some (last vs)\<rparr>)"
proof -
  have "parse_metadata_stream (stream_bytes items @ trail) =
      rfold (\<lambda>metadata (t, r). if t = 5 then rbind (parse_vcp r) (\<lambda>v. Ok (metadata\<lparr>vm_vcp := Some v\<rparr>))
                          else Ok metadata) \<lparr>vm_vcp = None\<rparr> (stream_records items)"
    unfolding parse_metadata_stream_def by (rule for_each_message_stream [OF assms])
  then show ?thesis
    by (auto simp: rfold_vcps vcp_recs_def intro!: rbind_cong)
qed

theorem parse_metadata_stream_spec_witness:
  "parse_metadata_stream (stream_bytes sample_items @ [0]) =
     rbind (rmap parse_vcp (vcp_recs sample_items))
       (\<lambda>vs. Inr \<lparr>vm_vcp = if vs = [] then None else Some (last vs)\<rparr>)"
  by (rule parse_metadata_stream_spec) (simp_all add: sample_items_wf)

text \<open>
  A stream that ends inside a Message 31 record is refused as truncated, once the
  records before the cut have been accepted: the radials of a cut chunk are never
  reported as if the chunk were whole.
\<close>

theorem parse_radial_stream_truncated:
  assumes "list_all wf_item items" and "rmap parse_message31 (radial_recs items) = Inr rs"
    and "28 \<le> length r" and "length r < 12 + 2 * unat (u16_at r 12)" and "u8_at r 15 = 31"
  shows "parse_radial_stream (stream_bytes items @ r) = Inl (Truncated ''msg31 record slice'')"
proof -
  let ?f = "\<lambda>msg_type record radials. if msg_type = 31 then
              rbind (parse_message31 record) (\<lambda>x. Ok (radials @ [x])) else Ok radials"
  have "rfold (\<lambda>a (t, r). ?f t r a) [] (stream_records items) = Inr rs"
    using rfold_radials [of "[]" "stream_records items"] assms(2) by (simp add: radial_recs_def)
  then show ?thesis
    using walk_items [OF assms(1), of ?f "[]" r "[]"]
      walk_truncated [OF assms(3-5), of ?f "stream_bytes items"]
    by (simp add: parse_radial_stream_def for_each_message_def)
qed

theorem parse_radial_stream_truncated_witness:
  "parse_radial_stream (stream_bytes [Skip_Block sample_skip] @ take 100 sample_record) =
     Inl (Truncated ''msg31 record slice'')"
proof (rule parse_radial_stream_truncated)
  show "list_all wf_item [Skip_Block sample_skip]"
    using sample_items_wf by (simp add: sample_items_def)
  show "rmap parse_message31 (radial_recs [Skip_Block sample_skip]) = Inr []"
    by (simp add: radial_recs_def stream_records_def)
  show "28 \<le> length (take 100 sample_record)"
    "length (take 100 sample_record) < 12 + 2 * unat (u16_at (take 100 sample_record) 12)"
    "u8_at (take 100 sample_record) 15 = 31"
    by (simp_all add: sample_record_def take_encode_record length_sample_msg31)
qed

end
