(* ===== verification/Chunk.thy ===== *)
theory Chunk
  imports Message_Walk
begin

text \<open>
  Chunk identification and decompression, \<open>radar-workstation/src/chunk.rs\<close>. The
  bzip2 decoder is code outside the repository: it is the parameter \<open>bz\<close>, which maps
  a compressed block to the bytes that reading it delivers and to the error that
  ends the reading, if one does. The limited \<open>read_to_end\<close> around it, the byte
  budget and the block framing are the source's.
\<close>

section \<open>Constants and errors\<close>

definition VOLUME_HEADER_LEN :: nat where
  "VOLUME_HEADER_LEN = 24"

definition BLOCK_LEN_PREFIX :: nat where
  "BLOCK_LEN_PREFIX = 4"

definition START_SENTINEL :: u32 where
  "START_SENTINEL = 0xFFFFFFFF"

definition MAX_DECOMPRESSED_CHUNK_BYTES :: nat where
  "MAX_DECOMPRESSED_CHUNK_BYTES = 32 * 1024 * 1024"

datatype chunk_kind = Start | Intermediate_Chunk | End

datatype chunk_error =
  TooShort
| UnrecognizedFormat
| KindMismatch chunk_kind chunk_kind
| Decompression io_error
| DecompressedTooLarge nat

section \<open>Detection\<close>

definition detect_chunk_kind :: "bytes \<Rightarrow> chunk_error + chunk_kind" where
  "detect_chunk_kind data =
     (if length data < 8 then Err TooShort
      else if bytes_at data 0 4 = ascii ''AR2V'' then Ok Start
      else if bytes_at data 4 4 = ascii ''BZh9'' then
        (let prefix = u32_at data 0 in
         Ok (if sint prefix < 0 then End else Intermediate_Chunk))
      else if 32 \<le> length data \<and> bytes_at data 28 4 = ascii ''BZh9'' then Ok Start
      else Err UnrecognizedFormat)"

section \<open>Bounded decompression\<close>

type_synonym bz_decoder = "bytes \<Rightarrow> bytes \<times> io_error option"

text \<open>
  \<open>BzDecoder::new(c).take(limit).read_to_end(out)\<close>: once the limit is reached the
  decoder is not read again, so an error behind it is not seen.
\<close>

definition read_to_end_limited :: "bz_decoder \<Rightarrow> nat \<Rightarrow> bytes \<Rightarrow> bytes \<Rightarrow> io_error + bytes" where
  "read_to_end_limited bz limit compressed out =
     (case bz compressed of (delivered, failure) \<Rightarrow>
        if limit \<le> length delivered then Ok (out @ take limit delivered)
        else (case failure of None \<Rightarrow> Ok (out @ delivered) | Some e \<Rightarrow> Err e))"

definition map_err :: "('e \<Rightarrow> 'f) \<Rightarrow> 'e + 'a \<Rightarrow> 'f + 'a" where
  "map_err f m = (case m of Inl e \<Rightarrow> Inl (f e) | Inr a \<Rightarrow> Inr a)"

definition decompress_block_bounded ::
  "bz_decoder \<Rightarrow> bytes \<Rightarrow> bytes \<Rightarrow> nat \<Rightarrow> chunk_error + (bytes \<times> nat)" where
  "decompress_block_bounded bz compressed out budget =
     (let before = length out in
      rbind (map_err Decompression (read_to_end_limited bz (budget + 1) compressed out)) (\<lambda>out.
      let produced = length out - before in
      if budget < produced then Err (DecompressedTooLarge MAX_DECOMPRESSED_CHUNK_BYTES)
      else Ok (out, budget - produced)))"

function decompress_blocks_from ::
  "bz_decoder \<Rightarrow> bytes \<Rightarrow> bool \<Rightarrow> nat \<Rightarrow> bytes \<Rightarrow> nat \<Rightarrow> chunk_error + bytes" where
  "decompress_blocks_from bz data has_sentinel offset out budget =
     (if offset + BLOCK_LEN_PREFIX \<le> length data then
        let len_word = u32_at data offset;
            offset = offset + BLOCK_LEN_PREFIX in
        if has_sentinel \<and> len_word = START_SENTINEL then Ok out
        else
          let block_len = unat len_word in
          rbind (ok_or TooShort (slice_get data offset (offset + block_len))) (\<lambda>compressed.
          rbind (decompress_block_bounded bz compressed out budget) (\<lambda>(out, budget).
          decompress_blocks_from bz data has_sentinel (offset + block_len) out budget))
      else Ok out)"
  by auto
termination
  by (relation "measure (\<lambda>(bz, data, s, offset, out, budget). length data - offset)")
    (auto simp: BLOCK_LEN_PREFIX_def)

declare decompress_blocks_from.simps [simp del]

definition decompress_blocks :: "bz_decoder \<Rightarrow> bytes \<Rightarrow> bool \<Rightarrow> chunk_error + bytes" where
  "decompress_blocks bz data has_sentinel =
     decompress_blocks_from bz data has_sentinel 0 [] MAX_DECOMPRESSED_CHUNK_BYTES"

definition decompress_chunk :: "bz_decoder \<Rightarrow> bytes \<Rightarrow> chunk_kind \<Rightarrow> chunk_error + bytes" where
  "decompress_chunk bz data expected =
     rbind (detect_chunk_kind data) (\<lambda>detected.
     if detected \<noteq> expected then Err (KindMismatch expected detected)
     else (case detected of
       Start \<Rightarrow>
         if length data < VOLUME_HEADER_LEN + BLOCK_LEN_PREFIX then Err TooShort
         else decompress_blocks bz (drop VOLUME_HEADER_LEN data) True
     | Intermediate_Chunk \<Rightarrow> decompress_blocks bz data False
     | End \<Rightarrow>
         if length data < BLOCK_LEN_PREFIX then Err TooShort
         else
           let prefix = u32_at data 0;
               block_len = nat \<bar>sint prefix\<bar> in
           rbind (ok_or TooShort (slice_get data BLOCK_LEN_PREFIX (BLOCK_LEN_PREFIX + block_len)))
             (\<lambda>compressed.
           rbind (decompress_block_bounded bz compressed [] MAX_DECOMPRESSED_CHUNK_BYTES)
             (\<lambda>(out, _). Ok out))))"

section \<open>The budget\<close>

lemma decompress_block_bounded_ok:
  assumes "decompress_block_bounded bz c out budget = Inr (out', budget')"
  shows "length out' + budget' = length out + budget"
proof -
  obtain d e where bz: "bz c = (d, e)" by (cases "bz c")
  show ?thesis
    using assms
    by (auto simp: decompress_block_bounded_def read_to_end_limited_def bz Let_def map_err_def
        rbind_eq_Inr_iff split: if_splits option.splits sum.splits)
qed

lemma decompress_blocks_from_bound:
  "decompress_blocks_from bz data s offset out budget = Inr res \<Longrightarrow>
   length res \<le> length out + budget"
proof (induction bz data s offset out budget rule: decompress_blocks_from.induct)
  case (1 bz data s offset out budget)
  show ?case
  proof (cases "offset + BLOCK_LEN_PREFIX \<le> length data \<and>
      \<not> (s \<and> u32_at data offset = START_SENTINEL)")
    case False
    with "1.prems" show ?thesis
      by (auto simp: decompress_blocks_from.simps [of bz data s offset] Let_def split: if_splits)
  next
    case True
    let ?off = "offset + BLOCK_LEN_PREFIX" and ?len = "unat (u32_at data offset)"
    obtain c out' budget' where c: "slice_get data ?off (?off + ?len) = Some c"
      and blk: "decompress_block_bounded bz c out budget = Inr (out', budget')"
      and rest: "decompress_blocks_from bz data s (?off + ?len) out' budget' = Inr res"
      using "1.prems" True
      by (auto simp: decompress_blocks_from.simps [of bz data s offset] Let_def
          rbind_eq_Inr_iff ok_or_def split: option.splits if_splits)
    have "length res \<le> length out' + budget'"
      by (rule "1.IH" [OF _ refl refl _ refl _ blk refl]) (use True c rest in auto)
    with decompress_block_bounded_ok [OF blk] show ?thesis by simp
  qed
qed

section \<open>Chunks as they are written\<close>

definition enc_block :: "bytes \<Rightarrow> bytes" where
  "enc_block c = be_bytes 4 (length c) @ c"

fun encode_chunk :: "chunk_kind \<Rightarrow> bytes \<Rightarrow> bytes list \<Rightarrow> bytes \<Rightarrow> bytes" where
  "encode_chunk Start hdr cs tail =
     hdr @ concat (map enc_block cs) @ be_bytes 4 0xFFFFFFFF @ tail"
| "encode_chunk Intermediate_Chunk hdr cs tail = concat (map enc_block cs) @ tail"
| "encode_chunk End hdr cs tail = be_bytes 4 (2 ^ 32 - length (hd cs)) @ hd cs @ tail"

text \<open>
  Block lengths below a gibibyte; the volume header starts with its magic, the first
  block of the other kinds with the bzip2 one; an intermediate chunk has fewer than
  four bytes after its last block, an end chunk exactly one block.
\<close>

fun wf_chunk :: "chunk_kind \<Rightarrow> bytes \<Rightarrow> bytes list \<Rightarrow> bytes \<Rightarrow> bool" where
  "wf_chunk Start hdr cs tail =
     (length hdr = 24 \<and> bytes_at hdr 0 4 = ascii ''AR2V'' \<and> (\<forall>c\<in>set cs. length c < 2 ^ 30))"
| "wf_chunk Intermediate_Chunk hdr cs tail =
     (cs \<noteq> [] \<and> 4 \<le> length (hd cs) \<and> bytes_at (hd cs) 0 4 = ascii ''BZh9'' \<and>
      (\<forall>c\<in>set cs. length c < 2 ^ 30) \<and> length tail < 4)"
| "wf_chunk End hdr cs tail =
     (length cs = 1 \<and> 4 \<le> length (hd cs) \<and> bytes_at (hd cs) 0 4 = ascii ''BZh9'' \<and>
      length (hd cs) < 2 ^ 30)"

definition bz_good :: "bz_decoder \<Rightarrow> bytes list \<Rightarrow> bool" where
  "bz_good bz cs = ((\<forall>c\<in>set cs. snd (bz c) = None) \<and>
     length (concat (map (fst \<circ> bz) cs)) \<le> MAX_DECOMPRESSED_CHUNK_BYTES)"

lemma u32_at_be_bytes:
  "n < 2 ^ 32 \<Longrightarrow> u32_at (be_bytes 4 n @ rest) 0 = of_nat n"
  by (simp add: u32_at_def codec_simps be_nat_be_bytes)

lemma block_good:
  assumes "snd (bz c) = None" "length (fst (bz c)) \<le> budget"
  shows "decompress_block_bounded bz c out budget =
    Inr (out @ fst (bz c), budget - length (fst (bz c)))"
  using assms
  by (cases "bz c") (simp add: decompress_block_bounded_def read_to_end_limited_def map_err_def)

lemma blocks_good:
  assumes "\<forall>c\<in>set cs. snd (bz c) = None" "\<forall>c\<in>set cs. length c < 2 ^ 30"
    "length (concat (map (fst \<circ> bz) cs)) \<le> budget"
  shows "decompress_blocks_from bz (pre @ concat (map enc_block cs) @ rest) s (length pre) out budget =
    decompress_blocks_from bz (pre @ concat (map enc_block cs) @ rest) s
      (length (pre @ concat (map enc_block cs))) (out @ concat (map (fst \<circ> bz) cs))
      (budget - length (concat (map (fst \<circ> bz) cs)))"
  using assms
proof (induction cs arbitrary: pre out budget)
  case Nil
  then show ?case by simp
next
  case (Cons c cs)
  let ?data = "pre @ be_bytes 4 (length c) @ c @ concat (map enc_block cs) @ rest"
  have len: "length c < 2 ^ 30" using Cons.prems by simp
  have word: "u32_at ?data (length pre) = of_nat (length c)"
    using u32_at_be_bytes [of "length c"] len by (simp add: codec_simps)
  have unat: "unat (of_nat (length c) :: u32) = length c"
    using len by (simp add: unat_of_nat)
  have "u32_at ?data (length pre) \<noteq> START_SENTINEL"
  proof
    assume "u32_at ?data (length pre) = START_SENTINEL"
    then have "length c = unat START_SENTINEL" using word unat by simp
    with len show False by (simp add: START_SENTINEL_def)
  qed
  moreover have "slice_get ?data (length pre + 4) (length pre + 4 + length c) = Some c"
    using slice_get_append [of "pre @ be_bytes 4 (length c)"] by simp
  ultimately have "decompress_blocks_from bz ?data s (length pre) out budget =
      decompress_blocks_from bz ?data s (length (pre @ be_bytes 4 (length c) @ c))
        (out @ fst (bz c)) (budget - length (fst (bz c)))"
    using word unat block_good [of bz c budget out] Cons.prems
    by (simp add: decompress_blocks_from.simps [of bz _ s "length pre"] BLOCK_LEN_PREFIX_def
        Let_def add.assoc)
  moreover have "decompress_blocks_from bz ?data s (length (pre @ be_bytes 4 (length c) @ c))
        (out @ fst (bz c)) (budget - length (fst (bz c))) =
      decompress_blocks_from bz ?data s
        (length (pre @ be_bytes 4 (length c) @ c @ concat (map enc_block cs)))
        (out @ fst (bz c) @ concat (map (fst \<circ> bz) cs))
        (budget - length (fst (bz c)) - length (concat (map (fst \<circ> bz) cs)))"
    using Cons.IH [of "budget - length (fst (bz c))" "pre @ be_bytes 4 (length c) @ c" "out @ fst (bz c)"]
      Cons.prems by (simp add: comp_def)
  moreover have "concat (map enc_block (c # cs)) = be_bytes 4 (length c) @ c @ concat (map enc_block cs)"
    by (simp add: enc_block_def)
  moreover have "concat (map (fst \<circ> bz) (c # cs)) = fst (bz c) @ concat (map (fst \<circ> bz) cs)"
    by simp
  ultimately show ?case by (simp only: append_assoc length_append diff_diff_left)
qed

lemma be_bytes_not_AR2V:
  assumes "n < 2 ^ 32" "n < 2 ^ 30 \<or> 3 * 2 ^ 30 < n"
  shows "be_bytes 4 n \<noteq> ascii ''AR2V''"
proof
  assume "be_bytes 4 n = ascii ''AR2V''"
  then have "n = be_nat (ascii ''AR2V'')"
    using be_nat_be_bytes [of n 4] assms(1) by simp
  then have "n = 1095905878" by (simp add: ascii_def be_nat_def)
  with assms(2) show False by simp
qed

lemma sint_of_nat_small: "n < 2 ^ 31 \<Longrightarrow> sint (of_nat n :: u32) = int n"
  by (simp add: sint_uint unsigned_of_nat take_bit_nat_eq_self signed_take_bit_int_eq_self)

lemma sint_neg_length:
  assumes "0 < n" "n < 2 ^ 31"
  shows "sint (of_nat (2 ^ 32 - n) :: u32) = - int n"
proof -
  have zero: "(of_nat (2 ^ 32) :: u32) = 0"
    by simp
  have "(of_nat (2 ^ 32 - n) :: u32) = of_nat (2 ^ 32) - of_nat n"
    using assms(2) by (intro of_nat_diff) simp
  also have "\<dots> = word_of_int (- int n)"
    unfolding zero by (simp add: wi_hom_neg [symmetric])
  finally have "(of_nat (2 ^ 32 - n) :: u32) = word_of_int (- int n)" .
  then show ?thesis
    using assms signed_take_bit_int_eq_self [of 31 "- int n"]
    by (simp only: sint_sbintrunc') simp
qed

lemma u32_prefix:
  assumes "n < 2 ^ 32"
  shows "u32_at (be_bytes 4 n @ rest) 0 = of_nat n" "bytes_at (be_bytes 4 n @ rest) 0 4 = be_bytes 4 n"
    "bytes_at (be_bytes 4 n @ c @ rest) 4 4 = bytes_at (c @ rest) 0 4"
  using assms by (simp_all add: u32_at_be_bytes codec_simps)

lemma bytes_at_prefix: "off + n \<le> length a \<Longrightarrow> bytes_at (a @ b) off n = bytes_at a off n"
  by (simp add: bytes_at_def)

lemma detect_encoded:
  assumes "wf_chunk k hdr cs tail"
  shows "detect_chunk_kind (encode_chunk k hdr cs tail) = Inr k"
proof (cases k)
  case Start
  then show ?thesis
    using assms by (simp add: detect_chunk_kind_def bytes_at_prefix)
next
  case Intermediate_Chunk
  then obtain c cs' where cs: "cs = c # cs'" and c: "4 \<le> length c" "bytes_at c 0 4 = ascii ''BZh9''"
    "length c < 2 ^ 30"
    using assms by (cases cs) auto
  have "be_bytes 4 (length c) \<noteq> ascii ''AR2V''"
    using c(3) by (intro be_bytes_not_AR2V) simp_all
  moreover have "sint (of_nat (length c) :: u32) = int (length c)"
    using c(3) by (intro sint_of_nat_small) simp
  ultimately show ?thesis
    using c Intermediate_Chunk
    by (simp add: cs enc_block_def detect_chunk_kind_def u32_prefix bytes_at_prefix bytes_at_here)
next
  case End
  then obtain c where cs: "cs = [c]" and c: "4 \<le> length c" "bytes_at c 0 4 = ascii ''BZh9''"
    "length c < 2 ^ 30"
    using assms by (cases cs) auto
  have "be_bytes 4 (2 ^ 32 - length c) \<noteq> ascii ''AR2V''"
    using c(1,3) by (intro be_bytes_not_AR2V, simp_all) arith
  moreover have "sint (of_nat (2 ^ 32 - length c) :: u32) = - int (length c)"
    using c(1,3) by (intro sint_neg_length) auto
  moreover have "2 ^ 32 - length c < 2 ^ 32" using c(1) by simp
  moreover have "c \<noteq> []" using c(1) by auto
  ultimately show ?thesis
    using c End
    by (simp add: cs detect_chunk_kind_def u32_prefix bytes_at_prefix bytes_at_here del: of_nat_diff)
qed

lemma decompress_encoded:
  assumes wf: "wf_chunk k hdr cs tail" and bz: "bz_good bz cs"
  shows "decompress_chunk bz (encode_chunk k hdr cs tail) k = Inr (concat (map (fst \<circ> bz) cs))"
proof (cases k)
  case Start
  let ?body = "concat (map enc_block cs) @ be_bytes 4 0xFFFFFFFF @ tail"
  have "u32_at ?body (length (concat (map enc_block cs))) = START_SENTINEL"
    using u32_at_be_bytes [of "0xFFFFFFFF" tail] by (simp add: codec_simps START_SENTINEL_def)
  then have "decompress_blocks_from bz ?body True (length (concat (map enc_block cs))) out b = Inr out"
    for out b by (simp add: decompress_blocks_from.simps BLOCK_LEN_PREFIX_def)
  then have "decompress_blocks bz ?body True = Inr (concat (map (fst \<circ> bz) cs))"
    using blocks_good [where cs = cs and bz = bz and budget = MAX_DECOMPRESSED_CHUNK_BYTES and pre = "[]"] wf bz Start
    by (simp add: decompress_blocks_def bz_good_def)
  then show ?thesis
    using detect_encoded [OF wf] wf Start
    by (simp add: decompress_chunk_def VOLUME_HEADER_LEN_def BLOCK_LEN_PREFIX_def)
next
  case Intermediate_Chunk
  let ?body = "concat (map enc_block cs) @ tail"
  have "decompress_blocks_from bz ?body False (length (concat (map enc_block cs))) out b = Inr out"
    for out b using wf Intermediate_Chunk by (simp add: decompress_blocks_from.simps BLOCK_LEN_PREFIX_def)
  then have "decompress_blocks bz ?body False = Inr (concat (map (fst \<circ> bz) cs))"
    using blocks_good [where cs = cs and bz = bz and budget = MAX_DECOMPRESSED_CHUNK_BYTES and pre = "[]"] wf bz Intermediate_Chunk
    by (simp add: decompress_blocks_def bz_good_def)
  then show ?thesis
    using detect_encoded [OF wf] Intermediate_Chunk by (simp add: decompress_chunk_def)
next
  case End
  then obtain c where cs: "cs = [c]" and c: "4 \<le> length c" "length c < 2 ^ 30"
    using wf by (cases cs) auto
  have "sint (of_nat (2 ^ 32 - length c) :: u32) = - int (length c)"
    using c by (intro sint_neg_length) auto
  moreover have "2 ^ 32 - length c < 2 ^ 32" using c(1) by simp
  moreover have "slice_get (be_bytes 4 (2 ^ 32 - length c) @ c @ tail) 4 (4 + length c) = Some c"
    by (rule slice_get_append) simp_all
  moreover have "decompress_block_bounded bz c [] MAX_DECOMPRESSED_CHUNK_BYTES =
      Inr (fst (bz c), MAX_DECOMPRESSED_CHUNK_BYTES - length (fst (bz c)))"
    using block_good [of bz c MAX_DECOMPRESSED_CHUNK_BYTES "[]"] bz by (simp add: cs bz_good_def)
  ultimately show ?thesis
    using detect_encoded [OF wf] End
    by (simp add: cs decompress_chunk_def BLOCK_LEN_PREFIX_def u32_prefix Let_def del: of_nat_diff)
qed

section \<open>Properties\<close>

text \<open>
  Whatever the chunk's bytes and whatever the decompressor delivers, a chunk that
  is accepted has the kind its caller expected, and its message stream is at most
  32 MiB, summed over all its blocks: a decompression bomb is an error, not an
  allocation.
\<close>

theorem decompress_chunk_bounded:
  assumes "decompress_chunk bz data expected = Inr out"
  shows "length out \<le> 32 * 1024 * 1024 \<and> detect_chunk_kind data = Inr expected"
proof -
  have d: "detect_chunk_kind data = Inr expected"
    using assms by (auto simp: decompress_chunk_def rbind_eq_Inr_iff split: if_splits)
  have blocks: "decompress_blocks bz x s = Inr out \<Longrightarrow> length out \<le> 33554432" for x s
    unfolding decompress_blocks_def
    by (drule decompress_blocks_from_bound) (simp add: MAX_DECOMPRESSED_CHUNK_BYTES_def)
  have block: "decompress_block_bounded bz c [] MAX_DECOMPRESSED_CHUNK_BYTES = Inr (out, b) \<Longrightarrow>
      length out \<le> 33554432" for c b
    by (drule decompress_block_bounded_ok) (simp add: MAX_DECOMPRESSED_CHUNK_BYTES_def)
  have "length out \<le> 32 * 1024 * 1024"
    using assms d
    by (auto simp: decompress_chunk_def rbind_eq_Inr_iff Let_def
        split: chunk_kind.splits if_splits intro: blocks block)
  with d show ?thesis by simp
qed

definition sample_bz :: bz_decoder where
  "sample_bz c = ([1, 2, 3], None)"

definition sample_compressed :: bytes where
  "sample_compressed = ascii ''BZh9'' @ [0, 0]"

lemma sample_chunk_wf:
  "wf_chunk End [] [sample_compressed] [7]" "bz_good sample_bz [sample_compressed]"
  "wf_chunk Start (ascii ''AR2V0006.'' @ replicate 15 0) [sample_compressed, [1]] [7]"
  "bz_good sample_bz [sample_compressed, [1]]"
  by (simp_all add: sample_compressed_def ascii_def bytes_at_def bz_good_def sample_bz_def
      MAX_DECOMPRESSED_CHUNK_BYTES_def)

theorem decompress_chunk_bounded_witness:
  "length ([1, 2, 3] :: bytes) \<le> 32 * 1024 * 1024 \<and>
   detect_chunk_kind (encode_chunk End [] [sample_compressed] [7]) = Inr End"
  by (rule decompress_chunk_bounded [of sample_bz])
    (use decompress_encoded [OF sample_chunk_wf(1,2)] in \<open>simp add: sample_bz_def\<close>)

text \<open>
  C6: a chunk framed as the service frames it, of any of the three kinds, decompresses
  to the concatenation of what its blocks decompress to; the volume header, the length
  words, the sentinel and anything behind it contribute nothing.
\<close>

theorem decompress_chunk_roundtrip:
  assumes "wf_chunk k hdr cs tail" and "bz_good bz cs"
  shows "decompress_chunk bz (encode_chunk k hdr cs tail) k = Inr (concat (map (fst \<circ> bz) cs))"
  using assms by (rule decompress_encoded)

theorem decompress_chunk_roundtrip_witness:
  "decompress_chunk sample_bz
     (encode_chunk Start (ascii ''AR2V0006.'' @ replicate 15 0) [sample_compressed, [1]] [7]) Start =
   Inr (concat (map (fst \<circ> sample_bz) [sample_compressed, [1]]))"
  by (rule decompress_chunk_roundtrip [OF sample_chunk_wf(3,4)])

end
