(* ===== verification/Assembly.thy ===== *)
theory Assembly
  imports Chunk "HOL-Library.Sublist"
begin

text \<open>
  The volume assembly state machine, \<open>assembly/mod.rs\<close> and \<open>assembly/context.rs\<close>: a
  pure core whose operations take the time as an argument and return the new state
  with the events they push. Times are naturals (nanoseconds from an arbitrary
  origin), so that \<open>duration_since\<close>, which saturates at zero, is natural
  subtraction. The iteration order of the hash map of late counts is not determined
  by the source: it is the parameter \<open>enum\<close> of \<open>hash_order\<close>.
\<close>

section \<open>Volume identity\<close>

datatype volume_id = Volume_Id (v_julian_date: u16) (v_scan_time_ms: u32)

instantiation volume_id :: linorder
begin

definition less_eq_volume_id :: "volume_id \<Rightarrow> volume_id \<Rightarrow> bool" where
  "less_eq_volume_id a b =
     (v_julian_date a < v_julian_date b \<or>
      v_julian_date a = v_julian_date b \<and> v_scan_time_ms a \<le> v_scan_time_ms b)"

definition less_volume_id :: "volume_id \<Rightarrow> volume_id \<Rightarrow> bool" where
  "less_volume_id a b =
     (v_julian_date a < v_julian_date b \<or>
      v_julian_date a = v_julian_date b \<and> v_scan_time_ms a < v_scan_time_ms b)"

instance
  by standard (auto simp: less_eq_volume_id_def less_volume_id_def intro: volume_id.expand)

end

section \<open>Volume context\<close>

record volume_context =
  vc_site_id :: bytes
  vc_scan_time_ms :: u32
  vc_julian_date :: u16
  vc_vcp :: "vcp_definition option"
  vc_rvol_vcp_number :: "u16 option"
  vc_latitude :: fp
  vc_longitude :: fp
  vc_site_amsl_m :: i16

definition context_default :: volume_context where
  "context_default =
     \<lparr>vc_site_id = [0, 0, 0, 0], vc_scan_time_ms = 0, vc_julian_date = 0, vc_vcp = None,
      vc_rvol_vcp_number = None, vc_latitude = FFin False 0, vc_longitude = FFin False 0,
      vc_site_amsl_m = 0\<rparr>"

definition ctx_vcp_number :: "volume_context \<Rightarrow> u16" where
  "ctx_vcp_number c =
     (case map_option vd_vcp_number (vc_vcp c) of
        Some n \<Rightarrow> n
      | None \<Rightarrow> (case vc_rvol_vcp_number c of Some n \<Rightarrow> n | None \<Rightarrow> 0))"

definition apply_vcp :: "vcp_definition \<Rightarrow> volume_context \<Rightarrow> volume_context" where
  "apply_vcp v c = c\<lparr>vc_vcp := Some v\<rparr>"

definition apply_radial :: "radial \<Rightarrow> bool \<Rightarrow> volume_context \<Rightarrow> volume_context" where
  "apply_radial r is_first c =
     (let c = (if is_first
               then c\<lparr>vc_site_id := r_site_id r, vc_scan_time_ms := r_scan_time_ms r,
                      vc_julian_date := r_julian_date r\<rparr>
               else c)
      in case r_site_parameters r of
           None \<Rightarrow> c
         | Some sp \<Rightarrow>
             c\<lparr>vc_rvol_vcp_number := Some (sp_vcp_number sp), vc_latitude := sp_latitude sp,
               vc_longitude := sp_longitude sp, vc_site_amsl_m := sp_site_amsl_m sp\<rparr>)"

section \<open>The assembler\<close>

definition WATCHDOG_TIMEOUT_DEFAULT :: nat where
  "WATCHDOG_TIMEOUT_DEFAULT = 12 * 60 * 1000000000"

datatype assembly_state = Idle | AwaitingData | Accumulating

datatype assembly_event =
  SweepClosed sweep volume_id u16
| VolumeClosed volume_scan
| LateRadialsDiscarded u8 nat
| MissingStartChunk

record sweep_builder =
  sb_elevation_number :: u8
  sb_elevation_deg :: fp
  sb_nyquist_velocity_mps :: "fp option"
  sb_unambiguous_range_km :: "fp option"
  sb_radials :: "radial list"

definition builder_start :: "radial \<Rightarrow> sweep_builder" where
  "builder_start r =
     \<lparr>sb_elevation_number = r_elevation_number r, sb_elevation_deg = r_elevation_deg r,
      sb_nyquist_velocity_mps = r_nyquist_velocity_mps r,
      sb_unambiguous_range_km = r_unambiguous_range_km r, sb_radials = [r]\<rparr>"

definition builder_push :: "radial \<Rightarrow> sweep_builder \<Rightarrow> sweep_builder" where
  "builder_push r b = b\<lparr>sb_radials := sb_radials b @ [r]\<rparr>"

definition builder_close :: "sweep_builder \<Rightarrow> bool \<Rightarrow> sweep" where
  "builder_close b whole =
     \<lparr>sw_elevation_number = sb_elevation_number b, sw_elevation_deg = sb_elevation_deg b,
      sw_nyquist_velocity_mps = sb_nyquist_velocity_mps b,
      sw_unambiguous_range_km = sb_unambiguous_range_km b, sw_radials = sb_radials b,
      sw_complete = whole\<rparr>"

record assembler =
  a_watchdog_timeout :: nat
  a_state :: assembly_state
  a_context :: volume_context
  a_current_sweep :: "sweep_builder option"
  a_closed_sweeps :: "sweep list"
  a_closed_elevations :: "u8 set"
  a_last_activity :: "nat option"

definition assembler_new :: "nat \<Rightarrow> assembler" where
  "assembler_new timeout =
     \<lparr>a_watchdog_timeout = timeout, a_state = Idle, a_context = context_default,
      a_current_sweep = None, a_closed_sweeps = [], a_closed_elevations = {},
      a_last_activity = None\<rparr>"

definition assembler_reset :: "assembler \<Rightarrow> assembler" where
  "assembler_reset a =
     a\<lparr>a_state := Idle, a_context := context_default, a_current_sweep := None,
       a_closed_sweeps := [], a_closed_elevations := {}, a_last_activity := None\<rparr>"

definition close_sweep ::
  "sweep_builder \<Rightarrow> bool \<Rightarrow> assembler \<Rightarrow> assembler \<times> assembly_event list" where
  "close_sweep b whole a =
     (let s = builder_close b whole;
          volume = Volume_Id (vc_julian_date (a_context a)) (vc_scan_time_ms (a_context a))
      in (a\<lparr>a_closed_elevations := insert (sb_elevation_number b) (a_closed_elevations a),
            a_closed_sweeps := a_closed_sweeps a @ [s]\<rparr>,
          [SweepClosed s volume (ctx_vcp_number (a_context a))]))"

definition finish_volume :: "volume_status \<Rightarrow> assembler \<Rightarrow> assembler \<times> assembly_event list" where
  "finish_volume status a =
     (let c = a_context a;
          volume = \<lparr>vs_site_id = vc_site_id c, vs_scan_time_ms = vc_scan_time_ms c,
                    vs_julian_date = vc_julian_date c, vs_vcp_number = ctx_vcp_number c,
                    vs_latitude = vc_latitude c, vs_longitude = vc_longitude c,
                    vs_site_amsl_m = vc_site_amsl_m c, vs_sweeps = a_closed_sweeps a,
                    vs_status = status\<rparr>
      in (a\<lparr>a_closed_sweeps := [], a_state := Idle, a_context := context_default,
            a_closed_elevations := {}\<rparr>,
          [VolumeClosed volume]))"

text \<open>\<open>if let Some(builder) = self.current_sweep.take()\<close> followed by a close.\<close>

definition take_and_close :: "bool \<Rightarrow> assembler \<Rightarrow> assembler \<times> assembly_event list" where
  "take_and_close whole a =
     (case a_current_sweep a of
        None \<Rightarrow> (a, [])
      | Some b \<Rightarrow> close_sweep b whole (a\<lparr>a_current_sweep := None\<rparr>))"

definition begin_new_volume :: "assembler \<Rightarrow> assembler \<times> assembly_event list" where
  "begin_new_volume a =
     (let (a, events) =
        (if a_state a = Accumulating then
           (let (a, ev1) = take_and_close False a;
                (a, ev2) = finish_volume Superseded a
            in (a, ev1 @ ev2))
         else (a, []))
      in (a\<lparr>a_context := context_default, a_current_sweep := None, a_closed_sweeps := [],
            a_closed_elevations := {}, a_state := AwaitingData\<rparr>, events))"

definition on_start_chunk ::
  "vcp_definition option \<Rightarrow> nat \<Rightarrow> assembler \<Rightarrow> assembler \<times> assembly_event list" where
  "on_start_chunk vcp now a =
     (let (a, events) = begin_new_volume (a\<lparr>a_last_activity := Some now\<rparr>)
      in (case vcp of
            None \<Rightarrow> a
          | Some v \<Rightarrow> a\<lparr>a_context := apply_vcp v (a_context a)\<rparr>, events))"

definition ingest_radial :: "radial \<Rightarrow> assembler \<Rightarrow> assembler \<times> assembly_event list" where
  "ingest_radial r a =
     (let is_closure_status =
            (r_radial_status r = EndOfElevation \<or> r_radial_status r = EndOfVolume);
          (a, ev1) =
            (case a_current_sweep a of
               None \<Rightarrow> (a\<lparr>a_current_sweep := Some (builder_start r)\<rparr>, [])
             | Some b \<Rightarrow>
                 if sb_elevation_number b = r_elevation_number r
                 then (a\<lparr>a_current_sweep := Some (builder_push r b)\<rparr>, [])
                 else (let (a, ev) = close_sweep b False (a\<lparr>a_current_sweep := None\<rparr>)
                       in (a\<lparr>a_current_sweep := Some (builder_start r)\<rparr>, ev)));
          (a, ev2) = (if is_closure_status then take_and_close True a else (a, []))
      in (a, ev1 @ ev2))"

text \<open>The counters of the late radials, in the order of their first insertion.\<close>

type_synonym late_counts = "(u8 \<times> nat) list"

definition chunk_radial ::
  "radial \<Rightarrow> assembler \<times> late_counts \<times> assembly_event list \<Rightarrow>
   assembler \<times> late_counts \<times> assembly_event list" where
  "chunk_radial r = (\<lambda>(a, late, events).
     if r_elevation_number r \<in> a_closed_elevations a
     then (a, bump (r_elevation_number r) late, events)
     else
       (let is_first = (a_state a = AwaitingData);
            a = (if is_first then a\<lparr>a_state := Accumulating\<rparr> else a);
            a = a\<lparr>a_context := apply_radial r is_first (a_context a)\<rparr>;
            (a, ev) = ingest_radial r a
        in (a, late, events @ ev)))"

definition on_chunk ::
  "(late_counts \<Rightarrow> late_counts) \<Rightarrow> chunk_kind \<Rightarrow> radial list \<Rightarrow> nat \<Rightarrow> assembler \<Rightarrow>
   assembler \<times> assembly_event list" where
  "on_chunk enum kind radials now a =
     (let a = a\<lparr>a_last_activity := Some now\<rparr> in
      if kind = Start then begin_new_volume a
      else
        (let (a, ev0) = (if a_state a = Idle then (a\<lparr>a_state := AwaitingData\<rparr>, [MissingStartChunk])
                         else (a, []));
             (a, late, events) = fold chunk_radial radials (a, [], ev0);
             events = events @ map (\<lambda>(e, n). LateRadialsDiscarded e n) (hash_order enum late)
         in if kind = End then
              (let (a, ev1) = take_and_close False a;
                   (a, ev2) = finish_volume Complete a
               in (a, events @ ev1 @ ev2))
            else (a, events)))"

definition on_tick :: "nat \<Rightarrow> assembler \<Rightarrow> assembler \<times> assembly_event list" where
  "on_tick now a =
     (if a_state a = Idle then (a, [])
      else (case a_last_activity a of
              None \<Rightarrow> (a, [])
            | Some t0 \<Rightarrow>
                if a_watchdog_timeout a \<le> now - t0 then
                  (let (a, ev1) = take_and_close False a;
                       (a, ev2) = finish_volume TimedOut a
                   in (a, ev1 @ ev2))
                else (a, [])))"

section \<open>The task around it\<close>

record chunk_envelope =
  ce_raw_bytes :: bytes
  ce_kind :: chunk_kind

definition decode_and_ingest ::
  "bz_decoder \<Rightarrow> (late_counts \<Rightarrow> late_counts) \<Rightarrow> chunk_envelope \<Rightarrow> nat \<Rightarrow> assembler \<Rightarrow>
   assembler \<times> assembly_event list" where
  "decode_and_ingest bz enum envelope now a =
     (case decompress_chunk bz (ce_raw_bytes envelope) (ce_kind envelope) of
        Inl _ \<Rightarrow> (a, [])
      | Inr decompressed \<Rightarrow>
          if ce_kind envelope = Start then
            (let vcp = (case parse_metadata_stream decompressed of
                          Inl _ \<Rightarrow> None | Inr m \<Rightarrow> vm_vcp m)
             in on_start_chunk vcp now a)
          else
            (case parse_radial_stream decompressed of
               Inl _ \<Rightarrow> (a, [])
             | Inr radials \<Rightarrow> on_chunk enum (ce_kind envelope) radials now a))"

text \<open>
  One turn of \<open>run\<close>'s select loop: a chunk or a tick, each with the time it is handled
  at. \<open>assembler_reset\<close> is not reached from the loop.
\<close>

datatype asm_input = Chunk_In chunk_envelope nat | Tick_In nat

fun asm_step ::
  "bz_decoder \<Rightarrow> (late_counts \<Rightarrow> late_counts) \<Rightarrow> assembler \<Rightarrow> asm_input \<Rightarrow>
   assembler \<times> assembly_event list" where
  "asm_step bz enum a (Chunk_In envelope now) = decode_and_ingest bz enum envelope now a"
| "asm_step bz enum a (Tick_In now) = on_tick now a"

definition asm_run ::
  "bz_decoder \<Rightarrow> (late_counts \<Rightarrow> late_counts) \<Rightarrow> nat \<Rightarrow> asm_input list \<Rightarrow>
   assembler \<times> assembly_event list" where
  "asm_run bz enum timeout inputs = run_io (asm_step bz enum) (assembler_new timeout) inputs"

section \<open>Invariant\<close>

text \<open>
  A sweep or an open builder holds at least one radial, all of its elevation, with the
  hoisted fields of the first.
\<close>

definition wf_radials :: "u8 \<Rightarrow> fp \<Rightarrow> fp option \<Rightarrow> fp option \<Rightarrow> radial list \<Rightarrow> bool" where
  "wf_radials e deg nyq rng rs =
     (rs \<noteq> [] \<and> list_all (\<lambda>r. r_elevation_number r = e) rs \<and> r_elevation_deg (hd rs) = deg \<and>
      r_nyquist_velocity_mps (hd rs) = nyq \<and> r_unambiguous_range_km (hd rs) = rng)"

definition wf_sweep :: "sweep \<Rightarrow> bool" where
  "wf_sweep s = wf_radials (sw_elevation_number s) (sw_elevation_deg s)
     (sw_nyquist_velocity_mps s) (sw_unambiguous_range_km s) (sw_radials s)"

definition wf_builder :: "sweep_builder \<Rightarrow> bool" where
  "wf_builder b = wf_radials (sb_elevation_number b) (sb_elevation_deg b)
     (sb_nyquist_velocity_mps b) (sb_unambiguous_range_km b) (sb_radials b)"

text \<open>The part of the invariant that holds also between the radials of a chunk.\<close>

definition core_inv :: "assembler \<Rightarrow> bool" where
  "core_inv a =
     (a_closed_elevations a = set (map sw_elevation_number (a_closed_sweeps a)) \<and>
      distinct (map sw_elevation_number (a_closed_sweeps a)) \<and>
      list_all wf_sweep (a_closed_sweeps a) \<and>
      (case a_current_sweep a of
         None \<Rightarrow> True
       | Some b \<Rightarrow> wf_builder b \<and> sb_elevation_number b \<notin> a_closed_elevations a))"

definition asm_inv :: "assembler \<Rightarrow> bool" where
  "asm_inv a =
     (core_inv a \<and>
      (a_state a \<noteq> Accumulating \<longrightarrow> a_current_sweep a = None \<and> a_closed_sweeps a = []) \<and>
      (a_state a = Accumulating \<longrightarrow> a_current_sweep a \<noteq> None \<or> a_closed_sweeps a \<noteq> []) \<and>
      (a_state a = Idle \<longrightarrow> a_context a = context_default))"

text \<open>
  The protocol of the emitted events. The monitor's state is the list of sweeps closed
  and not yet delivered in a volume: a sweep closes once per elevation and volume, a
  volume delivers exactly the sweeps closed since the last one, radials are late only
  for an elevation already closed, and a missing start is reported before any sweep.
\<close>

fun asm_monitor :: "sweep list \<Rightarrow> assembly_event \<Rightarrow> sweep list option" where
  "asm_monitor pending (SweepClosed s v n) =
     (if wf_sweep s \<and> sw_elevation_number s \<notin> set (map sw_elevation_number pending)
      then Some (pending @ [s]) else None)"
| "asm_monitor pending (VolumeClosed vol) =
     (if vs_sweeps vol = pending \<and> vs_status vol \<noteq> InProgress then Some [] else None)"
| "asm_monitor pending (LateRadialsDiscarded e n) =
     (if 0 < n \<and> e \<in> set (map sw_elevation_number pending) then Some pending else None)"
| "asm_monitor pending MissingStartChunk = (if pending = [] then Some pending else None)"

text \<open>The radials an assembler holds, in order.\<close>

definition held :: "assembler \<Rightarrow> radial list" where
  "held a = concat (map sw_radials (a_closed_sweeps a)) @
     (case a_current_sweep a of None \<Rightarrow> [] | Some b \<Rightarrow> sb_radials b)"

lemma wf_builder_start: "wf_builder (builder_start r)"
  by (simp add: wf_builder_def wf_radials_def builder_start_def)

lemma wf_builder_push:
  "wf_builder b \<Longrightarrow> sb_elevation_number b = r_elevation_number r \<Longrightarrow> wf_builder (builder_push r b)"
  by (simp add: wf_builder_def wf_radials_def builder_push_def)

lemma wf_builder_close: "wf_builder b \<Longrightarrow> wf_sweep (builder_close b w)"
  by (simp add: wf_builder_def wf_sweep_def builder_close_def)

lemma asm_inv_new: "asm_inv (assembler_new timeout)"
  by (simp add: asm_inv_def core_inv_def assembler_new_def)

text \<open>Closing the open sweep: nothing is lost, and the protocol goes on.\<close>

lemma take_and_close_step:
  assumes "core_inv a" "take_and_close w a = (a', ev)"
  shows "core_inv a'" "a_current_sweep a' = None" "a_state a' = a_state a"
    "a_context a' = a_context a" "held a' = held a" "a_last_activity a' = a_last_activity a"
    "a_watchdog_timeout a' = a_watchdog_timeout a"
    "a_closed_elevations a \<subseteq> a_closed_elevations a'"
    "monitor asm_monitor (a_closed_sweeps a) ev = Some (a_closed_sweeps a')"
    "a_current_sweep a \<noteq> None \<or> a_closed_sweeps a \<noteq> [] \<Longrightarrow> a_closed_sweeps a' \<noteq> []"
    "\<forall>e\<in>set ev. \<exists>s. e = SweepClosed s
       (Volume_Id (vc_julian_date (a_context a)) (vc_scan_time_ms (a_context a)))
       (ctx_vcp_number (a_context a))"
  using assms
  by (auto simp: take_and_close_def close_sweep_def core_inv_def held_def builder_close_def
      wf_builder_def wf_sweep_def Let_def split: option.splits)

text \<open>One accepted radial: it goes to the end of what is held.\<close>

lemma ingest_radial_step:
  assumes "core_inv a" "r_elevation_number r \<notin> a_closed_elevations a" "ingest_radial r a = (a', ev)"
  shows "core_inv a'" "held a' = held a @ [r]" "a_state a' = a_state a" "a_context a' = a_context a"
    "a_last_activity a' = a_last_activity a" "a_watchdog_timeout a' = a_watchdog_timeout a"
    "a_closed_elevations a \<subseteq> a_closed_elevations a'"
    "monitor asm_monitor (a_closed_sweeps a) ev = Some (a_closed_sweeps a')"
    "a_current_sweep a' \<noteq> None \<or> a_closed_sweeps a' \<noteq> []"
proof -
  obtain a1 ev1 where p: "(case a_current_sweep a of
         None \<Rightarrow> (a\<lparr>a_current_sweep := Some (builder_start r)\<rparr>, [])
       | Some b \<Rightarrow>
           if sb_elevation_number b = r_elevation_number r
           then (a\<lparr>a_current_sweep := Some (builder_push r b)\<rparr>, [])
           else (let (a, ev) = close_sweep b False (a\<lparr>a_current_sweep := None\<rparr>)
                 in (a\<lparr>a_current_sweep := Some (builder_start r)\<rparr>, ev))) = (a1, ev1)"
    by fastforce
  have s1: "core_inv a1" "held a1 = held a @ [r]" "a_state a1 = a_state a" "a_context a1 = a_context a"
    "a_last_activity a1 = a_last_activity a" "a_watchdog_timeout a1 = a_watchdog_timeout a"
    "a_closed_elevations a \<subseteq> a_closed_elevations a1"
    "monitor asm_monitor (a_closed_sweeps a) ev1 = Some (a_closed_sweeps a1)"
    "a_current_sweep a1 \<noteq> None"
    using assms(1,2) p wf_builder_start [of r] wf_builder_push [of _ r] wf_builder_close [of _ False]
    by (auto simp: core_inv_def held_def close_sweep_def Let_def builder_close_def builder_start_def
        builder_push_def split: option.splits if_splits)
  obtain a2 ev2 where q: "(if r_radial_status r = EndOfElevation \<or> r_radial_status r = EndOfVolume
      then take_and_close True a1 else (a1, [])) = (a2, ev2)" by fastforce
  have s2: "core_inv a2" "held a2 = held a1" "a_state a2 = a_state a1" "a_context a2 = a_context a1"
    "a_last_activity a2 = a_last_activity a1" "a_watchdog_timeout a2 = a_watchdog_timeout a1"
    "a_closed_elevations a1 \<subseteq> a_closed_elevations a2"
    "monitor asm_monitor (a_closed_sweeps a1) ev2 = Some (a_closed_sweeps a2)"
    "a_current_sweep a2 \<noteq> None \<or> a_closed_sweeps a2 \<noteq> []"
    using take_and_close_step [OF s1(1), of True a2 ev2] q s1(1,9) by (auto split: if_splits)
  have "a' = a2" "ev = ev1 @ ev2"
    using assms(3) p q by (auto simp: ingest_radial_def Let_def)
  then show "core_inv a'" "held a' = held a @ [r]" "a_state a' = a_state a"
    "a_context a' = a_context a" "a_last_activity a' = a_last_activity a"
    "a_watchdog_timeout a' = a_watchdog_timeout a"
    "a_closed_elevations a \<subseteq> a_closed_elevations a'"
    "monitor asm_monitor (a_closed_sweeps a) ev = Some (a_closed_sweeps a')"
    "a_current_sweep a' \<noteq> None \<or> a_closed_sweeps a' \<noteq> []"
    using s1 s2 by (auto simp: monitor_append_Some)
qed

section \<open>The radial loop\<close>

definition loop_inv :: "sweep list \<Rightarrow> assembler \<times> late_counts \<times> assembly_event list \<Rightarrow> bool" where
  "loop_inv p0 = (\<lambda>(a, late, events).
     core_inv a \<and> monitor asm_monitor p0 events = Some (a_closed_sweeps a) \<and>
     (\<forall>(e, n)\<in>set late. 0 < n \<and> e \<in> a_closed_elevations a) \<and> distinct (map fst late) \<and>
     a_state a \<noteq> Idle \<and>
     (a_state a = AwaitingData \<longrightarrow> a_current_sweep a = None \<and> a_closed_sweeps a = []) \<and>
     (a_state a = Accumulating \<longrightarrow> a_current_sweep a \<noteq> None \<or> a_closed_sweeps a \<noteq> []))"

text \<open>One turn of the loop: the radial is kept at the end or counted late, never both.\<close>

lemma chunk_radial_step:
  assumes "loop_inv p0 (a, late, events)" "chunk_radial r (a, late, events) = (a', late', events')"
  shows "loop_inv p0 (a', late', events')"
    "(held a' = held a @ [r] \<and> late' = late) \<or>
     (held a' = held a \<and> late' = bump (r_elevation_number r) late)"
    "a_last_activity a' = a_last_activity a" "a_watchdog_timeout a' = a_watchdog_timeout a"
    "vc_vcp (a_context a') = vc_vcp (a_context a)"
proof -
  have inv: "core_inv a" "monitor asm_monitor p0 events = Some (a_closed_sweeps a)"
    "\<forall>(e, n)\<in>set late. 0 < n \<and> e \<in> a_closed_elevations a" "distinct (map fst late)"
    "a_state a \<noteq> Idle"
    using assms(1) by (auto simp: loop_inv_def)
  have "loop_inv p0 (a', late', events') \<and>
    ((held a' = held a @ [r] \<and> late' = late) \<or>
     (held a' = held a \<and> late' = bump (r_elevation_number r) late)) \<and>
    a_last_activity a' = a_last_activity a \<and> a_watchdog_timeout a' = a_watchdog_timeout a \<and>
    vc_vcp (a_context a') = vc_vcp (a_context a)"
  proof (cases "r_elevation_number r \<in> a_closed_elevations a")
    case True
    then have "a' = a" "late' = bump (r_elevation_number r) late" "events' = events"
      using assms(2) by (simp_all add: chunk_radial_def)
    then show ?thesis
      using assms(1) True bump_distinct
      by (auto simp: loop_inv_def dest!: bump_mem)
  next
    case False
    define first where "first = (a_state a = AwaitingData)"
    define b where "b = (let a = (if first then a\<lparr>a_state := Accumulating\<rparr> else a)
                         in a\<lparr>a_context := apply_radial r first (a_context a)\<rparr>)"
    obtain ev where ing: "ingest_radial r b = (a', ev)" and l: "late' = late" "events' = events @ ev"
      using assms(2) False by (auto simp: chunk_radial_def b_def first_def Let_def split: prod.splits)
    have b: "core_inv b" "r_elevation_number r \<notin> a_closed_elevations b" "held b = held a"
      "a_closed_sweeps b = a_closed_sweeps a" "a_closed_elevations b = a_closed_elevations a"
      "a_state b = Accumulating" "a_last_activity b = a_last_activity a"
      "a_watchdog_timeout b = a_watchdog_timeout a" "vc_vcp (a_context b) = vc_vcp (a_context a)"
      using inv(1,5) False
      by (cases "a_state a";
          auto simp: b_def first_def core_inv_def held_def Let_def apply_radial_def split: option.splits)+
    note step = ingest_radial_step [OF b(1,2) ing]
    show ?thesis
      using inv step b l by (auto simp: loop_inv_def monitor_append_Some)
  qed
  then show "loop_inv p0 (a', late', events')"
    "(held a' = held a @ [r] \<and> late' = late) \<or>
     (held a' = held a \<and> late' = bump (r_elevation_number r) late)"
    "a_last_activity a' = a_last_activity a" "a_watchdog_timeout a' = a_watchdog_timeout a"
    "vc_vcp (a_context a') = vc_vcp (a_context a)"
    by blast+
qed

text \<open>
  The whole loop: the accepted radials are a subsequence of the chunk's, appended in
  order to what was held; every other one is counted under its elevation.
\<close>

definition of_elev :: "u8 \<Rightarrow> radial list \<Rightarrow> nat" where
  "of_elev e rs = length (filter (\<lambda>r. r_elevation_number r = e) rs)"

lemma chunk_loop:
  assumes "loop_inv p0 (a, late, events)" "fold chunk_radial rs (a, late, events) = (a', late', events')"
  shows "loop_inv p0 (a', late', events') \<and> a_last_activity a' = a_last_activity a \<and>
    a_watchdog_timeout a' = a_watchdog_timeout a \<and> vc_vcp (a_context a') = vc_vcp (a_context a) \<and>
    (\<exists>acc. subseq acc rs \<and> held a' = held a @ acc \<and>
      (\<forall>e. count_of e late' + of_elev e acc = count_of e late + of_elev e rs))"
  using assms
proof (induction rs arbitrary: a late events)
  case Nil
  then show ?case by auto
next
  case (Cons r rs)
  obtain b lb eb where st: "chunk_radial r (a, late, events) = (b, lb, eb)"
    by (cases "chunk_radial r (a, late, events)") auto
  note s = chunk_radial_step [OF Cons.prems(1) st]
  obtain acc where acc: "loop_inv p0 (a', late', events')" "a_last_activity a' = a_last_activity b"
    "a_watchdog_timeout a' = a_watchdog_timeout b" "vc_vcp (a_context a') = vc_vcp (a_context b)"
    "subseq acc rs" "held a' = held b @ acc"
    "\<forall>e. count_of e late' + of_elev e acc = count_of e lb + of_elev e rs"
    using Cons.IH [OF s(1)] Cons.prems(2) st by auto
  from s(2) show ?case
  proof
    assume "held b = held a @ [r] \<and> lb = late"
    then show ?thesis
      using acc s by (intro conjI exI [of _ "r # acc"]) (auto simp: of_elev_def)
  next
    assume "held b = held a \<and> lb = bump (r_elevation_number r) late"
    then show ?thesis
      using acc s
      by (intro conjI exI [of _ acc]) (auto simp: of_elev_def count_of_bump)
  qed
qed

section \<open>The operations\<close>

lemma close_and_finish:
  assumes "core_inv a" "take_and_close False a = (b, ev1)" "finish_volume status b = (a', ev2)"
    "status \<noteq> InProgress"
  shows "asm_inv a'" "a_state a' = Idle" "a_closed_sweeps a' = []" "held a' = []"
    "a_watchdog_timeout a' = a_watchdog_timeout a"
    "monitor asm_monitor (a_closed_sweeps a) (ev1 @ ev2) = Some []"
    "\<exists>vol. ev2 = [VolumeClosed vol] \<and> vs_status vol = status \<and>
       vs_vcp_number vol = ctx_vcp_number (a_context a) \<and> concat (map sw_radials (vs_sweeps vol)) = held a"
proof -
  note c = take_and_close_step [OF assms(1,2)]
  show "asm_inv a'" "a_state a' = Idle" "a_closed_sweeps a' = []" "held a' = []"
    "a_watchdog_timeout a' = a_watchdog_timeout a"
    using assms(3) c
    by (auto simp: finish_volume_def Let_def asm_inv_def core_inv_def held_def)
  show "monitor asm_monitor (a_closed_sweeps a) (ev1 @ ev2) = Some []"
    using assms(3,4) c by (auto simp: finish_volume_def Let_def monitor_append_Some)
  show "\<exists>vol. ev2 = [VolumeClosed vol] \<and> vs_status vol = status \<and>
       vs_vcp_number vol = ctx_vcp_number (a_context a) \<and> concat (map sw_radials (vs_sweeps vol)) = held a"
    using assms(3) c(2,4) c(5) [symmetric] by (auto simp: finish_volume_def Let_def held_def)
qed

lemma begin_new_volume_step:
  assumes "asm_inv a" "begin_new_volume a = (a', ev)"
  shows "asm_inv a'" "a_state a' = AwaitingData" "held a' = []" "a_closed_sweeps a' = []"
    "a_context a' = context_default"
    "monitor asm_monitor (a_closed_sweeps a) ev = Some []"
    "a_state a \<noteq> Accumulating \<Longrightarrow> ev = []"
    "a_state a = Accumulating \<Longrightarrow> \<exists>evs vol. ev = evs @ [VolumeClosed vol] \<and>
       vs_status vol = Superseded \<and> concat (map sw_radials (vs_sweeps vol)) = held a"
proof -
  have core: "core_inv a" using assms(1) by (simp add: asm_inv_def)
  show "asm_inv a'" "a_state a' = AwaitingData" "held a' = []" "a_closed_sweeps a' = []"
    "a_context a' = context_default"
    using assms(2) by (auto simp: begin_new_volume_def Let_def asm_inv_def core_inv_def held_def
        split: prod.splits)
  show "a_state a \<noteq> Accumulating \<Longrightarrow> ev = []"
    using assms(2) by (simp add: begin_new_volume_def Let_def)
  have acc: "monitor asm_monitor (a_closed_sweeps a) ev = Some [] \<and>
      (\<exists>evs vol. ev = evs @ [VolumeClosed vol] \<and>
       vs_status vol = Superseded \<and> concat (map sw_radials (vs_sweeps vol)) = held a)"
    if "a_state a = Accumulating"
  proof -
    obtain b ev1 where b: "take_and_close False a = (b, ev1)" by fastforce
    obtain c ev2 where c: "finish_volume Superseded b = (c, ev2)" by fastforce
    have "ev = ev1 @ ev2"
      using assms(2) that b c by (simp add: begin_new_volume_def Let_def)
    then show ?thesis using close_and_finish [OF core b c] by auto
  qed
  then show "a_state a = Accumulating \<Longrightarrow> \<exists>evs vol. ev = evs @ [VolumeClosed vol] \<and>
       vs_status vol = Superseded \<and> concat (map sw_radials (vs_sweeps vol)) = held a"
    by blast
  show "monitor asm_monitor (a_closed_sweeps a) ev = Some []"
  proof (cases "a_state a = Accumulating")
    case True
    then show ?thesis using acc by blast
  next
    case False
    then have "a_closed_sweeps a = []" "ev = []"
      using assms by (auto simp: asm_inv_def begin_new_volume_def Let_def)
    then show ?thesis by simp
  qed
qed

lemma asm_inv_touch [simp]:
  "asm_inv (a\<lparr>a_last_activity := t\<rparr>) = asm_inv a" "core_inv (a\<lparr>a_last_activity := t\<rparr>) = core_inv a"
  "held (a\<lparr>a_last_activity := t\<rparr>) = held a"
  by (cases "a_current_sweep a"; simp add: asm_inv_def core_inv_def held_def)+

lemma on_start_chunk_step:
  assumes "asm_inv a" "on_start_chunk vcp now a = (a', ev)"
  shows "asm_inv a'" "monitor asm_monitor (a_closed_sweeps a) ev = Some (a_closed_sweeps a')"
    "held a' = []" "a_state a' = AwaitingData" "vc_vcp (a_context a') = vcp"
proof -
  obtain b where b: "begin_new_volume (a\<lparr>a_last_activity := Some now\<rparr>) = (b, ev)"
    and a': "a' = (case vcp of None \<Rightarrow> b | Some v \<Rightarrow> b\<lparr>a_context := apply_vcp v (a_context b)\<rparr>)"
    using assms(2) by (auto simp: on_start_chunk_def Let_def split: prod.splits)
  note s = begin_new_volume_step [OF _ b]
  show "asm_inv a'" "monitor asm_monitor (a_closed_sweeps a) ev = Some (a_closed_sweeps a')"
    "held a' = []" "a_state a' = AwaitingData" "vc_vcp (a_context a') = vcp"
    using s(1-6) assms(1)
    by (auto simp: a' asm_inv_def core_inv_def held_def apply_vcp_def context_default_def
        split: option.splits)
qed

lemma monitor_late:
  "\<forall>(e, n)\<in>set ls. 0 < n \<and> e \<in> set (map sw_elevation_number p) \<Longrightarrow>
   monitor asm_monitor p (map (\<lambda>(e, n). LateRadialsDiscarded e n) ls) = Some p"
  by (induction ls) auto

text \<open>The state in which the radial loop of a data chunk starts, and what it ends in.\<close>

lemma chunk_body:
  assumes "asm_inv a"
    "(a1, ev0) = (if a_state a = Idle then (a\<lparr>a_state := AwaitingData\<rparr>, [MissingStartChunk]) else (a, []))"
    "fold chunk_radial radials (a1, [], ev0) = (a2, late, ev1)"
  shows "loop_inv (a_closed_sweeps a) (a2, late, ev1)" "vc_vcp (a_context a2) = vc_vcp (a_context a)"
    "a_last_activity a2 = a_last_activity a" "a_watchdog_timeout a2 = a_watchdog_timeout a"
    "\<exists>acc. subseq acc radials \<and> held a2 = held a @ acc \<and>
      (\<forall>e. count_of e late + of_elev e acc = of_elev e radials)"
proof -
  have start: "loop_inv (a_closed_sweeps a) (a1, [], ev0)" "held a1 = held a"
    "vc_vcp (a_context a1) = vc_vcp (a_context a)" "a_last_activity a1 = a_last_activity a"
    "a_watchdog_timeout a1 = a_watchdog_timeout a"
    using assms(1,2)
    by (auto simp: loop_inv_def asm_inv_def core_inv_def held_def split: if_splits option.splits)
  note l = chunk_loop [OF start(1) assms(3)]
  show "loop_inv (a_closed_sweeps a) (a2, late, ev1)" "vc_vcp (a_context a2) = vc_vcp (a_context a)"
    "a_last_activity a2 = a_last_activity a" "a_watchdog_timeout a2 = a_watchdog_timeout a"
    "\<exists>acc. subseq acc radials \<and> held a2 = held a @ acc \<and>
      (\<forall>e. count_of e late + of_elev e acc = of_elev e radials)"
    using l start by (auto simp: count_of_def)
qed

lemma loop_inv_asm_inv: "loop_inv p (a, late, ev) \<Longrightarrow> asm_inv a"
  by (cases "a_state a") (auto simp: loop_inv_def asm_inv_def)

lemma on_chunk_step:
  assumes inv: "asm_inv a" and run: "on_chunk enum kind radials now a = (a', ev)"
  shows "asm_inv a' \<and> monitor asm_monitor (a_closed_sweeps a) ev = Some (a_closed_sweeps a')"
proof (cases "kind = Start")
  case True
  then have "begin_new_volume (a\<lparr>a_last_activity := Some now\<rparr>) = (a', ev)"
    using run by (simp add: on_chunk_def Let_def)
  from begin_new_volume_step [OF _ this] inv show ?thesis by simp
next
  case False
  let ?a = "a\<lparr>a_last_activity := Some now\<rparr>"
  obtain a1 ev0 where a1: "(a1, ev0) =
      (if a_state ?a = Idle then (?a\<lparr>a_state := AwaitingData\<rparr>, [MissingStartChunk]) else (?a, []))"
    by (metis surj_pair)
  obtain a2 late ev1 where f: "fold chunk_radial radials (a1, [], ev0) = (a2, late, ev1)"
    by (metis prod_cases3)
  have "asm_inv ?a" using inv by simp
  note b = chunk_body [OF this a1 f]
  let ?evs = "ev1 @ map (\<lambda>(e, n). LateRadialsDiscarded e n) (hash_order enum late)"
  have core: "core_inv a2" using b(1) by (simp add: loop_inv_def)
  have mon: "monitor asm_monitor (a_closed_sweeps a) ?evs = Some (a_closed_sweeps a2)"
    using b(1) by (auto simp: loop_inv_def core_inv_def monitor_append_Some intro!: monitor_late)
  show ?thesis
  proof (cases "kind = End")
    case True
    obtain a3 ev2 where c: "take_and_close False a2 = (a3, ev2)" by fastforce
    obtain a4 ev3 where d: "finish_volume Complete a3 = (a4, ev3)" by fastforce
    have "a' = a4" "ev = ?evs @ ev2 @ ev3"
      using run False True a1 [symmetric] f c d by (auto simp: on_chunk_def Let_def)
    then show ?thesis
      using close_and_finish [OF core c d] monitor_append_Some [OF mon] by simp
  next
    case notEnd: False
    have "a' = a2" "ev = ?evs"
      using run False notEnd a1 [symmetric] f by (auto simp: on_chunk_def Let_def)
    then show ?thesis using mon loop_inv_asm_inv [OF b(1)] by simp
  qed
qed

lemma on_tick_step:
  assumes "asm_inv a" "on_tick now a = (a', ev)"
  shows "asm_inv a' \<and> monitor asm_monitor (a_closed_sweeps a) ev = Some (a_closed_sweeps a')"
proof (cases "a' = a \<and> ev = []")
  case True
  with assms(1) show ?thesis by simp
next
  case False
  obtain b ev1 where b: "take_and_close False a = (b, ev1)" by fastforce
  obtain c ev2 where c: "finish_volume TimedOut b = (c, ev2)" by fastforce
  have "a' = c" "ev = ev1 @ ev2"
    using assms(2) False b c by (auto simp: on_tick_def Let_def split: if_splits option.splits)
  moreover have "core_inv a" using assms(1) by (simp add: asm_inv_def)
  ultimately show ?thesis using close_and_finish [OF _ b c] by simp
qed

section \<open>The assembler as a monitored machine\<close>

fun asm_good :: "assembly_event \<Rightarrow> bool" where
  "asm_good (SweepClosed s v n) = wf_sweep s"
| "asm_good (VolumeClosed vol) =
     (list_all wf_sweep (vs_sweeps vol) \<and> distinct (map sw_elevation_number (vs_sweeps vol)))"
| "asm_good (LateRadialsDiscarded e n) = (0 < n)"
| "asm_good MissingStartChunk = True"

lemma monitor_good:
  "list_all wf_sweep p \<Longrightarrow> distinct (map sw_elevation_number p) \<Longrightarrow>
   monitor asm_monitor p ev = Some q \<Longrightarrow> list_all asm_good ev"
proof (induction ev arbitrary: p)
  case Nil
  then show ?case by simp
next
  case (Cons e ev)
  then obtain p' where p': "asm_monitor p e = Some p'" "monitor asm_monitor p' ev = Some q"
    by (cases "asm_monitor p e") auto
  have "list_all wf_sweep p' \<and> distinct (map sw_elevation_number p') \<and> asm_good e"
    using p'(1) Cons.prems by (cases e) (auto split: if_splits)
  then show ?case using Cons.IH [OF _ _ p'(2)] by simp
qed

lemma asm_step_ok:
  assumes "asm_inv a"
  shows "asm_inv (fst (asm_step bz enum a i)) \<and>
    monitor asm_monitor (a_closed_sweeps a) (snd (asm_step bz enum a i)) =
      Some (a_closed_sweeps (fst (asm_step bz enum a i)))"
proof (cases i)
  case (Chunk_In envelope now)
  have "asm_inv (fst (on_start_chunk v now a)) \<and>
      monitor asm_monitor (a_closed_sweeps a) (snd (on_start_chunk v now a)) =
        Some (a_closed_sweeps (fst (on_start_chunk v now a)))" for v
    using on_start_chunk_step [OF assms, of v now] by (cases "on_start_chunk v now a") simp
  moreover have "asm_inv (fst (on_chunk enum k rs now a)) \<and>
      monitor asm_monitor (a_closed_sweeps a) (snd (on_chunk enum k rs now a)) =
        Some (a_closed_sweeps (fst (on_chunk enum k rs now a)))" for k rs
    using on_chunk_step [OF assms, of enum k rs now] by (cases "on_chunk enum k rs now a") simp
  ultimately show ?thesis
    using assms by (simp add: Chunk_In decode_and_ingest_def Let_def split: sum.split)
next
  case (Tick_In now)
  then show ?thesis
    using on_tick_step [OF assms, of now] by (cases "on_tick now a") simp
qed

interpretation asm: monitored_machine "asm_step bz enum" asm_inv asm_good asm_monitor a_closed_sweeps
  for bz enum
proof unfold_locales
  fix s i
  assume inv: "asm_inv s"
  note ok = asm_step_ok [OF inv, of bz enum i]
  show "asm_inv (fst (asm_step bz enum s i))" using ok by simp
  show "monitor asm_monitor (a_closed_sweeps s) (snd (asm_step bz enum s i)) =
      Some (a_closed_sweeps (fst (asm_step bz enum s i)))" using ok by simp
  show "list_all asm_good (snd (asm_step bz enum s i))"
    using inv ok by (auto simp: asm_inv_def core_inv_def intro: monitor_good)
qed

section \<open>Counting late radials and reading the pattern number off the events\<close>

fun late_in :: "u8 \<Rightarrow> assembly_event list \<Rightarrow> nat" where
  "late_in e [] = 0"
| "late_in e (LateRadialsDiscarded e' n # ev) = (if e' = e then n else 0) + late_in e ev"
| "late_in e (_ # ev) = late_in e ev"

fun event_vcp :: "assembly_event \<Rightarrow> u16 option" where
  "event_vcp (SweepClosed s v n) = Some n"
| "event_vcp (VolumeClosed vol) = Some (vs_vcp_number vol)"
| "event_vcp _ = None"

lemma late_in_append [simp]: "late_in e (xs @ ys) = late_in e xs + late_in e ys"
  by (induction e xs rule: late_in.induct) auto

lemma late_in_close [simp]:
  "late_in e (snd (take_and_close w a)) = 0" "late_in e (snd (finish_volume st a)) = 0"
  "late_in e (snd (begin_new_volume a)) = 0"
  by (auto simp: take_and_close_def close_sweep_def finish_volume_def begin_new_volume_def Let_def
      split: option.splits prod.splits)

lemma late_in_ingest [simp]: "late_in e (snd (ingest_radial r a)) = 0"
  by (auto simp: ingest_radial_def take_and_close_def close_sweep_def Let_def
      split: option.splits if_splits prod.splits)

lemma late_in_loop:
  "late_in e (snd (snd (fold chunk_radial rs st))) = late_in e (snd (snd st))"
proof (induction rs arbitrary: st)
  case Nil
  then show ?case by simp
next
  case (Cons r rs)
  have "late_in e (snd (snd (chunk_radial r st))) = late_in e (snd (snd st))"
    by (cases st) (auto simp: chunk_radial_def Let_def split_beta)
  then show ?case using Cons.IH by simp
qed

lemma late_in_map:
  "late_in e (map (\<lambda>(e, n). LateRadialsDiscarded e n) ls) =
     sum_list (map snd (filter (\<lambda>(e', _). e' = e) ls))"
  by (induction ls) auto

lemma late_in_map_count:
  assumes "mset ls' = mset ls" "distinct (map fst ls)"
  shows "late_in e (map (\<lambda>(e, n). LateRadialsDiscarded e n) ls') = count_of e ls"
proof -
  have "sum_list (map snd (filter (\<lambda>(e', _). e' = e) ls')) =
      sum_mset (image_mset snd (filter_mset (\<lambda>(e', _). e' = e) (mset ls')))"
    by (simp flip: sum_mset_sum_list)
  also have "\<dots> = sum_list (map snd (filter (\<lambda>(e', _). e' = e) ls))"
    by (simp add: assms(1) flip: sum_mset_sum_list)
  also have "\<dots> = count_of e ls"
    using assms(2)
  proof (induction ls)
    case Nil
    then show ?case by (simp add: count_of_def)
  next
    case (Cons x ls)
    have "filter (\<lambda>(e', _). e' = e) ls = []" if "fst x = e"
    proof -
      have "e \<notin> fst ` set ls" using Cons.prems that by auto
      then show ?thesis by (auto simp: filter_empty_conv intro: rev_image_eqI)
    qed
    with Cons show ?case by (cases x) (auto simp: count_of_def)
  qed
  finally show ?thesis by (simp add: late_in_map)
qed

lemma event_vcp_ops:
  "\<forall>e\<in>set (snd (take_and_close w a)). event_vcp e = Some (ctx_vcp_number (a_context a))"
  "\<forall>e\<in>set (snd (finish_volume st a)). event_vcp e = Some (ctx_vcp_number (a_context a))"
  "\<forall>e\<in>set (snd (ingest_radial r a)). event_vcp e = Some (ctx_vcp_number (a_context a))"
  "a_context (fst (take_and_close w a)) = a_context a"
  "a_context (fst (ingest_radial r a)) = a_context a"
  by (auto simp: take_and_close_def close_sweep_def finish_volume_def ingest_radial_def Let_def
      split: option.splits if_splits prod.splits)

lemma event_vcp_loop:
  assumes "vc_vcp (a_context (fst st)) = Some v"
    "\<forall>e\<in>set (snd (snd st)). event_vcp e \<in> {None, Some (vd_vcp_number v)}"
  shows "vc_vcp (a_context (fst (fold chunk_radial rs st))) = Some v \<and>
    (\<forall>e\<in>set (snd (snd (fold chunk_radial rs st))). event_vcp e \<in> {None, Some (vd_vcp_number v)})"
  using assms
proof (induction rs arbitrary: st)
  case Nil
  then show ?case by simp
next
  case (Cons r rs)
  obtain a late ev where st: "st = (a, late, ev)" by (cases st)
  let ?b = "let first = (a_state a = AwaitingData);
                a = (if first then a\<lparr>a_state := Accumulating\<rparr> else a)
            in a\<lparr>a_context := apply_radial r first (a_context a)\<rparr>"
  have ctx: "vc_vcp (a_context ?b) = Some v"
    using Cons.prems(1) by (auto simp: st Let_def apply_radial_def split: option.splits)
  then have num: "ctx_vcp_number (a_context ?b) = vd_vcp_number v"
    by (simp add: ctx_vcp_number_def)
  have "vc_vcp (a_context (fst (chunk_radial r st))) = Some v \<and>
      (\<forall>e\<in>set (snd (snd (chunk_radial r st))). event_vcp e \<in> {None, Some (vd_vcp_number v)})"
  proof (cases "r_elevation_number r \<in> a_closed_elevations a")
    case True
    then show ?thesis using Cons.prems by (simp add: st chunk_radial_def)
  next
    case False
    then have "chunk_radial r st =
        (fst (ingest_radial r ?b), late, ev @ snd (ingest_radial r ?b))"
      by (simp add: st chunk_radial_def Let_def split_beta)
    then show ?thesis
      using Cons.prems(2) event_vcp_ops(3,5) [of r ?b] ctx num by (auto simp: st)
  qed
  then show ?case using Cons.IH [of "chunk_radial r st"] by simp
qed

text \<open>A data chunk in one equation: the loop, the late events, the close of an end chunk.\<close>

lemma on_chunk_unfold:
  assumes "kind \<noteq> Start"
  obtains a1 ev0 a2 late ev1 where
    "(a1, ev0) = (if a_state a = Idle
        then (a\<lparr>a_last_activity := Some now, a_state := AwaitingData\<rparr>, [MissingStartChunk])
        else (a\<lparr>a_last_activity := Some now\<rparr>, []))"
    "fold chunk_radial radials (a1, [], ev0) = (a2, late, ev1)"
    "on_chunk enum kind radials now a =
       (let ev = ev1 @ map (\<lambda>(e, n). LateRadialsDiscarded e n) (hash_order enum late) in
        if kind = End then
          (fst (finish_volume Complete (fst (take_and_close False a2))),
           ev @ snd (take_and_close False a2) @
           snd (finish_volume Complete (fst (take_and_close False a2))))
        else (a2, ev))"
proof -
  obtain a1 ev0 where a1: "(a1, ev0) = (if a_state a = Idle
        then (a\<lparr>a_last_activity := Some now, a_state := AwaitingData\<rparr>, [MissingStartChunk])
        else (a\<lparr>a_last_activity := Some now\<rparr>, []))"
    by (metis surj_pair)
  obtain a2 late ev1 where f: "fold chunk_radial radials (a1, [], ev0) = (a2, late, ev1)"
    by (metis prod_cases3)
  show thesis
    by (rule that [OF a1 f])
      (use assms a1 f in \<open>auto simp: on_chunk_def Let_def split_beta split: if_splits\<close>)
qed


section \<open>Properties\<close>

definition sample_radial :: "u8 \<Rightarrow> radial_status \<Rightarrow> radial" where
  "sample_radial e st =
     \<lparr>r_site_id = ascii ''KDOX'', r_scan_time_ms = 1000, r_julian_date = 20634,
      r_azimuth_deg = FFin False 0, r_elevation_deg = FFin False (1/2), r_azimuth_number = 1,
      r_azimuth_spacing_code = 1, r_radial_status = st, r_elevation_number = e,
      r_unambiguous_range_km = None, r_nyquist_velocity_mps = None, r_site_parameters = None,
      r_products = product_map_new\<rparr>"

definition sample_vcp :: vcp_definition where
  "sample_vcp = \<lparr>vd_vcp_number = 212, vd_pattern_type = 2, vd_elevations = []\<rparr>"

definition sample_accumulating :: assembler where
  "sample_accumulating =
     fst (on_chunk (\<lambda>x. x) Intermediate_Chunk [sample_radial 1 StartOfVolume] 5
       (fst (on_start_chunk (Some sample_vcp) 4 (assembler_new 10))))"

lemma sample_accumulating_inv:
  "asm_inv sample_accumulating" "vc_vcp (a_context sample_accumulating) = Some sample_vcp"
  "a_state sample_accumulating = Accumulating" "a_last_activity sample_accumulating = Some 5"
proof -
  let ?a = "fst (on_start_chunk (Some sample_vcp) 4 (assembler_new 10))"
  have "asm_inv ?a"
    using on_start_chunk_step(1) [OF asm_inv_new] by (metis prod.collapse)
  then show "asm_inv sample_accumulating"
    unfolding sample_accumulating_def by (metis on_chunk_step prod.collapse)
  show "vc_vcp (a_context sample_accumulating) = Some sample_vcp"
    "a_state sample_accumulating = Accumulating" "a_last_activity sample_accumulating = Some 5"
    by (simp_all add: sample_accumulating_def on_start_chunk_def begin_new_volume_def
        assembler_new_def apply_vcp_def on_chunk_def chunk_radial_def ingest_radial_def
        sample_radial_def apply_radial_def Let_def)
qed

text \<open>
  The assembler's invariant holds after any sequence of chunks and watchdog ticks,
  whatever the chunks' bytes: nothing is held outside an accumulating volume, the closed
  elevations are exactly those of the closed sweeps and pairwise distinct, the open sweep
  is of another elevation, and every sweep holds radials of its own elevation only with
  the hoisted fields of its first radial.
\<close>

theorem assembler_invariant: "asm_inv (fst (asm_run bz enum timeout inputs))"
  unfolding asm_run_def by (rule asm.run_inv [OF asm_inv_new])

text \<open>
  C1: the events of any run follow the assembly protocol: within a volume an elevation
  closes at most once, each closed volume delivers exactly the sweeps closed since the
  one before, in order, radials are called late only for an elevation already closed,
  and a missing start is reported before any sweep of the volume.
\<close>

theorem assembler_protocol:
  "monitor asm_monitor [] (snd (asm_run bz enum timeout inputs)) =
     Some (a_closed_sweeps (fst (asm_run bz enum timeout inputs)))"
  using asm.run_mon [OF asm_inv_new [of timeout], of bz enum inputs]
  by (simp add: asm_run_def assembler_new_def)

text \<open>
  C2: no radial of a data chunk is lost, duplicated or reordered. Those accepted are a
  subsequence of the chunk's and follow what was held; for each elevation, the others
  are exactly those counted by the late events. An end chunk delivers everything held
  in one complete volume and leaves nothing behind.
\<close>

theorem on_chunk_conserves:
  assumes "asm_inv a" and "kind \<noteq> Start" and "on_chunk enum kind radials now a = (a', ev)"
  shows "\<exists>acc. subseq acc radials \<and>
    (\<forall>e. late_in e ev + of_elev e acc = of_elev e radials) \<and>
    (if kind = End then held a' = [] \<and>
       (\<exists>vol. last ev = VolumeClosed vol \<and> vs_status vol = Complete \<and>
          concat (map sw_radials (vs_sweeps vol)) = held a @ acc)
     else held a' = held a @ acc)"
proof -
  obtain a1 ev0 a2 late ev1 where a1: "(a1, ev0) = (if a_state a = Idle
        then (a\<lparr>a_last_activity := Some now, a_state := AwaitingData\<rparr>, [MissingStartChunk])
        else (a\<lparr>a_last_activity := Some now\<rparr>, []))"
    and f: "fold chunk_radial radials (a1, [], ev0) = (a2, late, ev1)"
    and run: "on_chunk enum kind radials now a =
       (let ev = ev1 @ map (\<lambda>(e, n). LateRadialsDiscarded e n) (hash_order enum late) in
        if kind = End then
          (fst (finish_volume Complete (fst (take_and_close False a2))),
           ev @ snd (take_and_close False a2) @
           snd (finish_volume Complete (fst (take_and_close False a2))))
        else (a2, ev))"
    by (rule on_chunk_unfold [OF assms(2)])
  have "asm_inv (a\<lparr>a_last_activity := Some now\<rparr>)" using assms(1) by simp
  note b = chunk_body [OF this _ f]
  have a1': "(a1, ev0) = (if a_state (a\<lparr>a_last_activity := Some now\<rparr>) = Idle
        then (a\<lparr>a_last_activity := Some now\<rparr>\<lparr>a_state := AwaitingData\<rparr>, [MissingStartChunk])
        else (a\<lparr>a_last_activity := Some now\<rparr>, []))" using a1 by simp
  obtain acc where acc: "subseq acc radials" "held a2 = held a @ acc"
    "\<forall>e. count_of e late + of_elev e acc = of_elev e radials"
    using b(5) [OF a1'] by auto
  have "late_in e ev0 = 0" for e using a1 by (auto split: if_splits)
  then have ev1: "late_in e ev1 = 0" for e
    using late_in_loop [of e radials "(a1, [], ev0)"] f by simp
  have late: "late_in e (map (\<lambda>(e, n). LateRadialsDiscarded e n) (hash_order enum late)) = count_of e late"
    for e using b(1) [OF a1'] by (intro late_in_map_count) (simp_all add: loop_inv_def)
  have core: "core_inv a2" using b(1) [OF a1'] by (simp add: loop_inv_def)
  let ?b = "fst (take_and_close False a2)"
  note cf = close_and_finish [OF core, of ?b "snd (take_and_close False a2)" Complete
      "fst (finish_volume Complete ?b)" "snd (finish_volume Complete ?b)"]
  have fin: "held (fst (finish_volume Complete ?b)) = []"
    by (rule cf(4)) simp_all
  obtain vol where vol: "snd (finish_volume Complete ?b) = [VolumeClosed vol]" "vs_status vol = Complete"
    "concat (map sw_radials (vs_sweeps vol)) = held a2"
    using cf(7) by auto
  show ?thesis
    by (rule exI [of _ acc])
      (use assms(3) run acc ev1 late vol fin in \<open>auto simp: Let_def split: if_splits\<close>)
qed

theorem on_chunk_conserves_witness:
  "\<exists>acc. subseq acc [sample_radial 1 EndOfElevation, sample_radial 1 Intermediate] \<and>
    (\<forall>e. late_in e (snd (on_chunk (\<lambda>x. x) End
        [sample_radial 1 EndOfElevation, sample_radial 1 Intermediate] 6 sample_accumulating)) +
      of_elev e acc = of_elev e [sample_radial 1 EndOfElevation, sample_radial 1 Intermediate])"
  using on_chunk_conserves [OF sample_accumulating_inv(1), of End "\<lambda>x. x"
      "[sample_radial 1 EndOfElevation, sample_radial 1 Intermediate]" 6]
  by (metis chunk_kind.distinct(3) prod.collapse)

text \<open>
  C3: the watchdog fires exactly when a volume is in progress and the time since the last
  chunk has reached the timeout. Then the volume is delivered as timed out, with
  everything held, and the assembler is idle; otherwise the tick changes nothing.
\<close>

theorem watchdog_exact:
  assumes "asm_inv a" and "on_tick now a = (a', ev)"
  shows "if a_state a \<noteq> Idle \<and> (\<exists>t0. a_last_activity a = Some t0 \<and> a_watchdog_timeout a \<le> now - t0)
    then a_state a' = Idle \<and> held a' = [] \<and>
      (\<exists>evs vol. ev = evs @ [VolumeClosed vol] \<and> vs_status vol = TimedOut \<and>
         concat (map sw_radials (vs_sweeps vol)) = held a)
    else a' = a \<and> ev = []"
proof -
  obtain b ev1 where b: "take_and_close False a = (b, ev1)" by fastforce
  obtain c ev2 where c: "finish_volume TimedOut b = (c, ev2)" by fastforce
  have core: "core_inv a" using assms(1) by (simp add: asm_inv_def)
  show ?thesis
    using assms(2) close_and_finish [OF core b c] b c
    by (auto simp: on_tick_def Let_def split: option.splits if_splits)
qed

theorem watchdog_exact_witness:
  "a_state (fst (on_tick 15 sample_accumulating)) = Idle"
proof -
  have "a_watchdog_timeout sample_accumulating = 10"
    by (simp add: sample_accumulating_def on_start_chunk_def begin_new_volume_def
        assembler_new_def apply_vcp_def on_chunk_def chunk_radial_def ingest_radial_def
        sample_radial_def apply_radial_def Let_def)
  then show ?thesis
    using watchdog_exact [OF sample_accumulating_inv(1), of 15 "fst (on_tick 15 sample_accumulating)"
        "snd (on_tick 15 sample_accumulating)"] sample_accumulating_inv(3,4)
    by simp
qed

text \<open>
  A start chunk always opens a fresh volume with the decoded pattern and nothing held.
  A volume that was accumulating is first delivered as superseded, with everything held.
\<close>

theorem start_chunk_supersedes:
  assumes "asm_inv a" and "on_start_chunk vcp now a = (a', ev)"
  shows "a_state a' = AwaitingData \<and> held a' = [] \<and> vc_vcp (a_context a') = vcp \<and>
    (if a_state a = Accumulating
     then \<exists>evs vol. ev = evs @ [VolumeClosed vol] \<and> vs_status vol = Superseded \<and>
            concat (map sw_radials (vs_sweeps vol)) = held a
     else ev = [])"
proof -
  obtain b where b: "begin_new_volume (a\<lparr>a_last_activity := Some now\<rparr>) = (b, ev)"
    using assms(2) by (auto simp: on_start_chunk_def Let_def split: prod.splits)
  show ?thesis
    using on_start_chunk_step [OF assms] begin_new_volume_step(7,8) [OF _ b] assms(1) by simp
qed

theorem start_chunk_supersedes_witness:
  "a_state (fst (on_start_chunk None 7 sample_accumulating)) = AwaitingData"
  using start_chunk_supersedes [OF sample_accumulating_inv(1), of None 7
      "fst (on_start_chunk None 7 sample_accumulating)" "snd (on_start_chunk None 7 sample_accumulating)"]
  by simp

text \<open>
  Once the start chunk's Message 5 gave the volume a pattern, every sweep and the
  volume itself are labelled with its number, whatever the radials' RVOL blocks say.
\<close>

theorem message5_vcp_wins:
  assumes "vc_vcp (a_context a) = Some v" and "kind \<noteq> Start" and "a_state a \<noteq> Idle"
    and "e \<in> set (snd (on_chunk enum kind radials now a))" and "event_vcp e = Some n"
  shows "n = vd_vcp_number v"
proof -
  obtain a1 ev0 a2 late ev1 where a1: "(a1, ev0) = (if a_state a = Idle
        then (a\<lparr>a_last_activity := Some now, a_state := AwaitingData\<rparr>, [MissingStartChunk])
        else (a\<lparr>a_last_activity := Some now\<rparr>, []))"
    and f: "fold chunk_radial radials (a1, [], ev0) = (a2, late, ev1)"
    and run: "on_chunk enum kind radials now a =
       (let ev = ev1 @ map (\<lambda>(e, n). LateRadialsDiscarded e n) (hash_order enum late) in
        if kind = End then
          (fst (finish_volume Complete (fst (take_and_close False a2))),
           ev @ snd (take_and_close False a2) @
           snd (finish_volume Complete (fst (take_and_close False a2))))
        else (a2, ev))"
    by (rule on_chunk_unfold [OF assms(2)])
  have l: "vc_vcp (a_context a2) = Some v"
    "\<forall>e\<in>set ev1. event_vcp e \<in> {None, Some (vd_vcp_number v)}"
    using event_vcp_loop [of "(a1, [], ev0)" v radials] a1 f assms(1,3) by auto
  have num: "ctx_vcp_number (a_context a2) = vd_vcp_number v"
    using l(1) by (simp add: ctx_vcp_number_def)
  have "e \<in> set ev1 \<or> e \<in> set (map (\<lambda>(e, n). LateRadialsDiscarded e n) (hash_order enum late)) \<or>
      e \<in> set (snd (take_and_close False a2)) \<or>
      e \<in> set (snd (finish_volume Complete (fst (take_and_close False a2))))"
    using assms(4) run by (auto simp: Let_def split: if_splits)
  then show ?thesis
    using assms(5) l(2) num event_vcp_ops(1,2,4) by fastforce
qed

theorem message5_vcp_wins_witness:
  "\<exists>e n. e \<in> set (snd (on_chunk (\<lambda>x. x) Intermediate_Chunk [sample_radial 1 EndOfElevation] 6
            sample_accumulating)) \<and> event_vcp e = Some n \<and> n = 212"
proof -
  let ?ev = "snd (on_chunk (\<lambda>x. x) Intermediate_Chunk [sample_radial 1 EndOfElevation] 6
            sample_accumulating)"
  obtain e n where e: "e \<in> set ?ev" "event_vcp e = Some n"
    by (auto simp: sample_accumulating_def on_start_chunk_def begin_new_volume_def hash_order_def
        assembler_new_def apply_vcp_def on_chunk_def chunk_radial_def ingest_radial_def
        sample_radial_def apply_radial_def take_and_close_def close_sweep_def Let_def
        builder_start_def)
  have "n = vd_vcp_number sample_vcp"
    by (rule message5_vcp_wins [OF sample_accumulating_inv(2) _ _ e])
      (simp_all add: sample_accumulating_inv(3))
  with e show ?thesis by (auto simp: sample_vcp_def)
qed

text \<open>
  An end chunk without radials that arrives while nothing is in progress is closed as a
  complete volume of no sweeps with the identity (0, 0).
\<close>

lemma empty_end_chunk_closes_complete:
  "snd (on_chunk enum End [] now (assembler_new timeout)) =
     [MissingStartChunk,
      VolumeClosed \<lparr>vs_site_id = [0, 0, 0, 0], vs_scan_time_ms = 0, vs_julian_date = 0,
        vs_vcp_number = 0, vs_latitude = FFin False 0, vs_longitude = FFin False 0,
        vs_site_amsl_m = 0, vs_sweeps = [], vs_status = Complete\<rparr>]"
  by (simp add: on_chunk_def assembler_new_def take_and_close_def finish_volume_def hash_order_def
      context_default_def ctx_vcp_number_def Let_def)

end
