(* ===== verification/Http_Response.thy ===== *)
theory Http_Response
  imports Ascii Http_Error
begin

text \<open>
  The response parser of the crate \<open>http-ingest\<close>, \<open>response.rs\<close>: the head over a
  growing read buffer and the chunk-size line of the chunked coding. Both are instances
  of \<open>growing_parser\<close>: what they answer does not depend on how the reads split the
  bytes.
\<close>

section \<open>Heads\<close>

datatype body_framing = No_Body | Content_Length nat | Chunked

record head =
  h_status :: u16
  h_framing :: body_framing
  h_connection_close :: bool
  h_head_len :: nat

definition MAX_CHUNK_HEADER_LINE :: nat where
  "MAX_CHUNK_HEADER_LINE = 256"

section \<open>Lines and fields\<close>

definition is_tchar :: "u8 \<Rightarrow> bool" where
  "is_tchar b = (is_alphanumeric b \<or>
     b \<in> set [33, 35, 36, 37, 38, 39, 42, 43, 45, 46, 94, 95, 96, 124, 126])"

definition is_vchar_sp_htab :: "u8 \<Rightarrow> bool" where
  "is_vchar_sp_htab b = ((0x21 \<le> b \<and> b \<le> 0x7E) \<or> b = SP \<or> b = HTAB)"

definition is_ows :: "u8 \<Rightarrow> bool" where
  "is_ows b = (b = SP \<or> b = HTAB)"

definition trim_ows :: "bytes \<Rightarrow> bytes" where
  "trim_ows v =
     (let start = length (takeWhile is_ows v);
          stop = (if list_all is_ows v then start else length v - length (takeWhile is_ows (rev v)))
      in take (stop - start) (drop start v))"

definition parse_status_line :: "bytes \<Rightarrow> http_error + u16" where
  "parse_status_line line =
     (if length line < 12 then Err (Protocol ''status line too short'')
      else if \<not> (take 8 line = ascii ''HTTP/1.1'' \<or> take 8 line = ascii ''HTTP/1.0'') \<or> line ! 8 \<noteq> SP
      then Err (Protocol ''unsupported protocol token'')
      else
        let digits = take 3 (drop 9 line) in
        if \<not> list_all is_digit digits then Err (Protocol ''non-digit status code'')
        else
          let status = of_nat (dec_value digits) in
          if length line = 12 then Ok status
          else if line ! 12 \<noteq> SP then Err (Protocol ''malformed reason phrase separator'')
          else if \<not> list_all is_vchar_sp_htab (drop 13 line)
          then Err (Protocol ''invalid byte in reason phrase'')
          else Ok status)"

definition parse_header_line :: "bytes \<Rightarrow> http_error + bytes \<times> bytes" where
  "parse_header_line line =
     (if line \<noteq> [] \<and> (hd line = SP \<or> hd line = HTAB) then Err (Protocol ''obs-fold'')
      else
        rbind (ok_or (Protocol ''missing header colon'') (position (\<lambda>b. b = 58) line)) (\<lambda>colon.
        let name = take colon line in
        if name = [] \<or> \<not> list_all is_tchar name then Err (Protocol ''invalid header name'')
        else
          let value = trim_ows (drop (colon + 1) line) in
          if \<not> list_all is_vchar_sp_htab value then Err (Protocol ''invalid byte in header value'')
          else Ok (name, value)))"

definition parse_content_length :: "bytes \<Rightarrow> http_error + nat" where
  "parse_content_length value =
     (if value = [] \<or> 20 < length value \<or> \<not> list_all is_digit value
      then Err (Protocol ''malformed Content-Length'')
      else if dec_value value < 2 ^ 64 then Ok (dec_value value)
      else Err (Protocol ''Content-Length overflow''))"

section \<open>The head\<close>

text \<open>
  The scan for the lines of the head: the \<open>while\<close> loop of \<open>parse_head\<close> over the index
  \<open>i\<close>, with the start of the current line and the lines found so far.
\<close>

function scan_head ::
  "limits \<Rightarrow> bytes \<Rightarrow> nat \<Rightarrow> nat \<Rightarrow> bytes list \<Rightarrow> http_error + bytes list \<times> nat option" where
  "scan_head lim buf i line_start lines =
     (if i < min (length buf) (max_head_bytes lim) then
        (if buf ! i \<noteq> LF then scan_head lim buf (i + 1) line_start lines
         else if i = line_start \<or> buf ! (i - 1) \<noteq> CR then Err (Protocol ''bare LF'')
         else
           let line = take (i - 1 - line_start) (drop line_start buf) in
           if CR \<in> set line then Err (Protocol ''bare CR in header line'')
           else if line = [] then Ok (lines, Some (i + 1))
           else
             let lines = lines @ [line] in
             if max_header_count lim < length lines - 1 then Err (Protocol ''too many headers'')
             else scan_head lim buf (i + 1) (i + 1) lines)
      else Ok (lines, None))"
  by pat_completeness auto
termination
  by (relation "measure (\<lambda>(lim, buf, i, s, lines). length buf - i)") auto

declare scan_head.simps [simp del]

record header_state =
  hs_content_length :: "nat option"
  hs_transfer_encoding_seen :: bool
  hs_chunked :: bool
  hs_connection_close :: bool

definition header_state_new :: header_state where
  "header_state_new =
     \<lparr>hs_content_length = None, hs_transfer_encoding_seen = False, hs_chunked = False,
      hs_connection_close = False\<rparr>"

definition header_step :: "header_state \<Rightarrow> bytes \<Rightarrow> http_error + header_state" where
  "header_step st line =
     rbind (parse_header_line line) (\<lambda>(name, value).
       if eq_ignore_case name (ascii ''content-length'') then
         (if hs_content_length st \<noteq> None then Err (Protocol ''duplicate Content-Length'')
          else rbind (parse_content_length value) (\<lambda>n. Ok (st\<lparr>hs_content_length := Some n\<rparr>)))
       else if eq_ignore_case name (ascii ''transfer-encoding'') then
         (if hs_transfer_encoding_seen st then Err (Protocol ''duplicate Transfer-Encoding'')
          else
            let st = st\<lparr>hs_transfer_encoding_seen := True\<rparr> in
            if \<not> eq_ignore_case (trim_ows value) (ascii ''chunked'')
            then Err (Protocol ''unsupported Transfer-Encoding'')
            else Ok (st\<lparr>hs_chunked := True\<rparr>))
       else if eq_ignore_case name (ascii ''connection'') then
         Ok (if list_ex (\<lambda>tok. eq_ignore_case (trim_ows tok) (ascii ''close'')) (split_on 44 value)
             then st\<lparr>hs_connection_close := True\<rparr> else st)
       else if eq_ignore_case name (ascii ''content-encoding'') \<and>
               \<not> eq_ignore_case (trim_ows value) (ascii ''identity'')
       then Err (Protocol ''unsupported Content-Encoding'')
       else Ok st)"

definition head_of :: "limits \<Rightarrow> nat \<Rightarrow> u16 \<Rightarrow> header_state \<Rightarrow> http_error + head" where
  "head_of lim head_len status st =
     (if hs_content_length st \<noteq> None \<and> hs_chunked st
      then Err (Protocol ''Content-Length and Transfer-Encoding together'')
      else if 100 \<le> status \<and> status < 200 then Err (Protocol ''1xx status'')
      else
        rbind
          (if status = 204 \<or> status = 304 then Ok No_Body
           else if hs_chunked st then Ok Chunked
           else (case hs_content_length st of
                   Some len \<Rightarrow>
                     if max_body_bytes lim < len then Err (BodyTooLarge len (max_body_bytes lim))
                     else Ok (Content_Length len)
                 | None \<Rightarrow> Err (Protocol ''missing Content-Length''))) (\<lambda>framing.
        Ok \<lparr>h_status = status, h_framing = framing,
            h_connection_close = hs_connection_close st, h_head_len = head_len\<rparr>))"

text \<open>What \<open>parse_head\<close> does with the lines once the head is complete.\<close>

definition parse_lines :: "limits \<Rightarrow> bytes list \<Rightarrow> nat \<Rightarrow> http_error + head" where
  "parse_lines lim lines head_len =
     (case lines of
        [] \<Rightarrow> Err (Protocol ''missing status line'')
      | status_line # headers \<Rightarrow>
          rbind (parse_status_line status_line) (\<lambda>status.
          rbind (rfold header_step header_state_new headers) (\<lambda>st.
          head_of lim head_len status st)))"

definition parse_head :: "limits \<Rightarrow> bytes \<Rightarrow> http_error + head option" where
  "parse_head lim buf =
     rbind (scan_head lim buf 0 0 []) (\<lambda>(lines, found).
       case found of
         None \<Rightarrow>
           if max_head_bytes lim \<le> length buf then Err (Protocol ''head too large'') else Ok None
       | Some head_len \<Rightarrow> rbind (parse_lines lim lines head_len) (\<lambda>h. Ok (Some h)))"

section \<open>The chunk-size line\<close>

definition parse_chunk_size_line :: "bytes \<Rightarrow> http_error + (nat \<times> nat) option" where
  "parse_chunk_size_line buf =
     (let search_limit = min (length buf) MAX_CHUNK_HEADER_LINE in
      case position (\<lambda>b. b = LF) (take search_limit buf) of
        None \<Rightarrow>
          if MAX_CHUNK_HEADER_LINE \<le> length buf then Err (Protocol ''chunk size line too large'')
          else Ok None
      | Some nl \<Rightarrow>
          if nl = 0 \<or> buf ! (nl - 1) \<noteq> CR then Err (Protocol ''bare LF in chunk size line'')
          else
            let line = take (nl - 1) buf in
            if CR \<in> set line then Err (Protocol ''bare CR in chunk size line'')
            else if 59 \<in> set line then Err (Protocol ''chunk extensions not supported'')
            else if line = [] \<or> 16 < length line \<or> \<not> list_all is_hexdigit line
            then Err (Protocol ''invalid chunk size'')
            else if hex_value line < 2 ^ 64 then Ok (Some (hex_value line, nl + 1))
            else Err (Protocol ''chunk size overflow''))"

section \<open>Stability\<close>

lemma position_append_Some: "position f xs = Some n \<Longrightarrow> position f (xs @ ys) = Some n"
  by (induction xs arbitrary: n) (auto split: if_splits)

lemma append_reads:
  assumes "i < length buf"
  shows "(buf @ ext) ! i = buf ! i" "(buf @ ext) ! (i - 1) = buf ! (i - 1)"
    "take (i - 1 - s) (drop s (buf @ ext)) = take (i - 1 - s) (drop s buf)"
    "take (i - 1) (buf @ ext) = take (i - 1) buf"
proof -
  have "i - 1 < length buf" using assms by simp
  then show "(buf @ ext) ! i = buf ! i" "(buf @ ext) ! (i - 1) = buf ! (i - 1)"
    "take (i - 1) (buf @ ext) = take (i - 1) buf"
    using assms by (simp_all add: nth_append)
  show "take (i - 1 - s) (drop s (buf @ ext)) = take (i - 1 - s) (drop s buf)"
  proof (cases "s \<le> i")
    case True
    then show ?thesis using assms by (simp add: drop_append)
  next
    case False
    then show ?thesis by simp
  qed
qed

lemma scan_head_more:
  assumes "\<forall>l. scan_head lim buf i s lines \<noteq> Inr (l, None)"
  shows "scan_head lim (buf @ ext) i s lines = scan_head lim buf i s lines"
  using assms
proof (induction lim buf i s lines rule: scan_head.induct)
  case (1 lim buf i s lines)
  note eqs = scan_head.simps [of lim buf i s lines] scan_head.simps [of lim "buf @ ext" i s lines]
  show ?case
  proof (cases "i < min (length buf) (max_head_bytes lim)")
    case inside: True
    let ?line = "take (i - 1 - s) (drop s buf)"
    have eq: "(buf @ ext) ! i = buf ! i" "(buf @ ext) ! (i - 1) = buf ! (i - 1)"
      "take (i - 1 - s) (drop s (buf @ ext)) = ?line"
      "i < min (length (buf @ ext)) (max_head_bytes lim)"
      using inside append_reads [of i buf] by simp_all
    show ?thesis
    proof (cases "buf ! i \<noteq> LF \<or> i = s \<or> buf ! (i - 1) \<noteq> CR \<or> CR \<in> set ?line \<or> ?line = [] \<or>
        max_header_count lim < length (lines @ [?line]) - 1")
      case stop: True
      show ?thesis
      proof (cases "buf ! i \<noteq> LF")
        case True
        then show ?thesis
          using "1.IH"(1) "1.prems" inside eq(4) unfolding eqs eq by simp
      next
        case False
        then show ?thesis using stop eq(4) inside unfolding eqs eq Let_def by auto
      qed
    next
      case False
      then show ?thesis
        using "1.IH"(2) "1.prems" inside eq(4) unfolding eqs eq Let_def by simp
    qed
  next
    case False
    then have "scan_head lim buf i s lines = Inr (lines, None)"
      by (simp only: eqs(1) if_False)
    with "1.prems" show ?thesis by blast
  qed
qed

lemma scan_head_full:
  assumes "max_head_bytes lim \<le> length buf"
  shows "scan_head lim (buf @ ext) i s lines = scan_head lim buf i s lines"
  using assms
proof (induction lim buf i s lines rule: scan_head.induct)
  case (1 lim buf i s lines)
  show ?case
  proof (cases "i < max_head_bytes lim")
    case True
    then have eq: "(buf @ ext) ! i = buf ! i" "(buf @ ext) ! (i - 1) = buf ! (i - 1)"
      "take (i - 1 - s) (drop s (buf @ ext)) = take (i - 1 - s) (drop s buf)"
      "i < length buf" "i < length buf + length ext"
      using 1 append_reads [of i buf] by simp_all
    show ?thesis
      using 1 True eq
      by (simp add: scan_head.simps [of lim buf i s lines] scan_head.simps [of lim "buf @ ext" i s lines] Let_def
          del: drop_append take_append)
  next
    case False
    then show ?thesis by (simp add: scan_head.simps [of lim buf i s lines] scan_head.simps [of lim "buf @ ext" i s lines])
  qed
qed

lemma parse_head_stable:
  assumes "parse_head lim buf \<noteq> Inr None"
  shows "parse_head lim (buf @ ext) = parse_head lim buf"
proof (cases "max_head_bytes lim \<le> length buf")
  case True
  then show ?thesis by (simp add: parse_head_def scan_head_full)
next
  case False
  then have no: "\<forall>l. scan_head lim buf 0 0 [] \<noteq> Inr (l, None)"
    using assms by (auto simp: parse_head_def)
  then have "scan_head lim (buf @ ext) 0 0 [] = scan_head lim buf 0 0 []"
    by (rule scan_head_more)
  with no show ?thesis
    by (cases "scan_head lim buf 0 0 []") (auto simp: parse_head_def split: option.splits)
qed

interpretation head: growing_parser "parse_head lim"
  for lim
  by unfold_locales (rule parse_head_stable)

lemma parse_chunk_size_line_stable:
  assumes "parse_chunk_size_line buf \<noteq> Inr None"
  shows "parse_chunk_size_line (buf @ ext) = parse_chunk_size_line buf"
proof (cases "position (\<lambda>b. b = LF) (take (min (length buf) MAX_CHUNK_HEADER_LINE) buf)")
  case None
  then have len: "MAX_CHUNK_HEADER_LINE \<le> length buf"
    using assms by (auto simp: parse_chunk_size_line_def split: if_splits)
  then show ?thesis using None by (simp add: parse_chunk_size_line_def)
next
  case (Some nl)
  have nl: "nl < length buf"
    using Some by (simp add: position_Some)
  have "take (min (length (buf @ ext)) MAX_CHUNK_HEADER_LINE) (buf @ ext) =
      take (min (length buf) MAX_CHUNK_HEADER_LINE) buf @
        drop (min (length buf) MAX_CHUNK_HEADER_LINE)
          (take (min (length (buf @ ext)) MAX_CHUNK_HEADER_LINE) (buf @ ext))"
    by (auto simp: min_def)
  then have "position (\<lambda>b. b = LF) (take (min (length (buf @ ext)) MAX_CHUNK_HEADER_LINE) (buf @ ext)) = Some nl"
    using position_append_Some [OF Some] by metis
  moreover have "(buf @ ext) ! (nl - 1) = buf ! (nl - 1)" "take (nl - 1) (buf @ ext) = take (nl - 1) buf"
    using append_reads [OF nl] by simp_all
  ultimately show ?thesis
    using Some by (simp add: parse_chunk_size_line_def del: take_append)
qed

interpretation chunk_line: growing_parser parse_chunk_size_line
  by unfold_locales (rule parse_chunk_size_line_stable)

section \<open>The lines of a head\<close>

text \<open>A head as its lines: each ends with CRLF and holds neither CR nor LF, then an empty line.\<close>

definition clean :: "bytes \<Rightarrow> bool" where
  "clean l = (l \<noteq> [] \<and> CR \<notin> set l \<and> LF \<notin> set l)"

definition head_bytes :: "bytes list \<Rightarrow> bytes" where
  "head_bytes lines = concat (map (\<lambda>l. l @ CRLF) lines) @ CRLF"

lemma head_bytes_simps [simp]:
  "head_bytes [] = CRLF" "head_bytes (l # ls) = l @ CRLF @ head_bytes ls"
  by (simp_all add: head_bytes_def)

lemma scan_head_skip:
  assumes "i \<le> k" "k \<le> length buf" "k \<le> max_head_bytes lim" "\<forall>j. i \<le> j \<and> j < k \<longrightarrow> buf ! j \<noteq> LF"
  shows "scan_head lim buf i s lines = scan_head lim buf k s lines"
  using assms
proof (induction "k - i" arbitrary: i)
  case 0
  then show ?case by simp
next
  case (Suc d)
  have "i < k" using Suc.hyps(2) by simp
  then have "i < min (length buf) (max_head_bytes lim)" "buf ! i \<noteq> LF" using Suc.prems by simp_all
  then have "scan_head lim buf i s lines = scan_head lim buf (i + 1) s lines"
    by (simp only: scan_head.simps [of lim buf i s lines] if_True not_False_eq_True)
  also have "\<dots> = scan_head lim buf k s lines"
    using Suc.hyps(2) Suc.prems by (intro Suc.hyps(1)) simp_all
  finally show ?case .
qed

lemma scan_head_line:
  assumes "buf = pre @ l @ CRLF @ post" "length pre = s" "CR \<notin> set l" "LF \<notin> set l"
    "s + length l + 2 \<le> max_head_bytes lim"
  shows "scan_head lim buf s s lines =
    (if l = [] then Inr (lines, Some (s + 2))
     else if max_header_count lim < length lines then Inl (Protocol ''too many headers'')
     else scan_head lim buf (s + length l + 2) (s + length l + 2) (lines @ [l]))"
proof -
  let ?k = "s + length l + 1"
  have at: "buf ! ?k = LF" "buf ! (?k - 1) = CR"
    using assms(1,2) by (simp_all add: nth_append)
  have "buf ! j \<noteq> LF" if "s \<le> j" "j < ?k" for j
  proof (cases "j = s + length l")
    case True
    then show ?thesis using at by simp
  next
    case False
    then have "j - s < length l" using that by simp
    then have "buf ! j = l ! (j - s)" "j - s < length l" using that assms(1,2) by (simp_all add: nth_append)
    then show ?thesis using assms(4) by (metis nth_mem)
  qed
  then have "scan_head lim buf s s lines = scan_head lim buf ?k s lines"
    using assms(1,2,5) by (intro scan_head_skip) simp_all
  moreover have k: "?k < min (length buf) (max_head_bytes lim)" and sl: "take (?k - 1 - s) (drop s buf) = l"
    using assms(1,2,5) by simp_all
  have "scan_head lim buf ?k s lines =
    (if l = [] then Inr (lines, Some (s + 2))
     else if max_header_count lim < length lines then Inl (Protocol ''too many headers'')
     else scan_head lim buf (s + length l + 2) (s + length l + 2) (lines @ [l]))"
    unfolding scan_head.simps [of lim buf ?k s lines] Let_def sl using k at assms(3) by simp
  ultimately show ?thesis by simp
qed

lemma scan_head_complete:
  assumes "buf = pre @ head_bytes ls @ post" "length pre = s" "list_all clean ls"
    "s + length (head_bytes ls) \<le> max_head_bytes lim" "length lines + length ls \<le> max_header_count lim + 1"
  shows "scan_head lim buf s s lines = Inr (lines @ ls, Some (s + length (head_bytes ls)))"
  using assms
proof (induction ls arbitrary: pre s lines)
  case Nil
  then show ?case using scan_head_line [of buf pre "[]" post s lim lines] by simp
next
  case (Cons l ls)
  have l: "l \<noteq> []" "CR \<notin> set l" "LF \<notin> set l" using Cons.prems(3) by (simp_all add: clean_def)
  have "scan_head lim buf s s lines = scan_head lim buf (s + length l + 2) (s + length l + 2) (lines @ [l])"
    using scan_head_line [of buf pre l "head_bytes ls @ post" s lim lines] Cons.prems l
    by simp
  also have "\<dots> = Inr ((lines @ [l]) @ ls, Some (s + length l + 2 + length (head_bytes ls)))"
    using Cons.prems by (intro Cons.IH [where pre = "pre @ l @ CRLF"]) simp_all
  finally show ?case by simp
qed

lemma line_at:
  assumes "s < i" "i < length buf" "buf ! i = LF" "buf ! (i - 1) = CR"
  shows "take (i + 1) buf = take s buf @ take (i - 1 - s) (drop s buf) @ CRLF"
proof -
  have "take (i + 1) buf = take (i - 1) buf @ [buf ! (i - 1), buf ! i]"
    using assms take_Suc_conv_app_nth [of i buf] take_Suc_conv_app_nth [of "i - 1" buf] by simp
  moreover have "take (i - 1) buf = take s buf @ take (i - 1 - s) (drop s buf)"
    using assms(1) by (metis le_add_diff_inverse less_iff_Suc_add diff_Suc_1 add_Suc_right le_add1 take_add)
  ultimately show ?thesis using assms by simp
qed

lemma scan_head_sound:
  assumes "scan_head lim buf i s lines = Inr (ls', Some n)" "s \<le> i" "\<forall>j. s \<le> j \<and> j < i \<longrightarrow> buf ! j \<noteq> LF"
    "length lines \<le> max_header_count lim + 1"
  shows "\<exists>ls post. ls' = lines @ ls \<and> buf = take s buf @ head_bytes ls @ post \<and>
    n = s + length (head_bytes ls) \<and> list_all clean ls \<and> n \<le> max_head_bytes lim \<and> n \<le> length buf \<and>
    length ls' \<le> max_header_count lim + 1"
  using assms
proof (induction lim buf i s lines rule: scan_head.induct)
  case (1 lim buf i s lines)
  note eq = scan_head.simps [of lim buf i s lines]
  let ?line = "take (i - 1 - s) (drop s buf)"
  have i: "i < length buf" "i < max_head_bytes lim"
    using "1.prems"(1) by (simp_all add: eq split: if_splits)
  show ?case
  proof (cases "buf ! i = LF")
    case False
    then have "\<forall>j. s \<le> j \<and> j < i + 1 \<longrightarrow> buf ! j \<noteq> LF"
      using "1.prems"(3) by (auto simp: less_Suc_eq)
    moreover have "scan_head lim buf (i + 1) s lines = Inr (ls', Some n)"
      using "1.prems"(1) i False unfolding eq by simp
    ultimately show ?thesis
      using "1.IH"(1) "1.prems"(2,4) i False by simp
  next
    case True
    then have c: "i \<noteq> s" "buf ! (i - 1) = CR" "CR \<notin> set ?line"
      using "1.prems"(1) i by (auto simp: eq Let_def split: if_splits)
    have buf: "buf = take s buf @ ?line @ CRLF @ drop (i + 1) buf"
      using line_at [of s i buf] c True i "1.prems"(2) append_take_drop_id [of "i + 1" buf] by simp
    have "LF \<notin> set ?line"
    proof
      assume "LF \<in> set ?line"
      then obtain k where "k < i - 1 - s" "buf ! (s + k) = LF"
        using i by (auto simp: in_set_conv_nth)
      then show False using "1.prems"(3) by auto
    qed
    with c have cl: "?line = [] \<or> clean ?line" by (auto simp: clean_def)
    have len: "length ?line = i - 1 - s" using i by simp
    show ?thesis
    proof (cases "?line = []")
      case empty: True
      then have "ls' = lines" "n = i + 1"
        using "1.prems"(1) i True c unfolding eq Let_def by simp_all
      moreover have "i - 1 - s = 0" using len unfolding empty by simp
      then have "i = s + 1" using c(1) "1.prems"(2) by linarith
      ultimately show ?thesis
        using buf empty i "1.prems"(4) by (intro exI [of _ "[]"] exI [of _ "drop (i + 1) buf"]) simp
    next
      case False
      have cnt: "\<not> max_header_count lim < length (lines @ [?line]) - 1"
        using "1.prems"(1) i True c False unfolding eq Let_def by (auto split: if_splits)
      then have run: "scan_head lim buf (i + 1) (i + 1) (lines @ [?line]) = Inr (ls', Some n)"
        using "1.prems"(1) i True c False unfolding eq Let_def by simp
      have no: "\<not> (Suc i \<le> j \<and> j < Suc i)" for j by simp
      have "\<exists>ls post. ls' = (lines @ [?line]) @ ls \<and> buf = take (i + 1) buf @ head_bytes ls @ post \<and>
          n = i + 1 + length (head_bytes ls) \<and> list_all clean ls \<and> n \<le> max_head_bytes lim \<and> n \<le> length buf \<and>
          length ls' \<le> max_header_count lim + 1"
        using "1.IH"(2) [OF _ _ _ refl] run i True c False cnt no by auto
      then obtain ls post where r: "ls' = (lines @ [?line]) @ ls" "buf = take (i + 1) buf @ head_bytes ls @ post"
        "n = i + 1 + length (head_bytes ls)" "list_all clean ls" "n \<le> max_head_bytes lim" "n \<le> length buf"
        "length ls' \<le> max_header_count lim + 1" by blast
      have "buf = take s buf @ head_bytes (?line # ls) @ post"
        using r(2) line_at [of s i buf] c True i "1.prems"(2) by simp
      then show ?thesis
        using r cl False len c "1.prems"(2)
        by (intro exI [of _ "?line # ls"] exI [of _ post]) simp
    qed
  qed
qed

lemma parse_head_iff:
  "parse_head lim buf = Inr (Some h) \<longleftrightarrow>
   (\<exists>lines post. buf = head_bytes lines @ post \<and> list_all clean lines \<and>
      length (head_bytes lines) \<le> max_head_bytes lim \<and> length lines \<le> max_header_count lim + 1 \<and>
      parse_lines lim lines (length (head_bytes lines)) = Inr h)"
  (is "?lhs \<longleftrightarrow> ?rhs")
proof
  assume ?lhs
  then obtain ls n where s: "scan_head lim buf 0 0 [] = Inr (ls, Some n)" "parse_lines lim ls n = Inr h"
    by (auto simp: parse_head_def rbind_eq_Inr_iff split: option.splits if_splits)
  from scan_head_sound [OF s(1)] s(2) show ?rhs by auto
next
  assume ?rhs
  then obtain lines post where r: "buf = head_bytes lines @ post" "list_all clean lines"
    "length (head_bytes lines) \<le> max_head_bytes lim" "length lines \<le> max_header_count lim + 1"
    "parse_lines lim lines (length (head_bytes lines)) = Inr h" by blast
  have "scan_head lim buf 0 0 [] = Inr (lines, Some (length (head_bytes lines)))"
    using scan_head_complete [of buf "[]" lines post 0 lim "[]"] r by simp
  then show ?lhs using r(5) by (simp add: parse_head_def)
qed

text \<open>The values of the header fields of one name, in order.\<close>

definition field_values :: "bytes \<Rightarrow> bytes list \<Rightarrow> bytes list" where
  "field_values field headers = List.map_filter
     (\<lambda>line. case parse_header_line line of
        Inl _ \<Rightarrow> None | Inr (name, v) \<Rightarrow> if eq_ignore_case name field then Some v else None) headers"

lemma field_values_append [simp]:
  "field_values f (xs @ ys) = field_values f xs @ field_values f ys"
  by (simp add: field_values_def map_filter_def)

definition framing_fields :: "header_state \<Rightarrow> bytes list \<Rightarrow> bool" where
  "framing_fields st headers =
     ((case hs_content_length st of
         None \<Rightarrow> field_values (ascii ''content-length'') headers = []
       | Some n \<Rightarrow> \<exists>v. field_values (ascii ''content-length'') headers = [v] \<and> parse_content_length v = Inr n) \<and>
      (if hs_chunked st
       then \<exists>v. field_values (ascii ''transfer-encoding'') headers = [v] \<and>
         eq_ignore_case (trim_ows v) (ascii ''chunked'')
       else field_values (ascii ''transfer-encoding'') headers = []) \<and>
      hs_transfer_encoding_seen st = hs_chunked st)"

lemma field_names_differ:
  "eq_ignore_case name (ascii ''content-length'') \<Longrightarrow> \<not> eq_ignore_case name (ascii ''transfer-encoding'')"
  by (simp add: eq_ignore_case_def ascii_def)

lemma header_step_fields:
  assumes "framing_fields st hs" "header_step st line = Inr st'"
  shows "framing_fields st' (hs @ [line])"
proof -
  obtain name v where p: "parse_header_line line = Inr (name, v)"
    using assms(2) by (auto simp: header_step_def rbind_eq_Inr_iff)
  have fv: "field_values f [line] = (if eq_ignore_case name f then [v] else [])" for f
    by (simp add: field_values_def map_filter_simps p)
  show ?thesis
    using assms field_names_differ [of name]
    by (auto simp: framing_fields_def header_step_def p fv rbind_eq_Inr_iff Let_def
        split: if_splits option.splits)
qed

lemma header_fold_fields:
  assumes "rfold header_step header_state_new headers = Inr st"
  shows "framing_fields st headers"
  using assms
proof (induction headers arbitrary: st rule: rev_induct)
  case Nil
  then show ?case
    by (auto simp: framing_fields_def header_state_new_def field_values_def map_filter_simps)
next
  case (snoc line headers)
  then show ?case
    by (auto simp: rfold_append rbind_eq_Inr_iff intro: header_step_fields)
qed

section \<open>The grammar of a response head\<close>

text \<open>
  What a head is, in the terms of the protocol and apart from the parser: the status line, the
  fields with the blanks around their values, and the rules on the fields of framing.
\<close>

definition field_blank :: "u8 \<Rightarrow> bool" where
  "field_blank b = (b \<in> {32, 9})"

definition text_byte :: "u8 \<Rightarrow> bool" where
  "text_byte b = (b = 9 \<or> 32 \<le> b \<and> b \<le> 126)"

definition token_byte :: "u8 \<Rightarrow> bool" where
  "token_byte b =
     (b \<in> set (ascii ''!#$%&'*+-.^_`|~'') \<or> 48 \<le> b \<and> b \<le> 57 \<or> 65 \<le> b \<and> b \<le> 90 \<or> 97 \<le> b \<and> b \<le> 122)"

fun place_value :: "nat \<Rightarrow> nat list \<Rightarrow> nat" where
  "place_value b [] = 0"
| "place_value b (v # vs) = v * b ^ length vs + place_value b vs"

definition decimal_text :: "bytes \<Rightarrow> nat \<Rightarrow> bool" where
  "decimal_text ds n =
     (\<exists>vs. list_all2 (\<lambda>d v. v < 10 \<and> d = 48 + of_nat v) ds vs \<and> n = place_value 10 vs)"

definition status_line_form :: "bytes \<Rightarrow> u16 \<Rightarrow> bool" where
  "status_line_form line status =
     (\<exists>version a b c rest. line = version @ 32 # [48 + of_nat a, 48 + of_nat b, 48 + of_nat c] @ rest \<and>
        version \<in> {ascii ''HTTP/1.1'', ascii ''HTTP/1.0''} \<and> a < 10 \<and> b < 10 \<and> c < 10 \<and>
        status = of_nat (100 * a + 10 * b + c) \<and>
        (rest = [] \<or> (\<exists>reason. rest = 32 # reason \<and> list_all text_byte reason)))"

definition trimmed :: "bytes \<Rightarrow> bool" where
  "trimmed v = (v = [] \<or> \<not> field_blank (hd v) \<and> \<not> field_blank (List.last v))"

definition padded :: "bytes \<Rightarrow> bytes \<Rightarrow> bool" where
  "padded v core =
     (\<exists>before after. v = before @ core @ after \<and> list_all field_blank before \<and> list_all field_blank after)"

definition field_line_form :: "bytes \<Rightarrow> bytes \<times> bytes \<Rightarrow> bool" where
  "field_line_form line field =
     (\<exists>rest. line = fst field @ 58 # rest \<and> fst field \<noteq> [] \<and> list_all token_byte (fst field) \<and>
        padded rest (snd field) \<and> trimmed (snd field) \<and> list_all text_byte (snd field))"

definition values_of :: "bytes \<Rightarrow> (bytes \<times> bytes) list \<Rightarrow> bytes list" where
  "values_of name pairs = map snd (filter (\<lambda>f. eq_ignore_case (fst f) name) pairs)"

text \<open>A list of options, separated by commas, with \<open>close\<close> among them.\<close>

definition close_option :: "bytes \<Rightarrow> bool" where
  "close_option v =
     (\<exists>before opt after core. v = before @ opt @ after \<and> (before = [] \<or> List.last before = 44) \<and>
        (after = [] \<or> hd after = 44) \<and> padded opt core \<and> eq_ignore_case core (ascii ''close''))"

definition content_length_form :: "bytes \<Rightarrow> nat \<Rightarrow> bool" where
  "content_length_form v len = (v \<noteq> [] \<and> length v \<le> 20 \<and> decimal_text v len \<and> len < 2 ^ 64)"

definition fields_form :: "(bytes \<times> bytes) list \<Rightarrow> bool" where
  "fields_form pairs =
     ((values_of (ascii ''content-length'') pairs = [] \<or>
       (\<exists>v len. values_of (ascii ''content-length'') pairs = [v] \<and> content_length_form v len)) \<and>
      (values_of (ascii ''transfer-encoding'') pairs = [] \<or>
       (\<exists>v. values_of (ascii ''transfer-encoding'') pairs = [v] \<and> eq_ignore_case v (ascii ''chunked''))) \<and>
      list_all (\<lambda>v. eq_ignore_case v (ascii ''identity'')) (values_of (ascii ''content-encoding'') pairs))"

definition framing_rules :: "limits \<Rightarrow> (bytes \<times> bytes) list \<Rightarrow> head \<Rightarrow> bool" where
  "framing_rules lim pairs h =
     ((values_of (ascii ''content-length'') pairs = [] \<or> values_of (ascii ''transfer-encoding'') pairs = []) \<and>
      \<not> (100 \<le> h_status h \<and> h_status h < 200) \<and>
      (if h_status h \<in> {204, 304} then h_framing h = No_Body
       else if values_of (ascii ''transfer-encoding'') pairs \<noteq> [] then h_framing h = Chunked
       else \<exists>v len. values_of (ascii ''content-length'') pairs = [v] \<and> content_length_form v len \<and>
              len \<le> max_body_bytes lim \<and> h_framing h = Content_Length len) \<and>
      h_connection_close h = list_ex close_option (values_of (ascii ''connection'') pairs))"

definition response_head_form :: "limits \<Rightarrow> bytes list \<Rightarrow> head \<Rightarrow> bool" where
  "response_head_form lim lines h =
     (\<exists>status_line field_lines pairs. lines = status_line # field_lines \<and>
        status_line_form status_line (h_status h) \<and> list_all2 field_line_form field_lines pairs \<and>
        fields_form pairs \<and> framing_rules lim pairs h \<and> h_head_len h = length (head_bytes lines))"

section \<open>The parser meets the grammar\<close>

lemma foldl_place_value:
  "foldl (\<lambda>n d. b * n + f d) m ds = m * b ^ length ds + place_value b (map f ds)"
  by (induction ds arbitrary: m) (simp_all add: algebra_simps)

lemma digit_byte: "is_digit d \<longleftrightarrow> (\<exists>v<10. d = 48 + of_nat v)" "v < 10 \<Longrightarrow> unat (48 + of_nat v :: u8) - 48 = v"
proof -
  have "v < 10 \<Longrightarrow> is_digit (48 + of_nat v) \<and> unat (48 + of_nat v :: u8) - 48 = v" for v
  proof -
    assume "v < 10"
    then have "v \<in> set [0..<10]" by simp
    moreover have "\<forall>v\<in>set [0..<10]. is_digit (48 + of_nat v) \<and> unat (48 + of_nat v :: u8) - 48 = v" by code_simp
    ultimately show ?thesis by blast
  qed
  moreover have "\<exists>v<10. d = 48 + of_nat v" if "is_digit d"
  proof (intro exI conjI)
    have d: "48 \<le> unat d" "unat d \<le> 57" using that by (simp_all add: is_digit_def word_le_nat_alt)
    then show "unat d - 48 < 10" by simp
    have "of_nat (48 + (unat d - 48)) = d" using d by simp
    then show "d = 48 + of_nat (unat d - 48)" by simp
  qed
  ultimately show "is_digit d \<longleftrightarrow> (\<exists>v<10. d = 48 + of_nat v)" "v < 10 \<Longrightarrow> unat (48 + of_nat v :: u8) - 48 = v"
    by blast+
qed

lemma decimal_text_iff: "decimal_text ds n \<longleftrightarrow> list_all is_digit ds \<and> n = dec_value ds"
proof -
  have val: "place_value 10 vs = dec_value ds" if "list_all2 (\<lambda>d v. v < 10 \<and> d = 48 + of_nat v) ds vs" for vs
  proof -
    have "map (\<lambda>d. unat d - 48) ds = vs"
      using that by (induction rule: list_all2_induct) (simp_all add: digit_byte(2))
    then show ?thesis by (simp add: dec_value_def foldl_place_value)
  qed
  have digits: "(\<exists>vs. list_all2 (\<lambda>d v. v < 10 \<and> d = 48 + of_nat v) ds vs) \<longleftrightarrow> list_all is_digit ds"
  proof (induction ds)
    case (Cons d ds)
    then show ?case by (auto simp: digit_byte(1) list_all2_Cons1)
  qed simp
  show ?thesis
  proof
    assume "decimal_text ds n"
    then obtain vs where vs: "list_all2 (\<lambda>d v. v < 10 \<and> d = 48 + of_nat v) ds vs" "n = place_value 10 vs"
      unfolding decimal_text_def by (elim exE conjE) (rule that)
    then show "list_all is_digit ds \<and> n = dec_value ds" using digits val [OF vs(1)] by (simp only:) blast
  next
    assume ds: "list_all is_digit ds \<and> n = dec_value ds"
    then obtain vs where "list_all2 (\<lambda>d v. v < 10 \<and> d = 48 + of_nat v) ds vs" using digits by blast
    then show "decimal_text ds n"
      unfolding decimal_text_def using ds val by (intro exI [of _ vs]) simp
  qed
qed

lemma byte_classes: "is_ows = field_blank" "is_vchar_sp_htab = text_byte" "is_tchar = token_byte"
proof -
  show "is_ows = field_blank"
    by (rule ext) (simp add: is_ows_def field_blank_def)
  show "is_vchar_sp_htab = text_byte"
  proof
    fix b :: u8
    have "32 \<le> b \<longleftrightarrow> 33 \<le> b \<or> b = 32"
      using word_le_nat_alt [of 32 b] word_le_nat_alt [of 33 b] word_unat_eq_iff [of b 32] by simp linarith
    then show "is_vchar_sp_htab b = text_byte b" by (auto simp: is_vchar_sp_htab_def text_byte_def)
  qed
  show "is_tchar = token_byte"
    by (rule ext) (auto simp: is_tchar_def token_byte_def ascii_def is_alphanumeric_def is_digit_def is_upper_def is_lower_def)
qed

lemma trim_ows_core:
  assumes "v = before @ core @ after" "list_all field_blank before" "list_all field_blank after" "trimmed core"
  shows "trim_ows v = core"
proof (cases "core = []")
  case True
  then have "list_all field_blank v" using assms by simp
  then have "takeWhile field_blank v = v" by (simp add: takeWhile_eq_all_conv list_all_iff)
  then show ?thesis using True \<open>list_all field_blank v\<close> by (simp add: trim_ows_def byte_classes)
next
  case False
  then have ends: "\<not> field_blank (hd core)" "\<not> field_blank (List.last core)" using assms(4) by (auto simp: trimmed_def)
  have t1: "takeWhile field_blank v = before"
    using assms(2) ends(1) False unfolding assms(1) list_all_iff by (cases core) (simp_all add: takeWhile_append2)
  have "takeWhile field_blank (rev after @ rev core @ rev before) = rev after"
    using assms(3) ends(2) False
    by (subst takeWhile_append2) (cases core rule: rev_cases; simp add: list_all_iff)+
  then have t2: "length (takeWhile field_blank (rev v)) = length after" unfolding assms(1) by simp
  have "\<not> list_all field_blank v" using ends(1) False unfolding assms(1) by (cases core) simp_all
  moreover have "length v - length after - length before = length core" by (simp add: assms(1))
  ultimately show ?thesis unfolding trim_ows_def byte_classes t1 t2 Let_def
    using \<open>\<not> list_all field_blank v\<close> by (auto simp: assms(1))
qed

lemma trim_ows_parts: "\<exists>before after. v = before @ trim_ows v @ after \<and> list_all field_blank before \<and>
  list_all field_blank after \<and> trimmed (trim_ows v)"
proof -
  let ?before = "takeWhile field_blank v" and ?rest = "dropWhile field_blank v"
  let ?after = "rev (takeWhile field_blank (rev ?rest))" and ?core = "rev (dropWhile field_blank (rev ?rest))"
  have "rev (dropWhile field_blank (rev ?rest)) @ rev (takeWhile field_blank (rev ?rest)) = ?rest"
    by (metis rev_append rev_rev_ident takeWhile_dropWhile_id)
  then have v: "v = ?before @ ?core @ ?after" by simp
  have blanks: "list_all field_blank ?before" "list_all field_blank ?after"
    by (auto simp: list_all_iff dest: set_takeWhileD)
  have "trimmed ?core"
  proof (cases "?core = []")
    case False
    have "hd ?core = hd ?rest"
    proof -
      have "?rest = ?core @ ?after" using v by (metis append_same_eq takeWhile_dropWhile_id same_append_eq)
      then show ?thesis using False by (metis hd_append2)
    qed
    moreover have "?rest \<noteq> []" using False by (metis dropWhile.simps(1) rev.simps(1))
    ultimately show ?thesis
      using False hd_dropWhile [of field_blank v] hd_dropWhile [of field_blank "rev ?rest"]
      by (auto simp: trimmed_def last_rev)
  qed (simp add: trimmed_def)
  then show ?thesis using v blanks trim_ows_core [OF v blanks] by metis
qed

lemma trim_ows_iff: "trim_ows v = core \<longleftrightarrow> padded v core \<and> trimmed core"
  using trim_ows_parts [of v] trim_ows_core [of v _ core] unfolding padded_def by metis

lemma first_cut: "c \<notin> set u \<Longrightarrow> c \<notin> set t \<Longrightarrow> u @ c # ys = t @ c # zs \<longleftrightarrow> u = t \<and> ys = zs"
proof (induction u arbitrary: t)
  case Nil
  then show ?case by (cases t) auto
next
  case (Cons a u)
  then show ?case by (cases t) auto
qed

lemma split_on_iff:
  "t \<in> set (split_on c xs) \<longleftrightarrow>
     (\<exists>before after. xs = before @ t @ after \<and> c \<notin> set t \<and> (before = [] \<or> List.last before = c) \<and>
        (after = [] \<or> hd after = c))"
  (is "_ \<longleftrightarrow> (\<exists>before after. ?cut xs before after)")
proof -
  have split_front: "split_on c (u @ c # ys) = u # split_on c ys" if "c \<notin> set u" for u ys
    using that by (induction u) auto
  have split_whole: "split_on c u = [u]" if "c \<notin> set u" for u
    using that by (induction u) auto
  show ?thesis
  proof (induction "length xs" arbitrary: xs rule: less_induct)
    case less
    show ?case
    proof (cases "c \<in> set xs")
      case False
      have "(\<exists>before after. ?cut xs before after) \<longleftrightarrow> t = xs"
      proof
        assume "\<exists>before after. ?cut xs before after"
        then obtain before after where cut: "?cut xs before after" by blast
        then have "c \<notin> set before" "c \<notin> set after" using False by auto
        then have "before = []" "after = []" using cut by (metis last_in_set, metis hd_in_set)
        then show "t = xs" using cut by simp
      next
        assume "t = xs"
        then show "\<exists>before after. ?cut xs before after"
          using False by (intro exI [of _ "[]"] exI [of _ "[]"]) simp
      qed
      then show ?thesis using split_whole [OF False] by simp
    next
      case True
      then obtain u ys where xs: "xs = u @ c # ys" "c \<notin> set u" by (meson split_list_first)
      have here: "t \<in> set (split_on c xs) \<longleftrightarrow> t = u \<or> (\<exists>before after. ?cut ys before after)"
        using split_front [OF xs(2)] less [of ys] xs(1) by simp
      show ?thesis
      proof
        assume "t \<in> set (split_on c xs)"
        then consider "t = u" | before after where "?cut ys before after" using here by blast
        then show "\<exists>before after. ?cut xs before after"
        proof cases
          case 1
          then show ?thesis using xs by (intro exI [of _ "[]"] exI [of _ "c # ys"]) simp
        next
          case 2
          then have "?cut xs (u @ c # before) after" using xs(1) by (cases "before = []") auto
          then show ?thesis by blast
        qed
      next
        assume "\<exists>before after. ?cut xs before after"
        then obtain before after where cut: "?cut xs before after" by blast
        show "t \<in> set (split_on c xs)"
        proof (cases "before = []")
          case True
          then have "u @ c # ys = t @ after" using cut xs(1) by simp
          moreover have "after \<noteq> []"
            using calculation cut by (metis append_Nil2 in_set_conv_decomp)
          then obtain zs where "after = c # zs" using cut by (cases after) auto
          ultimately have "u = t" using xs(2) cut by (simp add: first_cut)
          then show ?thesis using here by simp
        next
          case False
          then have b: "before = butlast before @ [c]" using cut by (metis append_butlast_last_id)
          then have eq: "u @ c # ys = butlast before @ c # (t @ after)" using cut xs(1) by (metis append.assoc append_Cons append_Nil)
          show ?thesis
          proof (cases "c \<in> set (butlast before)")
            case False
            then have "ys = t @ after" using eq xs(2) by (simp add: first_cut)
            then show ?thesis using here cut by (metis append_Nil)
          next
            case True
            then obtain v ws where v: "butlast before = v @ c # ws" "c \<notin> set v" by (meson split_list_first)
            then have "u = v \<and> ys = ws @ c # (t @ after)" using eq xs(2) by (simp add: first_cut)
            then have "?cut ys (ws @ [c]) after" using cut by simp
            then show ?thesis using here by blast
          qed
        qed
      qed
    qed
  qed
qed

lemma close_option_iff:
  "close_option v \<longleftrightarrow> list_ex (\<lambda>tok. eq_ignore_case (trim_ows tok) (ascii ''close'')) (split_on 44 v)"
proof -
  have plain: "trimmed core \<and> 44 \<notin> set core" if "eq_ignore_case core (ascii ''close'')" for core
  proof -
    have low: "to_lower b \<noteq> 44 \<and> to_lower b \<noteq> 32 \<and> to_lower b \<noteq> 9" if "to_lower b \<in> {99, 108, 111, 115, 101}" for b
      using that by auto
    have m: "map to_lower core = [99, 108, 111, 115, 101]"
      using that by (simp add: eq_ignore_case_def ascii_def to_lower_def is_upper_def)
    then have "\<forall>b\<in>set core. to_lower b \<in> {99, 108, 111, 115, 101}"
      by (metis (no_types, lifting) image_eqI list.set_map list.simps(15) empty_set)
    then have "\<forall>b\<in>set core. b \<noteq> 44 \<and> b \<noteq> 32 \<and> b \<noteq> 9"
      using low by (force simp: to_lower_def is_upper_def)
    moreover have "core \<noteq> []" using m by auto
    ultimately show ?thesis by (auto simp: trimmed_def field_blank_def)
  qed
  have blank: "44 \<notin> set u" if "list_all field_blank u" for u :: bytes
    using that by (auto simp: list_all_iff field_blank_def)
  show ?thesis
  proof
    assume "close_option v"
    then obtain before opt after core where o: "v = before @ opt @ after" "before = [] \<or> List.last before = 44"
        "after = [] \<or> hd after = 44" "padded opt core" "eq_ignore_case core (ascii ''close'')"
      unfolding close_option_def by blast
    have core: "trimmed core" "44 \<notin> set core" using plain [OF o(5)] by blast+
    then have "44 \<notin> set opt" using o(4) blank unfolding padded_def by auto
    then have "opt \<in> set (split_on 44 v)" using o unfolding split_on_iff by blast
    moreover have "trim_ows opt = core" using o(4) core(1) by (simp add: trim_ows_iff)
    ultimately show "list_ex (\<lambda>tok. eq_ignore_case (trim_ows tok) (ascii ''close'')) (split_on 44 v)"
      using o(5) by (auto simp: list_ex_iff)
  next
    assume "list_ex (\<lambda>tok. eq_ignore_case (trim_ows tok) (ascii ''close'')) (split_on 44 v)"
    then obtain opt where o: "opt \<in> set (split_on 44 v)" "eq_ignore_case (trim_ows opt) (ascii ''close'')"
      by (auto simp: list_ex_iff)
    have "padded opt (trim_ows opt)" using trim_ows_iff by blast
    then show "close_option v" using o unfolding split_on_iff close_option_def by blast
  qed
qed

lemma status_line_iff: "parse_status_line line = Inr status \<longleftrightarrow> status_line_form line status"
proof
  assume p: "parse_status_line line = Inr status"
  then have len: "12 \<le> length line" by (auto simp: parse_status_line_def split: if_splits)
  define version where "version = take 8 line"
  define digits where "digits = take 3 (drop 9 line)"
  have line: "line = version @ line ! 8 # digits @ drop 12 line"
  proof -
    have "drop 8 line = line ! 8 # drop 9 line" using len Cons_nth_drop_Suc [of 8 line] by simp
    moreover have "drop 9 line = digits @ drop 12 line"
      using append_take_drop_id [of 3 "drop 9 line"] by (simp add: digits_def)
    ultimately show ?thesis using append_take_drop_id [of 8 line] by (simp add: version_def)
  qed
  have ok: "version \<in> {ascii ''HTTP/1.1'', ascii ''HTTP/1.0''}" "line ! 8 = 32" "list_all is_digit digits"
      "status = of_nat (dec_value digits)"
      "length line = 12 \<or> line ! 12 = 32 \<and> list_all text_byte (drop 13 line)"
    using p by (auto simp: parse_status_line_def Let_def version_def digits_def byte_classes split: if_splits)
  have "length digits = Suc (Suc (Suc 0))" using len by (simp add: digits_def)
  then obtain x y z where d: "digits = [x, y, z]" by (auto simp: length_Suc_conv)
  then obtain a b c where abc: "a < 10" "b < 10" "c < 10" "x = 48 + of_nat a" "y = 48 + of_nat b" "z = 48 + of_nat c"
    using ok(3) by (auto simp: digit_byte(1))
  have "status = of_nat (100 * a + 10 * b + c)"
    using ok(4) abc by (simp add: d dec_value_def digit_byte(2))
  moreover have "drop 12 line = [] \<or> (\<exists>reason. drop 12 line = 32 # reason \<and> list_all text_byte reason)"
    using ok(5) len by (cases "length line = 12") (use Cons_nth_drop_Suc [of 12 line, symmetric] in auto)
  ultimately show "status_line_form line status"
    unfolding status_line_form_def using line ok(1,2) d abc
    by (intro exI [of _ version] exI [of _ a] exI [of _ b] exI [of _ c] exI [of _ "drop 12 line"]) simp
next
  assume "status_line_form line status"
  then obtain version a b c rest where l: "line = version @ 32 # [48 + of_nat a, 48 + of_nat b, 48 + of_nat c] @ rest"
      "version \<in> {ascii ''HTTP/1.1'', ascii ''HTTP/1.0''}" "a < 10" "b < 10" "c < 10"
      "status = of_nat (100 * a + 10 * b + c)"
      "rest = [] \<or> (\<exists>reason. rest = 32 # reason \<and> list_all text_byte reason)"
    unfolding status_line_form_def by blast
  have len: "length version = 8" using l(2) by (auto simp: ascii_def)
  have digits: "is_digit (48 + of_nat a)" "is_digit (48 + of_nat b)" "is_digit (48 + of_nat c)"
    using l(3-5) digit_byte(1) by blast+
  have number: "dec_value [48 + of_nat a, 48 + of_nat b, 48 + of_nat c] = 100 * a + 10 * b + c"
    using l(3-5) by (simp add: dec_value_def digit_byte(2))
  have parts: "take 8 line = version" "line ! 8 = 32" "take 3 (drop 9 line) = [48 + of_nat a, 48 + of_nat b, 48 + of_nat c]"
      "drop 13 line = drop 1 rest" "length line = 12 + length rest" "rest \<noteq> [] \<Longrightarrow> line ! 12 = hd rest"
    unfolding l(1) by (simp_all add: len nth_append hd_conv_nth)
  show "parse_status_line line = Inr status"
    using l(2,6,7) digits number unfolding parse_status_line_def Let_def parts by (auto simp: byte_classes parts)
qed

lemma field_line_iff: "parse_header_line line = Inr field \<longleftrightarrow> field_line_form line field"
proof -
  obtain name v where f: "field = (name, v)" by fastforce
  have colon: "\<not> token_byte 58" by (simp add: token_byte_def ascii_def)
  have blank: "\<not> token_byte 32" "\<not> token_byte 9" by (simp_all add: token_byte_def ascii_def)
  show ?thesis
  proof
    assume p: "parse_header_line line = Inr field"
    then obtain k where k: "position (\<lambda>b. b = 58) line = Some k" "take k line = name" "name \<noteq> []"
        "list_all token_byte name" "trim_ows (drop (k + 1) line) = v" "list_all text_byte v"
      by (auto simp: f parse_header_line_def byte_classes Let_def rbind_eq_Inr_iff ok_or_def
          split: if_splits option.splits)
    have "line = name @ 58 # drop (k + 1) line"
      using k(1,2) id_take_nth_drop [of k line] by (auto simp: position_Some)
    then show "field_line_form line field"
      using k unfolding field_line_form_def f trim_ows_iff by auto
  next
    assume "field_line_form line field"
    then obtain rest where r: "line = name @ 58 # rest" "name \<noteq> []" "list_all token_byte name" "padded rest v"
        "trimmed v" "list_all text_byte v"
      unfolding field_line_form_def f by auto
    have "\<not> (hd line = 32 \<or> hd line = 9)"
      using r(1-3) blank by (cases name) auto
    moreover have "position (\<lambda>b. b = 58) line = Some (length name)"
      unfolding r(1) using r(3) colon by (induction name) auto
    moreover have "trim_ows rest = v" using r(4,5) by (simp add: trim_ows_iff)
    ultimately show "parse_header_line line = Inr field"
      using r by (auto simp: f parse_header_line_def byte_classes)
  qed
qed

lemma content_length_iff: "parse_content_length v = Inr len \<longleftrightarrow> content_length_form v len"
  by (auto simp: parse_content_length_def content_length_form_def decimal_text_iff)

text \<open>The state of the header loop after fields that are in order.\<close>

definition state_of :: "(bytes \<times> bytes) list \<Rightarrow> header_state" where
  "state_of pairs =
     \<lparr>hs_content_length =
        (case values_of (ascii ''content-length'') pairs of [] \<Rightarrow> None | v # _ \<Rightarrow> Some (dec_value v)),
      hs_transfer_encoding_seen = (values_of (ascii ''transfer-encoding'') pairs \<noteq> []),
      hs_chunked = (values_of (ascii ''transfer-encoding'') pairs \<noteq> []),
      hs_connection_close = list_ex close_option (values_of (ascii ''connection'') pairs)\<rparr>"

lemma values_of_snoc [simp]:
  "values_of name (pairs @ [(n, v)]) = values_of name pairs @ (if eq_ignore_case n name then [v] else [])"
  by (simp add: values_of_def)

lemma values_of_Nil [simp]: "values_of name [] = []"
  by (simp add: values_of_def)

lemma known_names_differ:
  "eq_ignore_case n (ascii ''content-length'') \<Longrightarrow> \<not> eq_ignore_case n (ascii ''transfer-encoding'') \<and>
     \<not> eq_ignore_case n (ascii ''connection'') \<and> \<not> eq_ignore_case n (ascii ''content-encoding'')"
  "eq_ignore_case n (ascii ''transfer-encoding'') \<Longrightarrow> \<not> eq_ignore_case n (ascii ''connection'') \<and>
     \<not> eq_ignore_case n (ascii ''content-encoding'')"
  "eq_ignore_case n (ascii ''connection'') \<Longrightarrow> \<not> eq_ignore_case n (ascii ''content-encoding'')"
  by (simp_all add: eq_ignore_case_def ascii_def)

lemma trim_ows_trimmed: "trimmed v \<Longrightarrow> trim_ows v = v"
  by (auto simp: trim_ows_iff padded_def intro: exI [of _ "[]"])

lemma content_length_value: "content_length_form v len \<Longrightarrow> len = dec_value v"
  by (simp add: content_length_form_def decimal_text_iff)

lemma header_step_iff:
  assumes "parse_header_line line = Inr (n, v)" "fields_form pairs"
  shows "header_step (state_of pairs) line = Inr st \<longleftrightarrow>
    fields_form (pairs @ [(n, v)]) \<and> st = state_of (pairs @ [(n, v)])"
proof -
  have trim: "trim_ows v = v"
    using assms(1) by (auto simp: field_line_iff field_line_form_def trim_ows_trimmed)
  note defs = header_step_def state_of_def fields_form_def assms(1) trim Let_def close_option_iff
  consider "eq_ignore_case n (ascii ''content-length'')" | "eq_ignore_case n (ascii ''transfer-encoding'')"
    | "eq_ignore_case n (ascii ''connection'')" | "eq_ignore_case n (ascii ''content-encoding'')"
    | "\<not> eq_ignore_case n (ascii ''content-length'')" "\<not> eq_ignore_case n (ascii ''transfer-encoding'')"
      "\<not> eq_ignore_case n (ascii ''connection'')" "\<not> eq_ignore_case n (ascii ''content-encoding'')"
    by blast
  then show ?thesis
  proof cases
    case 1
    show ?thesis
    proof (cases "values_of (ascii ''content-length'') pairs")
      case Nil
      have "rbind (parse_content_length v) (\<lambda>len. Inr (f len)) = Inr st \<longleftrightarrow>
          (\<exists>len. content_length_form v len) \<and> st = f (dec_value v)" for f :: "nat \<Rightarrow> header_state"
        by (auto simp: rbind_eq_Inr_iff content_length_iff dest: content_length_value)
      then show ?thesis
        using 1 known_names_differ(1) [OF 1] assms(2) Nil by (auto simp: defs)
    next
      case (Cons w ws)
      then show ?thesis using 1 known_names_differ(1) [OF 1] by (auto simp: defs)
    qed
  next
    case 2
    then have "\<not> eq_ignore_case n (ascii ''content-length'')" using known_names_differ(1) by blast
    then show ?thesis
      using 2 known_names_differ(2) [OF 2] assms(2) by (auto simp: defs)
  next
    case 3
    then have "\<not> eq_ignore_case n (ascii ''content-length'')" "\<not> eq_ignore_case n (ascii ''transfer-encoding'')"
      using known_names_differ(1,2) by blast+
    then show ?thesis
      using 3 known_names_differ(3) [OF 3] assms(2) by (auto simp: defs)
  next
    case 4
    then have "\<not> eq_ignore_case n (ascii ''content-length'')" "\<not> eq_ignore_case n (ascii ''transfer-encoding'')"
        "\<not> eq_ignore_case n (ascii ''connection'')"
      using known_names_differ by blast+
    then show ?thesis using 4 assms(2) by (auto simp: defs)
  next
    case 5
    then show ?thesis using assms(2) by (auto simp: defs)
  qed
qed

lemma list_all2_snoc:
  "list_all2 r (xs @ [x]) ys \<longleftrightarrow> (\<exists>zs z. ys = zs @ [z] \<and> list_all2 r xs zs \<and> r x z)"
proof -
  have "list_all2 r (xs @ [x]) (zs @ [z]) \<longleftrightarrow> list_all2 r xs zs \<and> r x z" for zs z
    using list_all2_rev [of r "xs @ [x]" "zs @ [z]"] list_all2_rev [of r xs zs] by auto
  then show ?thesis by (cases ys rule: rev_cases) auto
qed

lemma header_fold_iff:
  "rfold header_step header_state_new headers = Inr st \<longleftrightarrow>
     (\<exists>pairs. list_all2 field_line_form headers pairs \<and> fields_form pairs \<and> st = state_of pairs)"
proof (induction headers arbitrary: st rule: rev_induct)
  case Nil
  then show ?case by (auto simp: fields_form_def state_of_def header_state_new_def)
next
  case (snoc line headers)
  have step: "header_step (state_of pairs) line = Inr st \<longleftrightarrow>
      (\<exists>f. field_line_form line f \<and> fields_form (pairs @ [f]) \<and> st = state_of (pairs @ [f]))"
    if "fields_form pairs" for pairs
  proof (cases "parse_header_line line")
    case (Inl e)
    then have "\<not> field_line_form line f" for f using field_line_iff [of line f] by simp
    then show ?thesis using Inl by (simp add: header_step_def)
  next
    case (Inr f)
    obtain n v where f: "f = (n, v)" by fastforce
    have "field_line_form line g \<longleftrightarrow> g = (n, v)" for g
      using field_line_iff [of line g] Inr f by auto
    then show ?thesis using header_step_iff [OF Inr [unfolded f] that] by simp
  qed
  have ok: "fields_form (pairs @ [f]) \<Longrightarrow> fields_form pairs" for pairs f
    by (cases f) (auto simp: fields_form_def split: if_splits)
  have "rfold header_step header_state_new (headers @ [line]) = Inr st \<longleftrightarrow>
      (\<exists>pairs. list_all2 field_line_form headers pairs \<and> fields_form pairs \<and>
         header_step (state_of pairs) line = Inr st)"
    by (auto simp: rfold_append rbind_eq_Inr_iff snoc.IH)
  also have "\<dots> \<longleftrightarrow> (\<exists>pairs f. list_all2 field_line_form headers pairs \<and> field_line_form line f \<and>
      fields_form (pairs @ [f]) \<and> st = state_of (pairs @ [f]))"
    using step ok by blast
  also have "\<dots> \<longleftrightarrow> (\<exists>pairs. list_all2 field_line_form (headers @ [line]) pairs \<and> fields_form pairs \<and>
      st = state_of pairs)"
    unfolding list_all2_snoc by blast
  finally show ?case .
qed

lemma parse_lines_iff:
  "parse_lines lim lines (length (head_bytes lines)) = Inr h \<longleftrightarrow> response_head_form lim lines h"
proof (cases lines)
  case Nil
  then show ?thesis by (simp add: parse_lines_def response_head_form_def)
next
  case (Cons l ls)
  have head: "head_of lim k status (state_of pairs) = Inr h \<longleftrightarrow>
      status = h_status h \<and> framing_rules lim pairs h \<and> h_head_len h = k"
    if ok: "fields_form pairs" for pairs status k
  proof -
    obtain status' framing close len' where h: "h = \<lparr>h_status = status', h_framing = framing,
        h_connection_close = close, h_head_len = len'\<rparr>" by (cases h)
    have cl: "values_of (ascii ''content-length'') pairs = [] \<or>
        (\<exists>v. values_of (ascii ''content-length'') pairs = [v] \<and> content_length_form v (dec_value v))"
      using ok by (auto simp: fields_form_def dest: content_length_value)
    then show ?thesis
    proof
      assume none: "values_of (ascii ''content-length'') pairs = []"
      then show ?thesis by (auto simp: head_of_def framing_rules_def state_of_def h rbind_eq_Inr_iff)
    next
      assume "\<exists>v. values_of (ascii ''content-length'') pairs = [v] \<and> content_length_form v (dec_value v)"
      then obtain v where v: "values_of (ascii ''content-length'') pairs = [v]" "content_length_form v (dec_value v)"
        by blast
      then have "content_length_form v len \<longleftrightarrow> len = dec_value v" for len by (auto dest: content_length_value)
      then show ?thesis using v(1) by (auto simp: head_of_def framing_rules_def state_of_def h rbind_eq_Inr_iff)
    qed
  qed
  have "parse_lines lim lines (length (head_bytes lines)) = Inr h \<longleftrightarrow>
      (\<exists>status pairs. status_line_form l status \<and> list_all2 field_line_form ls pairs \<and> fields_form pairs \<and>
         head_of lim (length (head_bytes lines)) status (state_of pairs) = Inr h)"
    by (auto simp: Cons parse_lines_def rbind_eq_Inr_iff status_line_iff header_fold_iff)
  also have "\<dots> \<longleftrightarrow> (\<exists>pairs. status_line_form l (h_status h) \<and> list_all2 field_line_form ls pairs \<and>
      fields_form pairs \<and> framing_rules lim pairs h \<and> h_head_len h = length (head_bytes lines))"
    by (simp add: head cong: conj_cong) blast
  also have "\<dots> \<longleftrightarrow> response_head_form lim lines h"
    unfolding response_head_form_def Cons by blast
  finally show ?thesis .
qed

section \<open>Properties\<close>

text \<open>
  C12: the answer about a head depends on the bytes only, never on how the reads split them:
  reading the same bytes in any two ways gives the same error, the same head, or in both
  cases the need for more.
\<close>

theorem head_split_irrelevant:
  assumes "concat reads = concat reads'"
  shows "(case feed (parse_head lim) buf reads of None \<Rightarrow> None | Some (Inl e) \<Rightarrow> Some (Inl e)
            | Some (Inr (h, _, _)) \<Rightarrow> Some (Inr h)) =
         (case feed (parse_head lim) buf reads' of None \<Rightarrow> None | Some (Inl e) \<Rightarrow> Some (Inl e)
            | Some (Inr (h, _, _)) \<Rightarrow> Some (Inr h))"
  using assms by (rule head.feed_split_irrelevant)

theorem head_split_irrelevant_witness:
  "(case feed (parse_head default_limits) [] [[72, 13, 10], []] of None \<Rightarrow> None | Some (Inl e) \<Rightarrow> Some (Inl e)
      | Some (Inr (h, _, _)) \<Rightarrow> Some (Inr h)) =
   (case feed (parse_head default_limits) [] [[72], [13], [10]] of None \<Rightarrow> None | Some (Inl e) \<Rightarrow> Some (Inl e)
      | Some (Inr (h, _, _)) \<Rightarrow> Some (Inr h))"
  by (rule head_split_irrelevant) simp

text \<open>
  C13: a head is accepted exactly when it is a response head of the protocol. The buffer starts
  with lines that end in CRLF, hold neither CR nor LF and are not empty, up to the empty line,
  within the byte and header limits; the first is a status line of HTTP/1.1 or HTTP/1.0 with
  three digits, not 1xx, and each other one a field, a token, a colon and a value of text with
  blanks around it. Content-Length occurs at most once, as at most twenty digits whose number
  fits 64 bits, Transfer-Encoding at most once, as \<open>chunked\<close>, never both; every
  Content-Encoding is \<open>identity\<close>. The head read has the status, the one framing those fields
  leave, within the limit on bodies, the wish to close exactly when \<open>close\<close> is an option of a
  Connection field, and the length of the lines, so that the body starts where the head ends.
\<close>

theorem parse_head_exact:
  "parse_head lim buf = Inr (Some h) \<longleftrightarrow>
   (\<exists>lines post. buf = head_bytes lines @ post \<and> list_all clean lines \<and>
      length (head_bytes lines) \<le> max_head_bytes lim \<and> length lines \<le> max_header_count lim + 1 \<and>
      response_head_form lim lines h)"
  unfolding parse_head_iff parse_lines_iff by (rule refl)

text \<open>
  C14: no response-smuggling shape is accepted. The framing of an accepted head is
  unambiguous: at most one Content-Length and at most one Transfer-Encoding field, never
  both, the latter only with the value chunked; the body has the declared length, at most
  the limit, or is chunked, or is absent for 204 and 304; and no 1xx status passes.
\<close>

theorem accepted_framing_unambiguous:
  assumes "parse_lines lim (status_line # headers) n = Inr h"
  defines "cl \<equiv> field_values (ascii ''content-length'') headers"
    and "te \<equiv> field_values (ascii ''transfer-encoding'') headers"
  shows "length cl \<le> 1 \<and> length te \<le> 1 \<and> (cl = [] \<or> te = []) \<and>
    parse_status_line status_line = Inr (h_status h) \<and> \<not> (100 \<le> h_status h \<and> h_status h < 200) \<and>
    h_head_len h = n \<and>
    (case h_framing h of
       No_Body \<Rightarrow> h_status h = 204 \<or> h_status h = 304
     | Chunked \<Rightarrow> \<exists>v. te = [v] \<and> eq_ignore_case (trim_ows v) (ascii ''chunked'')
     | Content_Length len \<Rightarrow> \<exists>v. cl = [v] \<and> parse_content_length v = Inr len \<and> len \<le> max_body_bytes lim)"
proof -
  obtain status st where s: "parse_status_line status_line = Inr status"
    "rfold header_step header_state_new headers = Inr st" "head_of lim n status st = Inr h"
    using assms(1) by (auto simp: parse_lines_def rbind_eq_Inr_iff)
  have f: "framing_fields st headers" using s(2) by (rule header_fold_fields)
  have h: "h_status h = status" "h_head_len h = n" "\<not> (100 \<le> status \<and> status < 200)"
    "hs_content_length st = None \<or> \<not> hs_chunked st"
    using s(3) by (auto simp: head_of_def rbind_eq_Inr_iff split: if_splits)
  have cl: "length cl \<le> 1" "length te \<le> 1" "cl = [] \<or> te = []"
    using f h(4) by (auto simp: cl_def te_def framing_fields_def split: option.splits if_splits)
  have "case h_framing h of
       No_Body \<Rightarrow> h_status h = 204 \<or> h_status h = 304
     | Chunked \<Rightarrow> \<exists>v. te = [v] \<and> eq_ignore_case (trim_ows v) (ascii ''chunked'')
     | Content_Length len \<Rightarrow> \<exists>v. cl = [v] \<and> parse_content_length v = Inr len \<and> len \<le> max_body_bytes lim"
    using s(3) f by (auto simp: cl_def te_def head_of_def framing_fields_def rbind_eq_Inr_iff
        split: if_splits option.splits)
  with cl h s(1) show ?thesis by simp
qed

text \<open>A sample head.\<close>

definition sample_lines :: "bytes list" where
  "sample_lines = [ascii ''HTTP/1.1 200 OK'', ascii ''Content-Length: 3'']"

lemma sample_lines_parse:
  "parse_lines default_limits sample_lines 38 =
     Inr \<lparr>h_status = 200, h_framing = Content_Length 3, h_connection_close = False, h_head_len = 38\<rparr>"
  by (simp add: parse_lines_def sample_lines_def ascii_def parse_status_line_def parse_header_line_def
      is_digit_def is_tchar_def is_alphanumeric_def is_upper_def is_lower_def dec_value_def trim_ows_def
      is_ows_def is_vchar_sp_htab_def header_step_def eq_ignore_case_def to_lower_def header_state_new_def
      parse_content_length_def head_of_def default_limits_def)

theorem accepted_framing_unambiguous_witness:
  "\<exists>v. field_values (ascii ''content-length'') (tl sample_lines) = [v] \<and> parse_content_length v = Inr 3"
proof -
  have "parse_lines default_limits (hd sample_lines # tl sample_lines) 38 =
     Inr \<lparr>h_status = 200, h_framing = Content_Length 3, h_connection_close = False, h_head_len = 38\<rparr>"
    using sample_lines_parse by (simp add: sample_lines_def)
  from accepted_framing_unambiguous [OF this] show ?thesis by auto
qed

end
