(* ===== verification/Http_Request.thy ===== *)
theory Http_Request
  imports Ascii Http_Error
begin

text \<open>
  The request side of the crate \<open>http-ingest\<close>: percent encoding (\<open>encode.rs\<close>) and the
  request text (\<open>request.rs\<close>). A \<open>str\<close> is the list of its UTF-8 bytes; the package
  version that the build puts into the user agent is a parameter.
\<close>

section \<open>Percent encoding\<close>

definition is_unreserved :: "u8 \<Rightarrow> bool" where
  "is_unreserved b = (is_alphanumeric b \<or> b \<in> set [45, 46, 95, 126])"

definition reject_crlf :: "bytes \<Rightarrow> http_error + unit" where
  "reject_crlf input =
     (if CR \<in> set input \<or> LF \<in> set input then Err (InvalidInput ''CR or LF in input'') else Ok ())"

definition encode_byte :: "(u8 \<Rightarrow> bool) \<Rightarrow> u8 \<Rightarrow> bytes" where
  "encode_byte extra_pass_through b =
     (if is_unreserved b \<or> extra_pass_through b then [b]
      else [37, hex_digit (unat b div 16), hex_digit (unat b mod 16)])"

definition percent_encode :: "bytes \<Rightarrow> (u8 \<Rightarrow> bool) \<Rightarrow> http_error + bytes" where
  "percent_encode input extra_pass_through =
     rbind (reject_crlf input) (\<lambda>_. Ok (concat (map (encode_byte extra_pass_through) input)))"

definition encode_query_value :: "bytes \<Rightarrow> http_error + bytes" where
  "encode_query_value input = percent_encode input (\<lambda>_. False)"

definition encode_path :: "bytes \<Rightarrow> http_error + bytes" where
  "encode_path input = percent_encode input (\<lambda>b. b = 47)"

section \<open>Requests\<close>

definition push_param :: "string \<Rightarrow> bytes option \<Rightarrow> bytes \<Rightarrow> http_error + bytes" where
  "push_param name v out =
     (case v of None \<Rightarrow> Ok out
      | Some v \<Rightarrow> rbind (encode_query_value v) (\<lambda>e. Ok (out @ ascii name @ e)))"

definition list_query ::
  "bytes \<Rightarrow> bytes option \<Rightarrow> bytes option \<Rightarrow> bytes option \<Rightarrow> http_error + bytes" where
  "list_query pre start_after continuation_token delimiter =
     rbind (encode_query_value pre) (\<lambda>e.
     rbind (push_param ''&start-after='' start_after (ascii ''/?list-type=2&prefix='' @ e)) (\<lambda>out.
     rbind (push_param ''&continuation-token='' continuation_token out) (\<lambda>out.
     push_param ''&delimiter='' delimiter out)))"

definition object_path :: "bytes \<Rightarrow> http_error + bytes" where
  "object_path key = rbind (encode_path key) (\<lambda>e. Ok (47 # e))"

definition format_request :: "bytes \<Rightarrow> bytes \<Rightarrow> bytes \<Rightarrow> bytes" where
  "format_request version host path_and_query =
     ascii ''GET '' @ path_and_query @ ascii '' HTTP/1.1'' @ CRLF @
     ascii ''Host: '' @ host @ CRLF @
     ascii ''User-Agent: radar-workstation/'' @ version @ CRLF @
     ascii ''Accept: */*'' @ CRLF @
     ascii ''Connection: keep-alive'' @ CRLF @
     CRLF"

section \<open>Decoding\<close>

text \<open>The reader of a percent-encoded text: RFC 3986, section 2.1.\<close>

fun percent_decode :: "bytes \<Rightarrow> bytes option" where
  "percent_decode [] = Some []"
| "percent_decode (b # bs) =
     (if b = 37 then
        (case bs of
           h # l # rest \<Rightarrow>
             if is_hexdigit h \<and> is_hexdigit l
             then map_option ((#) (of_nat (16 * hex_digit_value h + hex_digit_value l))) (percent_decode rest)
             else None
         | _ \<Rightarrow> None)
      else map_option ((#) b) (percent_decode bs))"

lemma encode_byte_decodes:
  assumes "\<not> pass 37"
  shows "percent_decode (encode_byte pass b @ rest) = map_option ((#) b) (percent_decode rest)"
proof (cases "is_unreserved b \<or> pass b")
  case True
  have "\<not> is_unreserved 37"
    by (simp add: is_unreserved_def is_alphanumeric_def is_digit_def is_upper_def is_lower_def)
  with True assms have "b \<noteq> 37" by auto
  with True show ?thesis by (simp add: encode_byte_def)
next
  case False
  have lt: "unat b div 16 < 16" "unat b mod 16 < 16" by (simp_all add: less_mult_imp_div_less)
  have "16 * (unat b div 16) + unat b mod 16 = unat b" by simp
  then show ?thesis
    using False by (simp add: encode_byte_def hex_digit_is_hexdigit hex_digit_value_digit lt)
qed

lemma percent_encode_decodes:
  assumes "percent_encode s pass = Inr e" "\<not> pass 37"
  shows "percent_decode e = Some s"
proof -
  have "percent_decode (concat (map (encode_byte pass) s)) = Some s" for s
    by (induction s) (simp_all add: encode_byte_decodes assms(2))
  then show ?thesis using assms(1) by (auto simp: percent_encode_def rbind_eq_Inr_iff)
qed

text \<open>The bytes of an encoded text: unreserved, the percent sign, or passed through.\<close>

lemma hex_digit_unreserved: "n < 16 \<Longrightarrow> is_unreserved (hex_digit n)"
proof -
  assume "n < 16"
  then have "n \<in> set [0..<16]" by simp
  moreover have "\<forall>n\<in>set [0..<16]. is_unreserved (hex_digit n)" by code_simp
  ultimately show ?thesis by blast
qed

lemma percent_encode_bytes:
  assumes "percent_encode s pass = Inr e"
  shows "list_all (\<lambda>b. is_unreserved b \<or> b = 37 \<or> pass b) e"
proof -
  have "list_all (\<lambda>b. is_unreserved b \<or> b = 37 \<or> pass b) (encode_byte pass b)" for b
    by (simp add: encode_byte_def hex_digit_unreserved less_mult_imp_div_less)
  then have "list_all (\<lambda>b. is_unreserved b \<or> b = 37 \<or> pass b) (concat (map (encode_byte pass) s))" for s
    by (induction s) simp_all
  then show ?thesis using assms by (auto simp: percent_encode_def rbind_eq_Inr_iff)
qed

lemma unreserved_not_delim: "is_unreserved b \<Longrightarrow> b \<noteq> CR \<and> b \<noteq> LF \<and> b \<noteq> SP"
  by (auto simp: is_unreserved_def is_alphanumeric_def is_digit_def is_upper_def is_lower_def)

text \<open>A request target that cannot end the request line.\<close>

definition target_safe :: "bytes \<Rightarrow> bool" where
  "target_safe p = list_all (\<lambda>b. b \<noteq> CR \<and> b \<noteq> LF \<and> b \<noteq> SP) p"

lemma percent_encode_safe:
  assumes "percent_encode s pass = Inr e" "\<And>b. pass b \<Longrightarrow> b = 47"
  shows "target_safe e"
  using percent_encode_bytes [OF assms(1)] assms(2) unreserved_not_delim
  by (fastforce simp: target_safe_def list_all_iff)

lemma target_safe_simps [simp]:
  "target_safe (a @ b) = (target_safe a \<and> target_safe b)"
  "target_safe (c # a) = ((c \<noteq> CR \<and> c \<noteq> LF \<and> c \<noteq> SP) \<and> target_safe a)"
  "target_safe []"
  by (simp_all add: target_safe_def)

lemma encode_query_value_safe: "encode_query_value s = Inr e \<Longrightarrow> target_safe e"
  unfolding encode_query_value_def by (erule percent_encode_safe) simp

lemma push_param_safe:
  assumes "push_param name v out = Inr out'" "target_safe out" "target_safe (ascii name)"
  shows "target_safe out'"
  using assms by (auto simp: push_param_def rbind_eq_Inr_iff encode_query_value_safe split: option.splits)

lemma list_query_safe:
  assumes "list_query pre start_after token delimiter = Inr p"
  shows "target_safe p"
proof -
  have s: "target_safe (ascii ''/?list-type=2&prefix='')" "target_safe (ascii ''&start-after='')"
    "target_safe (ascii ''&continuation-token='')" "target_safe (ascii ''&delimiter='')"
    by (simp_all add: ascii_def)
  obtain e o1 o2 where "encode_query_value pre = Inr e"
    "push_param ''&start-after='' start_after (ascii ''/?list-type=2&prefix='' @ e) = Inr o1"
    "push_param ''&continuation-token='' token o1 = Inr o2"
    "push_param ''&delimiter='' delimiter o2 = Inr p"
    using assms by (auto simp: list_query_def rbind_eq_Inr_iff)
  then show ?thesis using push_param_safe s encode_query_value_safe by (metis target_safe_simps(1))
qed

lemma object_path_safe: "object_path key = Inr p \<Longrightarrow> target_safe p"
  by (auto simp: object_path_def encode_path_def rbind_eq_Inr_iff intro: percent_encode_safe)

section \<open>Properties\<close>

text \<open>
  Percent encoding loses nothing and fails only on line breaks: it succeeds exactly on
  texts without CR and LF, decoding its result gives the text back, and the result holds
  only unreserved bytes, percent signs and, in a path, slashes.
\<close>

theorem encode_roundtrip:
  fixes path :: bool
  defines "enc \<equiv> (if path then encode_path else encode_query_value)"
  shows "((\<exists>e. enc s = Inr e) = (CR \<notin> set s \<and> LF \<notin> set s)) \<and>
    (\<forall>e. enc s = Inr e \<longrightarrow> percent_decode e = Some s \<and>
       list_all (\<lambda>b. is_unreserved b \<or> b = 37 \<or> (path \<and> b = 47)) e)"
proof -
  have enc: "enc s = percent_encode s (\<lambda>b. path \<and> b = 47)"
    by (simp add: enc_def encode_path_def encode_query_value_def)
  have "(\<exists>e. enc s = Inr e) = (CR \<notin> set s \<and> LF \<notin> set s)"
    by (simp add: enc percent_encode_def reject_crlf_def)
  then show ?thesis
    using percent_encode_decodes [of s "\<lambda>b. path \<and> b = 47"] percent_encode_bytes [of s "\<lambda>b. path \<and> b = 47"]
    unfolding enc by simp
qed

theorem encode_roundtrip_witness:
  "\<exists>e. encode_query_value [43, 61, 97] = Inr e \<and> percent_decode e = Some [43, 61, 97]"
  using encode_roundtrip [of False "[43, 61, 97]"] by auto

text \<open>
  No key, prefix or token can inject anything into a request: whatever the caller
  passes, a request target that is built holds no space, CR or LF, so that the request has
  exactly the one request line and the four header lines of the format.
\<close>

theorem requests_not_injectable:
  assumes "list_query pre start_after token delimiter = Inr p \<or> object_path key = Inr p"
    and "CR \<notin> set version" and "LF \<notin> set version"
  shows "target_safe p \<and>
    length (filter (\<lambda>b. b = LF) (format_request version (bucket_host b) p)) = 6 \<and>
    takeWhile (\<lambda>b. b \<noteq> CR) (format_request version (bucket_host b) p) =
      ascii ''GET '' @ p @ ascii '' HTTP/1.1''"
proof -
  have p: "target_safe p" using assms(1) list_query_safe object_path_safe by blast
  then have np: "filter (\<lambda>b. b = LF) p = []" "\<forall>b\<in>set p. b \<noteq> CR"
    by (auto simp: target_safe_def list_all_iff filter_empty_conv)
  have nh: "filter (\<lambda>b. b = LF) (bucket_host b) = []" by (cases b) (simp_all add: ascii_def)
  have nv: "filter (\<lambda>b. b = LF) version = []" using assms(3) by (auto simp: filter_empty_conv)
  have tw: "takeWhile (\<lambda>b. b \<noteq> CR) (xs @ CR # ys) = xs" if "\<forall>b\<in>set xs. b \<noteq> CR" for xs ys
    using that by (simp add: takeWhile_append2)
  have "takeWhile (\<lambda>b. b \<noteq> CR) (format_request version (bucket_host b) p) =
      ascii ''GET '' @ p @ ascii '' HTTP/1.1''"
    using tw [of "ascii ''GET '' @ p @ ascii '' HTTP/1.1''"] np(2)
    by (simp add: format_request_def ascii_def)
  then show ?thesis
    using p np nh nv by (simp add: format_request_def ascii_def)
qed

theorem requests_not_injectable_witness:
  "\<exists>p. object_path (ascii ''KDOX/1 a'') = Inr p \<and> target_safe p"
proof -
  have "\<exists>e. encode_path (ascii ''KDOX/1 a'') = Inr e"
    by (simp add: encode_path_def percent_encode_def reject_crlf_def ascii_def)
  then obtain p where p: "object_path (ascii ''KDOX/1 a'') = Inr p" by (auto simp: object_path_def)
  then show ?thesis
    using requests_not_injectable [where key = "ascii ''KDOX/1 a''" and p = p and version = "[]" and
      pre = "[]" and start_after = None and token = None and delimiter = None and b = Chunks] by simp
qed

end
