(* ===== verification/Http_Connection.thy ===== *)
theory Http_Connection
  imports Http_Response Http_Request
begin

text \<open>
  One connection and the client around it, \<open>connection.rs\<close> and \<open>lib.rs\<close> of the crate
  \<open>http-ingest\<close>. The socket is a script: what each read returns (bytes, where none is the
  end of the stream, an I/O error, or nothing within the timeout) and whether each write
  succeeds; what a connect gives is a script of the client. A script that ends is a peer
  that stays silent, so that the timeout fires. TLS and the sockets themselves are not
  modelled. Sizes are 64 bits wide; the additions that could overflow are checked, as the
  release profile checks them, and \<open>Overflow\<close> is the panic.
\<close>

section \<open>The wire\<close>

datatype read_result = Read_Bytes bytes | Read_Io_Error | Read_Timed_Out

datatype internal = Timeout_I phase | Io_I bool | Fatal http_error | Overflow

definition received :: "phase \<Rightarrow> bool \<Rightarrow> read_result \<Rightarrow> internal + bytes" where
  "received ph any_bytes r =
     (case r of
        Read_Timed_Out \<Rightarrow> Err (Timeout_I ph)
      | Read_Io_Error \<Rightarrow> Err (Io_I any_bytes)
      | Read_Bytes bs \<Rightarrow> if bs = [] then Err (Io_I any_bytes) else Ok bs)"

text \<open>
  The loop that parses the read buffer and reads more while the parser needs more: the
  body of \<open>read_head\<close>, and the inner loop of \<open>read_chunked_body\<close>. The result carries the
  flag for response bytes seen, the buffer and the rest of the script.
\<close>

fun read_until ::
  "(bytes \<Rightarrow> http_error + 'a option) \<Rightarrow> phase \<Rightarrow> bool \<Rightarrow> bytes \<Rightarrow> read_result list \<Rightarrow>
   internal + 'a \<times> bool \<times> bytes \<times> read_result list" where
  "read_until p ph any rbuf reads =
     (case p rbuf of
        Inl e \<Rightarrow> Err (Fatal e)
      | Inr (Some a) \<Rightarrow> Ok (a, any, rbuf, reads)
      | Inr None \<Rightarrow>
          (case reads of
             [] \<Rightarrow> Err (Timeout_I ph)
           | r # reads' \<Rightarrow>
               rbind (received ph any r) (\<lambda>bs. read_until p ph True (rbuf @ bs) reads')))"

declare read_until.simps [simp del]

definition read_head ::
  "limits \<Rightarrow> bool \<Rightarrow> bytes \<Rightarrow> read_result list \<Rightarrow> internal + head \<times> bool \<times> bytes \<times> read_result list" where
  "read_head lim = read_until (parse_head lim) Headers_Phase"

fun fill_to ::
  "nat \<Rightarrow> bool \<Rightarrow> bytes \<Rightarrow> read_result list \<Rightarrow> internal + bool \<times> bytes \<times> read_result list" where
  "fill_to needed any rbuf reads =
     (if length rbuf < needed then
        (case reads of
           [] \<Rightarrow> Err (Timeout_I Body_Phase)
         | r # reads' \<Rightarrow>
             rbind (received Body_Phase any r) (\<lambda>bs. fill_to needed True (rbuf @ bs) reads'))
      else Ok (any, rbuf, reads))"

declare fill_to.simps [simp del]

definition read_exact_body ::
  "nat \<Rightarrow> bool \<Rightarrow> bytes \<Rightarrow> read_result list \<Rightarrow> internal + bytes \<times> bool \<times> bytes \<times> read_result list" where
  "read_exact_body len any rbuf reads =
     rbind (fill_to len any rbuf reads) (\<lambda>(any, rbuf, reads).
     Ok (take len rbuf, any, drop len rbuf, reads))"

text \<open>The bytes that are still to come.\<close>

fun incoming :: "read_result list \<Rightarrow> bytes" where
  "incoming [] = []"
| "incoming (Read_Bytes bs # rs) = bs @ incoming rs"
| "incoming (_ # rs) = incoming rs"

lemma received_Ok: "received ph any r = Inr bs \<longleftrightarrow> r = Read_Bytes bs \<and> bs \<noteq> []"
  by (cases r) (auto simp: received_def)

lemma read_until_Ok:
  assumes "read_until p ph any rbuf reads = Inr (a, any', rbuf', reads')"
  shows "p rbuf' = Inr (Some a) \<and> rbuf' @ incoming reads' = rbuf @ incoming reads \<and>
    (reads' = reads \<and> any' = any \<or> any')"
  using assms
proof (induction p ph any rbuf reads rule: read_until.induct)
  case (1 p ph any rbuf reads)
  then show ?case
    by (auto simp: read_until.simps [of p ph any rbuf reads] received_Ok rbind_eq_Inr_iff
        split: sum.splits option.splits list.splits)
qed

lemma fill_to_Ok:
  assumes "fill_to n any rbuf reads = Inr (any', rbuf', reads')"
  shows "n \<le> length rbuf' \<and> rbuf' @ incoming reads' = rbuf @ incoming reads \<and>
    (reads' = reads \<and> any' = any \<or> any')"
  using assms
proof (induction n any rbuf reads rule: fill_to.induct)
  case (1 n any rbuf reads)
  then show ?case
    by (auto simp: fill_to.simps [of n any rbuf reads] received_Ok rbind_eq_Inr_iff
        split: list.splits if_splits)
qed

lemma parse_chunk_size_line_consumed:
  "parse_chunk_size_line buf = Inr (Some (sz, k)) \<Longrightarrow> 0 < k \<and> k \<le> length buf"
  by (auto simp: parse_chunk_size_line_def Let_def position_Some split: option.splits if_splits)

lemma chunk_progress:
  assumes "read_until parse_chunk_size_line ph any rbuf reads = Inr (line, any1, rbuf1, reads1)"
    and "fill_to n any1 (drop (snd line) rbuf1) reads1 = Inr (any2, rbuf2, reads2)"
  shows "length rbuf2 + length (incoming reads2) < length rbuf + length (incoming reads)"
proof -
  have "length rbuf1 + length (incoming reads1) = length rbuf + length (incoming reads)"
    "0 < snd line" "snd line \<le> length rbuf1"
    using read_until_Ok [OF assms(1)] parse_chunk_size_line_consumed
    by (metis length_append prod.collapse)+
  moreover have "length rbuf2 + length (incoming reads2) = length rbuf1 - snd line + length (incoming reads1)"
    using fill_to_Ok [OF assms(2)] by (metis length_append length_drop)
  ultimately show ?thesis by simp
qed

function read_chunked_body ::
  "nat \<Rightarrow> bool \<Rightarrow> bytes \<Rightarrow> read_result list \<Rightarrow> bytes \<Rightarrow>
   internal + bytes \<times> bool \<times> bytes \<times> read_result list" where
  "read_chunked_body mx any rbuf reads out =
     rbind (read_until parse_chunk_size_line Body_Phase any rbuf reads)
       (\<lambda>(line, any, rbuf, reads).
       let sz = fst line; consumed = snd line; rbuf = drop consumed rbuf in
       if sz = 0 then
         rbind (fill_to 2 any rbuf reads) (\<lambda>(any, rbuf, reads).
         if take 2 rbuf \<noteq> CRLF then Err (Fatal (Protocol ''chunk trailers not supported''))
         else Ok (out, any, drop 2 rbuf, reads))
       else if 2 ^ 64 \<le> length out + sz then Err Overflow
       else if mx < length out + sz then Err (Fatal (BodyTooLarge (length out + sz) mx))
       else if 2 ^ 64 \<le> sz + 2 then Err Overflow
       else
         rbind (fill_to (sz + 2) any rbuf reads) (\<lambda>(any, rbuf, reads).
         let chunk = take sz rbuf; rbuf = drop sz rbuf in
         if take 2 rbuf \<noteq> CRLF then Err (Fatal (Protocol ''malformed chunk terminator''))
         else read_chunked_body mx any (drop 2 rbuf) reads (out @ chunk)))"
  by auto
termination
proof (relation "measure (\<lambda>(mx, any, rbuf, reads, out). length rbuf + length (incoming reads))", goal_cases)
  case 1
  then show ?case by simp
next
  case 2
  then show ?case by (auto dest!: chunk_progress simp: Let_def)
qed

declare read_chunked_body.simps [simp del]

definition read_body ::
  "body_framing \<Rightarrow> nat \<Rightarrow> bool \<Rightarrow> bytes \<Rightarrow> read_result list \<Rightarrow>
   internal + bytes \<times> bool \<times> bytes \<times> read_result list" where
  "read_body framing mx any rbuf reads =
     (case framing of
        No_Body \<Rightarrow> Ok ([], any, rbuf, reads)
      | Content_Length len \<Rightarrow>
          if mx < len then Err (Fatal (BodyTooLarge len mx)) else read_exact_body len any rbuf reads
      | Chunked \<Rightarrow> read_chunked_body mx any rbuf reads [])"

section \<open>One request\<close>

definition DISCARD_CAP :: nat where
  "DISCARD_CAP = 8 * 1024"

text \<open>
  A connection with its scripts. After an error the connection is dropped, so that what is
  left in its buffer does not matter and is not recorded.
\<close>

record connection =
  c_rbuf :: bytes
  c_reads :: "read_result list"
  c_writes :: "bool list"
  c_reusable :: bool

datatype attempt = Success bytes | Closed_Empty | Failed http_error | Panicked_A

definition new_connection :: "read_result list \<Rightarrow> bool list \<Rightarrow> connection" where
  "new_connection reads writes =
     \<lparr>c_rbuf = [], c_reads = reads, c_writes = writes, c_reusable = True\<rparr>"

fun attempt_of :: "internal \<Rightarrow> attempt" where
  "attempt_of (Timeout_I ph) = Failed (Timeout ph)"
| "attempt_of (Io_I any) = (if any then Failed Closed else Closed_Empty)"
| "attempt_of (Fatal e) = Failed e"
| "attempt_of Overflow = Panicked_A"

definition finish_with_internal :: "internal \<Rightarrow> connection \<Rightarrow> attempt \<times> connection" where
  "finish_with_internal i conn = (attempt_of i, conn\<lparr>c_reusable := False\<rparr>)"

definition write_request :: "connection \<Rightarrow> bool \<times> connection" where
  "write_request conn =
     (case c_writes conn of
        [] \<Rightarrow> (True, conn)
      | w # ws \<Rightarrow> (w, conn\<lparr>c_writes := ws\<rparr>))"

fun is_body_too_large :: "internal \<Rightarrow> bool" where
  "is_body_too_large (Fatal (BodyTooLarge _ _)) = True"
| "is_body_too_large _ = False"

definition round_trip :: "limits \<Rightarrow> connection \<Rightarrow> attempt \<times> connection" where
  "round_trip lim conn =
     (let (written, conn) = write_request conn in
      if \<not> written then (Closed_Empty, conn\<lparr>c_reusable := False\<rparr>)
      else
        (case read_head lim False (c_rbuf conn) (c_reads conn) of
           Inl i \<Rightarrow> finish_with_internal i conn
         | Inr (h, any, rbuf, reads) \<Rightarrow>
             let rbuf = drop (h_head_len h) rbuf;
                 is_2xx = (200 \<le> h_status h \<and> h_status h < 300);
                 cap = (if is_2xx then max_body_bytes lim else min DISCARD_CAP (max_body_bytes lim))
             in (case read_body (h_framing h) cap any rbuf reads of
                   Inr (body, any, rbuf, reads) \<Rightarrow>
                     (if is_2xx then Success body else Failed (Http_Status (h_status h)),
                      conn\<lparr>c_rbuf := rbuf, c_reads := reads, c_reusable := \<not> h_connection_close h\<rparr>)
                 | Inl i \<Rightarrow>
                     if is_body_too_large i \<and> \<not> is_2xx
                     then (Failed (Http_Status (h_status h)), conn\<lparr>c_reusable := False\<rparr>)
                     else finish_with_internal i conn)))"

section \<open>The client\<close>

text \<open>
  The client with the script of its connects: an error, or the scripts of the new
  connection. \<open>s_sent\<close> logs the requests it starts to write.
\<close>

record client =
  s_host :: bytes
  s_limits :: limits
  s_conn :: "connection option"
  s_connects :: "(http_error + read_result list \<times> bool list) list"
  s_sent :: "bytes list"

definition client_new ::
  "bucket \<Rightarrow> (http_error + read_result list \<times> bool list) list \<Rightarrow> client" where
  "client_new b connects =
     \<lparr>s_host = bucket_host b, s_limits = default_limits, s_conn = None, s_connects = connects,
      s_sent = []\<rparr>"

definition connect :: "client \<Rightarrow> (http_error + unit) \<times> client" where
  "connect c =
     (case s_connects c of
        [] \<Rightarrow> (Err (Timeout Connect_Phase), c)
      | Inl e # rest \<Rightarrow> (Err e, c\<lparr>s_connects := rest\<rparr>)
      | Inr (reads, writes) # rest \<Rightarrow>
          (Ok (), c\<lparr>s_connects := rest, s_conn := Some (new_connection reads writes)\<rparr>))"

text \<open>\<open>expect\<close> on a missing connection is the panic.\<close>

definition attempt_request :: "bytes \<Rightarrow> client \<Rightarrow> attempt \<times> client" where
  "attempt_request req c =
     (case s_conn c of
        None \<Rightarrow> (Panicked_A, c)
      | Some conn \<Rightarrow>
          let (outcome, conn) = round_trip (s_limits c) conn
          in (outcome, c\<lparr>s_conn := (if c_reusable conn then Some conn else None),
                         s_sent := s_sent c @ [req]\<rparr>))"

text \<open>The result is \<open>None\<close> for a panic.\<close>

definition send :: "bytes \<Rightarrow> bytes \<Rightarrow> client \<Rightarrow> (http_error + bytes) option \<times> client" where
  "send version path_and_query c =
     (let req = format_request version (s_host c) path_and_query;
          reused = (s_conn c \<noteq> None);
          (opened, c) = (if s_conn c = None then connect c else (Ok (), c))
      in case opened of
           Inl e \<Rightarrow> (Some (Err e), c)
         | Inr _ \<Rightarrow>
             (case attempt_request req c of
                (Success body, c) \<Rightarrow> (Some (Ok body), c)
              | (Failed e, c) \<Rightarrow> (Some (Err e), c)
              | (Panicked_A, c) \<Rightarrow> (None, c)
              | (Closed_Empty, c) \<Rightarrow>
                  if reused then
                    (case connect c of
                       (Inl e, c) \<Rightarrow> (Some (Err e), c)
                     | (Inr _, c) \<Rightarrow>
                         (case attempt_request req c of
                            (Success body, c) \<Rightarrow> (Some (Ok body), c)
                          | (Failed e, c) \<Rightarrow> (Some (Err e), c)
                          | (Panicked_A, c) \<Rightarrow> (None, c)
                          | (Closed_Empty, c) \<Rightarrow> (Some (Err Closed), c)))
                  else (Some (Err Closed), c)))"

definition list_prefix ::
  "bytes \<Rightarrow> bytes \<Rightarrow> bytes option \<Rightarrow> bytes option \<Rightarrow> bytes option \<Rightarrow> client \<Rightarrow>
   (http_error + bytes) option \<times> client" where
  "list_prefix version pre start_after continuation_token delimiter c =
     (case list_query pre start_after continuation_token delimiter of
        Inl e \<Rightarrow> (Some (Err e), c)
      | Inr path \<Rightarrow> send version path c)"

definition get_object :: "bytes \<Rightarrow> bytes \<Rightarrow> client \<Rightarrow> (http_error + bytes) option \<times> client" where
  "get_object version key c =
     (case object_path key of
        Inl e \<Rightarrow> (Some (Err e), c)
      | Inr path \<Rightarrow> send version path c)"

section \<open>A peer that delivers\<close>

definition delivers :: "read_result list \<Rightarrow> bool" where
  "delivers reads = list_all (\<lambda>r. case r of Read_Bytes bs \<Rightarrow> bs \<noteq> [] | _ \<Rightarrow> False) reads"

lemma delivers_Cons: "delivers (r # rs) \<longleftrightarrow> (\<exists>bs. r = Read_Bytes bs \<and> bs \<noteq> []) \<and> delivers rs"
  by (cases r) (auto simp: delivers_def)

lemma read_until_delivers:
  assumes "growing_parser p" "delivers reads" "p X = Inr (Some a)" "rbuf @ incoming reads = X @ post"
  shows "\<exists>any' rbuf' reads'. read_until p ph any rbuf reads = Inr (a, any', rbuf', reads') \<and>
    delivers reads' \<and> rbuf' @ incoming reads' = X @ post \<and> p rbuf' = Inr (Some a)"
  using assms(2,4)
proof (induction reads arbitrary: rbuf any)
  case Nil
  then have "p rbuf = Inr (Some a)"
    using growing_parser.stable [OF assms(1), of X post] assms(3) by simp
  with Nil show ?case by (simp add: read_until.simps)
next
  case (Cons r reads)
  obtain bs where r: "r = Read_Bytes bs" "bs \<noteq> []" "delivers reads"
    using Cons.prems(1) by (auto simp: delivers_Cons)
  have full: "p (rbuf @ incoming (r # reads)) = Inr (Some a)"
    using growing_parser.stable [OF assms(1), of X post] assms(3) Cons.prems(2) by simp
  show ?case
  proof (cases "p rbuf = Inr None")
    case True
    have "read_until p ph any rbuf (r # reads) = read_until p ph True (rbuf @ bs) reads"
      using True r by (simp add: read_until.simps [of p ph any rbuf] received_def)
    then show ?thesis using Cons.IH [of "rbuf @ bs" True] r Cons.prems(2) by simp
  next
    case False
    then have "p rbuf = Inr (Some a)"
      using growing_parser.stable [OF assms(1) False] full by metis
    then show ?thesis using Cons.prems by (simp add: read_until.simps [of p ph any rbuf])
  qed
qed

lemma fill_to_delivers:
  assumes "delivers reads" "n \<le> length (rbuf @ incoming reads)"
  shows "\<exists>any' rbuf' reads'. fill_to n any rbuf reads = Inr (any', rbuf', reads') \<and>
    delivers reads' \<and> rbuf' @ incoming reads' = rbuf @ incoming reads \<and> n \<le> length rbuf'"
  using assms
proof (induction reads arbitrary: rbuf any)
  case Nil
  then show ?case by (simp add: fill_to.simps)
next
  case (Cons r reads)
  obtain bs where r: "r = Read_Bytes bs" "bs \<noteq> []" "delivers reads"
    using Cons.prems(1) by (auto simp: delivers_Cons)
  show ?case
  proof (cases "length rbuf < n")
    case True
    have "fill_to n any rbuf (r # reads) = fill_to n True (rbuf @ bs) reads"
      using True r by (simp add: fill_to.simps [of n any rbuf] received_def)
    then show ?thesis using Cons.IH [of "rbuf @ bs" True] r Cons.prems(2) by simp
  next
    case False
    then show ?thesis using Cons.prems by (simp add: fill_to.simps [of n any rbuf])
  qed
qed

lemma drop_front:
  "rbuf @ more_bytes = X @ post \<Longrightarrow> length X \<le> length rbuf \<Longrightarrow> drop (length X) rbuf @ more_bytes = post"
  by (metis append_eq_append_conv_if append_eq_conv_conj append_take_drop_id append.assoc same_append_eq)

section \<open>Encoding a body\<close>

text \<open>
  A size as a peer may write it: up to sixteen hexadecimal digits of either case, with or
  without leading zeros.
\<close>

definition size_text :: "bytes \<Rightarrow> nat \<Rightarrow> bool" where
  "size_text ds n =
     (ds \<noteq> [] \<and> length ds \<le> 16 \<and>
      (\<exists>vs. list_all2 (\<lambda>d v. v < 16 \<and>
          (d = ascii ''0123456789ABCDEF'' ! v \<or> d = ascii ''0123456789abcdef'' ! v)) ds vs \<and>
        n = place_value 16 vs))"

text \<open>A chunk is its data with the text of its size; the body ends with a chunk of size zero.\<close>

definition chunk_bytes :: "bytes \<times> bytes \<Rightarrow> bytes" where
  "chunk_bytes c = fst c @ CRLF @ snd c @ CRLF"

definition chunk_encode :: "(bytes \<times> bytes) list \<Rightarrow> bytes \<Rightarrow> bytes" where
  "chunk_encode cs zero = concat (map chunk_bytes cs) @ zero @ CRLF @ CRLF"

definition chunk_form :: "bytes \<times> bytes \<Rightarrow> bool" where
  "chunk_form c = (snd c \<noteq> [] \<and> size_text (fst c) (length (snd c)))"

text \<open>How a body may be sent under a framing.\<close>

fun body_on_wire :: "body_framing \<Rightarrow> bytes \<Rightarrow> bytes \<Rightarrow> bool" where
  "body_on_wire No_Body body w = (body = [] \<and> w = [])"
| "body_on_wire (Content_Length n) body w = (length body = n \<and> w = body)"
| "body_on_wire Chunked body w =
     (\<exists>cs zero. list_all chunk_form cs \<and> size_text zero 0 \<and> body = concat (map snd cs) \<and> w = chunk_encode cs zero)"

lemma place_value_bound: "list_all (\<lambda>v. v < b) vs \<Longrightarrow> vs \<noteq> [] \<Longrightarrow> place_value b vs < b ^ length vs"
proof (induction vs)
  case (Cons v vs)
  have rest: "place_value b vs < b ^ length vs" if "vs \<noteq> []" using Cons that by simp
  have "place_value b vs < b ^ length vs" by (cases "vs = []") (use rest in simp_all)
  moreover have "(v + 1) * b ^ length vs \<le> b * b ^ length vs" using Cons.prems(1) by (intro mult_le_mono) simp_all
  ultimately show ?case by simp
qed simp

lemma hex_digit_byte:
  assumes "v < 16" "d = ascii ''0123456789ABCDEF'' ! v \<or> d = ascii ''0123456789abcdef'' ! v"
  shows "is_hexdigit d \<and> hex_digit_value d = v"
proof -
  have "\<forall>v\<in>set [0..<16]. is_hexdigit (ascii ''0123456789ABCDEF'' ! v) \<and> hex_digit_value (ascii ''0123456789ABCDEF'' ! v) = v \<and>
      is_hexdigit (ascii ''0123456789abcdef'' ! v) \<and> hex_digit_value (ascii ''0123456789abcdef'' ! v) = v"
    by code_simp
  moreover have "v \<in> set [0..<16]" using assms(1) by simp
  ultimately show ?thesis using assms(2) by blast
qed

lemma size_text_value:
  assumes "size_text ds n"
  shows "ds \<noteq> [] \<and> length ds \<le> 16 \<and> list_all is_hexdigit ds \<and> hex_value ds = n \<and> n < 2 ^ 64"
proof -
  obtain vs where vs: "list_all2 (\<lambda>d v. v < 16 \<and>
      (d = ascii ''0123456789ABCDEF'' ! v \<or> d = ascii ''0123456789abcdef'' ! v)) ds vs"
    and n: "n = place_value 16 vs" and ds: "ds \<noteq> []" "length ds \<le> 16"
    using assms unfolding size_text_def by (elim conjE exE) (rule that)
  have "list_all is_hexdigit ds \<and> map hex_digit_value ds = vs \<and> list_all (\<lambda>v. v < 16) vs \<and> length vs = length ds"
    using vs by (induction rule: list_all2_induct) (use hex_digit_byte in auto)
  moreover have "hex_value ds = place_value 16 (map hex_digit_value ds)"
    using foldl_place_value [of 16 hex_digit_value 0 ds] by (simp add: hex_value_def)
  moreover have "place_value 16 vs < 16 ^ length vs"
    using calculation(1) ds(1) by (intro place_value_bound) auto
  moreover have "(16 :: nat) ^ length vs \<le> 16 ^ 16"
    using calculation(1) ds(2) by (intro power_increasing) simp_all
  ultimately show ?thesis using ds n by simp
qed

lemma position_first: "list_all (\<lambda>x. \<not> f x) xs \<Longrightarrow> f y \<Longrightarrow> position f (xs @ y # ys) = Some (length xs)"
  by (induction xs) auto

lemma chunk_size_line_parse:
  assumes "ds \<noteq> []" "length ds \<le> 16" "list_all is_hexdigit ds" "hex_value ds < 2 ^ 64"
  shows "parse_chunk_size_line (ds @ CRLF) = Inr (Some (hex_value ds, length ds + 2))"
proof -
  have hx: "is_hexdigit b \<Longrightarrow> b \<noteq> CR \<and> b \<noteq> LF \<and> b \<noteq> 59" for b
    by (auto simp: is_hexdigit_def is_digit_def)
  have "position (\<lambda>b. b = LF) ((ds @ [CR]) @ LF # []) = Some (length (ds @ [CR]))"
    using assms(3) hx by (intro position_first) (auto simp: list_all_iff)
  moreover have "take (min (length (ds @ CRLF)) MAX_CHUNK_HEADER_LINE) (ds @ CRLF) = ds @ CRLF"
    using assms(2) by (simp add: MAX_CHUNK_HEADER_LINE_def)
  moreover have "CR \<notin> set ds" "59 \<notin> set ds" using assms(3) hx by (auto simp: list_all_iff)
  ultimately show ?thesis
    using assms by (simp add: parse_chunk_size_line_def Let_def nth_append)
qed

lemma size_line_parse:
  "size_text ds n \<Longrightarrow> parse_chunk_size_line (ds @ CRLF) = Inr (Some (n, length ds + 2))"
  using chunk_size_line_parse [of ds] size_text_value [of ds n] by simp

lemma chunk_line_parser: "growing_parser parse_chunk_size_line"
  by unfold_locales (rule parse_chunk_size_line_stable)

lemma head_parser: "growing_parser (parse_head lim)"
  by unfold_locales (rule parse_head_stable)

lemma read_chunked_delivers:
  assumes "delivers reads" "rbuf @ incoming reads = chunk_encode cs zero @ post"
    "list_all chunk_form cs" "size_text zero 0"
    "length out + length (concat (map snd cs)) \<le> mx" "mx + 2 < 2 ^ 64"
  shows "\<exists>any' rbuf' reads'. read_chunked_body mx any rbuf reads out =
      Inr (out @ concat (map snd cs), any', rbuf', reads') \<and>
    delivers reads' \<and> rbuf' @ incoming reads' = post"
  using assms
proof (induction cs arbitrary: any rbuf reads out)
  case Nil
  let ?line = "zero @ CRLF" and ?k = "length zero + 2"
  from Nil have eq: "rbuf @ incoming reads = ?line @ CRLF @ post" by (simp add: chunk_encode_def)
  obtain any1 rbuf1 reads1 where r1: "read_until parse_chunk_size_line Body_Phase any rbuf reads =
      Inr ((0, ?k), any1, rbuf1, reads1)" "delivers reads1"
    "rbuf1 @ incoming reads1 = ?line @ CRLF @ post" "parse_chunk_size_line rbuf1 = Inr (Some (0, ?k))"
    using read_until_delivers [OF chunk_line_parser Nil.prems(1) size_line_parse [OF Nil.prems(4)] eq] by blast
  have "length ?line \<le> length rbuf1" using parse_chunk_size_line_consumed [OF r1(4)] by simp
  then have d1: "drop ?k rbuf1 @ incoming reads1 = CRLF @ post"
    using drop_front [OF r1(3)] by simp
  obtain any2 rbuf2 reads2 where r2: "fill_to 2 any1 (drop ?k rbuf1) reads1 = Inr (any2, rbuf2, reads2)"
    "delivers reads2" "rbuf2 @ incoming reads2 = CRLF @ post" "2 \<le> length rbuf2"
    using fill_to_delivers [OF r1(2), of 2 "drop ?k rbuf1" any1] d1 by fastforce
  have "take 2 rbuf2 = CRLF"
  proof -
    have "take 2 (rbuf2 @ incoming reads2) = CRLF" using r2(3) by simp
    then show ?thesis using r2(4) by simp
  qed
  moreover have "drop 2 rbuf2 @ incoming reads2 = post"
    using drop_front [OF r2(3)] r2(4) by (simp add: eval_nat_numeral)
  ultimately show ?case
    using r1(1) r2(1,2) by (simp add: read_chunked_body.simps [of mx any rbuf reads out])
next
  case (Cons sc cs)
  obtain ds c where sc: "sc = (ds, c)" by fastforce
  let ?n = "length c" and ?line = "ds @ CRLF" and ?k = "length ds + 2"
  let ?rest = "chunk_encode cs zero @ post"
  have form: "c \<noteq> []" "size_text ds ?n" using Cons.prems(3) by (simp_all add: chunk_form_def sc)
  have n: "0 < ?n" "length out + ?n \<le> mx" using Cons.prems(5) form(1) by (auto simp: sc)
  have eq: "rbuf @ incoming reads = ?line @ (c @ CRLF @ ?rest)"
    using Cons.prems(2) by (simp add: chunk_encode_def chunk_bytes_def sc)
  obtain any1 rbuf1 reads1 where r1: "read_until parse_chunk_size_line Body_Phase any rbuf reads =
      Inr ((?n, ?k), any1, rbuf1, reads1)" "delivers reads1"
    "rbuf1 @ incoming reads1 = ?line @ (c @ CRLF @ ?rest)"
    "parse_chunk_size_line rbuf1 = Inr (Some (?n, ?k))"
    using read_until_delivers [OF chunk_line_parser Cons.prems(1) size_line_parse [OF form(2)] eq] by blast
  have "length ?line \<le> length rbuf1" using parse_chunk_size_line_consumed [OF r1(4)] by simp
  then have d1: "drop ?k rbuf1 @ incoming reads1 = c @ CRLF @ ?rest"
    using drop_front [OF r1(3)] by simp
  obtain any2 rbuf2 reads2 where r2: "fill_to (?n + 2) any1 (drop ?k rbuf1) reads1 = Inr (any2, rbuf2, reads2)"
    "delivers reads2" "rbuf2 @ incoming reads2 = (c @ CRLF) @ ?rest" "?n + 2 \<le> length rbuf2"
    using fill_to_delivers [OF r1(2), of "?n + 2" "drop ?k rbuf1" any1] d1 by fastforce
  have "take (?n + 2) (rbuf2 @ incoming reads2) = c @ CRLF" using r2(3) by simp
  then have tk: "take (?n + 2) rbuf2 = c @ CRLF" using r2(4) by simp
  then have t: "take ?n rbuf2 = c" "take 2 (drop ?n rbuf2) = CRLF"
  proof -
    have "take ?n rbuf2 = take ?n (take (?n + 2) rbuf2)"
      "take 2 (drop ?n rbuf2) = drop ?n (take (?n + 2) rbuf2)"
      by (simp_all only: take_take drop_take) simp_all
    then show "take ?n rbuf2 = c" "take 2 (drop ?n rbuf2) = CRLF" unfolding tk by simp_all
  qed
  have d2: "drop 2 (drop ?n rbuf2) @ incoming reads2 = ?rest"
    using drop_front [OF r2(3)] r2(4) by (simp add: add.commute)
  have "read_chunked_body mx any rbuf reads out =
      read_chunked_body mx any2 (drop 2 (drop ?n rbuf2)) reads2 (out @ c)"
    using r1(1) r2(1) t n Cons.prems(6) by (simp add: read_chunked_body.simps [of mx any rbuf reads out] Let_def)
  moreover have "\<exists>any' rbuf' reads'. read_chunked_body mx any2 (drop 2 (drop ?n rbuf2)) reads2 (out @ c) =
      Inr ((out @ c) @ concat (map snd cs), any', rbuf', reads') \<and> delivers reads' \<and> rbuf' @ incoming reads' = post"
    using Cons.prems(3-6) r2(2) d2 by (intro Cons.IH) (auto simp: sc)
  ultimately show ?case by (simp add: sc)
qed

section \<open>What a round trip does\<close>

lemma parse_lines_len: "parse_lines lim lines n = Inr h \<Longrightarrow> h_head_len h = n"
proof -
  assume "parse_lines lim lines n = Inr h"
  then obtain status st where "head_of lim n status st = Inr h"
    by (auto simp: parse_lines_def rbind_eq_Inr_iff split: list.splits)
  then show ?thesis by (auto simp: head_of_def rbind_eq_Inr_iff split: if_splits)
qed

lemma parse_head_len: "parse_head lim buf = Inr (Some h) \<Longrightarrow> h_head_len h \<le> length buf"
  unfolding parse_head_iff by (auto dest!: parse_lines_len)

lemma read_body_delivers:
  assumes "delivers reads" "rbuf @ incoming reads = w @ post" "body_on_wire f body w"
    "length body \<le> mx" "mx + 2 < 2 ^ 64"
  shows "\<exists>any' rbuf' reads'. read_body f mx any rbuf reads = Inr (body, any', rbuf', reads') \<and>
    delivers reads' \<and> rbuf' @ incoming reads' = post"
proof (cases f)
  case No_Body
  then show ?thesis using assms by (simp add: read_body_def)
next
  case (Content_Length n)
  then have w: "w = body" "length body = n" using assms(3) by simp_all
  obtain any1 rbuf1 reads1 where r: "fill_to n any rbuf reads = Inr (any1, rbuf1, reads1)" "delivers reads1"
    "rbuf1 @ incoming reads1 = body @ post" "n \<le> length rbuf1"
    using fill_to_delivers [OF assms(1), of n rbuf any] assms(2) w by auto
  have "take n (rbuf1 @ incoming reads1) = body" using r(3) w by simp
  then have "take n rbuf1 = body" using r(4) by simp
  then show ?thesis
    using Content_Length r w assms(4) drop_front [OF r(3)] by (simp add: read_body_def read_exact_body_def)
next
  case Chunked
  then obtain cs zero where cs: "list_all chunk_form cs" "size_text zero 0" "body = concat (map snd cs)"
      "w = chunk_encode cs zero" using assms(3) by auto
  then show ?thesis
    using read_chunked_delivers [OF assms(1), of rbuf cs zero post "[]" mx any] assms Chunked
    by (simp add: read_body_def)
qed

lemma parse_head_of_lines:
  assumes "list_all clean lines" "length (head_bytes lines) \<le> max_head_bytes lim"
    "length lines \<le> max_header_count lim + 1" "parse_lines lim lines (length (head_bytes lines)) = Inr h"
  shows "parse_head lim (head_bytes lines) = Inr (Some h)"
  unfolding parse_head_iff by (rule exI [of _ lines], rule exI [of _ "[]"]) (use assms in simp)

lemma read_body_bound:
  assumes "read_body f mx any rbuf reads = Inr (body, any', rbuf', reads')"
  shows "length body \<le> mx"
proof (cases f)
  case Chunked
  have "length out' \<le> mx" if "read_chunked_body mx any rbuf reads out = Inr (out', any', rbuf', reads')"
    "length out \<le> mx" for out out'
    using that
  proof (induction mx any rbuf reads out arbitrary: rule: read_chunked_body.induct)
    case (1 mx any rbuf reads out)
    then show ?case
      by (auto simp: read_chunked_body.simps [of mx any rbuf reads out] rbind_eq_Inr_iff Let_def
          split: if_splits)
  qed
  then show ?thesis using assms Chunked by (auto simp: read_body_def)
qed (use assms in \<open>auto simp: read_body_def read_exact_body_def rbind_eq_Inr_iff split: if_splits\<close>)

text \<open>
  A read step over a connection whose first read fails is the step over a silent peer, the
  timeout replaced by the error: until the first byte nothing else can be told apart.
\<close>

definition first_read_fails :: "read_result list \<Rightarrow> bool" where
  "first_read_fails reads = (reads \<noteq> [] \<and> (hd reads = Read_Io_Error \<or> hd reads = Read_Bytes []))"

fun broken_off :: "read_result list \<Rightarrow> internal + 'a \<times> bool \<times> bytes \<times> read_result list \<Rightarrow>
    internal + 'a \<times> bool \<times> bytes \<times> read_result list" where
  "broken_off reads (Inl (Timeout_I _)) = Inl (Io_I False)"
| "broken_off reads (Inl i) = Inl i"
| "broken_off reads (Inr (a, any, rbuf, _)) = Inr (a, any, rbuf, reads)"

lemma received_fails: "first_read_fails (r # rs) \<Longrightarrow> received ph False r = Inl (Io_I False)"
  by (auto simp: first_read_fails_def received_def)

lemma read_until_fails:
  assumes "first_read_fails reads"
  shows "read_until p ph False rbuf reads = broken_off reads (read_until p ph False rbuf []) \<and>
    (\<forall>a any rbuf' rs. read_until p ph False rbuf [] = Inr (a, any, rbuf', rs) \<longrightarrow> \<not> any \<and> rs = [] \<and> rbuf' = rbuf) \<and>
    (\<forall>i. read_until p ph False rbuf [] = Inl i \<longrightarrow> i = Timeout_I ph \<or> (\<exists>e. i = Fatal e))"
proof -
  obtain r rs where r: "reads = r # rs" using assms by (cases reads) (auto simp: first_read_fails_def)
  show ?thesis
    using received_fails [of r rs ph] assms
    by (auto simp: r read_until.simps [of p ph False rbuf] split: sum.splits option.splits)
qed

lemma fill_to_fails:
  assumes "first_read_fails reads"
  shows "fill_to n False rbuf reads =
    (if length rbuf < n then Inl (Io_I False) else Inr (False, rbuf, reads))"
    "fill_to n False rbuf [] = (if length rbuf < n then Inl (Timeout_I Body_Phase) else Inr (False, rbuf, []))"
proof -
  obtain r rs where r: "reads = r # rs" using assms by (cases reads) (auto simp: first_read_fails_def)
  show "fill_to n False rbuf reads =
    (if length rbuf < n then Inl (Io_I False) else Inr (False, rbuf, reads))"
    using received_fails [of r rs Body_Phase] assms by (simp add: r fill_to.simps [of n False rbuf])
  show "fill_to n False rbuf [] = (if length rbuf < n then Inl (Timeout_I Body_Phase) else Inr (False, rbuf, []))"
    by (simp add: fill_to.simps [of n False rbuf])
qed

lemma read_chunked_fails:
  assumes "first_read_fails reads"
  shows "read_chunked_body mx False rbuf reads out = broken_off reads (read_chunked_body mx False rbuf [] out) \<and>
    read_chunked_body mx False rbuf [] out \<noteq> Inl (Io_I False)"
proof (induction "length rbuf" arbitrary: rbuf out rule: less_induct)
  case less
  note eqs = read_chunked_body.simps [of mx False rbuf _ out]
  note line = read_until_fails [OF assms, of parse_chunk_size_line Body_Phase rbuf]
  show ?case
  proof (cases "read_until parse_chunk_size_line Body_Phase False rbuf []")
    case (Inl i)
    then have "i = Timeout_I Body_Phase \<or> (\<exists>e. i = Fatal e)" using line by blast
    then show ?thesis using line Inl by (auto simp: eqs)
  next
    case (Inr res)
    then obtain sz k where silent: "read_until parse_chunk_size_line Body_Phase False rbuf [] = Inr ((sz, k), False, rbuf, [])"
      using line by (cases res) auto
    then have failing: "read_until parse_chunk_size_line Body_Phase False rbuf reads = Inr ((sz, k), False, rbuf, reads)"
      using line by simp
    have "parse_chunk_size_line rbuf = Inr (Some (sz, k))" using read_until_Ok [OF silent] by simp
    then have k: "0 < k" "k \<le> length rbuf" using parse_chunk_size_line_consumed by blast+
    let ?rest = "drop 2 (drop sz (drop k rbuf))"
    have "length ?rest < length rbuf" using k by simp
    then have IH: "read_chunked_body mx False ?rest reads out' =
        broken_off reads (read_chunked_body mx False ?rest [] out') \<and>
        read_chunked_body mx False ?rest [] out' \<noteq> Inl (Io_I False)" for out'
      by (rule less)
    show ?thesis
      using IH by (simp add: eqs silent failing fill_to_fails [OF assms] Let_def)
  qed
qed

lemma read_body_fails:
  assumes "first_read_fails reads"
  shows "read_body f mx False rbuf reads = broken_off reads (read_body f mx False rbuf []) \<and>
    read_body f mx False rbuf [] \<noteq> Inl (Io_I False)"
  using read_chunked_fails [OF assms]
  by (cases f) (simp_all add: read_body_def read_exact_body_def fill_to_fails [OF assms])

lemma received_Io: "received ph any r = Inl (Io_I False) \<longleftrightarrow> \<not> any \<and> (r = Read_Io_Error \<or> r = Read_Bytes [])"
  by (cases r) (auto simp: received_def)

lemma read_until_Io:
  "read_until p ph any rbuf reads = Inl (Io_I False) \<Longrightarrow> \<not> any \<and> first_read_fails reads"
proof (induction p ph any rbuf reads rule: read_until.induct)
  case (1 p ph any rbuf reads)
  then show ?case
    by (auto simp: read_until.simps [of p ph any rbuf reads] rbind_eq_Inl_iff received_Io first_read_fails_def
        split: sum.splits option.splits list.splits)
qed

lemma fill_to_Io:
  "fill_to n any rbuf reads = Inl (Io_I False) \<Longrightarrow> \<not> any \<and> first_read_fails reads"
proof (induction n any rbuf reads rule: fill_to.induct)
  case (1 n any rbuf reads)
  then show ?case
    by (auto simp: fill_to.simps [of n any rbuf reads] rbind_eq_Inl_iff received_Io first_read_fails_def
        split: list.splits if_splits)
qed

lemma read_chunked_Io:
  "read_chunked_body mx any rbuf reads out = Inl (Io_I False) \<Longrightarrow> \<not> any \<and> first_read_fails reads"
proof (induction "length rbuf + length (incoming reads)" arbitrary: any rbuf reads out rule: less_induct)
  case less
  note eq = read_chunked_body.simps [of mx any rbuf reads out]
  show ?case
  proof (cases "read_until parse_chunk_size_line Body_Phase any rbuf reads")
    case (Inl i)
    with less.prems have "i = Io_I False" by (simp add: eq)
    with Inl show ?thesis using read_until_Io by blast
  next
    case (Inr res)
    obtain sz k any1 rbuf1 reads1 where res: "res = ((sz, k), any1, rbuf1, reads1)" by (cases res) auto
    have "\<not> any1 \<and> first_read_fails reads1"
    proof (cases "fill_to (if sz = 0 then 2 else sz + 2) any1 (drop k rbuf1) reads1")
      case (Inl i)
      then show ?thesis
        using less.prems Inr res fill_to_Io by (auto simp: eq Let_def split: if_splits)
    next
      case fill: (Inr res2)
      obtain any2 rbuf2 reads2 where res2: "res2 = (any2, rbuf2, reads2)" by (cases res2) auto
      have c: "sz \<noteq> 0" "\<not> 2 ^ 64 \<le> length out + sz" "\<not> mx < length out + sz" "\<not> 2 ^ 64 \<le> sz + 2"
        "take 2 (drop sz rbuf2) = CRLF"
        "read_chunked_body mx any2 (drop 2 (drop sz rbuf2)) reads2 (out @ take sz rbuf2) = Inl (Io_I False)"
        using less.prems Inr res fill res2 by (simp_all add: eq Let_def split: if_splits)
      have "\<not> any2 \<and> first_read_fails reads2"
        using less.hyps [OF _ c(6)] chunk_progress [OF Inr [unfolded res]] fill res2 c(1) by fastforce
      then show ?thesis using fill_to_Ok fill res2 by metis
    qed
    then show ?thesis using read_until_Ok [OF Inr [unfolded res]] by auto
  qed
qed

lemma read_body_Io:
  "read_body f mx any rbuf reads = Inl (Io_I False) \<Longrightarrow> \<not> any \<and> first_read_fails reads"
  by (auto simp: read_body_def read_exact_body_def rbind_eq_Inl_iff
      dest: fill_to_Io read_chunked_Io split: body_framing.splits if_splits)

lemma attempt_of_Closed_Empty: "attempt_of i = Closed_Empty \<longleftrightarrow> i = Io_I False"
  by (cases i) auto

text \<open>
  The peer had closed the connection: the request could not be written, or the first read after
  it brought no byte while the bytes that were left in the buffer are no whole response (with
  a peer that stays silent the attempt would time out).
\<close>

fun timed_out :: "attempt \<Rightarrow> bool" where
  "timed_out (Failed (Timeout _)) = True"
| "timed_out _ = False"

definition found_closed :: "limits \<Rightarrow> connection \<Rightarrow> bool" where
  "found_closed lim conn =
     (hd (c_writes conn @ [True]) = False \<or>
      first_read_fails (c_reads conn) \<and> timed_out (fst (round_trip lim (conn\<lparr>c_reads := []\<rparr>))))"

lemma round_trip_Closed_Empty:
  assumes "round_trip lim conn = (Closed_Empty, conn')"
  shows "\<not> c_reusable conn' \<and>
    (hd (c_writes conn @ [True]) = False \<or> first_read_fails (c_reads conn))"
proof (cases "fst (write_request conn)")
  case False
  then show ?thesis
    using assms by (auto simp: round_trip_def write_request_def split: list.splits)
next
  case True
  define conn1 where "conn1 = snd (write_request conn)"
  have c1: "write_request conn = (True, conn1)" "c_reads conn1 = c_reads conn"
    using True by (auto simp: conn1_def write_request_def split: list.splits)
  show ?thesis
  proof (cases "read_head lim False (c_rbuf conn1) (c_reads conn1)")
    case (Inl i)
    then have "i = Io_I False" "\<not> c_reusable conn'"
      using assms c1 by (auto simp: round_trip_def finish_with_internal_def attempt_of_Closed_Empty)
    then show ?thesis
      using Inl c1 read_until_Io [of "parse_head lim" Headers_Phase False "c_rbuf conn1" "c_reads conn"]
      by (simp add: read_head_def)
  next
    case (Inr r)
    obtain h any rbuf reads where r: "r = (h, any, rbuf, reads)" by (cases r) auto
    have ok: "(reads = c_reads conn \<and> \<not> any) \<or> any"
      using read_until_Ok [OF Inr [unfolded r read_head_def]] c1(2) by auto
    show ?thesis
      using assms c1 Inr r ok
      by (auto simp: round_trip_def finish_with_internal_def attempt_of_Closed_Empty Let_def
          dest!: read_body_Io split: sum.splits if_splits)
  qed
qed

lemma scan_head_no_timeout: "scan_head lim buf i s lines \<noteq> Inl (Timeout ph)"
proof (induction lim buf i s lines rule: scan_head.induct)
  case (1 lim buf i s lines)
  then show ?case by (auto simp: scan_head.simps [of lim buf i s lines] Let_def)
qed

lemma header_step_no_timeout: "header_step st line \<noteq> Inl (Timeout ph)"
  by (auto simp: header_step_def parse_header_line_def parse_content_length_def ok_or_def rbind_eq_Inl_iff Let_def
      split: option.splits if_splits)

lemma header_fold_no_timeout: "rfold header_step st lines \<noteq> Inl (Timeout ph)"
  by (induction lines arbitrary: st) (auto simp: rbind_eq_Inl_iff header_step_no_timeout)

lemma parse_head_no_timeout: "parse_head lim buf \<noteq> Inl (Timeout ph)"
proof -
  have "parse_status_line line \<noteq> Inl (Timeout ph)" for line
    by (auto simp: parse_status_line_def Let_def)
  moreover have "head_of lim n status st \<noteq> Inl (Timeout ph)" for n status st
    by (auto simp: head_of_def rbind_eq_Inl_iff split: option.splits if_splits)
  ultimately have "parse_lines lim lines n \<noteq> Inl (Timeout ph)" for lines n
    by (auto simp: parse_lines_def rbind_eq_Inl_iff header_fold_no_timeout split: list.splits)
  then show ?thesis
    by (auto simp: parse_head_def rbind_eq_Inl_iff scan_head_no_timeout split: option.splits if_splits)
qed

lemma silent_until_no_timeout:
  "(\<And>buf. p buf \<noteq> Inl (Timeout ph')) \<Longrightarrow> read_until p ph any rbuf [] \<noteq> Inl (Fatal (Timeout ph'))"
  by (auto simp: read_until.simps [of p ph any rbuf] split: sum.splits option.splits)

lemma chunk_line_no_timeout: "parse_chunk_size_line buf \<noteq> Inl (Timeout ph)"
  by (auto simp: parse_chunk_size_line_def Let_def split: option.splits)

lemma silent_chunked_no_timeout: "read_chunked_body mx False rbuf [] out \<noteq> Inl (Fatal (Timeout ph))"
proof (induction "length rbuf" arbitrary: rbuf out rule: less_induct)
  case less
  have fails: "first_read_fails [Read_Io_Error]" by (simp add: first_read_fails_def)
  note eqs = read_chunked_body.simps [of mx False rbuf _ out]
  note line = read_until_fails [OF fails, of parse_chunk_size_line Body_Phase rbuf]
  show ?case
  proof (cases "read_until parse_chunk_size_line Body_Phase False rbuf []")
    case (Inl i)
    then have "i \<noteq> Fatal (Timeout ph)"
      using silent_until_no_timeout [of parse_chunk_size_line] chunk_line_no_timeout by blast
    then show ?thesis using Inl by (simp add: eqs)
  next
    case (Inr res)
    then obtain sz k where silent: "read_until parse_chunk_size_line Body_Phase False rbuf [] = Inr ((sz, k), False, rbuf, [])"
      using line by (cases res) auto
    have "parse_chunk_size_line rbuf = Inr (Some (sz, k))" using read_until_Ok [OF silent] by simp
    then have "0 < k" "k \<le> length rbuf" using parse_chunk_size_line_consumed by blast+
    then have "length (drop 2 (drop sz (drop k rbuf))) < length rbuf" by simp
    then have "read_chunked_body mx False (drop 2 (drop sz (drop k rbuf))) [] out' \<noteq> Inl (Fatal (Timeout ph))" for out'
      by (rule less)
    then show ?thesis by (simp add: eqs silent fill_to_fails(2) [OF fails] Let_def)
  qed
qed

lemma silent_body_no_timeout: "read_body f mx False rbuf [] \<noteq> Inl (Fatal (Timeout ph))"
proof -
  have fails: "first_read_fails [Read_Io_Error]" by (simp add: first_read_fails_def)
  show ?thesis
    using silent_chunked_no_timeout
    by (cases f) (simp_all add: read_body_def read_exact_body_def fill_to_fails(2) [OF fails])
qed

lemma round_trip_closed_iff:
  "fst (round_trip lim conn) = Closed_Empty \<longleftrightarrow> found_closed lim conn"
proof (cases "hd (c_writes conn @ [True]) \<and> first_read_fails (c_reads conn)")
  case False
  then consider "\<not> hd (c_writes conn @ [True])" | "hd (c_writes conn @ [True])" "\<not> first_read_fails (c_reads conn)"
    by blast
  then show ?thesis
  proof cases
    case 1
    then show ?thesis
      by (cases "c_writes conn") (auto simp: found_closed_def round_trip_def write_request_def)
  next
    case 2
    obtain a conn' where rt: "round_trip lim conn = (a, conn')" by fastforce
    then have "a \<noteq> Closed_Empty" using round_trip_Closed_Empty [of lim conn conn'] 2 by auto
    then show ?thesis using 2 rt by (simp add: found_closed_def)
  qed
next
  case True
  then have fails: "first_read_fails (c_reads conn)" by blast
  obtain conn1 where w: "write_request conn = (True, conn1)" "c_rbuf conn1 = c_rbuf conn" "c_reads conn1 = c_reads conn"
    using True by (cases "c_writes conn") (auto simp: write_request_def)
  obtain conn2 where w2: "write_request (conn\<lparr>c_reads := []\<rparr>) = (True, conn2)" "c_rbuf conn2 = c_rbuf conn" "c_reads conn2 = []"
    using True by (cases "c_writes conn") (auto simp: write_request_def)
  note head = read_until_fails [OF fails, of "parse_head lim" Headers_Phase "c_rbuf conn"]
  have "fst (round_trip lim conn) = Closed_Empty \<longleftrightarrow> timed_out (fst (round_trip lim (conn\<lparr>c_reads := []\<rparr>)))"
  proof (cases "read_until (parse_head lim) Headers_Phase False (c_rbuf conn) []")
    case (Inl i)
    have no: "i \<noteq> Fatal (Timeout ph)" for ph
      using silent_until_no_timeout [of "parse_head lim" ph Headers_Phase False "c_rbuf conn"]
        parse_head_no_timeout Inl by metis
    have "i = Timeout_I Headers_Phase \<or> (\<exists>e. i = Fatal e)" using head Inl by blast
    then show ?thesis
    proof
      assume "i = Timeout_I Headers_Phase"
      then show ?thesis
        using head Inl w w2 by (simp add: round_trip_def read_head_def finish_with_internal_def)
    next
      assume "\<exists>e. i = Fatal e"
      then obtain e where e: "i = Fatal e" by blast
      then have "\<not> timed_out (Failed e)" using no by (cases e) auto
      then show ?thesis
        using head Inl w w2 e by (simp add: round_trip_def read_head_def finish_with_internal_def)
    qed
  next
    case (Inr res)
    then obtain h where silent: "read_until (parse_head lim) Headers_Phase False (c_rbuf conn) [] =
        Inr (h, False, c_rbuf conn, [])"
      using head by (cases res) auto
    have failing: "read_until (parse_head lim) Headers_Phase False (c_rbuf conn) (c_reads conn) =
        Inr (h, False, c_rbuf conn, c_reads conn)" using head silent by simp
    define cap where "cap = (if 200 \<le> h_status h \<and> h_status h < 300 then max_body_bytes lim
      else min DISCARD_CAP (max_body_bytes lim))"
    define rest where "rest = drop (h_head_len h) (c_rbuf conn)"
    note body = read_body_fails [OF fails, of "h_framing h" cap rest]
    show ?thesis
    proof (cases "read_body (h_framing h) cap False rest []")
      case (Inr r)
      then show ?thesis
        using body w w2 silent failing
        by (cases r) (auto simp: round_trip_def read_head_def Let_def cap_def [symmetric] rest_def [symmetric])
    next
      case (Inl i)
      then have "i \<noteq> Io_I False" "\<And>ph. i \<noteq> Fatal (Timeout ph)"
        using body silent_body_no_timeout by auto
      then show ?thesis
        using Inl body w w2 silent failing
        by (cases i) (auto simp: round_trip_def read_head_def finish_with_internal_def Let_def
            cap_def [symmetric] rest_def [symmetric] elim: timed_out.elims)
    qed
  qed
  then show ?thesis using True by (simp add: found_closed_def)
qed

lemma found_closed_fresh:
  assumes "c_rbuf conn = []" "0 < max_head_bytes lim"
  shows "found_closed lim conn \<longleftrightarrow>
    hd (c_writes conn @ [True]) = False \<or> first_read_fails (c_reads conn)"
proof (cases "hd (c_writes conn @ [True])")
  case True
  have "parse_head lim [] = Inr None"
    using assms(2) by (simp add: parse_head_def scan_head.simps [of lim "[]"])
  then have "timed_out (fst (round_trip lim (conn\<lparr>c_reads := []\<rparr>)))"
    using assms(1) True
    by (cases "c_writes conn") (simp_all add: round_trip_def write_request_def read_head_def finish_with_internal_def
        read_until.simps [of _ _ _ "[]"])
  then show ?thesis by (simp add: found_closed_def)
qed (simp add: found_closed_def)

lemma round_trip_failed_drops:
  assumes "round_trip lim conn = (a, conn')" "c_reusable conn'"
  shows "(\<exists>body. a = Success body) \<or> (\<exists>st. a = Failed (Http_Status st))"
  using assms
  by (auto simp: round_trip_def finish_with_internal_def Let_def split: prod.splits sum.splits if_splits)

lemma round_trip_Success_bound:
  assumes "round_trip lim conn = (Success body, conn')"
  shows "length body \<le> max_body_bytes lim"
proof -
  have no: "attempt_of i \<noteq> Success body" for i by (cases i) auto
  obtain f any rbuf reads any' rbuf' reads' where
    "read_body f (max_body_bytes lim) any rbuf reads = Inr (body, any', rbuf', reads')"
    using assms no
    by (auto simp: round_trip_def finish_with_internal_def Let_def split: prod.splits sum.splits if_splits)
  then show ?thesis by (rule read_body_bound)
qed

lemma attempt_request_spec:
  assumes "attempt_request req c = (a, c')" "s_conn c = Some conn"
  shows "\<exists>conn'. round_trip (s_limits c) conn = (a, conn') \<and>
    c' = c\<lparr>s_conn := (if c_reusable conn' then Some conn' else None), s_sent := s_sent c @ [req]\<rparr>"
  using assms by (auto simp: attempt_request_def Let_def split: prod.splits)

lemma connect_spec:
  "connect c = (r, c') \<Longrightarrow> s_sent c' = s_sent c \<and> s_limits c' = s_limits c \<and>
     (case r of Inl _ \<Rightarrow> s_conn c' = s_conn c | Inr _ \<Rightarrow> s_conn c' \<noteq> None)"
  by (auto simp: connect_def split: list.splits sum.splits)

section \<open>Properties\<close>

text \<open>
  C15: a well-formed response is delivered whatever way the reads split it: if the peer
  sends an accepted head with a status from 200 to 299, the body under the framing the head
  declares (nothing, the declared length, or any chunking of it, with the sizes written in
  one to sixteen hexadecimal digits of either case), within the limit, and further bytes, then
  the request succeeds with exactly the body, the further bytes stay for the next response,
  and the connection stays open unless the head asks to close it.
\<close>

theorem response_delivered:
  assumes "list_all clean lines" and "length (head_bytes lines) \<le> max_head_bytes lim"
    and "length lines \<le> max_header_count lim + 1"
    and "parse_lines lim lines (length (head_bytes lines)) = Inr h"
    and "200 \<le> h_status h" and "h_status h < 300"
    and "body_on_wire (h_framing h) body w" and "length body \<le> max_body_bytes lim"
    and "max_body_bytes lim + 2 < 2 ^ 64"
    and "delivers reads" and "rbuf @ incoming reads = head_bytes lines @ w @ post"
  shows "\<exists>conn'. round_trip lim
      \<lparr>c_rbuf = rbuf, c_reads = reads, c_writes = [], c_reusable = True\<rparr> = (Success body, conn') \<and>
    c_rbuf conn' @ incoming (c_reads conn') = post \<and> delivers (c_reads conn') \<and>
    c_reusable conn' = (\<not> h_connection_close h)"
proof -
  have ph: "parse_head lim (head_bytes lines) = Inr (Some h)"
    using assms(1-4) by (rule parse_head_of_lines)
  obtain any1 rbuf1 reads1 where r1: "read_until (parse_head lim) Headers_Phase False rbuf reads = Inr (h, any1, rbuf1, reads1)"
    "delivers reads1" "rbuf1 @ incoming reads1 = head_bytes lines @ w @ post" "parse_head lim rbuf1 = Inr (Some h)"
    using read_until_delivers [OF head_parser assms(10) ph assms(11)] by blast
  have len: "h_head_len h = length (head_bytes lines)" using assms(4) by (rule parse_lines_len)
  then have "drop (h_head_len h) rbuf1 @ incoming reads1 = w @ post"
    using drop_front [OF r1(3)] parse_head_len [OF r1(4)] by simp
  then obtain any2 rbuf2 reads2 where
    "read_body (h_framing h) (max_body_bytes lim) any1 (drop (h_head_len h) rbuf1) reads1 =
       Inr (body, any2, rbuf2, reads2)" "delivers reads2" "rbuf2 @ incoming reads2 = post"
    using read_body_delivers [OF r1(2) _ assms(7-9)] by blast
  then show ?thesis
    using r1(1) assms(5,6) by (simp add: round_trip_def write_request_def read_head_def)
qed

text \<open>The witness: \<open>hello\<close> in two chunks, byte by byte, with bytes of the next response behind it.\<close>

definition chunked_lines :: "bytes list" where
  "chunked_lines = [ascii ''HTTP/1.1 200 OK'', ascii ''transfer-encoding: Chunked'']"

definition hello_wire :: bytes where
  "hello_wire = ascii ''3'' @ CRLF @ ascii ''hel'' @ CRLF @ ascii ''0002'' @ CRLF @ ascii ''lo'' @ CRLF @
     ascii ''0'' @ CRLF @ CRLF"

lemma hello_on_wire: "body_on_wire Chunked (ascii ''hello'') hello_wire"
proof -
  let ?cs = "[(ascii ''3'', ascii ''hel''), (ascii ''0002'', ascii ''lo'')]"
  have "size_text (ascii ''3'') 3"
    unfolding size_text_def by (intro conjI exI [of _ "[3]"]) (simp_all add: ascii_def)
  moreover have "size_text (ascii ''0002'') 2"
    unfolding size_text_def by (intro conjI exI [of _ "[0, 0, 0, 2]"]) (simp_all add: ascii_def)
  moreover have "size_text (ascii ''0'') 0"
    unfolding size_text_def by (intro conjI exI [of _ "[0]"]) (simp_all add: ascii_def)
  moreover have "length (ascii ''hel'') = 3" "length (ascii ''lo'') = 2" "ascii ''hel'' \<noteq> []" "ascii ''lo'' \<noteq> []"
    "ascii ''hello'' = ascii ''hel'' @ ascii ''lo''" by (simp_all add: ascii_def)
  ultimately show ?thesis
    by (auto simp: chunk_form_def chunk_encode_def chunk_bytes_def hello_wire_def
        intro!: exI [of _ ?cs] exI [of _ "ascii ''0''"])
qed

theorem response_delivered_witness:
  "\<exists>conn'. round_trip default_limits
      \<lparr>c_rbuf = [], c_reads = map (\<lambda>b. Read_Bytes [b]) (head_bytes chunked_lines @ hello_wire @ [9]),
       c_writes = [], c_reusable = True\<rparr> = (Success (ascii ''hello''), conn') \<and>
     c_rbuf conn' @ incoming (c_reads conn') = [9]"
proof -
  let ?reads = "map (\<lambda>b. Read_Bytes [b]) (head_bytes chunked_lines @ hello_wire @ [9])"
  let ?h = "\<lparr>h_status = 200, h_framing = Chunked, h_connection_close = False, h_head_len = 47\<rparr>"
  have in_map: "incoming (map (\<lambda>b. Read_Bytes [b]) bs) = bs" "delivers (map (\<lambda>b. Read_Bytes [b]) bs)" for bs
    by (induction bs) (simp_all add: delivers_def)
  have len: "length (head_bytes chunked_lines) = 47" by (simp add: chunked_lines_def ascii_def)
  have lines: "list_all clean chunked_lines" "length chunked_lines \<le> max_header_count default_limits + 1"
    "length (head_bytes chunked_lines) \<le> max_head_bytes default_limits"
    by (simp_all add: chunked_lines_def clean_def ascii_def default_limits_def)
  have parsed: "parse_lines default_limits chunked_lines 47 = Inr ?h"
    by (simp add: parse_lines_def chunked_lines_def ascii_def parse_status_line_def parse_header_line_def
        is_digit_def is_tchar_def is_alphanumeric_def is_upper_def is_lower_def dec_value_def trim_ows_def
        is_ows_def is_vchar_sp_htab_def header_step_def eq_ignore_case_def to_lower_def header_state_new_def
        head_of_def Let_def)
  have "\<exists>conn'. round_trip default_limits
      \<lparr>c_rbuf = [], c_reads = ?reads, c_writes = [], c_reusable = True\<rparr> = (Success (ascii ''hello''), conn') \<and>
    c_rbuf conn' @ incoming (c_reads conn') = [9] \<and> delivers (c_reads conn') \<and>
    c_reusable conn' = (\<not> h_connection_close ?h)"
    by (rule response_delivered [OF lines(1,3,2), where w = hello_wire])
      (use parsed hello_on_wire in \<open>simp_all add: in_map len default_limits_def ascii_def del: map_append body_on_wire.simps\<close>)
  then show ?thesis by blast
qed

text \<open>
  No response can make the client hold more than the limit: a body that is delivered
  has at most the configured number of bytes, whatever the peer declares or sends.
\<close>

theorem response_body_bounded:
  assumes "round_trip lim conn = (Success body, conn')"
  shows "length body \<le> max_body_bytes lim"
  using assms by (rule round_trip_Success_bound)

theorem response_body_bounded_witness:
  "\<exists>conn'. round_trip default_limits
      \<lparr>c_rbuf = head_bytes sample_lines @ [1, 2, 3], c_reads = [], c_writes = [], c_reusable = True\<rparr> =
        (Success [1, 2, 3], conn') \<and>
     length ([1, 2, 3] :: bytes) \<le> max_body_bytes default_limits"
proof -
  let ?h = "\<lparr>h_status = 200, h_framing = Content_Length 3, h_connection_close = False, h_head_len = 38\<rparr>"
  have len: "length (head_bytes sample_lines) = 38" by (simp add: sample_lines_def ascii_def)
  have "list_all clean sample_lines" "length sample_lines \<le> max_header_count default_limits + 1"
    "length (head_bytes sample_lines) \<le> max_head_bytes default_limits"
    by (simp_all add: sample_lines_def clean_def ascii_def default_limits_def)
  then have ph: "parse_head default_limits (head_bytes sample_lines @ [1, 2, 3]) = Inr (Some ?h)"
    unfolding parse_head_iff
    by (intro exI [of _ sample_lines] exI [of _ "[1, 2, 3]"]) (use sample_lines_parse len in simp)
  have rh: "read_head default_limits False (head_bytes sample_lines @ [1, 2, 3]) [] =
      Inr (?h, False, head_bytes sample_lines @ [1, 2, 3], [])"
    by (simp add: read_head_def read_until.simps [of _ _ _ "head_bytes sample_lines @ [1, 2, 3]"] ph)
  have rb: "read_body (Content_Length 3) (max_body_bytes default_limits) False [1, 2, 3] [] =
      Inr ([1, 2, 3], False, [], [])"
    by (simp add: read_body_def read_exact_body_def fill_to.simps [of 3 _ "[1, 2, 3]"] default_limits_def)
  obtain conn' where r: "round_trip default_limits
      \<lparr>c_rbuf = head_bytes sample_lines @ [1, 2, 3], c_reads = [], c_writes = [], c_reusable = True\<rparr> =
        (Success [1, 2, 3], conn')"
    by (simp add: round_trip_def write_request_def rh rb len)
  show ?thesis using response_body_bounded [OF r] r by blast
qed

text \<open>
  C16: the request is written exactly as often as it must be. Without an open connection it is
  written once, on the new connection, or not at all when none can be opened. On a reused
  connection it is written once, and a second time, on a new connection, exactly when the
  first attempt found the old one closed (it could not be written, or the first read brought
  no byte of an answer) and a new connection could be opened. There is never a third time,
  and a request that got any part of an answer is never repeated.
\<close>

theorem send_retries_once:
  "s_sent (snd (send version path c)) = s_sent c @ replicate
     (case s_conn c of
        None \<Rightarrow> (case s_connects c of Inr _ # _ \<Rightarrow> 1 | _ \<Rightarrow> 0)
      | Some conn \<Rightarrow>
          if found_closed (s_limits c) conn \<and> (case s_connects c of Inr _ # _ \<Rightarrow> True | _ \<Rightarrow> False) then 2 else 1)
     (format_request version (s_host c) path)"
proof -
  let ?req = "format_request version (s_host c) path"
  have one: "s_sent c2 = s_sent c1 @ [?req] \<and> s_connects c2 = s_connects c1 \<and> s_limits c2 = s_limits c1 \<and>
      a = fst (round_trip (s_limits c1) conn)"
    if "attempt_request ?req c1 = (a, c2)" "s_conn c1 = Some conn" for c1 a c2 conn
    using attempt_request_spec [OF that] by auto
  have cn: "connect c1 = (r, c2) \<Longrightarrow> s_sent c2 = s_sent c1 \<and>
      (case s_connects c1 of Inr _ # _ \<Rightarrow> (\<exists>u conn. r = Inr u \<and> s_conn c2 = Some conn) | _ \<Rightarrow> (\<exists>e. r = Inl e))" for c1 r c2
    by (auto simp: connect_def split: list.splits sum.splits)
  show ?thesis
  proof (cases "s_conn c")
    case None
    obtain r c1 where r: "connect c = (r, c1)" by fastforce
    show ?thesis
    proof (cases r)
      case (Inl e)
      then show ?thesis
        using None r cn [OF r] by (auto simp: send_def Let_def split: list.splits sum.splits)
    next
      case (Inr u)
      then obtain conn where c1: "s_conn c1 = Some conn" using cn [OF r] by (auto split: list.splits sum.splits)
      obtain a c2 where at: "attempt_request ?req c1 = (a, c2)" by fastforce
      have "s_sent (snd (send version path c)) = s_sent c2"
        using None r Inr at by (cases a) (simp_all add: send_def Let_def)
      moreover have "s_sent c2 = s_sent c @ [?req]" using one [OF at c1] cn [OF r] by simp
      moreover have "(case s_connects c of Inr _ # _ \<Rightarrow> 1 | _ \<Rightarrow> 0) = (1 :: nat)"
        using cn [OF r] Inr by (auto split: list.splits sum.splits)
      ultimately show ?thesis using None by simp
    qed
  next
    case (Some conn)
    obtain a c1 where at: "attempt_request ?req c = (a, c1)" by fastforce
    have s1: "s_sent c1 = s_sent c @ [?req]" "s_connects c1 = s_connects c"
      and closed: "a = Closed_Empty \<longleftrightarrow> found_closed (s_limits c) conn"
      using one [OF at Some] round_trip_closed_iff by metis+
    show ?thesis
    proof (cases "a = Closed_Empty")
      case False
      then have "s_sent (snd (send version path c)) = s_sent c1"
        using Some at by (cases a) (simp_all add: send_def Let_def)
      then show ?thesis using False closed Some s1 by simp
    next
      case True
      obtain r c2 where r: "connect c1 = (r, c2)" by fastforce
      show ?thesis
      proof (cases r)
        case (Inl e)
        then have "s_sent (snd (send version path c)) = s_sent c2"
          using Some at True r by (simp add: send_def Let_def)
        then show ?thesis
          using Inl Some s1 cn [OF r] by (auto split: list.splits sum.splits)
      next
        case (Inr u)
        then obtain conn2 where c2: "s_conn c2 = Some conn2" using cn [OF r] by (auto split: list.splits sum.splits)
        obtain a3 c3 where at3: "attempt_request ?req c2 = (a3, c3)" by fastforce
        have "s_sent (snd (send version path c)) = s_sent c3"
          using Some at True r Inr at3 by (cases a3) (simp_all add: send_def Let_def)
        moreover have "s_sent c3 = s_sent c @ [?req, ?req]" using one [OF at3 c2] cn [OF r] s1 by simp
        moreover have "case s_connects c of Inr _ # _ \<Rightarrow> True | _ \<Rightarrow> False"
          using cn [OF r] Inr s1 by (auto split: list.splits sum.splits)
        ultimately show ?thesis using Some closed True by (simp add: numeral_2_eq_2)
      qed
    qed
  qed
qed

text \<open>A reused connection whose peer had closed it: the request is written again.\<close>

definition idle_closed_client :: client where
  "idle_closed_client =
     (client_new Chunks [Inr ([], [])])\<lparr>s_conn := Some (new_connection [Read_Bytes []] [])\<rparr>"

theorem send_retries_once_witness:
  "s_sent (snd (send [] (ascii ''/'') idle_closed_client)) =
     replicate 2 (format_request [] (s_host idle_closed_client) (ascii ''/''))"
proof -
  have "found_closed (s_limits idle_closed_client) (new_connection [Read_Bytes []] [])"
    by (subst found_closed_fresh)
      (simp_all add: idle_closed_client_def client_new_def default_limits_def new_connection_def first_read_fails_def)
  then show ?thesis
    using send_retries_once [of "[]" "ascii ''/''" idle_closed_client]
    by (simp add: idle_closed_client_def client_new_def)
qed

text \<open>
  A connection whose response broke off or broke the protocol is never used again: when
  a call fails with anything but an HTTP status, the client is left without a connection.
\<close>

theorem send_error_drops_connection:
  assumes "send version path c = (Some (Inl e), c')" and "\<forall>st. e \<noteq> Http_Status st"
  shows "s_conn c' = None"
proof -
  have drop1: "s_conn c2 = None" if "attempt_request req c1 = (a, c2)" "s_conn c1 = Some conn"
    "a = Closed_Empty \<or> (\<exists>e. a = Failed e \<and> (\<forall>st. e \<noteq> Http_Status st))" for req c1 a c2 conn
    using attempt_request_spec [OF that(1,2)] round_trip_failed_drops that(3) by fastforce
  let ?req = "format_request version (s_host c) path"
  obtain o1 c1 where op: "(if s_conn c = None then connect c else (Ok (), c)) = (o1, c1)" by fastforce
  show ?thesis
  proof (cases o1)
    case (Inl e1)
    then have "s_conn c1 = None" using op connect_spec by (fastforce split: if_splits)
    then show ?thesis using assms(1) op Inl by (simp add: send_def Let_def)
  next
    case (Inr u)
    then obtain conn where c1: "s_conn c1 = Some conn" using op connect_spec by (fastforce split: if_splits)
    obtain a c2 where at: "attempt_request ?req c1 = (a, c2)" by fastforce
    show ?thesis
    proof (cases a)
      case (Success body)
      then show ?thesis using assms(1) op Inr at by (simp add: send_def Let_def)
    next
      case (Failed e2)
      then show ?thesis using assms op Inr at drop1 [OF at c1] by (auto simp: send_def Let_def)
    next
      case Panicked_A
      then show ?thesis using assms(1) op Inr at by (simp add: send_def Let_def)
    next
      case Closed_Empty
      then have n2: "s_conn c2 = None" using drop1 [OF at c1] by simp
      obtain o3 c3 where cn: "connect c2 = (o3, c3)" by fastforce
      show ?thesis
      proof (cases "s_conn c \<noteq> None \<and> (\<exists>u. o3 = Inr u)")
        case False
        then show ?thesis
          using assms(1) op Inr at Closed_Empty n2 cn connect_spec [OF cn]
          by (auto simp: send_def Let_def split: sum.splits if_splits)
      next
        case True
        then obtain conn3 where c3: "s_conn c3 = Some conn3" using connect_spec [OF cn] by fastforce
        obtain a4 c4 where at4: "attempt_request ?req c3 = (a4, c4)" by fastforce
        show ?thesis
          using assms True op Inr at Closed_Empty cn at4 drop1 [OF at4 c3]
          by (auto simp: send_def Let_def split: sum.splits if_splits attempt.splits)
      qed
    qed
  qed
qed

theorem send_error_drops_connection_witness:
  "s_conn (snd (send [] [] (client_new Chunks []))) = None"
proof -
  have "send [] [] (client_new Chunks []) =
      (Some (Inl (Timeout Connect_Phase)), snd (send [] [] (client_new Chunks [])))"
    by (simp add: send_def client_new_def connect_def)
  from send_error_drops_connection [OF this] show ?thesis by simp
qed

text \<open>
  The overflow: after one chunk, a chunk size near the top of 64 bits makes the addition of
  the sizes overflow before the limit is tested.
\<close>

lemma chunk_size_overflow_panics:
  "read_chunked_body (64 * 1024 * 1024) True
     (chunk_bytes ([49], [97]) @ replicate 16 70 @ CRLF) [] [] = Inl Overflow"
proof -
  let ?b = "replicate 16 (70 :: u8) @ CRLF"
  let ?c = "chunk_bytes ([49], [97])"
  have "hex_value [49] = 1" "list_all is_hexdigit [49]"
    by (simp_all add: hex_value_def hex_digit_value_def is_hexdigit_def is_digit_def)
  then have "parse_chunk_size_line ([49] @ CRLF) = Inr (Some (1, 3))"
    using chunk_size_line_parse [of "[49]"] by simp
  then have c1: "parse_chunk_size_line (?c @ ?b) = Inr (Some (1, 3))"
    using parse_chunk_size_line_stable [of "[49] @ CRLF" "[97] @ CRLF @ ?b"] by (simp add: chunk_bytes_def)
  have v: "hex_value (replicate 16 70) = 2 ^ 64 - 1"
  proof -
    have "replicate 16 (70 :: u8) =
        [70, 70, 70, 70, 70, 70, 70, 70, 70, 70, 70, 70, 70, 70, 70, 70]"
      by (simp add: eval_nat_numeral)
    then show ?thesis
      by (simp only:) (simp add: hex_value_def hex_digit_value_def is_digit_def is_upper_def)
  qed
  have c2: "parse_chunk_size_line ?b = Inr (Some (2 ^ 64 - 1, 18))"
  proof -
    have "list_all is_hexdigit (replicate 16 70)" by (simp add: list_all_iff is_hexdigit_def)
    then show ?thesis using chunk_size_line_parse [of "replicate 16 70"] v by simp
  qed
  have u1: "read_until parse_chunk_size_line Body_Phase True (?c @ ?b) [] =
      Inr ((1, 3), True, ?c @ ?b, [])"
    by (simp only: read_until.simps [of _ _ _ "?c @ ?b"] c1 sum.case option.case)
  have u2: "read_until parse_chunk_size_line Body_Phase True ?b [] = Inr ((2 ^ 64 - 1, 18), True, ?b, [])"
    by (simp only: read_until.simps [of _ _ _ ?b] c2 sum.case option.case)
  have f: "fill_to (1 + 2) True ([97] @ CRLF @ ?b) [] = Inr (True, [97] @ CRLF @ ?b, [])"
    by (simp add: fill_to.simps [of _ _ "97 # _"])
  have step2: "read_chunked_body (64 * 1024 * 1024) True ?b [] [97] = Inl Overflow"
    unfolding read_chunked_body.simps [of _ _ ?b] u2 by (simp add: Let_def)
  have l: "length ?c = 6" "drop 3 ?c = [97] @ CRLF" by (simp_all add: chunk_bytes_def)
  then have "drop 3 (?c @ ?b) = [97] @ CRLF @ ?b" by simp
  then show ?thesis
    unfolding read_chunked_body.simps [of _ _ "?c @ ?b"] u1
    using f step2 l by (simp add: Let_def)
qed

end
