(* ===== verification/S3_Poll.thy ===== *)
theory S3_Poll
  imports Listing Ingest_Status Assembly Http_Connection "HOL-Library.List_Lexorder"
begin

text \<open>
  The poller of the chunk bucket, \<open>S3Poller\<close> of \<open>ingest/s3_poll.rs\<close>. An operation takes
  the poller and gives the poller it leaves, the events it reported and its result, or
  \<open>None\<close> when it does not return: the paging loops run as long as the server says that
  its listing is truncated. A panic, of the client or of a checked addition, is an error
  of its own. The two methods of the HTTP client are a parameter with the client as its
  state; \<open>http_api\<close> gives the client of the theory \<open>Http_Connection\<close> for it.
\<close>

section \<open>State\<close>

definition REANCHOR_EMPTY_POLLS :: nat where "REANCHOR_EMPTY_POLLS = 12"
definition STUCK_MID_VOLUME_EMPTY_POLLS :: nat where "STUCK_MID_VOLUME_EMPTY_POLLS = 60"
definition STALLED_AFTER_CONSECUTIVE_ERRORS :: nat where "STALLED_AFTER_CONSECUTIVE_ERRORS = 5"

record 'c s3_api =
  api_list :: "bytes \<Rightarrow> bytes option \<Rightarrow> bytes option \<Rightarrow> bytes option \<Rightarrow> 'c \<Rightarrow> (http_error + bytes) option \<times> 'c"
  api_get :: "bytes \<Rightarrow> 'c \<Rightarrow> (http_error + bytes) option \<times> 'c"

definition http_api :: "bytes \<Rightarrow> client s3_api" where
  "http_api version = \<lparr>api_list = list_prefix version, api_get = get_object version\<rparr>"

datatype poll_fail = Poll_Error poll_error | Poll_Panic

record 'c poller =
  sp_site_id :: bytes
  sp_client :: 'c
  sp_last_completed :: "nat option"
  sp_last_seen :: "bytes option"
  sp_empty_polls :: nat
  sp_seen_any :: bool
  sp_errors :: nat
  sp_status :: ingest_status

definition poller_new :: "bytes \<Rightarrow> 'c \<Rightarrow> ingest_status \<Rightarrow> 'c poller" where
  "poller_new site c st =
     \<lparr>sp_site_id = site, sp_client = c, sp_last_completed = None, sp_last_seen = None,
      sp_empty_polls = 0, sp_seen_any = False, sp_errors = 0, sp_status = st\<rparr>"

section \<open>Operations that report and may fail\<close>

type_synonym ('s, 'a) polling = "'s \<Rightarrow> ('s \<times> event list \<times> (poll_fail + 'a)) option"

definition preturn :: "'a \<Rightarrow> ('s, 'a) polling" where
  "preturn a s = Some (s, [], Inr a)"

definition pfail :: "poll_fail \<Rightarrow> ('s, 'a) polling" where
  "pfail e s = Some (s, [], Inl e)"

definition preport :: "event list \<Rightarrow> ('s, unit) polling" where
  "preport es s = Some (s, es, Inr ())"

definition pget :: "('s \<Rightarrow> 'a) \<Rightarrow> ('s, 'a) polling" where
  "pget f s = Some (s, [], Inr (f s))"

definition pmodify :: "('s \<Rightarrow> 's) \<Rightarrow> ('s, unit) polling" where
  "pmodify f s = Some (f s, [], Inr ())"

definition pbind :: "('s, 'a) polling \<Rightarrow> ('a \<Rightarrow> ('s, 'b) polling) \<Rightarrow> ('s, 'b) polling" where
  "pbind m f s =
     (case m s of
        None \<Rightarrow> None
      | Some (s, es, Inl e) \<Rightarrow> Some (s, es, Inl e)
      | Some (s, es, Inr a) \<Rightarrow>
          (case f a s of None \<Rightarrow> None | Some (s, es', r) \<Rightarrow> Some (s, es @ es', r)))"

text \<open>The answer of one call to the client, as the poller's \<open>?\<close> reads it.\<close>

fun http_result :: "(http_error + 'a) option \<Rightarrow> poll_fail + 'a" where
  "http_result None = Err Poll_Panic"
| "http_result (Some (Inl e)) = Err (Poll_Error (Poll_Http e))"
| "http_result (Some (Inr a)) = Ok a"

fun xml_result :: "xml_error + 'a \<Rightarrow> poll_fail + 'a" where
  "xml_result (Inl e) = Err (Poll_Error (Poll_Xml e))"
| "xml_result (Inr a) = Ok a"

section \<open>Listing\<close>

definition request_page ::
  "xml_reader \<Rightarrow> 'c s3_api \<Rightarrow> bytes \<Rightarrow> bytes option \<Rightarrow> bytes option \<Rightarrow> bytes option \<Rightarrow> 'c \<Rightarrow>
   (poll_fail + list_page) \<times> 'c" where
  "request_page xml api pre start_after token delimiter c =
     (let (answer, c) = api_list api pre start_after token delimiter c
      in (rbind (http_result answer) (\<lambda>body. xml_result (parse_list_xml xml body)), c))"

definition page_folders :: "bytes \<Rightarrow> list_page \<Rightarrow> nat list" where
  "page_folders pre page = List.map_filter (parse_volume_folder pre) (lp_common_prefixes page)"

definition page_events :: "bytes \<Rightarrow> list_page \<Rightarrow> event list" where
  "page_events pre page =
     map UnrecognizedVolumeFolder
       (filter (\<lambda>entry. parse_volume_folder pre entry = None) (lp_common_prefixes page))"

partial_function (option) folder_pages ::
  "xml_reader \<Rightarrow> 'c s3_api \<Rightarrow> bytes \<Rightarrow> bytes option \<Rightarrow> nat list \<Rightarrow> event list \<Rightarrow> 'c \<Rightarrow>
   ('c \<times> event list \<times> (poll_fail + nat list)) option" where
  "folder_pages xml api pre token folders es c =
     (case request_page xml api pre None token (Some [47]) c of
        (Inl e, c) \<Rightarrow> Some (c, es, Err e)
      | (Inr page, c) \<Rightarrow>
          if \<not> lp_is_truncated page
          then Some (c, es @ page_events pre page, Ok (folders @ page_folders pre page))
          else folder_pages xml api pre (lp_next_token page) (folders @ page_folders pre page)
                 (es @ page_events pre page) c)"

definition list_volume_folders ::
  "xml_reader \<Rightarrow> 'c s3_api \<Rightarrow> bytes \<Rightarrow> ('c poller, nat list) polling" where
  "list_volume_folders xml api pre p =
     (case folder_pages xml api pre None [] [] (sp_client p) of
        None \<Rightarrow> None
      | Some (c, es, r) \<Rightarrow> Some (p\<lparr>sp_client := c\<rparr>, es, r))"

partial_function (option) key_pages ::
  "xml_reader \<Rightarrow> 'c s3_api \<Rightarrow> bytes \<Rightarrow> bytes option \<Rightarrow> bool \<Rightarrow> bytes option \<Rightarrow> bytes list \<Rightarrow> nat \<Rightarrow> 'c \<Rightarrow>
   ('c \<times> (poll_fail + bytes list \<times> nat)) option" where
  "key_pages xml api pre start_after first_page token all_keys pages c =
     (case request_page xml api pre (if first_page then start_after else None) token None c of
        (Inl e, c) \<Rightarrow> Some (c, Err e)
      | (Inr page, c) \<Rightarrow>
          if \<not> lp_is_truncated page then Some (c, Ok (all_keys @ lp_keys page, pages + 1))
          else key_pages xml api pre start_after False (lp_next_token page)
                 (all_keys @ lp_keys page) (pages + 1) c)"

definition list_all_keys_after ::
  "xml_reader \<Rightarrow> 'c s3_api \<Rightarrow> bytes \<Rightarrow> bytes option \<Rightarrow> ('c poller, bytes list \<times> nat) polling" where
  "list_all_keys_after xml api pre start_after p =
     (case key_pages xml api pre start_after True None [] 0 (sp_client p) of
        None \<Rightarrow> None
      | Some (c, r) \<Rightarrow> Some (p\<lparr>sp_client := c\<rparr>, [], r))"

section \<open>Decisions\<close>

definition newest :: "nat list \<Rightarrow> nat \<Rightarrow> nat" where
  "newest folders d = (if folders = [] then d else Max (set folders))"

definition cold_start_baseline :: "nat list \<Rightarrow> nat" where
  "cold_start_baseline folders = newest folders 0 - 1"

record poll_state =
  ps_current_target :: nat
  ps_empty_polls :: nat
  ps_seen_any :: bool

datatype poll_action = Continue | ReAnchor nat | AdvancePastStuckVolume nat | Target_Overflow

definition next_target :: "poll_state \<Rightarrow> nat list option \<Rightarrow> poll_action" where
  "next_target s listing =
     (if \<not> ps_seen_any s \<and> REANCHOR_EMPTY_POLLS \<le> ps_empty_polls s
      then (case listing of
              Some folders \<Rightarrow>
                let candidate = max (newest folders (ps_current_target s) - 1) (ps_current_target s)
                in if ps_current_target s < candidate then ReAnchor candidate else Continue
            | None \<Rightarrow> Continue)
      else if ps_seen_any s \<and> STUCK_MID_VOLUME_EMPTY_POLLS \<le> ps_empty_polls s
      then (if ps_current_target s + 1 < 2 ^ 64 then AdvancePastStuckVolume (ps_current_target s + 1)
            else Target_Overflow)
      else Continue)"

definition chunk_kind_from_key :: "bytes \<Rightarrow> chunk_kind option" where
  "chunk_kind_from_key key =
     (if key = [] then None
      else if List.last key = 83 then Some Start
      else if List.last key = 73 then Some Intermediate_Chunk
      else if List.last key = 69 then Some End
      else None)"

section \<open>Recovery\<close>

text \<open>The move to another volume, shared by the two ways out of a stalled one.\<close>

definition move_to :: "nat \<Rightarrow> 'c poller \<Rightarrow> 'c poller" where
  "move_to new_target p =
     p\<lparr>sp_status := (sp_status p)\<lparr>is_state := ReAnchoring, is_current_volume := Some (new_target - 1)\<rparr>,
       sp_last_completed := Some (new_target - 1), sp_last_seen := None, sp_empty_polls := 0,
       sp_seen_any := False\<rparr>"

definition should_relist :: "poll_state \<Rightarrow> bool" where
  "should_relist s = (\<not> ps_seen_any s \<and> REANCHOR_EMPTY_POLLS \<le> ps_empty_polls s)"

definition act_on :: "poll_state \<Rightarrow> poll_action \<Rightarrow> ('c poller, unit) polling" where
  "act_on poll_state action =
     (case action of
        Continue \<Rightarrow>
          if should_relist poll_state then pmodify (\<lambda>p. p\<lparr>sp_empty_polls := 0\<rparr>) else preturn ()
      | ReAnchor new_target \<Rightarrow>
          pbind (preport [ReAnchored (ps_current_target poll_state) new_target
                            (ps_empty_polls poll_state)]) (\<lambda>_.
          pmodify (move_to new_target))
      | AdvancePastStuckVolume new_target \<Rightarrow>
          pbind (preport [AdvancedPastStalledVolume (ps_current_target poll_state) new_target
                            (ps_empty_polls poll_state)]) (\<lambda>_.
          pmodify (move_to new_target))
      | Target_Overflow \<Rightarrow> pfail Poll_Panic)"

definition apply_recovery ::
  "xml_reader \<Rightarrow> 'c s3_api \<Rightarrow> bytes \<Rightarrow> nat \<Rightarrow> ('c poller, unit) polling" where
  "apply_recovery xml api pre target_volume =
     pbind (pget (\<lambda>p. \<lparr>ps_current_target = target_volume, ps_empty_polls = sp_empty_polls p,
                        ps_seen_any = sp_seen_any p\<rparr>)) (\<lambda>poll_state.
     pbind (if should_relist poll_state
            then pbind (list_volume_folders xml api pre) (\<lambda>folders. preturn (Some folders))
            else preturn None) (\<lambda>listing.
     act_on poll_state (next_target poll_state listing)))"

section \<open>One poll\<close>

definition add_checked :: "nat \<Rightarrow> nat \<Rightarrow> ('s, nat) polling" where
  "add_checked w n = (if n + 1 < 2 ^ w then preturn (n + 1) else pfail Poll_Panic)"

definition recognised :: "bytes list \<Rightarrow> (bytes \<times> chunk_kind) list" where
  "recognised keys =
     List.map_filter (\<lambda>key. map_option (Pair key) (chunk_kind_from_key key)) keys"

definition unrecognised :: "bytes list \<Rightarrow> event list" where
  "unrecognised keys =
     map UnrecognizedKeySuffix (filter (\<lambda>key. chunk_kind_from_key key = None) keys)"

definition call_get :: "'c s3_api \<Rightarrow> bytes \<Rightarrow> ('c poller, bytes) polling" where
  "call_get api key p =
     (let (answer, c) = api_get api key (sp_client p)
      in Some (p\<lparr>sp_client := c\<rparr>, [], http_result answer))"

fun fetch_all ::
  "'c s3_api \<Rightarrow> (bytes \<times> chunk_kind) list \<Rightarrow> ('c poller, chunk_envelope list \<times> bool) polling" where
  "fetch_all api [] = preturn ([], False)"
| "fetch_all api ((key, kind) # to_fetch) =
     pbind (call_get api key) (\<lambda>raw_bytes.
     pbind (fetch_all api to_fetch) (\<lambda>(envelopes, saw_end).
     preturn (\<lparr>ce_raw_bytes = raw_bytes, ce_kind = kind\<rparr> # envelopes, kind = End \<or> saw_end)))"

definition site_prefix :: "bytes \<Rightarrow> bytes" where
  "site_prefix site = site @ [47]"

definition volume_prefix :: "bytes \<Rightarrow> nat \<Rightarrow> bytes" where
  "volume_prefix site volume = site_prefix site @ dec_bytes volume @ [47]"

definition poll_baseline :: "xml_reader \<Rightarrow> 'c s3_api \<Rightarrow> ('c poller, nat) polling" where
  "poll_baseline xml api =
     pbind (pget sp_last_completed) (\<lambda>last_completed.
     case last_completed of
       Some v \<Rightarrow> preturn v
     | None \<Rightarrow>
         pbind (pget (\<lambda>p. site_prefix (sp_site_id p))) (\<lambda>pre.
         pbind (list_volume_folders xml api pre) (\<lambda>folders.
         preturn (cold_start_baseline folders))))"

definition poll_empty ::
  "xml_reader \<Rightarrow> 'c s3_api \<Rightarrow> nat \<Rightarrow> nat \<Rightarrow> ('c poller, chunk_envelope list) polling" where
  "poll_empty xml api baseline volume =
     pbind (pmodify (\<lambda>p. p\<lparr>sp_last_completed := Some baseline\<rparr>)) (\<lambda>_.
     pbind (pget sp_empty_polls) (\<lambda>n.
     pbind (add_checked 32 n) (\<lambda>n.
     pbind (pmodify (\<lambda>p. p\<lparr>sp_empty_polls := n\<rparr>)) (\<lambda>_.
     pbind (pget (\<lambda>p. site_prefix (sp_site_id p))) (\<lambda>pre.
     pbind (apply_recovery xml api pre volume) (\<lambda>_.
     preturn []))))))"

definition poll_keys ::
  "'c s3_api \<Rightarrow> nat \<Rightarrow> nat \<Rightarrow> bytes list \<Rightarrow> ('c poller, chunk_envelope list) polling" where
  "poll_keys api baseline volume keys =
     pbind (pmodify (\<lambda>p. p\<lparr>sp_empty_polls := 0, sp_seen_any := True\<rparr>)) (\<lambda>_.
     pbind (preport (unrecognised keys)) (\<lambda>_.
     pbind (fetch_all api (recognised keys)) (\<lambda>(envelopes, saw_end).
     pbind (pmodify (\<lambda>p. p\<lparr>sp_last_seen := Some (List.last keys)\<rparr>)) (\<lambda>_.
     pbind (pmodify (\<lambda>p.
       if saw_end
       then p\<lparr>sp_last_completed := Some volume, sp_last_seen := None, sp_seen_any := False\<rparr>
       else p\<lparr>sp_last_completed := Some baseline\<rparr>)) (\<lambda>_.
     preturn envelopes)))))"

definition poll_once :: "xml_reader \<Rightarrow> 'c s3_api \<Rightarrow> ('c poller, chunk_envelope list) polling" where
  "poll_once xml api =
     pbind (poll_baseline xml api) (\<lambda>baseline.
     pbind (add_checked 64 baseline) (\<lambda>volume.
     pbind (pget (\<lambda>p. volume_prefix (sp_site_id p) volume)) (\<lambda>pre.
     pbind (pget sp_last_seen) (\<lambda>start_after.
     pbind (list_all_keys_after xml api pre start_after) (\<lambda>(keys, _).
     if keys = [] then poll_empty xml api baseline volume
     else poll_keys api baseline volume keys)))))"

section \<open>The loop\<close>

datatype run_output = Reported event | Sent chunk_envelope

datatype 'c run_state = Running "'c poller" | Returned "'c poller" | Run_Panicked ingest_status | Hung

text \<open>
  A tick of the interval, with its time and how many more chunks the receiver takes
  before it is dropped, or the shutdown signal.
\<close>

datatype run_input = Tick nat "nat option" | Shutdown

definition publish_success :: "nat \<Rightarrow> 'c poller \<Rightarrow> 'c poller" where
  "publish_success now p =
     p\<lparr>sp_errors := 0,
       sp_status := (sp_status p)\<lparr>is_state := Polling, is_last_success := Some now,
         is_current_volume := sp_last_completed p\<rparr>\<rparr>"

definition publish_failure :: "poll_error \<Rightarrow> 'c poller \<Rightarrow> 'c poller" where
  "publish_failure e p =
     (let n = sp_errors p + 1 in
      p\<lparr>sp_errors := n,
        sp_status := (sp_status p)
          \<lparr>is_state := (if STALLED_AFTER_CONSECUTIVE_ERRORS \<le> n then Stalled else Retrying n),
           is_last_error := Some (error_kind_of e)\<rparr>\<rparr>)"

definition run_step ::
  "xml_reader \<Rightarrow> (nat \<Rightarrow> 'c s3_api) \<Rightarrow> 'c run_state \<Rightarrow> run_input \<Rightarrow> 'c run_state \<times> run_output list" where
  "run_step xml api s i =
     (case s of
        Running p \<Rightarrow>
          (case i of
             Shutdown \<Rightarrow> (Returned p, [])
           | Tick now room \<Rightarrow>
               (case poll_once xml (api now) p of
                  None \<Rightarrow> (Hung, [])
                | Some (p, es, Inr envelopes) \<Rightarrow>
                    let p = publish_success now p in
                    (case room of
                       Some k \<Rightarrow>
                         if k < length envelopes
                         then (Returned p, map Reported es @ map Sent (take k envelopes))
                         else (Running p, map Reported es @ map Sent envelopes)
                     | None \<Rightarrow> (Running p, map Reported es @ map Sent envelopes))
                | Some (p, es, Inl (Poll_Error e)) \<Rightarrow>
                    if sp_errors p + 1 < 2 ^ 32
                    then (Running (publish_failure e p), map Reported es @ [Reported (PollFailed e)])
                    else (Run_Panicked (sp_status p), map Reported es)
                | Some (p, es, Inl Poll_Panic) \<Rightarrow> (Run_Panicked (sp_status p), map Reported es)))
      | _ \<Rightarrow> (s, []))"

definition poller_run ::
  "xml_reader \<Rightarrow> (nat \<Rightarrow> 'c s3_api) \<Rightarrow> 'c run_state \<Rightarrow> run_input list \<Rightarrow> 'c run_state \<times> run_output list" where
  "poller_run xml api = run_io (run_step xml api)"

section \<open>What an operation may leave\<close>

text \<open>Every way the operation returns satisfies \<open>Q\<close>.\<close>

definition pwp :: "('s, 'a) polling \<Rightarrow> 's \<Rightarrow> ('s \<Rightarrow> event list \<Rightarrow> poll_fail + 'a \<Rightarrow> bool) \<Rightarrow> bool" where
  "pwp m s Q = (case m s of None \<Rightarrow> True | Some (s', es, r) \<Rightarrow> Q s' es r)"

lemma pwp_pbind [simp]:
  "pwp (pbind m f) s Q =
     pwp m s (\<lambda>s1 es1 r. case r of Inl e \<Rightarrow> Q s1 es1 (Inl e)
                                 | Inr a \<Rightarrow> pwp (f a) s1 (\<lambda>s2 es2. Q s2 (es1 @ es2)))"
  by (auto simp: pwp_def pbind_def split: option.split sum.split)

lemma pwp_simps [simp]:
  "pwp (preturn a) s Q = Q s [] (Inr a)"
  "pwp (pfail e) s Q = Q s [] (Inl e)"
  "pwp (preport es) s R = R s es (Inr ())"
  "pwp (pget h) s Q = Q s [] (Inr (h s))"
  "pwp (pmodify g) s R = R (g s) [] (Inr ())"
  "pwp (if b then m else m') s Q = (if b then pwp m s Q else pwp m' s Q)"
  by (auto simp: pwp_def preturn_def pfail_def preport_def pget_def pmodify_def)

lemma pwp_case_prod [simp]: "pwp (case x of (a, b) \<Rightarrow> f a b) s Q = (case x of (a, b) \<Rightarrow> pwp (f a b) s Q)"
  by (cases x) simp

lemma pwp_add_checked [simp]:
  "pwp (add_checked w n) s Q = (if n + 1 < 2 ^ w then Q s [] (Inr (n + 1)) else Q s [] (Inl Poll_Panic))"
  by (cases "n + 1 < 2 ^ w") (simp_all only: add_checked_def if_True if_False pwp_simps)

lemma pwp_SomeD: "pwp m s Q \<Longrightarrow> m s = Some (s', es, r) \<Longrightarrow> Q s' es r"
  by (simp add: pwp_def)

lemma pwp_mono: "pwp m s Q \<Longrightarrow> (\<And>s' es r. Q s' es r \<Longrightarrow> Q' s' es r) \<Longrightarrow> pwp m s Q'"
  by (auto simp: pwp_def split: option.splits)

text \<open>The events of recovery, as they may be reported.\<close>

fun poll_event_ok :: "event \<Rightarrow> bool" where
  "poll_event_ok (ReAnchored f t n) = (f < t \<and> REANCHOR_EMPTY_POLLS \<le> n)"
| "poll_event_ok (AdvancedPastStalledVolume f t n) = (t = f + 1 \<and> STUCK_MID_VOLUME_EMPTY_POLLS \<le> n)"
| "poll_event_ok (PollFailed _) = True"
| "poll_event_ok (UnrecognizedVolumeFolder _) = True"
| "poll_event_ok (UnrecognizedKeySuffix _) = True"
| "poll_event_ok _ = False"

lemma parse_volume_folder_bound: "parse_volume_folder pre s = Some v \<Longrightarrow> v < 2 ^ 64"
  by (auto simp: parse_volume_folder_def parse_u64_def Let_def bind_eq_Some_conv split: if_splits)

lemma page_folders_bound: "v \<in> set (page_folders pre page) \<Longrightarrow> v < 2 ^ 64"
  using parse_volume_folder_bound by (auto simp: page_folders_def List.map_filter_def)

lemma page_events_ok: "list_all poll_event_ok (page_events pre page)"
  by (auto simp: page_events_def list_all_iff)

lemma folder_pages_spec:
  assumes ret: "folder_pages xml api pre token folders es c = Some res"
    and "list_all poll_event_ok es \<and> (\<forall>v\<in>set folders. v < 2 ^ 64)"
  shows "list_all poll_event_ok (fst (snd res)) \<and>
    (\<forall>fs. snd (snd res) = Inr fs \<longrightarrow> (\<forall>v\<in>set fs. v < 2 ^ 64))"
proof -
  let ?good = "\<lambda>folders es. list_all poll_event_ok es \<and> (\<forall>v\<in>set folders. v < 2 ^ 64)"
  let ?post = "\<lambda>res. list_all poll_event_ok (fst (snd res)) \<and>
    (\<forall>fs. snd (snd res) = Inr fs \<longrightarrow> (\<forall>v\<in>set fs. v < 2 ^ 64))"
  have "?good folders es \<longrightarrow> ?post res"
  proof (rule folder_pages.raw_induct
      [where P = "\<lambda>xml api pre token folders es c res. ?good folders es \<longrightarrow> ?post res", OF _ ret])
    fix f xml api pre token folders es c res
    assume IH: "\<And>xml api pre token folders es c res.
        f xml api pre token folders es c = Some res \<Longrightarrow> ?good folders es \<longrightarrow> ?post res"
      and eq: "(case request_page xml api pre None token (Some [47]) c of
           (Inl e, c) \<Rightarrow> Some (c, es, Err e)
         | (Inr page, c) \<Rightarrow>
             if \<not> lp_is_truncated page
             then Some (c, es @ page_events pre page, Ok (folders @ page_folders pre page))
             else f xml api pre (lp_next_token page) (folders @ page_folders pre page)
                    (es @ page_events pre page) c) = Some res"
    show "?good folders es \<longrightarrow> ?post res"
    proof
      assume good: "?good folders es"
      obtain r c' where rp: "request_page xml api pre None token (Some [47]) c = (r, c')"
        by (cases "request_page xml api pre None token (Some [47]) c")
      show "?post res"
      proof (cases r)
        case (Inl e)
        then show ?thesis using eq rp good by auto
      next
        case (Inr page)
        have good': "?good (folders @ page_folders pre page) (es @ page_events pre page)"
          using good page_folders_bound page_events_ok by auto
        show ?thesis
        proof (cases "lp_is_truncated page")
          case True
          then show ?thesis using eq rp Inr IH good' by (simp del: list_all_append set_append)
        next
          case False
          then show ?thesis using eq rp Inr good' by auto
        qed
      qed
    qed
  qed
  then show ?thesis using assms(2) by blast
qed

lemma pwp_list_volume_folders:
  assumes "\<And>c es r. list_all poll_event_ok es \<Longrightarrow>
      (\<And>fs. r = Inr fs \<Longrightarrow> \<forall>v\<in>set fs. v < 2 ^ 64) \<Longrightarrow> Q (p\<lparr>sp_client := c\<rparr>) es r"
  shows "pwp (list_volume_folders xml api pre) p Q"
  using assms folder_pages_spec [of xml api pre None "[]" "[]" "sp_client p"]
  by (auto simp: pwp_def list_volume_folders_def split: option.split)

lemma pwp_list_all_keys_after:
  assumes "\<And>c r. Q (p\<lparr>sp_client := c\<rparr>) [] r"
  shows "pwp (list_all_keys_after xml api pre start_after) p Q"
  using assms by (auto simp: pwp_def list_all_keys_after_def split: option.split)

lemma pwp_call_get:
  assumes "\<And>c r. Q (p\<lparr>sp_client := c\<rparr>) [] r"
  shows "pwp (call_get api key) p Q"
  using assms by (auto simp: pwp_def call_get_def split: prod.split)

lemma fetch_all_spec:
  "\<exists>c r. fetch_all api to_fetch p = Some (p\<lparr>sp_client := c\<rparr>, [], r) \<and>
     (\<forall>es b. r = Inr (es, b) \<longrightarrow> map ce_kind es = map snd to_fetch \<and> b = (End \<in> snd ` set to_fetch))"
proof (induction to_fetch arbitrary: p)
  case Nil
  show ?case
    by (intro exI [of _ "sp_client p"] exI [of _ "Inr ([], False)"]) (simp add: preturn_def)
next
  case (Cons f to_fetch)
  obtain key kind where f: "f = (key, kind)" by (cases f)
  obtain answer c where get: "api_get api key (sp_client p) = (answer, c)"
    by (cases "api_get api key (sp_client p)")
  obtain c' r where rest: "fetch_all api to_fetch (p\<lparr>sp_client := c\<rparr>) = Some (p\<lparr>sp_client := c'\<rparr>, [], r)"
    "\<forall>es b. r = Inr (es, b) \<longrightarrow> map ce_kind es = map snd to_fetch \<and> b = (End \<in> snd ` set to_fetch)"
    using Cons.IH [of "p\<lparr>sp_client := c\<rparr>"] by auto
  show ?case
  proof (cases "http_result answer")
    case (Inl e)
    then show ?thesis by (auto simp: f pbind_def call_get_def get)
  next
    case (Inr raw)
    show ?thesis
    proof (cases r)
      case e: (Inl e)
      then show ?thesis using rest by (auto simp: f pbind_def call_get_def get Inr)
    next
      case res: (Inr res)
      then show ?thesis
        using rest by (cases res) (auto simp: f pbind_def call_get_def get Inr preturn_def)
    qed
  qed
qed

lemma pwp_fetch_all:
  assumes "\<And>c r. (\<And>es b. r = Inr (es, b) \<Longrightarrow>
      map ce_kind es = map snd to_fetch \<and> b = (End \<in> snd ` set to_fetch)) \<Longrightarrow> Q (p\<lparr>sp_client := c\<rparr>) [] r"
  shows "pwp (fetch_all api to_fetch) p Q"
  using assms fetch_all_spec [of api to_fetch p] by (auto simp: pwp_def)

section \<open>One poll keeps its position safe\<close>

text \<open>
  The state between two polls: a position inside a volume only once a key of it was seen,
  no count of empty polls before the first volume is known, and no number beyond its width.
\<close>

definition poller_inv :: "'c poller \<Rightarrow> bool" where
  "poller_inv p =
     ((\<not> sp_seen_any p \<longrightarrow> sp_last_seen p = None) \<and>
      (sp_last_completed p = None \<longrightarrow> sp_last_seen p = None \<and> sp_empty_polls p = 0) \<and>
      (case sp_last_completed p of None \<Rightarrow> True | Some v \<Rightarrow> v < 2 ^ 64) \<and>
      sp_empty_polls p < 2 ^ 32 \<and> sp_errors p < 2 ^ 32)"

text \<open>The last completed volume never goes back.\<close>

definition advances :: "nat option \<Rightarrow> nat option \<Rightarrow> bool" where
  "advances v v' = (case v of None \<Rightarrow> True | Some n \<Rightarrow> (\<exists>n'\<ge>n. v' = Some n'))"

definition poll_post ::
  "'c poller \<Rightarrow> 'c poller \<Rightarrow> event list \<Rightarrow> poll_fail + chunk_envelope list \<Rightarrow> bool" where
  "poll_post p p' es r =
     (list_all poll_event_ok es \<and>
      (case r of
         Inl Poll_Panic \<Rightarrow> True
       | Inl (Poll_Error _) \<Rightarrow>
           poller_inv p' \<and> sp_site_id p' = sp_site_id p \<and>
           sp_last_completed p' = sp_last_completed p \<and> sp_last_seen p' = sp_last_seen p \<and>
           sp_errors p' = sp_errors p \<and> sp_status p' = sp_status p
       | Inr _ \<Rightarrow>
           poller_inv p' \<and> sp_last_completed p' \<noteq> None \<and>
           advances (sp_last_completed p) (sp_last_completed p')))"

lemma newest_bound: "\<forall>v\<in>set fs. v < N \<Longrightarrow> d < N \<Longrightarrow> newest fs d < N"
  using Max_in [of "set fs"] by (auto simp: newest_def)

lemma next_target_forward:
  "next_target s listing = ReAnchor t \<Longrightarrow>
     ps_current_target s < t \<and> REANCHOR_EMPTY_POLLS \<le> ps_empty_polls s \<and>
     (\<exists>fs. listing = Some fs \<and> t = newest fs (ps_current_target s) - 1)"
  "next_target s listing = AdvancePastStuckVolume t \<Longrightarrow>
     t = ps_current_target s + 1 \<and> t < 2 ^ 64 \<and> STUCK_MID_VOLUME_EMPTY_POLLS \<le> ps_empty_polls s"
  by (auto simp: next_target_def Let_def max_def split: option.splits if_splits)

definition recovery_post ::
  "'c poller \<Rightarrow> nat \<Rightarrow> 'c poller \<Rightarrow> event list \<Rightarrow> poll_fail + unit \<Rightarrow> bool" where
  "recovery_post p v p' es r =
     (list_all poll_event_ok es \<and>
      (case r of
         Inl Poll_Panic \<Rightarrow> True
       | Inl (Poll_Error _) \<Rightarrow>
           REANCHOR_EMPTY_POLLS \<le> sp_empty_polls p \<and> (\<exists>c. p' = p\<lparr>sp_client := c\<rparr>)
       | Inr _ \<Rightarrow> poller_inv p' \<and> (\<exists>v'\<ge>v. sp_last_completed p' = Some v')))"

lemma recovery_post_append:
  "list_all poll_event_ok es \<Longrightarrow> recovery_post p v p' es' r \<Longrightarrow> recovery_post p v p' (es @ es') r"
  by (simp add: recovery_post_def)

lemma act_on_post:
  assumes "poller_inv p" and "sp_last_completed p = Some v"
    and ps: "ps = \<lparr>ps_current_target = v + 1, ps_empty_polls = sp_empty_polls p, ps_seen_any = sp_seen_any p\<rparr>"
    and bound: "\<And>fs. listing = Some fs \<Longrightarrow> \<forall>v\<in>set fs. v < 2 ^ 64"
  shows "pwp (act_on ps (next_target ps listing)) (p\<lparr>sp_client := c\<rparr>) (recovery_post p v)"
proof (cases "next_target ps listing")
  case Continue
  then show ?thesis using assms(1,2) by (auto simp: act_on_def recovery_post_def poller_inv_def)
next
  case (ReAnchor t)
  from next_target_forward(1) [OF this] obtain fs where
    t: "v + 1 < t" "REANCHOR_EMPTY_POLLS \<le> sp_empty_polls p" "listing = Some fs" "t = newest fs (v + 1) - 1"
    by (auto simp: ps)
  have "t - 1 < 2 ^ 64"
  proof (cases "fs = []")
    case True
    then show ?thesis using t by (simp add: newest_def)
  next
    case False
    then have "newest fs (v + 1) < 2 ^ 64"
      using bound [OF t(3)] Max_in [of "set fs"] by (auto simp: newest_def)
    then show ?thesis using t(4) by simp
  qed
  then show ?thesis
    using ReAnchor t(1,2) assms(1) by (auto simp: act_on_def recovery_post_def poller_inv_def move_to_def ps)
next
  case (AdvancePastStuckVolume t)
  from next_target_forward(2) [OF this] show ?thesis
    using AdvancePastStuckVolume assms(1)
    by (auto simp: act_on_def recovery_post_def poller_inv_def move_to_def ps)
next
  case Target_Overflow
  then show ?thesis by (simp add: act_on_def recovery_post_def)
qed

lemma apply_recovery_post:
  assumes "poller_inv p" and "sp_last_completed p = Some v"
  shows "pwp (apply_recovery xml api pre (v + 1)) p (recovery_post p v)"
proof -
  define ps where
    ps: "ps = \<lparr>ps_current_target = v + 1, ps_empty_polls = sp_empty_polls p, ps_seen_any = sp_seen_any p\<rparr>"
  note act = act_on_post [OF assms ps]
  show ?thesis
  proof (cases "should_relist ps")
    case True
    have "pwp (list_volume_folders xml api pre) p (\<lambda>s1 es1 r.
        case r of Inl e \<Rightarrow> recovery_post p v s1 es1 (Inl e)
        | Inr fs \<Rightarrow> pwp (act_on ps (next_target ps (Some fs))) s1 (\<lambda>s2 es2. recovery_post p v s2 (es1 @ es2)))"
    proof (rule pwp_list_volume_folders)
      fix c es and r :: "poll_fail + nat list"
      assume es: "list_all poll_event_ok es" and fs: "\<And>fs. r = Inr fs \<Longrightarrow> \<forall>v\<in>set fs. v < 2 ^ 64"
      show "case r of Inl e \<Rightarrow> recovery_post p v (p\<lparr>sp_client := c\<rparr>) es (Inl e)
        | Inr fs \<Rightarrow> pwp (act_on ps (next_target ps (Some fs))) (p\<lparr>sp_client := c\<rparr>)
            (\<lambda>s2 es2. recovery_post p v s2 (es @ es2))"
      proof (cases r)
        case (Inl e)
        then show ?thesis using es True by (cases e) (auto simp: recovery_post_def should_relist_def ps)
      next
        case (Inr fs')
        have "pwp (act_on ps (next_target ps (Some fs'))) (p\<lparr>sp_client := c\<rparr>) (recovery_post p v)"
          using fs [OF Inr] by (intro act) auto
        then show ?thesis
          unfolding Inr sum.case by (rule pwp_mono) (rule recovery_post_append [OF es])
      qed
    qed
    then show ?thesis
      using True unfolding apply_recovery_def pwp_pbind pwp_simps sum.case append_Nil ps [symmetric]
      by (auto elim!: pwp_mono split: sum.splits)
  next
    case False
    have "pwp (act_on ps (next_target ps None)) p (recovery_post p v)"
      using act [of None "sp_client p"] by simp
    then show ?thesis
      using False unfolding apply_recovery_def pwp_pbind pwp_simps sum.case append_Nil ps [symmetric] by simp
  qed
qed

lemma poll_empty_post:
  assumes "poller_inv p" and "sp_last_completed p = None \<or> sp_last_completed p = Some v" and "v < 2 ^ 64"
  shows "pwp (poll_empty xml api v (v + 1)) p (poll_post p)"
proof (cases "sp_empty_polls p + 1 < 2 ^ 32")
  case True
  let ?p = "p\<lparr>sp_last_completed := Some v, sp_empty_polls := sp_empty_polls p + 1\<rparr>"
  have inv: "poller_inv ?p" using assms True by (auto simp: poller_inv_def)
  have "pwp (apply_recovery xml api (site_prefix (sp_site_id p)) (v + 1)) ?p (recovery_post ?p v)"
    using inv by (rule apply_recovery_post) simp
  then have "pwp (apply_recovery xml api (site_prefix (sp_site_id p)) (v + 1)) ?p
      (\<lambda>p' es r. case r of Inl e \<Rightarrow> poll_post p p' es (Inl e) | Inr _ \<Rightarrow> poll_post p p' es (Inr []))"
  proof (rule pwp_mono)
    fix p' es and r :: "poll_fail + unit"
    assume post: "recovery_post ?p v p' es r"
    show "case r of Inl e \<Rightarrow> poll_post p p' es (Inl e) | Inr _ \<Rightarrow> poll_post p p' es (Inr [])"
    proof (cases r)
      case (Inl e)
      then show ?thesis
      proof (cases e)
        case (Poll_Error pe)
        from post Inl Poll_Error obtain c where
          c: "REANCHOR_EMPTY_POLLS \<le> sp_empty_polls p + 1" "p' = ?p\<lparr>sp_client := c\<rparr>"
          by (auto simp: recovery_post_def)
        then have "sp_last_completed p = Some v"
          using assms(1,2) by (auto simp: poller_inv_def REANCHOR_EMPTY_POLLS_def)
        then show ?thesis
          using post inv c Inl Poll_Error
          by (auto simp: recovery_post_def poll_post_def poller_inv_def)
      qed (use post in \<open>simp add: recovery_post_def poll_post_def\<close>)
    next
      case (Inr u)
      then show ?thesis
        using post assms(2) by (auto simp: recovery_post_def poll_post_def advances_def split: option.split)
    qed
  qed
  then show ?thesis
    using True unfolding poll_empty_def
    by simp
next
  case False
  then show ?thesis by (simp add: poll_empty_def poll_post_def)
qed

definition after_keys :: "'c poller \<Rightarrow> nat \<Rightarrow> nat \<Rightarrow> bytes list \<Rightarrow> bool \<Rightarrow> 'c poller" where
  "after_keys p v volume keys saw_end =
     (let p = p\<lparr>sp_last_seen := Some (List.last keys)\<rparr> in
      if saw_end then p\<lparr>sp_last_completed := Some volume, sp_last_seen := None, sp_seen_any := False\<rparr>
      else p\<lparr>sp_last_completed := Some v\<rparr>)"

lemma after_keys_post:
  assumes "poller_inv p" and "sp_last_completed p = None \<or> sp_last_completed p = Some v" and "v + 1 < 2 ^ 64"
    and "list_all poll_event_ok es"
  shows "poll_post p (after_keys (p\<lparr>sp_empty_polls := 0, sp_seen_any := True, sp_client := c\<rparr>) v (Suc v) keys b) es (Inr envs)"
  using assms by (auto simp: after_keys_def Let_def poll_post_def poller_inv_def advances_def)

lemma poll_keys_run:
  "poll_keys api v volume keys p =
     (case fetch_all api (recognised keys) (p\<lparr>sp_empty_polls := 0, sp_seen_any := True\<rparr>) of
        None \<Rightarrow> None
      | Some (p, es, Inl e) \<Rightarrow> Some (p, unrecognised keys @ es, Inl e)
      | Some (p, es, Inr (envelopes, saw_end)) \<Rightarrow>
          Some (after_keys p v volume keys saw_end, unrecognised keys @ es, Inr envelopes))"
  by (auto simp: poll_keys_def pbind_def pmodify_def preport_def preturn_def after_keys_def Let_def
      split: option.splits sum.splits)

lemma poll_keys_post:
  assumes "poller_inv p" and "sp_last_completed p = None \<or> sp_last_completed p = Some v" and "v + 1 < 2 ^ 64"
  shows "pwp (poll_keys api v (v + 1) keys) p (poll_post p)"
proof -
  have ok: "list_all poll_event_ok (unrecognised keys)"
    by (auto simp: unrecognised_def list_all_iff)
  obtain c r where fa: "fetch_all api (recognised keys) (p\<lparr>sp_empty_polls := 0, sp_seen_any := True\<rparr>) =
      Some (p\<lparr>sp_empty_polls := 0, sp_seen_any := True, sp_client := c\<rparr>, [], r)"
    using fetch_all_spec [of api "recognised keys" "p\<lparr>sp_empty_polls := 0, sp_seen_any := True\<rparr>"] by blast
  show ?thesis
  proof (cases r)
    case (Inl e)
    have "poll_post p (p\<lparr>sp_empty_polls := 0, sp_seen_any := True, sp_client := c\<rparr>) (unrecognised keys) (Inl e)"
      using assms(1) ok by (cases e) (auto simp: poll_post_def poller_inv_def)
    then show ?thesis using fa Inl by (simp add: pwp_def poll_keys_run)
  next
    case (Inr res)
    then show ?thesis
      using fa after_keys_post [OF assms ok] by (cases res) (simp add: pwp_def poll_keys_run)
  qed
qed

lemma poll_post_client [simp]:
  "poller_inv (p\<lparr>sp_client := c\<rparr>) = poller_inv p"
  "poll_post (p\<lparr>sp_client := c\<rparr>) = poll_post p"
  by (simp add: poller_inv_def)
    (intro ext, simp add: poll_post_def cong: sum.case_cong poll_fail.case_cong)

lemma poll_post_append:
  "list_all poll_event_ok es \<Longrightarrow> poll_post p p' es' r \<Longrightarrow> poll_post p p' (es @ es') r"
  by (simp add: poll_post_def)

definition poll_from :: "xml_reader \<Rightarrow> 'c s3_api \<Rightarrow> nat \<Rightarrow> ('c poller, chunk_envelope list) polling" where
  "poll_from xml api baseline =
     pbind (add_checked 64 baseline) (\<lambda>volume.
     pbind (pget (\<lambda>p. volume_prefix (sp_site_id p) volume)) (\<lambda>pre.
     pbind (pget sp_last_seen) (\<lambda>start_after.
     pbind (list_all_keys_after xml api pre start_after) (\<lambda>(keys, _).
     if keys = [] then poll_empty xml api baseline volume
     else poll_keys api baseline volume keys))))"

lemma poll_once_eq: "poll_once xml api = pbind (poll_baseline xml api) (poll_from xml api)"
  by (simp add: poll_once_def poll_from_def [abs_def])

lemma poll_from_post:
  assumes "poller_inv p" and "sp_last_completed p = None \<or> sp_last_completed p = Some v" and "v < 2 ^ 64"
  shows "pwp (poll_from xml api v) p (poll_post p)"
proof (cases "v + 1 < 2 ^ 64")
  case True
  have empty: "pwp (poll_empty xml api v (Suc v)) (p\<lparr>sp_client := c\<rparr>) (poll_post p)" for c
    using poll_empty_post [of "p\<lparr>sp_client := c\<rparr>" v xml api] assms True by simp
  have keys: "pwp (poll_keys api v (Suc v) keys) (p\<lparr>sp_client := c\<rparr>) (poll_post p)" for keys c
    using poll_keys_post [of "p\<lparr>sp_client := c\<rparr>" v api keys] assms True by simp
  have "pwp (list_all_keys_after xml api (volume_prefix (sp_site_id p) (v + 1)) (sp_last_seen p)) p (\<lambda>s1 es1 r.
      case r of
        Inl e \<Rightarrow> poll_post p s1 es1 (Inl e)
      | Inr (keys, _) \<Rightarrow>
          pwp (if keys = [] then poll_empty xml api v (v + 1) else poll_keys api v (v + 1) keys)
            s1 (\<lambda>s2 es2. poll_post p s2 (es1 @ es2)))"
    by (rule pwp_list_all_keys_after)
      (use assms(1) empty keys in \<open>auto simp: poll_post_def [of _ _ _ "Inl _"] split: sum.split poll_fail.split\<close>)
  then show ?thesis
    using True unfolding poll_from_def pwp_pbind pwp_simps pwp_add_checked sum.case append_Nil
    by simp
next
  case False
  then show ?thesis by (simp add: poll_from_def poll_post_def)
qed

lemma poll_once_post:
  assumes inv: "poller_inv p"
  shows "pwp (poll_once xml api) p (poll_post p)"
proof (cases "sp_last_completed p")
  case (Some v)
  then have "v < 2 ^ 64" using inv by (simp add: poller_inv_def)
  with poll_from_post [of p v xml api] inv Some show ?thesis
    unfolding poll_once_eq by (simp add: poll_baseline_def)
next
  case None
  have "pwp (list_volume_folders xml api (site_prefix (sp_site_id p))) p (\<lambda>s1 es1 r.
      case r of
        Inl e \<Rightarrow> poll_post p s1 es1 (Inl e)
      | Inr fs \<Rightarrow> pwp (poll_from xml api (cold_start_baseline fs)) s1 (\<lambda>s2 es2. poll_post p s2 (es1 @ es2)))"
  proof (rule pwp_list_volume_folders)
    fix c es and r :: "poll_fail + nat list"
    assume es: "list_all poll_event_ok es" and fs: "\<And>fs. r = Inr fs \<Longrightarrow> \<forall>v\<in>set fs. v < 2 ^ 64"
    show "case r of
        Inl e \<Rightarrow> poll_post p (p\<lparr>sp_client := c\<rparr>) es (Inl e)
      | Inr fs \<Rightarrow> pwp (poll_from xml api (cold_start_baseline fs)) (p\<lparr>sp_client := c\<rparr>)
          (\<lambda>s2 es2. poll_post p s2 (es @ es2))"
    proof (cases r)
      case (Inl e)
      then show ?thesis using inv es by (auto simp: poll_post_def split: poll_fail.split)
    next
      case (Inr fs')
      have "cold_start_baseline fs' < 2 ^ 64"
        using newest_bound [OF fs [OF Inr], of 0] by (simp add: cold_start_baseline_def)
      then have "pwp (poll_from xml api (cold_start_baseline fs')) (p\<lparr>sp_client := c\<rparr>) (poll_post p)"
        using poll_from_post [of "p\<lparr>sp_client := c\<rparr>"] inv None by simp
      then show ?thesis
        unfolding Inr sum.case by (rule pwp_mono) (rule poll_post_append [OF es])
    qed
  qed
  then show ?thesis
    unfolding poll_once_eq using None
    by (simp add: poll_baseline_def)
qed

section \<open>The published health\<close>

text \<open>
  Between two ticks the status says exactly how many polls in a row have failed, and the
  volume it names is the last completed one.
\<close>

definition state_of_errors :: "nat \<Rightarrow> ingest_state" where
  "state_of_errors n =
     (if n = 0 then Polling else if n < STALLED_AFTER_CONSECUTIVE_ERRORS then Retrying n else Stalled)"

definition health_ok :: "'c poller \<Rightarrow> bool" where
  "health_ok p =
     (is_state (sp_status p) = state_of_errors (sp_errors p) \<and>
      is_current_volume (sp_status p) = sp_last_completed p)"

definition live :: "('c poller \<Rightarrow> bool) \<Rightarrow> 'c run_state \<Rightarrow> bool" where
  "live P s = (case s of Running p \<Rightarrow> P p | Returned p \<Rightarrow> P p | _ \<Rightarrow> True)"

lemma live_simps [simp]:
  "live P (Running p) = P p" "live P (Returned p) = P p" "live P (Run_Panicked st)" "live P Hung"
  by (simp_all add: live_def)

fun output_ok :: "run_output \<Rightarrow> bool" where
  "output_ok (Reported e) = poll_event_ok e"
| "output_ok (Sent _) = True"

lemma output_ok_map [simp]:
  "list_all output_ok (map Reported es) = list_all poll_event_ok es"
  "list_all output_ok (map Sent envs)"
  by (simp_all add: list_all_iff)

text \<open>One tick: what a poller that was \<open>p\<close> before may be after it.\<close>

lemma run_step_post:
  assumes "poller_inv p"
  shows "live (\<lambda>p'. poller_inv p' \<and> advances (sp_last_completed p) (sp_last_completed p') \<and>
        (health_ok p \<longrightarrow> health_ok p')) (fst (run_step xml api (Running p) i)) \<and>
     list_all output_ok (snd (run_step xml api (Running p) i))"
proof (cases i)
  case Shutdown
  then show ?thesis using assms by (auto simp: run_step_def advances_def split: option.split)
next
  case (Tick now room)
  show ?thesis
  proof (cases "poll_once xml (api now) p")
    case None
    then show ?thesis by (simp add: run_step_def Tick)
  next
    case (Some res)
    obtain p' es r where res: "res = (p', es, r)" by (cases res)
    from poll_once_post [OF assms, of xml "api now"] Some res have post: "poll_post p p' es r"
      by (simp add: pwp_def)
    show ?thesis
    proof (cases r)
      case (Inr envs)
      have "poller_inv (publish_success now p')" "health_ok (publish_success now p')"
        "sp_last_completed (publish_success now p') = sp_last_completed p'"
        using post Inr
        by (auto simp: poll_post_def publish_success_def poller_inv_def health_ok_def state_of_errors_def)
      moreover have "list_all output_ok (map Sent (take k envs))" for k
        by (simp add: list_all_iff)
      ultimately show ?thesis
        using post Some res Inr Tick
        by (simp add: run_step_def poll_post_def Let_def split: option.split)
    next
      case (Inl e)
      show ?thesis
      proof (cases e)
        case Poll_Panic
        then show ?thesis using post Some res Inl Tick by (simp add: run_step_def poll_post_def)
      next
        case (Poll_Error pe)
        have p': "poller_inv p'" "sp_last_completed p' = sp_last_completed p" "sp_errors p' = sp_errors p"
          "sp_status p' = sp_status p" "list_all poll_event_ok es"
          using post Inl Poll_Error by (simp_all add: poll_post_def)
        have "poller_inv (publish_failure pe p')" if "sp_errors p' + 1 < 2 ^ 32"
          using p'(1) that by (simp add: poller_inv_def publish_failure_def Let_def)
        moreover have "health_ok (publish_failure pe p')" if "health_ok p"
          using p' that
          by (auto simp: health_ok_def publish_failure_def Let_def state_of_errors_def
              STALLED_AFTER_CONSECUTIVE_ERRORS_def)
        moreover have "sp_last_completed (publish_failure pe p') = sp_last_completed p"
          using p'(2) by (simp add: publish_failure_def Let_def)
        ultimately show ?thesis
          using p'(5) Some res Inl Poll_Error Tick
          by (simp add: run_step_def advances_def split: option.split)
      qed
    qed
  qed
qed

interpretation polling: io_machine "run_step xml api" "live poller_inv" output_ok
  for xml and api :: "nat \<Rightarrow> 'c s3_api"
proof unfold_locales
  fix s :: "'c run_state" and i
  assume inv: "live poller_inv s"
  have "live poller_inv (fst (run_step xml api s i)) \<and> list_all output_ok (snd (run_step xml api s i))"
  proof (cases s)
    case (Running p)
    then show ?thesis using inv run_step_post [of p xml api i]
      by (auto simp: live_def split: run_state.split)
  qed (use inv in \<open>simp_all add: run_step_def\<close>)
  then show "live poller_inv (fst (run_step xml api s i))" "list_all output_ok (snd (run_step xml api s i))"
    by blast+
qed

lemma advances_trans: "advances a b \<Longrightarrow> advances b c \<Longrightarrow> advances a c"
  by (fastforce simp: advances_def split: option.splits)

lemma advances_refl [simp]: "advances a a"
  by (simp add: advances_def split: option.split)

lemma stopped_run [simp]:
  "run_io (run_step xml api) (Returned p) is = (Returned p, [])"
  "run_io (run_step xml api) (Run_Panicked st) is = (Run_Panicked st, [])"
  "run_io (run_step xml api) Hung is = (Hung, [])"
  by (induction "is") (simp_all add: run_step_def)

lemma poller_run_post:
  "poller_inv p \<Longrightarrow>
   live (\<lambda>p'. poller_inv p' \<and> advances (sp_last_completed p) (sp_last_completed p') \<and>
        (health_ok p \<longrightarrow> health_ok p')) (fst (poller_run xml api (Running p) is))"
  unfolding poller_run_def
proof (induction "is" arbitrary: p)
  case Nil
  then show ?case by simp
next
  case (Cons i "is")
  note step = run_step_post [OF Cons.prems, of xml api i]
  show ?case
  proof (cases "fst (run_step xml api (Running p) i)")
    case (Running p1)
    with step have p1: "poller_inv p1" "advances (sp_last_completed p) (sp_last_completed p1)"
      "health_ok p \<longrightarrow> health_ok p1" by simp_all
    from Cons.IH [OF p1(1)] p1 Running show ?thesis
      by (auto simp: Let_def split_beta live_def intro: advances_trans split: run_state.splits)
  qed (use step in \<open>auto simp: Let_def split_beta\<close>)
qed

lemma poller_new_inv [simp]: "poller_inv (poller_new site c st)"
  by (simp add: poller_inv_def poller_new_def)

lemma poller_new_health: "health_ok (poller_new site c ingest_status_default)"
  by (simp add: health_ok_def poller_new_def ingest_status_default_def state_of_errors_def)

section \<open>A listing that never ends\<close>

text \<open>
  A page that is truncated but carries no continuation token: the next request asks for
  the first page again, so that the loop does not return.
\<close>

lemma truncated_without_token_hangs:
  assumes "\<And>start token c. \<exists>body c' page. api_list api pre start token None c = (Some (Inr body), c') \<and>
      parse_list_xml xml body = Inr page \<and> lp_is_truncated page \<and> lp_next_token page = None"
  shows "key_pages xml api pre start first token ks n c = None"
proof (rule ccontr)
  assume "key_pages xml api pre start first token ks n c \<noteq> None"
  then obtain res where ret: "key_pages xml api pre start first token ks n c = Some res" by blast
  let ?hangs = "\<lambda>xml api pre. \<forall>start token c. \<exists>body c' page.
    api_list api pre start token None c = (Some (Inr body), c') \<and>
    parse_list_xml xml body = Inr page \<and> lp_is_truncated page \<and> lp_next_token page = None"
  have "\<not> ?hangs xml api pre"
  proof (rule key_pages.raw_induct
      [where P = "\<lambda>xml api pre start first token ks n c res. \<not> ?hangs xml api pre", OF _ ret])
    fix f xml api pre start first token ks n c res
    assume IH: "\<And>xml api pre start first token ks n c res.
        f xml api pre start first token ks n c = Some res \<Longrightarrow> \<not> ?hangs xml api pre"
      and eq: "(case request_page xml api pre (if first then start else None) token None c of
           (Inl e, c) \<Rightarrow> Some (c, Err e)
         | (Inr page, c) \<Rightarrow>
             if \<not> lp_is_truncated page then Some (c, Ok (ks @ lp_keys page, n + 1))
             else f xml api pre start False (lp_next_token page) (ks @ lp_keys page) (n + 1) c) = Some res"
    show "\<not> ?hangs xml api pre"
    proof
      assume h: "?hangs xml api pre"
      then obtain body c' page where
        "api_list api pre (if first then start else None) token None c = (Some (Inr body), c')"
        "parse_list_xml xml body = Inr page" "lp_is_truncated page" by blast
      then have "f xml api pre start False (lp_next_token page) (ks @ lp_keys page) (n + 1) c' = Some res"
        using eq by (simp add: request_page_def)
      then show False using IH h by blast
    qed
  qed
  then show False using assms by blast
qed

section \<open>Properties\<close>

text \<open>A bucket of one object, for the witnesses.\<close>

definition one_xml :: xml_reader where
  "one_xml body = (if body = [] then [] else item_events (Item_Contents [] [Plain body] []))"

definition one_api :: "unit s3_api" where
  "one_api =
     \<lparr>api_list = \<lambda>_ start token _ _.
        (Some (Inr (case (if token = None then start else token) of
                      None \<Rightarrow> [73] | Some s \<Rightarrow> if s < [73] then [73] else [])), ()),
      api_get = \<lambda>_ _. (Some (Inr [1]), ())\<rparr>"

definition one_down :: "unit s3_api" where
  "one_down = \<lparr>api_list = \<lambda>_ _ _ _ _. (Some (Inl Closed), ()), api_get = \<lambda>_ _. (Some (Inl Closed), ())\<rparr>"

definition one_poller :: "unit poller" where
  "one_poller = (poller_new [75] () ingest_status_default)\<lparr>sp_last_completed := Some 5\<rparr>"

lemma one_poller_inv: "poller_inv one_poller"
  by (simp add: one_poller_def poller_inv_def poller_new_def)

text \<open>
  C19: the position of the poller is safe in every run, whatever the server answers: the last
  completed volume never goes back, every reported recovery moves forward and only past its
  threshold, and no counter or volume number leaves its width.
\<close>

theorem poller_never_goes_back:
  assumes "poller_inv p"
  shows "list_all output_ok (snd (poller_run xml api (Running p) is)) \<and>
    (case fst (poller_run xml api (Running p) is) of
       Running p' \<Rightarrow> poller_inv p' \<and> advances (sp_last_completed p) (sp_last_completed p')
     | Returned p' \<Rightarrow> poller_inv p' \<and> advances (sp_last_completed p) (sp_last_completed p')
     | _ \<Rightarrow> True)"
  using poller_run_post [OF assms, of xml api "is"] polling.run_good [of "Running p" xml api "is"] assms
  by (auto simp: poller_run_def live_def split: run_state.split)

theorem poller_never_goes_back_witness:
  "case fst (poller_run one_xml (\<lambda>_. one_api) (Running one_poller) [Tick 0 None, Tick 1 None]) of
     Running p' \<Rightarrow> advances (Some 5) (sp_last_completed p') | _ \<Rightarrow> True"
  using poller_never_goes_back [OF one_poller_inv, of one_xml "\<lambda>_. one_api" "[Tick 0 None, Tick 1 None]"]
  by (auto simp: one_poller_def split: run_state.splits)

text \<open>
  A poll that fails loses nothing: whatever call failed, the volume and the key the
  next poll continues from are those of before, so that the whole batch is asked for again.
\<close>

theorem failed_poll_keeps_position:
  assumes "poller_inv p" and "poll_once xml api p = Some (p', es, Inl (Poll_Error e))"
  shows "sp_last_completed p' = sp_last_completed p \<and> sp_last_seen p' = sp_last_seen p \<and>
    sp_site_id p' = sp_site_id p \<and> sp_status p' = sp_status p \<and> poller_inv p'"
  using pwp_SomeD [OF poll_once_post [OF assms(1)] assms(2)] by (simp add: poll_post_def)

theorem failed_poll_keeps_position_witness:
  "\<exists>p' es e. poll_once one_xml one_down one_poller = Some (p', es, Inl (Poll_Error e)) \<and>
     sp_last_completed p' = Some 5"
proof -
  have "poll_once one_xml one_down one_poller = Some (one_poller, [], Inl (Poll_Error (Poll_Http Closed)))"
    by (simp add: poll_once_eq poll_baseline_def poll_from_def pbind_def pget_def preturn_def add_checked_def
        one_poller_def poller_new_def list_all_keys_after_def key_pages.simps request_page_def one_down_def)
  from failed_poll_keeps_position [OF one_poller_inv this] this show ?thesis
    by (auto simp: one_poller_def)
qed

text \<open>
  The published health is exact after every tick of a new poller: polling after a
  success, retrying with the number of polls that failed in a row below five, stalled from
  the fifth on; the volume it names is the last completed one.
\<close>

theorem published_health_exact:
  "case fst (poller_run xml api (Running (poller_new site c ingest_status_default)) is) of
     Running p \<Rightarrow>
       is_state (sp_status p) =
         (if sp_errors p = 0 then Polling else if sp_errors p < 5 then Retrying (sp_errors p) else Stalled) \<and>
       is_current_volume (sp_status p) = sp_last_completed p
   | _ \<Rightarrow> True"
  using poller_run_post [OF poller_new_inv, of site c ingest_status_default xml api "is"]
    poller_new_health [of site c]
  by (auto simp: live_def health_ok_def state_of_errors_def STALLED_AFTER_CONSECUTIVE_ERRORS_def
      split: run_state.splits)

end
