(* ===== verification/Poll_Delivery.thy ===== *)
theory Poll_Delivery
  imports S3_Poll "HOL-Library.Sublist"
begin

text \<open>
  What the poller delivers from a chunk bucket that keeps the documented contract of S3: a
  listing names the keys after a position in order, a page of any size at a time, a further
  page is had with the token of the one before, an object is what was put under its key, and
  any call may fail with an error instead.
\<close>

section \<open>The bucket\<close>

type_synonym directory = "(bytes \<times> bytes) list"

definition keys_after :: "bytes option \<Rightarrow> bytes list \<Rightarrow> bytes list" where
  "keys_after anchor ks = (case anchor of None \<Rightarrow> ks | Some s \<Rightarrow> filter (\<lambda>k. s < k) ks)"

text \<open>
  A continuation token is opaque. What the server remembers of it is \<open>stands_for\<close>: for a token
  it has issued, the last key of the page it came with. A page holds at least one key when
  there is one, and a token exactly when there are more.
\<close>

type_synonym tokens = "bytes \<Rightarrow> bytes option"

definition page_of :: "tokens \<Rightarrow> bytes list \<Rightarrow> list_page \<Rightarrow> bool" where
  "page_of stands_for ks page =
     (\<exists>m>0. lp_keys page = take m ks \<and> lp_is_truncated page = (m < length ks) \<and>
        (m < length ks \<longrightarrow>
           (\<exists>token. lp_next_token page = Some token \<and> stands_for token = Some (List.last (take m ks)))))"

definition answers :: "xml_reader \<Rightarrow> tokens \<Rightarrow> bytes list \<Rightarrow> (http_error + bytes) option \<Rightarrow> bool" where
  "answers xml stands_for ks answer =
     (case answer of
        None \<Rightarrow> False
      | Some (Inl _) \<Rightarrow> True
      | Some (Inr body) \<Rightarrow> (\<exists>page. parse_list_xml xml body = Inr page \<and> page_of stands_for ks page))"

text \<open>
  A call answers rightly or with an error. A request without a token is answered with the keys
  after \<open>start-after\<close>; one with an issued token, and without \<open>start-after\<close>, with the keys after
  what the token stands for. Nothing is promised for other requests: not for a token the
  server has not issued, nor for a token together with \<open>start-after\<close>.
\<close>

definition honest_with :: "tokens \<Rightarrow> xml_reader \<Rightarrow> 'c s3_api \<Rightarrow> bytes \<Rightarrow> directory \<Rightarrow> bool" where
  "honest_with stands_for xml api pre dir =
     (\<forall>c. (\<forall>start. answers xml stands_for (keys_after start (map fst dir)) (fst (api_list api pre start None None c))) \<and>
        (\<forall>token k. stands_for token = Some k \<longrightarrow>
           answers xml stands_for (keys_after (Some k) (map fst dir)) (fst (api_list api pre None (Some token) None c))))"

definition honest_list :: "xml_reader \<Rightarrow> 'c s3_api \<Rightarrow> bytes \<Rightarrow> directory \<Rightarrow> bool" where
  "honest_list xml api pre dir = (\<exists>stands_for. honest_with stands_for xml api pre dir)"

definition honest_get :: "'c s3_api \<Rightarrow> directory \<Rightarrow> bool" where
  "honest_get api dir =
     (\<forall>(key, obj)\<in>set dir. \<forall>c. case fst (api_get api key c) of
        None \<Rightarrow> False | Some (Inl _) \<Rightarrow> True | Some (Inr body) \<Rightarrow> body = obj)"

definition in_order :: "directory \<Rightarrow> bool" where
  "in_order dir = sorted_wrt (<) (map fst dir)"

definition chunks_of :: "directory \<Rightarrow> chunk_envelope list" where
  "chunks_of dir =
     List.map_filter (\<lambda>(key, obj).
       map_option (\<lambda>kind. \<lparr>ce_raw_bytes = obj, ce_kind = kind\<rparr>) (chunk_kind_from_key key)) dir"

definition unfinished :: "directory \<Rightarrow> bool" where
  "unfinished dir = (\<forall>key\<in>fst ` set dir. chunk_kind_from_key key \<noteq> Some End)"

section \<open>Listing a directory\<close>

lemma not_beyond_last:
  assumes "sorted_wrt (<) (xs :: 'a :: order list)" and "y \<in> set xs"
  shows "\<not> List.last xs < y"
proof -
  have ne: "xs \<noteq> []" using assms(2) by auto
  then have "sorted_wrt (<) (butlast xs @ [List.last xs])" "y \<in> set (butlast xs @ [List.last xs])"
    using assms by simp_all
  then have "y = List.last xs \<or> y < List.last xs" unfolding sorted_wrt_append by auto
  then show ?thesis by auto
qed

lemma keys_after_page:
  assumes "sorted_wrt (<) ks" and "0 < n" and "n < length (keys_after anchor ks)"
  shows "keys_after (Some (List.last (take n (keys_after anchor ks)))) ks = drop n (keys_after anchor ks)"
proof -
  let ?b = "keys_after anchor ks"
  let ?x = "List.last (take n ?b)"
  have sorted: "sorted_wrt (<) ?b"
    using assms(1) by (auto simp: keys_after_def sorted_wrt_filter split: option.split)
  have ne: "take n ?b \<noteq> []" using assms(2,3) by auto
  then have x: "?x \<in> set ?b" by (meson in_set_takeD last_in_set)
  have anchor: "filter (\<lambda>y. ?x < y) ks = filter (\<lambda>y. ?x < y) ?b"
    using x by (auto simp: keys_after_def intro!: filter_cong split: option.splits)
  have "sorted_wrt (<) (take n ?b @ drop n ?b)" using sorted by simp
  then have split: "sorted_wrt (<) (take n ?b)" "\<forall>a\<in>set (take n ?b). \<forall>y\<in>set (drop n ?b). a < y"
    unfolding sorted_wrt_append by blast+
  have le: "\<forall>y\<in>set (take n ?b). \<not> ?x < y"
    using not_beyond_last [OF split(1)] by blast
  have "filter (\<lambda>y. ?x < y) (take n ?b @ drop n ?b) = drop n ?b"
    unfolding filter_append using le split(2) ne by (simp add: filter_empty_conv filter_id_conv)
  then have "filter (\<lambda>y. ?x < y) ?b = drop n ?b" by simp
  then show ?thesis using anchor by (simp add: keys_after_def)
qed

lemma key_pages_step:
  "request_page xml api pre (if first then start else None) token None c = (Inl e, c') \<Longrightarrow>
     key_pages xml api pre start first token ks pages c = Some (c', Inl e)"
  "request_page xml api pre (if first then start else None) token None c = (Inr page, c') \<Longrightarrow>
     \<not> lp_is_truncated page \<Longrightarrow>
     key_pages xml api pre start first token ks pages c = Some (c', Inr (ks @ lp_keys page, pages + 1))"
  "request_page xml api pre (if first then start else None) token None c = (Inr page, c') \<Longrightarrow>
     lp_is_truncated page \<Longrightarrow>
     key_pages xml api pre start first token ks pages c =
       key_pages xml api pre start False (lp_next_token page) (ks @ lp_keys page) (pages + 1) c'"
  by (subst key_pages.simps, simp)+

text \<open>The position a request of the paging loop asks for.\<close>

definition asks_after :: "tokens \<Rightarrow> bytes option \<Rightarrow> bool \<Rightarrow> bytes option \<Rightarrow> bytes option \<Rightarrow> bool" where
  "asks_after stands_for start first token anchor =
     (case token of
        None \<Rightarrow> anchor = (if first then start else None)
      | Some t \<Rightarrow> \<not> first \<and> anchor \<noteq> None \<and> stands_for t = anchor)"

lemma request_answered:
  assumes "honest_with stands_for xml api pre dir" "asks_after stands_for start first token anchor"
  shows "answers xml stands_for (keys_after anchor (map fst dir))
    (fst (api_list api pre (if first then start else None) token None c))"
  using assms by (cases token) (auto simp: honest_with_def asks_after_def)

lemma key_pages_honest:
  assumes "honest_with stands_for xml api pre dir" and "in_order dir"
    and "asks_after stands_for start first token anchor"
  shows "\<exists>c' r. key_pages xml api pre start first token ks pages c = Some (c', r) \<and>
     ((\<exists>e. r = Inl (Poll_Error e)) \<or> (\<exists>m. r = Inr (ks @ keys_after anchor (map fst dir), m)))"
  using assms(3)
proof (induction "length (keys_after anchor (map fst dir))" arbitrary: first token anchor ks pages c rule: less_induct)
  case less
  let ?b = "keys_after anchor (map fst dir)"
  obtain answer c1 where call: "api_list api pre (if first then start else None) token None c = (answer, c1)"
    by (cases "api_list api pre (if first then start else None) token None c")
  have answered: "answers xml stands_for ?b answer"
    using request_answered [OF assms(1) less.prems, of c] unfolding call fst_conv .
  show ?case
  proof (cases answer)
    case None
    then show ?thesis using answered by (simp add: answers_def)
  next
    case (Some res)
    show ?thesis
    proof (cases res)
      case (Inl e)
      have "request_page xml api pre (if first then start else None) token None c = (Inl (Poll_Error (Poll_Http e)), c1)"
        using call Some Inl by (simp add: request_page_def)
      from key_pages_step(1) [OF this] show ?thesis by blast
    next
      case (Inr body)
      then obtain page m where page: "parse_list_xml xml body = Inr page" "0 < m" "lp_keys page = take m ?b"
          "lp_is_truncated page = (m < length ?b)"
          "m < length ?b \<longrightarrow> (\<exists>t. lp_next_token page = Some t \<and> stands_for t = Some (List.last (take m ?b)))"
        using answered Some unfolding answers_def page_of_def by auto
      have req: "request_page xml api pre (if first then start else None) token None c = (Inr page, c1)"
        using call Some Inr page(1) by (simp add: request_page_def)
      show ?thesis
      proof (cases "m < length ?b")
        case False
        then show ?thesis
          using key_pages_step(2) [OF req] page by simp
      next
        case True
        obtain t where t: "lp_next_token page = Some t" "stands_for t = Some (List.last (take m ?b))"
          using page(5) True by blast
        let ?next = "Some (List.last (take m ?b))"
        have rest: "keys_after ?next (map fst dir) = drop m ?b"
          using keys_after_page [OF _ page(2) True] assms(2) by (simp add: in_order_def)
        have shorter: "length (keys_after ?next (map fst dir)) < length ?b"
          unfolding rest using page(2) True by simp
        have asks: "asks_after stands_for start False (lp_next_token page) ?next"
          using t by (simp add: asks_after_def)
        have whole: "(ks @ lp_keys page) @ keys_after ?next (map fst dir) = ks @ ?b"
          unfolding rest page(3) by simp
        have trunc: "lp_is_truncated page" using page(4) True by simp
        show ?thesis
          using less.hyps [OF shorter asks, of "ks @ lp_keys page" "pages + 1" c1]
          unfolding key_pages_step(3) [OF req trunc] whole .
      qed
    qed
  qed
qed

section \<open>Fetching\<close>

lemma fetch_all_honest:
  assumes "honest_get api dir"
  shows "\<exists>c r. fetch_all api (recognised (map fst dir)) p = Some (p\<lparr>sp_client := c\<rparr>, [], r) \<and>
     ((\<exists>e. r = Inl (Poll_Error e)) \<or> r = Inr (chunks_of dir, \<not> unfinished dir))"
  using assms
proof (induction dir arbitrary: p)
  case Nil
  show ?case
    by (intro exI [of _ "sp_client p"] exI [of _ "Inr ([], False)"])
      (simp add: recognised_def chunks_of_def unfinished_def preturn_def List.map_filter_def)
next
  case (Cons entry dir)
  obtain key obj where entry: "entry = (key, obj)" by (cases entry)
  have honest: "honest_get api dir"
    "case fst (api_get api key c) of None \<Rightarrow> False | Some (Inl _) \<Rightarrow> True | Some (Inr body) \<Rightarrow> body = obj" for c
    using Cons.prems by (auto simp: honest_get_def entry)
  note IH = Cons.IH [OF honest(1)]
  show ?case
  proof (cases "chunk_kind_from_key key")
    case None
    then show ?thesis using IH [of p] by (simp add: entry recognised_def chunks_of_def unfinished_def List.map_filter_def)
  next
    case (Some kind)
    obtain answer c where get: "api_get api key (sp_client p) = (answer, c)"
      by (cases "api_get api key (sp_client p)")
    have rec: "recognised (map fst (entry # dir)) = (key, kind) # recognised (map fst dir)"
      using Some by (simp add: entry recognised_def List.map_filter_def)
    have ch: "chunks_of (entry # dir) = \<lparr>ce_raw_bytes = obj, ce_kind = kind\<rparr> # chunks_of dir"
      using Some by (simp add: entry chunks_of_def List.map_filter_def)
    have un: "unfinished (entry # dir) = (kind \<noteq> End \<and> unfinished dir)"
      using Some by (simp add: entry unfinished_def)
    from honest(2) [of "sp_client p"] consider e where "answer = Some (Inl e)" | "answer = Some (Inr obj)"
      by (auto simp: get split: option.splits sum.splits)
    then show ?thesis
    proof cases
      case 1
      then show ?thesis unfolding rec by (auto simp: pbind_def call_get_def get)
    next
      case 2
      obtain c' r where rest: "fetch_all api (recognised (map fst dir)) (p\<lparr>sp_client := c\<rparr>) = Some (p\<lparr>sp_client := c'\<rparr>, [], r)"
        "(\<exists>e. r = Inl (Poll_Error e)) \<or> r = Inr (chunks_of dir, \<not> unfinished dir)"
        using IH [of "p\<lparr>sp_client := c\<rparr>"] by auto
      then show ?thesis unfolding rec ch un by (auto simp: pbind_def call_get_def get 2 preturn_def)
    qed
  qed
qed

section \<open>One poll\<close>

definition newest_key :: "directory \<Rightarrow> bytes option" where
  "newest_key dir = (if dir = [] then None else Some (fst (List.last dir)))"

lemma keys_after_newest:
  assumes "in_order (d @ new)"
  shows "keys_after (newest_key d) (map fst (d @ new)) = map fst new"
proof (cases "d = []")
  case True
  then show ?thesis by (simp add: newest_key_def keys_after_def)
next
  case False
  have sorted: "sorted_wrt (<) (map fst d)" "\<forall>a\<in>set (map fst d). \<forall>y\<in>set (map fst new). a < y"
    using assms unfolding in_order_def map_append sorted_wrt_append by blast+
  have le: "\<forall>y\<in>set (map fst d). \<not> List.last (map fst d) < y"
    using not_beyond_last [OF sorted(1)] by blast
  have gt: "\<forall>y\<in>set (map fst new). List.last (map fst d) < y"
    using sorted(2) False by (metis last_in_set map_is_Nil_conv)
  have "filter (\<lambda>k. List.last (map fst d) < k) (map fst d @ map fst new) = map fst new"
    unfolding filter_append using le gt by (simp add: filter_empty_conv filter_id_conv)
  then show ?thesis using False by (simp add: newest_key_def keys_after_def last_map)
qed

lemma poll_empty_quiet:
  assumes "sp_empty_polls p + 1 < REANCHOR_EMPTY_POLLS"
  shows "poll_empty xml api v volume p =
    Some (p\<lparr>sp_last_completed := Some v, sp_empty_polls := sp_empty_polls p + 1\<rparr>, [], Inr [])"
  using assms
  by (simp add: poll_empty_def apply_recovery_def act_on_def should_relist_def next_target_def pbind_def
      pmodify_def pget_def add_checked_def preturn_def REANCHOR_EMPTY_POLLS_def STUCK_MID_VOLUME_EMPTY_POLLS_def)

lemma poll_served:
  assumes p: "sp_last_completed p = Some v" "v + 1 < 2 ^ 64" "sp_last_seen p = newest_key d"
    and served: "honest_list xml api (volume_prefix (sp_site_id p) (v + 1)) (d @ new)"
      "in_order (d @ new)" "honest_get api new"
    and quiet: "new = [] \<Longrightarrow> sp_empty_polls p + 1 < REANCHOR_EMPTY_POLLS"
  shows "\<exists>c. (\<exists>e. poll_once xml api p = Some (p\<lparr>sp_client := c\<rparr>, [], Inl (Poll_Error e))) \<or>
     new = [] \<and> poll_once xml api p =
       Some (p\<lparr>sp_client := c, sp_last_completed := Some v, sp_empty_polls := sp_empty_polls p + 1\<rparr>, [], Inr []) \<or>
     new \<noteq> [] \<and> (\<exists>e. poll_once xml api p =
       Some (p\<lparr>sp_client := c, sp_empty_polls := 0, sp_seen_any := True\<rparr>, unrecognised (map fst new), Inl (Poll_Error e))) \<or>
     new \<noteq> [] \<and> poll_once xml api p =
       Some (after_keys (p\<lparr>sp_client := c, sp_empty_polls := 0, sp_seen_any := True\<rparr>) v (v + 1)
               (map fst new) (\<not> unfinished new),
             unrecognised (map fst new), Inr (chunks_of new))"
proof -
  let ?pre = "volume_prefix (sp_site_id p) (v + 1)"
  have from_v: "poll_once xml api p = poll_from xml api v p"
    using p(1) by (simp add: poll_once_eq poll_baseline_def pbind_def pget_def preturn_def split: option.splits)
  obtain stands_for where honest: "honest_with stands_for xml api ?pre (d @ new)"
    using served(1) unfolding honest_list_def by blast
  have "asks_after stands_for (sp_last_seen p) True None (sp_last_seen p)" by (simp add: asks_after_def)
  from key_pages_honest [OF honest served(2) this, of "[]" 0 "sp_client p"]
  obtain c r where kp: "key_pages xml api ?pre (sp_last_seen p) True None [] 0 (sp_client p) = Some (c, r)"
    "(\<exists>e. r = Inl (Poll_Error e)) \<or> (\<exists>m. r = Inr (map fst new, m))"
    using keys_after_newest [OF served(2)] p(3) by auto
  have list: "list_all_keys_after xml api ?pre (sp_last_seen p) p = Some (p\<lparr>sp_client := c\<rparr>, [], r)"
    using kp(1) by (simp add: list_all_keys_after_def)
  have run: "poll_once xml api p =
    (case r of Inl e \<Rightarrow> Some (p\<lparr>sp_client := c\<rparr>, [], Inl e)
     | Inr (keys, _) \<Rightarrow>
         (if keys = [] then poll_empty xml api v (v + 1) else poll_keys api v (v + 1) keys) (p\<lparr>sp_client := c\<rparr>))"
    unfolding from_v using p(2) list
    by (auto simp: poll_from_def pbind_def add_checked_def pget_def preturn_def split: option.splits sum.splits)
  from kp(2) consider e where "r = Inl (Poll_Error e)"
    | (empty) m where "r = Inr ([], m)" "new = []" | (keys) m where "r = Inr (map fst new, m)" "new \<noteq> []"
    by (cases "new = []") auto
  then show ?thesis
  proof cases
    case 1
    then show ?thesis using run by (intro exI [of _ c] disjI1) simp
  next
    case empty
    then show ?thesis
      using run poll_empty_quiet [of "p\<lparr>sp_client := c\<rparr>" xml api v "v + 1"] quiet
      by (intro exI [of _ c] disjI2 disjI1) simp
  next
    case keys
    let ?p = "p\<lparr>sp_client := c, sp_empty_polls := 0, sp_seen_any := True\<rparr>"
    obtain c' r' where fetch: "fetch_all api (recognised (map fst new)) ?p = Some (?p\<lparr>sp_client := c'\<rparr>, [], r')"
      "(\<exists>e. r' = Inl (Poll_Error e)) \<or> r' = Inr (chunks_of new, \<not> unfinished new)"
      using fetch_all_honest [OF served(3), of ?p] by blast
    from run keys have once: "poll_once xml api p = poll_keys api v (v + 1) (map fst new) (p\<lparr>sp_client := c\<rparr>)"
      by simp
    have "?p\<lparr>sp_client := c'\<rparr> = p\<lparr>sp_client := c', sp_empty_polls := 0, sp_seen_any := True\<rparr>" by simp
    with fetch have "fetch_all api (recognised (map fst new)) ?p =
      Some (p\<lparr>sp_client := c', sp_empty_polls := 0, sp_seen_any := True\<rparr>, [], r')" by (simp only:)
    then show ?thesis
      using fetch(2) keys(2) unfolding once poll_keys_run
      by (intro exI [of _ c']) auto
  qed
qed

section \<open>One tick\<close>

definition sent :: "run_output list \<Rightarrow> chunk_envelope list" where
  "sent outs = List.map_filter (\<lambda>out. case out of Sent e \<Rightarrow> Some e | Reported _ \<Rightarrow> None) outs"

lemma sent_simps [simp]:
  "sent [] = []" "sent (xs @ ys) = sent xs @ sent ys" "sent (map Reported es) = []"
  "sent (map Sent envs) = envs" "sent (Reported e # xs) = sent xs"
  by (simp_all add: sent_def List.map_filter_def comp_def)

lemma chunks_of_simps [simp]: "chunks_of [] = []" "chunks_of (d @ new) = chunks_of d @ chunks_of new"
  by (simp_all add: chunks_of_def List.map_filter_def)

lemma tick_delivers:
  assumes p: "sp_last_completed p = Some v" "v + 1 < 2 ^ 64" "sp_last_seen p = newest_key d"
      "sp_errors p + 1 < 2 ^ 32"
    and served: "honest_list xml (api t) (volume_prefix (sp_site_id p) (v + 1)) (d @ new)"
      "in_order (d @ new)" "honest_get (api t) new"
    and quiet: "new = [] \<Longrightarrow> sp_empty_polls p + 1 < REANCHOR_EMPTY_POLLS"
  shows "\<exists>p' outs. run_step xml api (Running p) (Tick t None) = (Running p', outs) \<and>
     sp_site_id p' = sp_site_id p \<and> sp_errors p' \<le> sp_errors p + 1 \<and>
     (sent outs = [] \<and> 0 < sp_errors p' \<and> sp_last_completed p' = Some v \<and> sp_last_seen p' = newest_key d \<and>
        sp_empty_polls p' \<in> {0, sp_empty_polls p} \<or>
      sent outs = chunks_of new \<and> sp_errors p' = 0 \<and>
        (unfinished new \<longrightarrow> sp_last_completed p' = Some v \<and> sp_last_seen p' = newest_key (d @ new)) \<and>
        sp_empty_polls p' = (if new = [] then sp_empty_polls p + 1 else 0))"
proof -
  let ?once = "poll_once xml (api t) p"
  obtain c where "(\<exists>e. ?once = Some (p\<lparr>sp_client := c\<rparr>, [], Inl (Poll_Error e))) \<or>
     new = [] \<and> ?once =
       Some (p\<lparr>sp_client := c, sp_last_completed := Some v, sp_empty_polls := sp_empty_polls p + 1\<rparr>, [], Inr []) \<or>
     new \<noteq> [] \<and> (\<exists>e. ?once =
       Some (p\<lparr>sp_client := c, sp_empty_polls := 0, sp_seen_any := True\<rparr>, unrecognised (map fst new), Inl (Poll_Error e))) \<or>
     new \<noteq> [] \<and> ?once =
       Some (after_keys (p\<lparr>sp_client := c, sp_empty_polls := 0, sp_seen_any := True\<rparr>) v (v + 1)
               (map fst new) (\<not> unfinished new),
             unrecognised (map fst new), Inr (chunks_of new))"
    using poll_served [OF p(1-3) served quiet] by blast
  then consider e where "?once = Some (p\<lparr>sp_client := c\<rparr>, [], Inl (Poll_Error e))"
    | (empty) "new = []" "?once =
       Some (p\<lparr>sp_client := c, sp_last_completed := Some v, sp_empty_polls := sp_empty_polls p + 1\<rparr>, [], Inr [])"
    | (fetch) e where "?once =
       Some (p\<lparr>sp_client := c, sp_empty_polls := 0, sp_seen_any := True\<rparr>, unrecognised (map fst new), Inl (Poll_Error e))"
    | (keys) "new \<noteq> []" "?once =
       Some (after_keys (p\<lparr>sp_client := c, sp_empty_polls := 0, sp_seen_any := True\<rparr>) v (v + 1)
               (map fst new) (\<not> unfinished new),
             unrecognised (map fst new), Inr (chunks_of new))"
    by blast
  then show ?thesis
  proof cases
    case 1
    then show ?thesis using p by (simp add: run_step_def publish_failure_def Let_def)
  next
    case empty
    then show ?thesis using p by (simp add: run_step_def publish_success_def Let_def)
  next
    case fetch
    then show ?thesis using p by (simp add: run_step_def publish_failure_def Let_def)
  next
    case keys
    then show ?thesis
      using p by (simp add: run_step_def publish_success_def Let_def after_keys_def newest_key_def last_map)
  qed
qed

section \<open>A history of ticks\<close>

text \<open>The ticks of a run with what the directory of the volume held at each of them.\<close>

type_synonym history = "(nat \<times> directory) list"

definition ticks :: "history \<Rightarrow> run_input list" where
  "ticks hist = map (\<lambda>(t, _). Tick t None) hist"

definition dirs :: "history \<Rightarrow> directory list" where
  "dirs hist = [] # map snd hist"

text \<open>
  The directory only grows, in key order, the bucket answers honestly, and the directory
  does not stand still for as long as it takes the poller to look for a skipped volume.
\<close>

definition volume_served ::
  "xml_reader \<Rightarrow> (nat \<Rightarrow> 'c s3_api) \<Rightarrow> bytes \<Rightarrow> history \<Rightarrow> bool" where
  "volume_served xml api pre hist =
     ((\<forall>(t, d)\<in>set hist. honest_list xml (api t) pre d \<and> honest_get (api t) d \<and> in_order d) \<and>
      (\<forall>i<length hist. prefix (dirs hist ! i) (dirs hist ! Suc i)) \<and>
      (\<forall>i. i + 12 \<le> length hist \<longrightarrow> dirs hist ! i \<noteq> dirs hist ! (i + 12)))"

lemma length_dirs [simp]: "length (dirs hist) = Suc (length hist)"
  by (simp add: dirs_def)

lemma dirs_snoc [simp]: "dirs (hist @ [(t, d)]) = dirs hist @ [d]"
  by (simp add: dirs_def)

lemma volume_served_snoc:
  assumes "volume_served xml api pre (hist @ [(t, d)])"
  shows "volume_served xml api pre hist"
    and "honest_list xml (api t) pre d" and "honest_get (api t) d" and "in_order d"
    and "prefix (List.last (dirs hist)) d"
    and "\<And>i. i + 11 = length hist \<Longrightarrow> dirs hist ! i \<noteq> d"
proof -
  let ?h = "hist @ [(t, d)]"
  have grow: "prefix (dirs ?h ! i) (dirs ?h ! Suc i)" if "i < length ?h" for i
    using assms that unfolding volume_served_def by blast
  have still: "dirs ?h ! i \<noteq> dirs ?h ! (i + 12)" if "i + 12 \<le> length ?h" for i
    using assms that unfolding volume_served_def by blast
  have ne: "dirs hist \<noteq> []" by (simp add: dirs_def)
  have "prefix (dirs hist ! i) (dirs hist ! Suc i)" if "i < length hist" for i
    using grow [of i] that by (simp add: nth_append)
  moreover have "dirs hist ! i \<noteq> dirs hist ! (i + 12)" if "i + 12 \<le> length hist" for i
    using still [of i] that by (simp add: nth_append)
  ultimately show "volume_served xml api pre hist"
    using assms unfolding volume_served_def by auto
  show "honest_list xml (api t) pre d" "honest_get (api t) d" "in_order d"
    using assms unfolding volume_served_def by auto
  show "prefix (List.last (dirs hist)) d"
    using grow [of "length hist"] ne by (simp add: nth_append last_conv_nth)
  show "dirs hist ! i \<noteq> d" if "i + 11 = length hist" for i
    using still [of i] that by (simp add: nth_append split: if_splits)
qed

lemma run_snoc:
  "poller_run xml api s (is @ [i]) =
     (let (s', outs) = poller_run xml api s is; (s'', outs') = run_step xml api s' i in (s'', outs @ outs'))"
  by (simp add: poller_run_def run_io_append Let_def split_beta)

text \<open>What holds after the ticks: \<open>d\<close> is the directory as the last successful poll saw it.\<close>

definition delivered :: "nat \<Rightarrow> history \<Rightarrow> 'c poller \<Rightarrow> run_output list \<Rightarrow> directory \<Rightarrow> bool" where
  "delivered v hist p' outs d =
     (sent outs = chunks_of d \<and> d \<in> set (dirs hist) \<and> (sp_errors p' = 0 \<longrightarrow> d = List.last (dirs hist)))"

definition tracking :: "nat \<Rightarrow> history \<Rightarrow> 'c poller \<Rightarrow> directory \<Rightarrow> bool" where
  "tracking v hist p' d =
     (sp_last_completed p' = Some v \<and> sp_last_seen p' = newest_key d \<and>
      prefix d (List.last (dirs hist)) \<and> sp_empty_polls p' < REANCHOR_EMPTY_POLLS \<and>
      (d = List.last (dirs hist) \<longrightarrow>
         sp_empty_polls p' \<le> length hist \<and> (\<forall>j\<le> sp_empty_polls p'. dirs hist ! (length hist - j) = d)))"

lemma still_snoc:
  assumes "\<forall>j\<le>e. dirs hist ! (length hist - j) = d" and "j \<le> e + 1" and "e \<le> length hist"
  shows "dirs (hist @ [(t, d)]) ! (length (hist @ [(t, d)]) - j) = d"
proof (cases j)
  case 0
  then show ?thesis by (simp add: nth_append)
next
  case (Suc j')
  then have "dirs hist ! (length hist - j') = d" using assms by simp
  then show ?thesis using Suc assms(2,3) by (simp add: nth_append)
qed

lemma history_step:
  assumes J: "delivered v hist p outs d" "tracking v hist p d"
    and v: "v + 1 < 2 ^ 64" and err: "sp_errors p + 1 < 2 ^ 32"
    and served: "volume_served xml api (volume_prefix (sp_site_id p) (v + 1)) (hist @ [(t, d')])"
  shows "\<exists>p' outs' e. run_step xml api (Running p) (Tick t None) = (Running p', outs') \<and>
    sp_site_id p' = sp_site_id p \<and> sp_errors p' \<le> sp_errors p + 1 \<and>
    delivered v (hist @ [(t, d')]) p' (outs @ outs') e \<and>
    (unfinished d' \<longrightarrow> tracking v (hist @ [(t, d')]) p' e)"
proof -
  note sv = volume_served_snoc [OF served]
  have "prefix d d'"
    using J(2) sv(5) prefix_order.trans unfolding tracking_def by blast
  then obtain new where new: "d' = d @ new" by (auto simp: prefix_def)
  have same: "List.last (dirs hist) = d" if "new = []"
    using that new J(2) sv(5) prefix_order.antisym [of "List.last (dirs hist)" d] by (simp add: tracking_def)
  have quiet: "sp_empty_polls p + 1 < REANCHOR_EMPTY_POLLS" if "new = []"
  proof (rule ccontr)
    assume "\<not> ?thesis"
    then have e: "sp_empty_polls p = 11" using J(2) by (simp add: tracking_def REANCHOR_EMPTY_POLLS_def)
    have "11 \<le> length hist" "dirs hist ! (length hist - 11) = d"
      using J(2) same [OF that] e by (auto simp: tracking_def)
    then show False using sv(6) [of "length hist - 11"] new that by simp
  qed
  have at_v: "sp_last_completed p = Some v" "sp_last_seen p = newest_key d"
    using J(2) by (simp_all add: tracking_def)
  have get: "honest_get (api t) new" using sv(3) by (auto simp: honest_get_def new)
  obtain p' outs' where run: "run_step xml api (Running p) (Tick t None) = (Running p', outs')"
    "sp_site_id p' = sp_site_id p" "sp_errors p' \<le> sp_errors p + 1"
    and out: "sent outs' = [] \<and> 0 < sp_errors p' \<and> sp_last_completed p' = Some v \<and>
        sp_last_seen p' = newest_key d \<and> sp_empty_polls p' \<in> {0, sp_empty_polls p} \<or>
      sent outs' = chunks_of new \<and> sp_errors p' = 0 \<and>
        (unfinished new \<longrightarrow> sp_last_completed p' = Some v \<and> sp_last_seen p' = newest_key (d @ new)) \<and>
        sp_empty_polls p' = (if new = [] then sp_empty_polls p + 1 else 0)"
    using tick_delivers [where api = api and t = t, OF at_v(1) v at_v(2) err sv(2) [unfolded new] sv(4) [unfolded new] get quiet]
    by blast
  from out show ?thesis
  proof
    assume fail: "sent outs' = [] \<and> 0 < sp_errors p' \<and> sp_last_completed p' = Some v \<and>
        sp_last_seen p' = newest_key d \<and> sp_empty_polls p' \<in> {0, sp_empty_polls p}"
    have "delivered v (hist @ [(t, d')]) p' (outs @ outs') d"
      using fail J(1) by (auto simp: delivered_def)
    moreover have "tracking v (hist @ [(t, d')]) p' d"
      using fail J(2) same still_snoc [of "sp_empty_polls p" hist d _ t]
        still_snoc [of "sp_empty_polls p" hist d 0 t] \<open>prefix d d'\<close>
      by (auto simp: tracking_def new REANCHOR_EMPTY_POLLS_def)
    ultimately show ?thesis using run by blast
  next
    assume succ: "sent outs' = chunks_of new \<and> sp_errors p' = 0 \<and>
        (unfinished new \<longrightarrow> sp_last_completed p' = Some v \<and> sp_last_seen p' = newest_key (d @ new)) \<and>
        sp_empty_polls p' = (if new = [] then sp_empty_polls p + 1 else 0)"
    have "delivered v (hist @ [(t, d')]) p' (outs @ outs') d'"
      using succ J(1) by (auto simp: delivered_def new)
    moreover have "tracking v (hist @ [(t, d')]) p' d'" if "unfinished d'"
    proof (cases "new = []")
      case True
      then show ?thesis
        using succ that J(2) same quiet still_snoc [of "sp_empty_polls p" hist d _ t]
        by (auto simp: tracking_def new unfinished_def REANCHOR_EMPTY_POLLS_def)
    next
      case False
      then show ?thesis
        using succ that by (auto simp: tracking_def new unfinished_def REANCHOR_EMPTY_POLLS_def nth_append)
    qed
    ultimately show ?thesis using run by blast
  qed
qed

lemma history_run:
  assumes v: "v + 1 < 2 ^ 64"
    and start: "sp_last_completed p = Some v" "sp_last_seen p = None" "sp_empty_polls p = 0"
    and err: "sp_errors p + length hist < 2 ^ 32"
    and served: "volume_served xml api (volume_prefix (sp_site_id p) (v + 1)) hist"
    and unf: "\<forall>d\<in>set (butlast (dirs hist)). unfinished d"
  shows "\<exists>p' outs d. poller_run xml api (Running p) (ticks hist) = (Running p', outs) \<and>
    sp_site_id p' = sp_site_id p \<and> sp_errors p' \<le> sp_errors p + length hist \<and>
    delivered v hist p' outs d \<and> (unfinished (List.last (dirs hist)) \<longrightarrow> tracking v hist p' d)"
  using err served unf
proof (induction hist rule: rev_induct)
  case Nil
  then show ?case
    using start
    by (auto simp: ticks_def poller_run_def delivered_def tracking_def dirs_def newest_key_def
        REANCHOR_EMPTY_POLLS_def)
next
  case (snoc x hist)
  obtain t d' where x: "x = (t, d')" by (cases x)
  have served: "volume_served xml api (volume_prefix (sp_site_id p) (v + 1)) (hist @ [(t, d')])"
    using snoc.prems(2) x by simp
  have all: "\<forall>d\<in>set (dirs hist). unfinished d"
    using snoc.prems(3) x by (simp add: butlast_append)
  have ne: "dirs hist \<noteq> []" by (simp add: dirs_def)
  have "unfinished (List.last (dirs hist))" "\<forall>d\<in>set (butlast (dirs hist)). unfinished d"
    using all last_in_set [OF ne] by (blast dest: in_set_butlastD)+
  then obtain p1 outs1 d1 where run1: "poller_run xml api (Running p) (ticks hist) = (Running p1, outs1)"
    "sp_site_id p1 = sp_site_id p" "sp_errors p1 \<le> sp_errors p + length hist"
    "delivered v hist p1 outs1 d1" "tracking v hist p1 d1"
    using snoc.IH volume_served_snoc(1) [OF served] snoc.prems(1) by auto
  have "sp_errors p1 + 1 < 2 ^ 32" using run1(3) snoc.prems(1) by simp
  from history_step [OF run1(4,5) v this served [folded run1(2)], of]
  obtain p' outs' e where step: "run_step xml api (Running p1) (Tick t None) = (Running p', outs')"
    "sp_site_id p' = sp_site_id p1" "sp_errors p' \<le> sp_errors p1 + 1"
    "delivered v (hist @ [(t, d')]) p' (outs1 @ outs') e"
    "unfinished d' \<longrightarrow> tracking v (hist @ [(t, d')]) p' e" by blast
  have "ticks (hist @ [x]) = ticks hist @ [Tick t None]" by (simp add: ticks_def x)
  then show ?case
    using run1 step by (auto simp: run_snoc x)
qed

section \<open>Properties\<close>

text \<open>
  A bucket for the witnesses: two objects, listed one a page, with tokens of the server's own
  making; it answers nothing useful to a request it has made no promise about.
\<close>

definition two_dir :: directory where
  "two_dir = [([65, 73], [1]), ([66, 73], [2])]"

definition first_page :: "(xml_error + xml_event) list" where
  "first_page = listing_document [Misc_Node]
     [Item_Contents [] [Plain [65, 73]] [leaf ''Size'' ''1''], Item_Truncated True, Item_Token [Plain [84]]] []"

definition second_page :: "(xml_error + xml_event) list" where
  "second_page = listing_document [Misc_Node]
     [Item_Truncated False, Item_Contents [] [Plain [66, 73]] [leaf ''Size'' ''1'']] []"

definition empty_page :: "(xml_error + xml_event) list" where
  "empty_page = listing_document [Misc_Node] [Item_Truncated False] []"

definition two_xml :: xml_reader where
  "two_xml body = (if body = [1] then first_page else if body = [2] then second_page else empty_page)"

definition two_api :: "unit s3_api" where
  "two_api =
     \<lparr>api_list = \<lambda>_ start token _ _.
        (Some (case token of
                 Some t \<Rightarrow> if start = None \<and> t = [84] then Inr [2] else Inl Closed
               | None \<Rightarrow> Inr (case start of None \<Rightarrow> [1]
                   | Some s \<Rightarrow> if s < [65, 73] then [1] else if s < [66, 73] then [2] else [])), ()),
      api_get = \<lambda>key _. (Some (Inr (if key = [65, 73] then [1] else [2])), ())\<rparr>"

lemma two_pages:
  "parse_list_xml two_xml [1] =
     Inr \<lparr>lp_keys = [[65, 73]], lp_common_prefixes = [], lp_is_truncated = True, lp_next_token = Some [84]\<rparr>"
  "parse_list_xml two_xml [2] =
     Inr \<lparr>lp_keys = [[66, 73]], lp_common_prefixes = [], lp_is_truncated = False, lp_next_token = None\<rparr>"
  "parse_list_xml two_xml [] =
     Inr \<lparr>lp_keys = [], lp_common_prefixes = [], lp_is_truncated = False, lp_next_token = None\<rparr>"
proof -
  note defs = two_xml_def first_page_def second_page_def empty_page_def
  note ok = listing_ok_def leaf_def listing_names_def ascii_def
  note read = document_fold [of "[Misc_Node]" _ "[]"]
  show "parse_list_xml two_xml [1] =
     Inr \<lparr>lp_keys = [[65, 73]], lp_common_prefixes = [], lp_is_truncated = True, lp_next_token = Some [84]\<rparr>"
    using read [of "[Item_Contents [] [Plain [65, 73]] [leaf ''Size'' ''1''], Item_Truncated True, Item_Token [Plain [84]]]"]
    by (auto simp: defs ok parse_list_xml_def list_state_new_def pieces_text_def)
  show "parse_list_xml two_xml [2] =
     Inr \<lparr>lp_keys = [[66, 73]], lp_common_prefixes = [], lp_is_truncated = False, lp_next_token = None\<rparr>"
    using read [of "[Item_Truncated False, Item_Contents [] [Plain [66, 73]] [leaf ''Size'' ''1'']]"]
    by (auto simp: defs ok parse_list_xml_def list_state_new_def pieces_text_def)
  show "parse_list_xml two_xml [] =
     Inr \<lparr>lp_keys = [], lp_common_prefixes = [], lp_is_truncated = False, lp_next_token = None\<rparr>"
    using read [of "[Item_Truncated False]"]
    by (auto simp: defs ok parse_list_xml_def list_state_new_def pieces_text_def)
qed

definition two_tokens :: tokens where
  "two_tokens t = (if t = [84] then Some [65, 73] else None)"

lemma two_order: "[65, 73] < ([66, 73] :: bytes)" by simp

lemma two_honest: "honest_list two_xml two_api pre two_dir" "honest_get two_api two_dir" "in_order two_dir"
proof -
  let ?first = "\<lparr>lp_keys = [[65, 73]], lp_common_prefixes = [], lp_is_truncated = True, lp_next_token = Some [84]\<rparr>"
  let ?second = "\<lparr>lp_keys = [[66, 73]], lp_common_prefixes = [], lp_is_truncated = False, lp_next_token = None\<rparr>"
  let ?none = "\<lparr>lp_keys = [], lp_common_prefixes = [], lp_is_truncated = False, lp_next_token = None\<rparr>"
  have pages: "page_of two_tokens [[65, 73], [66, 73]] ?first" "page_of two_tokens [[66, 73]] ?second"
      "page_of two_tokens [] ?none"
    unfolding page_of_def by (rule exI [of _ 1], simp add: two_tokens_def)+
  have after: "keys_after (Some s) (map fst two_dir) =
      (if s < [65, 73] then [[65, 73], [66, 73]] else if s < [66, 73] then [[66, 73]] else [])" for s
    using less_trans [OF _ two_order, of s] by (simp add: keys_after_def two_dir_def)
  have whole: "keys_after None (map fst two_dir) = [[65, 73], [66, 73]]"
    by (simp add: keys_after_def two_dir_def)
  have "honest_with two_tokens two_xml two_api pre two_dir"
    unfolding honest_with_def
  proof (intro allI conjI impI)
    fix c start
    show "answers two_xml two_tokens (keys_after start (map fst two_dir)) (fst (api_list two_api pre start None None c))"
      using pages two_pages by (cases start) (auto simp: answers_def two_api_def after whole)
  next
    fix c token k
    assume "two_tokens token = Some k"
    then have "token = [84]" "k = [65, 73]" by (auto simp: two_tokens_def split: if_splits)
    then show "answers two_xml two_tokens (keys_after (Some k) (map fst two_dir))
        (fst (api_list two_api pre None (Some token) None c))"
      using pages(2) two_pages(2) by (simp add: answers_def two_api_def after)
  qed
  then show "honest_list two_xml two_api pre two_dir" unfolding honest_list_def by blast
  show "honest_get two_api two_dir" by (simp add: honest_get_def two_api_def two_dir_def)
  show "in_order two_dir" by (simp add: in_order_def two_dir_def)
qed

text \<open>
  C20: the paging of a listing ends and gives exactly the keys after the position asked for, in
  order, whatever the sizes of the pages and whatever the server makes its tokens of, or ends
  with the error of a call. The server has to keep the contract of S3: it continues a listing
  for a token it has issued, sent as the token and without \<open>start-after\<close>.
\<close>

theorem listing_pages_complete:
  assumes "honest_list xml api pre dir" and "in_order dir"
  shows "\<exists>c r. list_all_keys_after xml api pre start p = Some (p\<lparr>sp_client := c\<rparr>, [], r) \<and>
    ((\<exists>e. r = Inl (Poll_Error e)) \<or> (\<exists>m. r = Inr (keys_after start (map fst dir), m)))"
proof -
  obtain stands_for where honest: "honest_with stands_for xml api pre dir"
    using assms(1) unfolding honest_list_def by blast
  have "asks_after stands_for start True None start" by (simp add: asks_after_def)
  from key_pages_honest [OF honest assms(2) this, of "[]" 0 "sp_client p"] show ?thesis
    by (auto simp: list_all_keys_after_def)
qed

theorem listing_pages_complete_witness:
  "\<exists>c r. list_all_keys_after two_xml two_api [] None one_poller = Some (one_poller\<lparr>sp_client := c\<rparr>, [], r) \<and>
    ((\<exists>e. r = Inl (Poll_Error e)) \<or> (\<exists>m. r = Inr ([[65, 73], [66, 73]], m)))"
  using listing_pages_complete [OF two_honest(1,3), of "[]" None one_poller]
  by (simp add: keys_after_def two_dir_def)

text \<open>
  C18: every chunk of a volume reaches the assembler exactly once and in key order. Over any
  number of ticks while the volume's directory grows, with any of the calls failing at any
  tick, what the poller has sent is exactly the chunks of the directory as its last
  successful poll saw it; after a successful poll nothing of the directory is missing. This is
  for a volume the poller has begun with: the directory only grows, each time behind its
  newest key; it is the same for less than twelve ticks in a row, after which the poller looks
  for a skipped volume; no directory but the last holds the chunk that ends the volume; the
  bucket keeps the contract of S3; the receiver takes what is sent; and the count of errors
  stays within its 32 bits.
\<close>

theorem chunks_delivered_once:
  assumes "sp_last_completed p = Some v" and "v + 1 < 2 ^ 64" and "sp_last_seen p = None"
    and "sp_empty_polls p = 0" and "sp_errors p + length hist < 2 ^ 32"
    and "volume_served xml api (volume_prefix (sp_site_id p) (v + 1)) hist"
    and "\<forall>d\<in>set (butlast (dirs hist)). unfinished d"
  shows "\<exists>p' outs d. poller_run xml api (Running p) (ticks hist) = (Running p', outs) \<and>
    sent outs = chunks_of d \<and> d \<in> set (dirs hist) \<and>
    (sp_errors p' = 0 \<longrightarrow> d = List.last (dirs hist))"
  using history_run [OF assms(2,1,3-7)] by (auto simp: delivered_def)

theorem chunks_delivered_once_witness:
  "\<exists>p' outs d. poller_run two_xml (\<lambda>_. two_api) (Running one_poller) [Tick 0 None, Tick 7 None] = (Running p', outs) \<and>
    sent outs = chunks_of d \<and> d \<in> {[], two_dir} \<and> (sp_errors p' = 0 \<longrightarrow> d = two_dir)"
proof -
  have served: "volume_served two_xml (\<lambda>_. two_api) pre [(0, two_dir), (7, two_dir)]" for pre
    using two_honest by (auto simp: volume_served_def dirs_def less_Suc_eq)
  have "unfinished two_dir" "unfinished []"
    by (simp_all add: unfinished_def two_dir_def chunk_kind_from_key_def)
  then show ?thesis
    using chunks_delivered_once [of one_poller 5 "[(0, two_dir), (7, two_dir)]" two_xml "\<lambda>_. two_api"] served
    by (simp add: dirs_def ticks_def one_poller_def poller_new_def)
qed

end
