(* ===== verification/Grid.thy ===== *)
theory Grid
  imports Event "HOL-Library.Sublist"
begin

text \<open>
  Gridding, \<open>compute/grid.rs\<close>: one closed sweep becomes a dense polar grid per
  product. Index operations that would panic in Rust are fallible in the model (the
  type \<open>fault\<close>), so that the absence of panics is a theorem and not an assumption.
  Floating-point values are those of the theory \<open>Floats\<close>.
\<close>

section \<open>Checked indexing\<close>

datatype fault = Index_Out_Of_Bounds | Division_By_Zero

definition at_index :: "'a list \<Rightarrow> nat \<Rightarrow> fault + 'a" where
  "at_index xs i = (if i < length xs then Ok (xs ! i) else Err Index_Out_Of_Bounds)"

definition set_index :: "nat \<Rightarrow> 'a \<Rightarrow> 'a list \<Rightarrow> fault + 'a list" where
  "set_index i v xs = (if i < length xs then Ok (xs[i := v]) else Err Index_Out_Of_Bounds)"

section \<open>Grids\<close>

record sweep_grid =
  g_product :: display_product
  g_azimuth_count :: u16
  g_gate_count :: u16
  g_first_gate_m :: u16
  g_gate_width_m :: u16
  g_elevation_number :: u8
  g_elevation_deg :: fp
  g_nyquist_velocity_mps :: "fp option"
  g_scale :: fp
  g_offset :: fp
  g_cells :: bytes
  g_filled_azimuths :: u16

definition grid_cell :: "sweep_grid \<Rightarrow> u16 \<Rightarrow> u16 \<Rightarrow> fault + u8" where
  "grid_cell g azimuth gate = at_index (g_cells g) (unat azimuth * unat (g_gate_count g) + unat gate)"

definition grid_physical :: "sweep_grid \<Rightarrow> u16 \<Rightarrow> u16 \<Rightarrow> fault + fp option" where
  "grid_physical g azimuth gate =
     rbind (grid_cell g azimuth gate) (\<lambda>raw.
     Ok (if raw < 2 then None
         else Some (fdiv F32 (fsub F32 (fp_of_nat F32 (unat raw)) (g_offset g)) (g_scale g))))"

definition grid_byte_len :: "sweep_grid \<Rightarrow> nat" where
  "grid_byte_len g = length (g_cells g)"

section \<open>ZDR requantisation\<close>

definition ZDR_DISPLAY_MIN_DB :: fp where
  "ZDR_DISPLAY_MIN_DB = FFin True 8"

definition ZDR_DISPLAY_MAX_DB :: fp where
  "ZDR_DISPLAY_MAX_DB = FFin False 8"

definition zdr_effective_scale_offset :: "fp \<times> fp" where
  "zdr_effective_scale_offset =
     (let scale = fdiv F32 (f32lit 253) (fsub F32 ZDR_DISPLAY_MAX_DB ZDR_DISPLAY_MIN_DB);
          offset = fsub F32 (f32lit 2) (fmul F32 ZDR_DISPLAY_MIN_DB scale)
      in (scale, offset))"

definition quantise_zdr :: "fp \<Rightarrow> fp \<Rightarrow> u8" where
  "quantise_zdr physical scale =
     (let cell = fround (fadd F32 (f32lit 2)
                   (fmul F32 (fsub F32 physical ZDR_DISPLAY_MIN_DB) scale))
      in fp_to_u8 (fclamp cell (FFin False 2) (FFin False 255)))"

section \<open>Geometry\<close>

text \<open>\<open>max_by_key\<close> over an iterator: the last of the greatest elements.\<close>

definition max_by_count :: "(u8 \<times> nat) list \<Rightarrow> (u8 \<times> nat) option" where
  "max_by_count cs =
     fold (\<lambda>c best. case best of None \<Rightarrow> Some c
                     | Some b \<Rightarrow> if snd b \<le> snd c then Some c else Some b) cs None"

definition modal_azimuth_count ::
  "((u8 \<times> nat) list \<Rightarrow> (u8 \<times> nat) list) \<Rightarrow> sweep \<Rightarrow> u16 \<times> event option" where
  "modal_azimuth_count enum s =
     (let counts = fold (\<lambda>r. bump (r_azimuth_spacing_code r)) (sw_radials s) [];
          modal_code = map_option fst (max_by_count (hash_order enum counts))
      in if modal_code = Some 1 then (720, None)
         else if modal_code = Some 2 then (360, None)
         else
           let inferred = (if 540 \<le> length (sw_radials s) then 720 else 360)
           in (inferred, Some (UnknownAzimuthSpacingCode (sw_elevation_number s) (unat inferred))))"

definition azimuth_slot :: "fp \<Rightarrow> u16 \<Rightarrow> fault + u16" where
  "azimuth_slot azimuth_deg azimuth_count =
     (let spacing_deg = fdiv F32 (f32lit 360) (fp_of_nat F32 (unat azimuth_count));
          idx = fp_to_i64 (ffloor (fdiv F32 azimuth_deg spacing_deg))
      in if azimuth_count = 0 then Err Division_By_Zero
         else Ok (of_int (idx mod int (unat azimuth_count))))"

record source_geometry =
  sg_gate_count :: u16
  sg_first_gate_m :: u16
  sg_gate_width_m :: u16
  sg_word_size :: u8
  sg_scale :: fp
  sg_offset :: fp

fun first_moment :: "product_kind \<Rightarrow> radial list \<Rightarrow> product_data option" where
  "first_moment k [] = None"
| "first_moment k (r # rs) =
     (case product_map_get (r_products r) k of Some m \<Rightarrow> Some m | None \<Rightarrow> first_moment k rs)"

definition source_geometry_of :: "sweep \<Rightarrow> product_kind \<Rightarrow> source_geometry option" where
  "source_geometry_of s k =
     map_option (\<lambda>m. \<lparr>sg_gate_count = pd_gate_count m, sg_first_gate_m = pd_first_gate_m m,
         sg_gate_width_m = pd_gate_width_m m, sg_word_size = pd_word_size m,
         sg_scale = pd_scale m, sg_offset = pd_offset m\<rparr>) (first_moment k (sw_radials s))"

section \<open>Gridding one product\<close>

definition geometry_matches :: "source_geometry \<Rightarrow> product_data \<Rightarrow> bool" where
  "geometry_matches geo m =
     (pd_gate_count m = sg_gate_count geo \<and> pd_first_gate_m m = sg_first_gate_m geo \<and>
      pd_gate_width_m m = sg_gate_width_m geo \<and> pd_word_size m = sg_word_size geo)"

definition encode_cell :: "source_geometry \<Rightarrow> bool \<Rightarrow> fp \<Rightarrow> u16 \<Rightarrow> u8" where
  "encode_cell geo is_zdr16 eff_scale raw =
     (if \<not> is_zdr16 then of_nat (unat raw)
      else if raw < 2 then of_nat (unat raw)
      else
        let physical = fdiv F32 (fsub F32 (fp_of_nat F32 (unat raw)) (sg_offset geo)) (sg_scale geo)
        in quantise_zdr physical eff_scale)"

fun write_gates ::
  "source_geometry \<Rightarrow> bool \<Rightarrow> fp \<Rightarrow> product_data \<Rightarrow> nat \<Rightarrow> nat list \<Rightarrow> bytes \<Rightarrow> fault + bytes" where
  "write_gates geo z sc m row [] cells = Ok cells"
| "write_gates geo z sc m row (gate # gates) cells =
     (case raw_gate m gate of
        None \<Rightarrow> write_gates geo z sc m row gates cells
      | Some raw \<Rightarrow>
          rbind (set_index (row + gate) (encode_cell geo z sc raw) cells) (\<lambda>cells.
          write_gates geo z sc m row gates cells))"

record grid_state =
  gs_cells :: bytes
  gs_filled :: "bool list"
  gs_inconsistent_skipped :: nat
  gs_duplicate_slots :: nat

definition grid_radial ::
  "product_kind \<Rightarrow> source_geometry \<Rightarrow> u16 \<Rightarrow> bool \<Rightarrow> fp \<Rightarrow> grid_state \<Rightarrow> radial \<Rightarrow> fault + grid_state" where
  "grid_radial kind geo azimuth_count is_zdr16 eff_scale st r =
     (case product_map_get (r_products r) kind of
        None \<Rightarrow> Ok st
      | Some moment \<Rightarrow>
          if \<not> geometry_matches geo moment
          then Ok (st\<lparr>gs_inconsistent_skipped := gs_inconsistent_skipped st + 1\<rparr>)
          else
            rbind (azimuth_slot (r_azimuth_deg r) azimuth_count) (\<lambda>slot.
            rbind (at_index (gs_filled st) (unat slot)) (\<lambda>was_filled.
            rbind (set_index (unat slot) True (gs_filled st)) (\<lambda>filled.
            rbind (write_gates geo is_zdr16 eff_scale moment
                     (unat slot * unat (sg_gate_count geo)) [0..<unat (sg_gate_count geo)]
                     (gs_cells st)) (\<lambda>cells.
            Ok (st\<lparr>gs_cells := cells, gs_filled := filled,
                   gs_duplicate_slots := gs_duplicate_slots st + (if was_filled then 1 else 0)\<rparr>))))))"

definition grid_sweep ::
  "((u8 \<times> nat) list \<Rightarrow> (u8 \<times> nat) list) \<Rightarrow> sweep \<Rightarrow> display_product \<Rightarrow>
   fault + (sweep_grid \<times> event list) option" where
  "grid_sweep enum s product =
     (case source_moment product of
        None \<Rightarrow> Ok None
      | Some kind \<Rightarrow>
          let (azimuth_count, spacing_event) = modal_azimuth_count enum s;
              events = (case spacing_event of None \<Rightarrow> [] | Some e \<Rightarrow> [e])
          in if azimuth_count = 0 then Ok None
             else
               (case source_geometry_of s kind of
                  None \<Rightarrow> Ok None
                | Some geo \<Rightarrow>
                    if sg_gate_width_m geo = 0 \<or> sg_gate_count geo = 0 then
                      (let events = events @ [DegenerateGateGeometry product (sw_elevation_number s)]
                       in Ok None)
                    else
                      let gate_count = sg_gate_count geo;
                          is_zdr16 = (sg_word_size geo = 16);
                          (eff_scale, eff_offset) =
                            (if is_zdr16 then zdr_effective_scale_offset
                             else (sg_scale geo, sg_offset geo));
                          st0 = \<lparr>gs_cells = replicate (unat azimuth_count * unat gate_count) 0,
                                 gs_filled = replicate (unat azimuth_count) False,
                                 gs_inconsistent_skipped = 0, gs_duplicate_slots = 0\<rparr>
                      in rbind (rfold (grid_radial kind geo azimuth_count is_zdr16 eff_scale) st0
                                  (sw_radials s)) (\<lambda>st.
                         let events = events @
                               (if 0 < gs_inconsistent_skipped st
                                then [InconsistentGateGeometry product (sw_elevation_number s)
                                        (gs_inconsistent_skipped st)] else []) @
                               (if 0 < gs_duplicate_slots st
                                then [DuplicateAzimuthSlot product (sw_elevation_number s)
                                        (gs_duplicate_slots st)] else []);
                             filled_azimuths = of_nat (length (filter (\<lambda>f. f) (gs_filled st)))
                         in Ok (Some
                              (\<lparr>g_product = product, g_azimuth_count = azimuth_count,
                                g_gate_count = gate_count, g_first_gate_m = sg_first_gate_m geo,
                                g_gate_width_m = sg_gate_width_m geo,
                                g_elevation_number = sw_elevation_number s,
                                g_elevation_deg = sw_elevation_deg s,
                                g_nyquist_velocity_mps = sw_nyquist_velocity_mps s,
                                g_scale = eff_scale, g_offset = eff_offset, g_cells = gs_cells st,
                                g_filled_azimuths = filled_azimuths\<rparr>, events)))))"

definition grid_all_base_products ::
  "((u8 \<times> nat) list \<Rightarrow> (u8 \<times> nat) list) \<Rightarrow> sweep \<Rightarrow> fault + (sweep_grid list \<times> event list)" where
  "grid_all_base_products enum s =
     rfold (\<lambda>(grids, events) (product, _).
        rbind (grid_sweep enum s product) (\<lambda>res.
        Ok (case res of None \<Rightarrow> (grids, events)
            | Some (g, ev) \<Rightarrow> (grids @ [g], events @ ev)))) ([], []) BASE_PRODUCTS"

text \<open>A requantised value is a data cell, or zero for NaN: never the range-folded code.\<close>

lemma requantised_not_folded [simp]:
  "fp_to_u8 (fclamp c (FFin False 2) (FFin False 255)) \<noteq> 1"
proof (cases "c = FNaN")
  case True
  then show ?thesis by (simp add: fp_to_u8_def fclamp_def)
next
  case False
  let ?k = "fp_to_int 0 255 (fclamp c (FFin False 2) (FFin False 255))"
  have k: "2 \<le> ?k" "?k \<le> 255"
    using fp_to_int_clamped [OF _ _ _ _ False, of "FFin False 2" 2 "FFin False 255" 255 0 255]
    by simp_all
  then have "unat (of_int ?k :: u8) = nat ?k"
    by (simp add: unsigned_of_int take_bit_int_eq_self)
  then have "unat (fp_to_u8 (fclamp c (FFin False 2) (FFin False 255))) \<noteq> unat (1 :: u8)"
    using k by (simp add: fp_to_u8_def Let_def)
  then show ?thesis by metis
qed

section \<open>What the loop computes\<close>

lemma azimuth_slot_total:
  assumes "azimuth_count \<noteq> 0"
  shows "\<exists>slot. azimuth_slot az azimuth_count = Inr slot \<and> unat slot < unat azimuth_count"
proof -
  let ?n = "int (unat azimuth_count)"
  define k where "k = fp_to_i64 (ffloor (fdiv F32 az
     (fdiv F32 (f32lit 360) (fp_of_nat F32 (unat azimuth_count))))) mod ?n"
  have n: "0 < ?n" using assms by (simp add: word_greater_zero_iff unat_gt_0 del: of_nat_unat)
  have k: "0 \<le> k" "k < ?n" using n by (simp_all add: k_def)
  have "?n < 65536" using unat_u16_less [of azimuth_count] by linarith
  then have "k < 65536" using k by linarith
  then have "unat (of_int k :: u16) = nat k"
    using k by (simp add: unsigned_of_int take_bit_int_eq_self)
  moreover have "nat k < unat azimuth_count" using k by (simp add: nat_less_iff)
  ultimately show ?thesis
    using assms by (simp add: azimuth_slot_def k_def)
qed

text \<open>The radials that the loop grids: their slot and their moment, in order.\<close>

definition slot_of :: "u16 \<Rightarrow> radial \<Rightarrow> nat" where
  "slot_of n r = (case azimuth_slot (r_azimuth_deg r) n of Inr s \<Rightarrow> unat s | Inl _ \<Rightarrow> 0)"

fun contributions ::
  "product_kind \<Rightarrow> source_geometry \<Rightarrow> u16 \<Rightarrow> radial list \<Rightarrow> (nat \<times> product_data) list" where
  "contributions k geo n [] = []"
| "contributions k geo n (r # rs) =
     (case product_map_get (r_products r) k of
        None \<Rightarrow> contributions k geo n rs
      | Some m \<Rightarrow> if geometry_matches geo m then (slot_of n r, m) # contributions k geo n rs
                  else contributions k geo n rs)"

text \<open>The cell a list of contributions leaves at a slot and gate: the last writer's.\<close>

fun cell_value ::
  "source_geometry \<Rightarrow> bool \<Rightarrow> fp \<Rightarrow> nat \<Rightarrow> nat \<Rightarrow> u8 \<Rightarrow> (nat \<times> product_data) list \<Rightarrow> u8" where
  "cell_value geo z sc a g v [] = v"
| "cell_value geo z sc a g v ((a', m) # cs) =
     cell_value geo z sc a g
       (if a' = a then (case raw_gate m g of None \<Rightarrow> v | Some raw \<Rightarrow> encode_cell geo z sc raw)
        else v) cs"

lemma write_gates_spec:
  assumes "\<forall>g\<in>set gates. row + g < length cells"
  shows "\<exists>cells'. write_gates geo z sc m row gates cells = Inr cells' \<and>
    length cells' = length cells \<and>
    (\<forall>i<length cells. cells' ! i =
       (if row \<le> i \<and> i - row \<in> set gates
        then (case raw_gate m (i - row) of None \<Rightarrow> cells ! i | Some raw \<Rightarrow> encode_cell geo z sc raw)
        else cells ! i))"
  using assms
proof (induction gates arbitrary: cells)
  case Nil
  then show ?case by simp
next
  case (Cons g gates)
  show ?case
  proof (cases "raw_gate m g")
    case None
    obtain cells' where c: "write_gates geo z sc m row gates cells = Inr cells'"
      "length cells' = length cells"
      "\<forall>i<length cells. cells' ! i =
       (if row \<le> i \<and> i - row \<in> set gates
        then (case raw_gate m (i - row) of None \<Rightarrow> cells ! i | Some raw \<Rightarrow> encode_cell geo z sc raw)
        else cells ! i)"
      using Cons.IH [of cells] Cons.prems by auto
    show ?thesis
      by (rule exI [of _ cells']) (use c None in \<open>auto split: option.splits\<close>)
  next
    case (Some raw)
    let ?c = "cells[row + g := encode_cell geo z sc raw]"
    obtain cells' where c: "write_gates geo z sc m row gates ?c = Inr cells'"
      "length cells' = length cells"
      "\<forall>i<length cells. cells' ! i =
       (if row \<le> i \<and> i - row \<in> set gates
        then (case raw_gate m (i - row) of None \<Rightarrow> ?c ! i | Some raw \<Rightarrow> encode_cell geo z sc raw)
        else ?c ! i)"
      using Cons.IH [of ?c] Cons.prems by auto
    have idx: "row + g < length cells" using Cons.prems by simp
    show ?thesis
      by (rule exI [of _ cells'])
        (use c Some idx in \<open>auto simp: set_index_def nth_list_update split: option.splits\<close>)
  qed
qed

definition grid_inv ::
  "source_geometry \<Rightarrow> u16 \<Rightarrow> bool \<Rightarrow> fp \<Rightarrow> grid_state \<Rightarrow> grid_state \<Rightarrow> (nat \<times> product_data) list \<Rightarrow> bool" where
  "grid_inv geo n z sc st0 st cs =
     (length (gs_cells st) = unat n * unat (sg_gate_count geo) \<and> length (gs_filled st) = unat n \<and>
      (\<forall>a<unat n. gs_filled st ! a = (gs_filled st0 ! a \<or> a \<in> fst ` set cs)) \<and>
      (\<forall>a<unat n. \<forall>g<unat (sg_gate_count geo).
         gs_cells st ! (a * unat (sg_gate_count geo) + g) =
           cell_value geo z sc a g (gs_cells st0 ! (a * unat (sg_gate_count geo) + g)) cs))"

lemma row_index: "a < n \<Longrightarrow> g < k \<Longrightarrow> a * k + g < n * (k :: nat)"
  by (metis add.commute mult.commute mult_less_mono1 nat_add_left_cancel_less
      add_mult_distrib2 less_le_trans Suc_leI mult_Suc_right mult_le_mono2)
lemma count_set_true:
  "i < length xs \<Longrightarrow> length (filter (\<lambda>f. f) (xs[i := True])) = length (filter (\<lambda>f. f) xs) + (if xs ! i then 0 else 1)"
proof (induction xs arbitrary: i)
  case Nil
  then show ?case by simp
next
  case (Cons x xs)
  then show ?case by (cases i) auto
qed

text \<open>One gridded radial.\<close>

lemma grid_radial_step:
  assumes n: "n \<noteq> 0" and lens: "length (gs_cells st) = unat n * unat (sg_gate_count geo)"
    "length (gs_filled st) = unat n"
    and m: "product_map_get (r_products r) k = Some m" "geometry_matches geo m"
  shows "\<exists>st'. grid_radial k geo n z sc st r = Inr st' \<and>
    grid_inv geo n z sc st st' [(slot_of n r, m)] \<and> slot_of n r < unat n \<and>
    gs_inconsistent_skipped st' = gs_inconsistent_skipped st \<and>
    length (filter (\<lambda>f. f) (gs_filled st')) + gs_duplicate_slots st' =
      length (filter (\<lambda>f. f) (gs_filled st)) + gs_duplicate_slots st + 1"
proof -
  obtain slot where slot: "azimuth_slot (r_azimuth_deg r) n = Inr slot" "unat slot < unat n"
    using azimuth_slot_total [OF n] by blast
  let ?k = "unat (sg_gate_count geo)"
  have so: "slot_of n r = unat slot" by (simp add: slot_of_def slot)
  have idx: "\<forall>g\<in>set [0..<?k]. unat slot * ?k + g < length (gs_cells st)"
    using row_index [OF slot(2)] lens by simp
  obtain cells' where c: "write_gates geo z sc m (unat slot * ?k) [0..<?k] (gs_cells st) = Inr cells'"
    "length cells' = length (gs_cells st)"
    "\<forall>i<length (gs_cells st). cells' ! i =
       (if unat slot * ?k \<le> i \<and> i - unat slot * ?k \<in> set [0..<?k]
        then (case raw_gate m (i - unat slot * ?k) of None \<Rightarrow> gs_cells st ! i
              | Some raw \<Rightarrow> encode_cell geo z sc raw)
        else gs_cells st ! i)"
    using write_gates_spec [OF idx] by blast
  define st' where "st' = st\<lparr>gs_cells := cells', gs_filled := (gs_filled st)[unat slot := True],
    gs_duplicate_slots := gs_duplicate_slots st + (if gs_filled st ! unat slot then 1 else 0)\<rparr>"
  have run: "grid_radial k geo n z sc st r = Inr st'"
    using m slot c(1) lens by (simp add: grid_radial_def at_index_def set_index_def st'_def)
  have cell: "cells' ! (a * ?k + g) =
      (if a = unat slot then (case raw_gate m g of None \<Rightarrow> gs_cells st ! (a * ?k + g)
         | Some raw \<Rightarrow> encode_cell geo z sc raw) else gs_cells st ! (a * ?k + g))"
    if "a < unat n" "g < ?k" for a g
  proof -
    have i: "a * ?k + g < length (gs_cells st)" using row_index [OF that] lens by simp
    have row: "(unat slot * ?k \<le> a * ?k + g \<and> a * ?k + g - unat slot * ?k \<in> set [0..<?k]) = (a = unat slot)"
    proof
      assume h: "unat slot * ?k \<le> a * ?k + g \<and> a * ?k + g - unat slot * ?k \<in> set [0..<?k]"
      then have "a * ?k + g < (unat slot + 1) * ?k"
        using less_diff_conv2 [of "unat slot * ?k" "a * ?k + g" ?k] by (simp add: add.commute)
      then have "(a * ?k + g) div ?k < unat slot + 1" by (simp add: less_mult_imp_div_less)
      moreover have "unat slot \<le> (a * ?k + g) div ?k"
        using h that(2) by (metis div_le_mono div_mult_self_is_m not_less_zero neq0_conv)
      ultimately show "a = unat slot" using that(2) by simp
    next
      assume "a = unat slot"
      then show "unat slot * ?k \<le> a * ?k + g \<and> a * ?k + g - unat slot * ?k \<in> set [0..<?k]"
        using that(2) by simp
    qed
    show ?thesis using c(3) i row by auto
  qed
  have "grid_inv geo n z sc st st' [(slot_of n r, m)]"
    using lens c(2) cell slot(2) by (auto simp: grid_inv_def st'_def so nth_list_update)
  then show ?thesis
    using run slot(2) lens count_set_true [of "unat slot" "gs_filled st"]
    by (auto simp: so st'_def)
qed

text \<open>The loop: total, and the contributions determine every cell and counter.\<close>

lemma grid_loop:
  assumes "n \<noteq> 0" "length (gs_cells st) = unat n * unat (sg_gate_count geo)"
    "length (gs_filled st) = unat n"
  shows "\<exists>st'. rfold (grid_radial k geo n z sc) st rs = Inr st' \<and>
    grid_inv geo n z sc st st' (contributions k geo n rs) \<and>
    length (filter (\<lambda>f. f) (gs_filled st')) + gs_duplicate_slots st' =
      length (filter (\<lambda>f. f) (gs_filled st)) + gs_duplicate_slots st + length (contributions k geo n rs)"
  using assms(2,3)
proof (induction rs arbitrary: st)
  case Nil
  then show ?case by (simp add: grid_inv_def)
next
  case (Cons r rs)
  show ?case
  proof (cases "\<exists>m. product_map_get (r_products r) k = Some m \<and> geometry_matches geo m")
    case False
    then have "\<exists>st1. grid_radial k geo n z sc st r = Inr st1 \<and> gs_cells st1 = gs_cells st \<and>
        gs_filled st1 = gs_filled st \<and> gs_duplicate_slots st1 = gs_duplicate_slots st"
      by (cases "product_map_get (r_products r) k") (simp_all add: grid_radial_def)
    then obtain st1 where st1: "grid_radial k geo n z sc st r = Inr st1"
      "gs_cells st1 = gs_cells st" "gs_filled st1 = gs_filled st"
      "gs_duplicate_slots st1 = gs_duplicate_slots st" by blast
    have "contributions k geo n (r # rs) = contributions k geo n rs"
      using False by (auto split: option.splits)
    then show ?thesis
      using Cons.IH [of st1] Cons.prems st1 by (simp add: grid_inv_def)
  next
    case True
    then obtain m where m: "product_map_get (r_products r) k = Some m" "geometry_matches geo m"
      by blast
    obtain st1 where st1: "grid_radial k geo n z sc st r = Inr st1"
      "grid_inv geo n z sc st st1 [(slot_of n r, m)]"
      "length (filter (\<lambda>f. f) (gs_filled st1)) + gs_duplicate_slots st1 =
        length (filter (\<lambda>f. f) (gs_filled st)) + gs_duplicate_slots st + 1"
      using grid_radial_step [OF assms(1) Cons.prems m] by blast
    have lens1: "length (gs_cells st1) = unat n * unat (sg_gate_count geo)"
      "length (gs_filled st1) = unat n" using st1(2) by (simp_all add: grid_inv_def)
    obtain st' where st': "rfold (grid_radial k geo n z sc) st1 rs = Inr st'"
      "grid_inv geo n z sc st1 st' (contributions k geo n rs)"
      "length (filter (\<lambda>f. f) (gs_filled st')) + gs_duplicate_slots st' =
        length (filter (\<lambda>f. f) (gs_filled st1)) + gs_duplicate_slots st1 + length (contributions k geo n rs)"
      using Cons.IH [of st1] lens1 by blast
    have cs: "contributions k geo n (r # rs) = (slot_of n r, m) # contributions k geo n rs"
      using m by simp
    have "grid_inv geo n z sc st st' ((slot_of n r, m) # contributions k geo n rs)"
      using st1(2) st'(2) by (auto simp: grid_inv_def)
    then show ?thesis
      unfolding cs using st1 st' by simp
  qed
qed

section \<open>The azimuth slot, exactly\<close>

text \<open>
  The two spacings are exact (a half and one degree), and dividing a representable angle
  by them is too: the slot is the mathematical one.
\<close>

lemma pow2_m1: "pow2 (-1) = 1 / 2"
  by (simp add: pow2_def)

lemma representable_double:
  assumes "representable F32 m" "m \<le> 2 ^ 60"
  shows "representable F32 (2 * m)"
proof -
  obtain k q where k: "0 \<le> k" "k < 2 ^ prec F32" "emin F32 - (int (prec F32) - 1) \<le> q"
    "m = of_int k * pow2 q"
    using assms(1) by (auto simp: representable_def)
  have "2 * m = of_int k * pow2 (q + 1)"
    using pow2_add [of q 1] by (simp add: k(4) pow2_def)
  moreover have "2 * m < pow2 128"
  proof -
    have "2 * m \<le> 2 ^ 61" using assms(2) by simp
    also have "\<dots> < (2 ^ 128 :: rat)" by simp
    finally show ?thesis by (simp add: pow2_def)
  qed
  ultimately show ?thesis
    using k by (intro representable_F32I [of k "q + 1"]) (simp_all add: F32_def)
qed

lemma azimuth_spacing_exact:
  assumes "representable F32 m" "m \<le> 2 ^ 60"
  shows "fdiv F32 (FFin s m) (fdiv F32 (f32lit 360) (fp_of_nat F32 720)) = FFin s (2 * m)"
    "fdiv F32 (FFin s m) (fdiv F32 (f32lit 360) (fp_of_nat F32 360)) = FFin s m"
proof -
  have "f32lit 360 = FFin False 360" "fp_of_nat F32 720 = FFin False 720"
    "fp_of_nat F32 360 = FFin False 360" "fdiv F32 (FFin False 360) (FFin False 720) = FFin False (1/2)"
    "fdiv F32 (FFin False 360) (FFin False 360) = FFin False 1"
    by (simp_all add: float_eval)
  then show "fdiv F32 (FFin s m) (fdiv F32 (f32lit 360) (fp_of_nat F32 720)) = FFin s (2 * m)"
    "fdiv F32 (FFin s m) (fdiv F32 (f32lit 360) (fp_of_nat F32 360)) = FFin s m"
    using round_fp_exact [OF representable_double [OF assms], of s] round_fp_exact [OF assms(1), of s]
    by (simp_all add: mult.commute)
qed

lemma fp_to_i64_floor:
  assumes "0 \<le> m" "m \<le> 2 ^ 62"
  shows "fp_to_i64 (ffloor (FFin s m)) = \<lfloor>fp_val (FFin s m)\<rfloor>"
proof -
  have f: "\<lfloor>m\<rfloor> \<le> 2 ^ 62" "0 \<le> \<lfloor>m\<rfloor>" using assms by (simp_all add: floor_le_iff)
  have c: "\<lceil>m\<rceil> \<le> 2 ^ 62" "0 \<le> \<lceil>m\<rceil>" using assms by (simp_all add: ceiling_le_iff le_ceiling_iff)
  show ?thesis
    using f c by (cases s) (simp_all add: fp_to_i64_def ceiling_def)
qed

lemma slot_exact:
  assumes "f32_of_bits w = az" "fp_is_finite az" "\<bar>fp_val az\<bar> \<le> 2 ^ 60" "n = 720 \<or> n = 360"
  shows "azimuth_slot az n = Inr (of_int (\<lfloor>fp_val az * of_nat (unat n) / 360\<rfloor> mod int (unat n)))"
proof -
  obtain s m where az: "az = FFin s m" using assms(2) by (cases az) auto
  have rep: "representable F32 m" using f32_of_bits_representable assms(1) az by simp
  then have m0: "0 \<le> m" by (auto simp: representable_def)
  have m: "m \<le> 2 ^ 60" using assms(3) az m0 by (simp split: if_splits)
  have m1: "m \<le> 2 ^ 62" "2 * m \<le> 2 ^ 62" "0 \<le> 2 * m" using m m0 by simp_all
  note ex = azimuth_spacing_exact [OF rep m]
  have "fp_to_i64 (ffloor (FFin s (2 * m))) = \<lfloor>fp_val az * 720 / 360\<rfloor>"
    "fp_to_i64 (ffloor (FFin s m)) = \<lfloor>fp_val az * 360 / 360\<rfloor>"
    using fp_to_i64_floor [of "2 * m" s] fp_to_i64_floor [of m s] m1 m0 by (simp_all add: az mult.commute)
  with assms(4) ex show ?thesis by (auto simp: azimuth_slot_def Let_def az)
qed

section \<open>Gridding a product\<close>

lemma modal_azimuth_count_cases:
  "fst (modal_azimuth_count enum s) = 720 \<or> fst (modal_azimuth_count enum s) = 360"
  by (simp add: modal_azimuth_count_def Let_def)

text \<open>The scale pair and the encoding flag that the gridding of a geometry uses.\<close>

definition is_zdr16 :: "source_geometry \<Rightarrow> bool" where
  "is_zdr16 geo = (sg_word_size geo = 16)"

definition eff_scale_offset :: "source_geometry \<Rightarrow> fp \<times> fp" where
  "eff_scale_offset geo =
     (if is_zdr16 geo then zdr_effective_scale_offset else (sg_scale geo, sg_offset geo))"

lemma grid_sweep_run:
  assumes "source_moment product = Some kind" "source_geometry_of s kind = Some geo"
    "sg_gate_width_m geo \<noteq> 0" "sg_gate_count geo \<noteq> 0"
    "n = fst (modal_azimuth_count enum s)"
  shows "\<exists>st ev. grid_sweep enum s product =
      Inr (Some (\<lparr>g_product = product, g_azimuth_count = n, g_gate_count = sg_gate_count geo,
        g_first_gate_m = sg_first_gate_m geo, g_gate_width_m = sg_gate_width_m geo,
        g_elevation_number = sw_elevation_number s, g_elevation_deg = sw_elevation_deg s,
        g_nyquist_velocity_mps = sw_nyquist_velocity_mps s, g_scale = fst (eff_scale_offset geo),
        g_offset = snd (eff_scale_offset geo), g_cells = gs_cells st,
        g_filled_azimuths = of_nat (length (filter (\<lambda>f. f) (gs_filled st)))\<rparr>, ev)) \<and>
    grid_inv geo n (is_zdr16 geo) (fst (eff_scale_offset geo))
      \<lparr>gs_cells = replicate (unat n * unat (sg_gate_count geo)) 0,
       gs_filled = replicate (unat n) False, gs_inconsistent_skipped = 0, gs_duplicate_slots = 0\<rparr>
      st (contributions kind geo n (sw_radials s))"
proof -
  let ?st0 = "\<lparr>gs_cells = replicate (unat n * unat (sg_gate_count geo)) 0,
       gs_filled = replicate (unat n) False, gs_inconsistent_skipped = 0, gs_duplicate_slots = 0\<rparr>"
  have n: "n \<noteq> 0" using modal_azimuth_count_cases [of enum s] assms(5) by auto
  obtain st where st: "rfold (grid_radial kind geo n (is_zdr16 geo) (fst (eff_scale_offset geo)))
      ?st0 (sw_radials s) = Inr st"
    "grid_inv geo n (is_zdr16 geo) (fst (eff_scale_offset geo)) ?st0 st
      (contributions kind geo n (sw_radials s))"
    using grid_loop [OF n, where st = ?st0 and geo = geo and k = kind and z = "is_zdr16 geo" and
        sc = "fst (eff_scale_offset geo)" and rs = "sw_radials s"] by auto
  obtain spacing where m: "modal_azimuth_count enum s = (n, spacing)"
    using assms(5) by (metis prod.collapse)
  let ?ev = "(case spacing of None \<Rightarrow> [] | Some e \<Rightarrow> [e]) @
       (if 0 < gs_inconsistent_skipped st
        then [InconsistentGateGeometry product (sw_elevation_number s) (gs_inconsistent_skipped st)]
        else []) @
       (if 0 < gs_duplicate_slots st
        then [DuplicateAzimuthSlot product (sw_elevation_number s) (gs_duplicate_slots st)] else [])"
  show ?thesis
    by (rule exI [of _ st], rule exI [of _ ?ev], rule conjI [OF _ st(2)])
      (use st(1) assms(1-4) n in \<open>simp add: grid_sweep_def m is_zdr16_def [symmetric]
         eff_scale_offset_def [symmetric] split_beta\<close>)
qed

lemma grid_sweep_none:
  assumes "\<not> (\<exists>kind geo. source_moment product = Some kind \<and> source_geometry_of s kind = Some geo \<and>
      sg_gate_width_m geo \<noteq> 0 \<and> sg_gate_count geo \<noteq> 0)"
  shows "grid_sweep enum s product = Inr None"
proof -
  obtain n e where m: "modal_azimuth_count enum s = (n, e)" by fastforce
  show ?thesis
    using assms by (auto simp: grid_sweep_def m Let_def split: option.splits)
qed

text \<open>Whatever is degenerate is never among the events that a call returns.\<close>

lemma degenerate_geometry_never_reported:
  assumes "grid_sweep enum s product = Inr (Some (g, ev))"
  shows "DegenerateGateGeometry p e \<notin> set ev"
  using assms
  by (auto simp: grid_sweep_def modal_azimuth_count_def Let_def rbind_eq_Inr_iff
      split: option.splits if_splits prod.splits)

text \<open>
  A tie between the two spacing codes is decided by the iteration order: the same sweep
  has 720 azimuths in one order and 360 in the other.
\<close>

definition spacing_radial :: "u8 \<Rightarrow> radial" where
  "spacing_radial c =
     \<lparr>r_site_id = [], r_scan_time_ms = 0, r_julian_date = 0,
      r_azimuth_deg = FFin False 0, r_elevation_deg = FFin False 0, r_azimuth_number = 0,
      r_azimuth_spacing_code = c, r_radial_status = Intermediate, r_elevation_number = 1,
      r_unambiguous_range_km = None, r_nyquist_velocity_mps = None, r_site_parameters = None,
      r_products = product_map_new\<rparr>"

definition tie_sweep :: sweep where
  "tie_sweep =
     \<lparr>sw_elevation_number = 1, sw_elevation_deg = FFin False 0, sw_nyquist_velocity_mps = None,
      sw_unambiguous_range_km = None, sw_radials = [spacing_radial 1, spacing_radial 2],
      sw_complete = True\<rparr>"

lemma modal_tie_order_dependent:
  "fst (modal_azimuth_count (\<lambda>cs. cs) tie_sweep) = 360"
  "fst (modal_azimuth_count rev tie_sweep) = 720"
  by (simp_all add: modal_azimuth_count_def tie_sweep_def max_by_count_def hash_order_def Let_def
      spacing_radial_def)

section \<open>Properties\<close>

definition sample_moment :: product_data where
  "sample_moment = \<lparr>pd_gate_count = 2, pd_first_gate_m = 2125, pd_gate_width_m = 250,
     pd_word_size = 8, pd_scale = FFin False 2, pd_offset = FFin False 66, pd_data = [80, 1]\<rparr>"

definition sample_grid_sweep :: sweep where
  "sample_grid_sweep =
     (let r = spacing_radial 1 in
      \<lparr>sw_elevation_number = 1, sw_elevation_deg = FFin False (1/2), sw_nyquist_velocity_mps = None,
       sw_unambiguous_range_km = None,
       sw_radials = [r\<lparr>r_products := product_map_insert Ref sample_moment product_map_new\<rparr>],
       sw_complete = True\<rparr>)"

text \<open>
  Gridding never panics, whatever the sweep holds (angles may be NaN or infinite,
  moments may be malformed): every slot and every cell it touches exists. A grid is
  produced exactly when the sweep carries the product's moment and the first radial that
  carries it has a nonzero gate count and gate width.
\<close>

theorem grid_sweep_total:
  "\<exists>res. grid_sweep enum s product = Inr res \<and>
    (res \<noteq> None) = (\<exists>kind geo. source_moment product = Some kind \<and>
       source_geometry_of s kind = Some geo \<and> sg_gate_width_m geo \<noteq> 0 \<and> sg_gate_count geo \<noteq> 0)"
proof (cases "\<exists>kind geo. source_moment product = Some kind \<and> source_geometry_of s kind = Some geo \<and>
      sg_gate_width_m geo \<noteq> 0 \<and> sg_gate_count geo \<noteq> 0")
  case True
  then obtain kind geo where kg: "source_moment product = Some kind" "source_geometry_of s kind = Some geo"
    "sg_gate_width_m geo \<noteq> 0" "sg_gate_count geo \<noteq> 0" by blast
  obtain x where "grid_sweep enum s product = Inr (Some x)"
    using grid_sweep_run [OF kg refl] by meson
  with True show ?thesis by simp
next
  case False
  then show ?thesis using grid_sweep_none [OF False] by simp
qed

text \<open>
  C7: a grid holds, at every azimuth and gate, the encoded value of the last radial of
  that azimuth slot that has that gate, or zero when there is none; radials of another
  geometry contribute nothing, and the count of filled azimuths is the number of
  distinct slots that received a radial.
\<close>

theorem grid_sweep_cells:
  assumes "grid_sweep enum s product = Inr (Some (g, ev))"
    and "source_moment product = Some kind" and "source_geometry_of s kind = Some geo"
    and "a < unat (g_azimuth_count g)" and "gate < unat (g_gate_count g)"
  shows "length (g_cells g) = unat (g_azimuth_count g) * unat (g_gate_count g) \<and>
    grid_cell g (of_nat a) (of_nat gate) =
      Inr (cell_value geo (is_zdr16 geo) (fst (eff_scale_offset geo)) a gate 0
             (contributions kind geo (g_azimuth_count g) (sw_radials s)))"
proof -
  define n where "n = fst (modal_azimuth_count enum s)"
  have "sg_gate_width_m geo \<noteq> 0 \<and> sg_gate_count geo \<noteq> 0"
    using assms(1-3) grid_sweep_none [of product s enum] by fastforce
  then obtain st where g: "g_azimuth_count g = n" "g_gate_count g = sg_gate_count geo"
      "g_cells g = gs_cells st"
    and inv: "grid_inv geo n (is_zdr16 geo) (fst (eff_scale_offset geo))
      \<lparr>gs_cells = replicate (unat n * unat (sg_gate_count geo)) 0,
       gs_filled = replicate (unat n) False, gs_inconsistent_skipped = 0, gs_duplicate_slots = 0\<rparr>
      st (contributions kind geo n (sw_radials s))"
    using grid_sweep_run [OF assms(2,3) _ _ n_def] assms(1) by fastforce
  have lt: "a < 65536" "gate < 65536"
    using assms(4,5) unat_u16_less [of "g_azimuth_count g"] unat_u16_less [of "g_gate_count g"]
    by linarith+
  have u: "unat (of_nat a :: u16) = a" "unat (of_nat gate :: u16) = gate"
    using lt by (simp_all add: unat_of_nat)
  have idx: "a * unat (sg_gate_count geo) + gate < unat n * unat (sg_gate_count geo)"
    using assms(4,5) g by (intro row_index) simp_all
  then show ?thesis
    using inv assms(4,5) g by (auto simp: grid_inv_def grid_cell_def at_index_def u)
qed

theorem grid_sweep_cells_witness:
  "\<exists>g ev. grid_sweep (\<lambda>cs. cs) sample_grid_sweep Reflectivity = Inr (Some (g, ev)) \<and>
     length (g_cells g) = unat (g_azimuth_count g) * unat (g_gate_count g)"
proof -
  let ?geo = "\<lparr>sg_gate_count = 2, sg_first_gate_m = 2125, sg_gate_width_m = 250, sg_word_size = 8,
      sg_scale = FFin False 2, sg_offset = FFin False 66\<rparr>"
  have k: "source_moment Reflectivity = Some Ref"
    by (simp add: source_moment_def BASE_PRODUCTS_def)
  have geo: "source_geometry_of sample_grid_sweep Ref = Some ?geo"
    by (simp add: source_geometry_of_def sample_grid_sweep_def Let_def pmap.look_ins pmap.wf_store0
        sample_moment_def)
  obtain g ev where r: "grid_sweep (\<lambda>cs. cs) sample_grid_sweep Reflectivity = Inr (Some (g, ev))"
      "g_gate_count g = 2" "g_azimuth_count g = fst (modal_azimuth_count (\<lambda>cs. cs) sample_grid_sweep)"
    using grid_sweep_run [OF k geo _ _ refl] by force
  then have "0 < unat (g_azimuth_count g)" "0 < unat (g_gate_count g)"
    using modal_azimuth_count_cases [of "\<lambda>cs. cs" sample_grid_sweep] by auto
  then have "length (g_cells g) = unat (g_azimuth_count g) * unat (g_gate_count g)"
    using grid_sweep_cells [OF r(1) k geo] by blast
  with r(1) show ?thesis by blast
qed

text \<open>
  For either azimuth count, the slot of any finite angle that a radial can report is
  exactly the floor of the angle over the spacing, modulo the count: slot \<open>a\<close> covers the
  angles from \<open>a\<close> to \<open>a + 1\<close> spacings, with no rounding error at the edges.
\<close>

theorem azimuth_slot_exact:
  assumes "f32_of_bits w = az" and "fp_is_finite az" and "\<bar>fp_val az\<bar> \<le> 2 ^ 60"
    and "n = 720 \<or> n = 360"
  shows "azimuth_slot az n = Inr (of_int (\<lfloor>fp_val az * of_nat (unat n) / 360\<rfloor> mod int (unat n)))"
  using assms by (rule slot_exact)

theorem azimuth_slot_exact_witness:
  "azimuth_slot (f32_of_bits 0x43654000) 720 =
     Inr (of_int (\<lfloor>fp_val (f32_of_bits 0x43654000) * of_nat (unat (720 :: u16)) / 360\<rfloor> mod
            int (unat (720 :: u16))))"
  by (rule azimuth_slot_exact [OF refl]) (simp_all add: f32_of_bits_def Let_def pow2_def)

text \<open>
  The slot of any angle at all, NaN and infinities included, is below the azimuth
  count, and a requantised ZDR value is a data cell, or zero for a value that is not a
  number: it can never pass for the range-folded code.
\<close>

theorem slot_and_zdr_in_range:
  assumes "azimuth_count \<noteq> 0"
  shows "\<exists>slot. azimuth_slot az azimuth_count = Inr slot \<and> unat slot < unat azimuth_count \<and>
    quantise_zdr v sc \<noteq> 1"
proof -
  have "quantise_zdr v sc \<noteq> 1" by (simp add: quantise_zdr_def)
  then show ?thesis using azimuth_slot_total [OF assms] by blast
qed

theorem slot_and_zdr_in_range_witness:
  "\<exists>slot. azimuth_slot FNaN 720 = Inr slot \<and> unat slot < unat (720 :: u16) \<and>
     quantise_zdr (FInf True) (FFin False 1) \<noteq> 1"
  by (rule slot_and_zdr_in_range) simp

end
