(* ===== verification/Tree_Map.thy ===== *)
theory Tree_Map
  imports Prelude
begin

text \<open>
  \<open>std::collections::BTreeMap\<close> as its sorted list of entries: insertion replaces the
  value of a present key, \<open>values\<close> reads the entries in key order. It is an instance
  of \<open>keyed_store\<close>.
\<close>

type_synonym ('k, 'v) tree_map = "('k \<times> 'v) list"

fun tm_insert :: "'k::linorder \<Rightarrow> 'v \<Rightarrow> ('k, 'v) tree_map \<Rightarrow> ('k, 'v) tree_map" where
  "tm_insert k v [] = [(k, v)]"
| "tm_insert k v ((k', v') # m) =
     (if k < k' then (k, v) # (k', v') # m
      else if k = k' then (k, v) # m
      else (k', v') # tm_insert k v m)"

definition tm_get :: "('k, 'v) tree_map \<Rightarrow> 'k \<Rightarrow> 'v option" where
  "tm_get m k = map_of m k"

definition tm_values :: "('k, 'v) tree_map \<Rightarrow> 'v list" where
  "tm_values m = map snd m"

definition wf_tm :: "('k::linorder, 'v) tree_map \<Rightarrow> bool" where
  "wf_tm m = sorted_wrt (<) (map fst m)"

lemma tm_insert_keys: "set (map fst (tm_insert k v m)) = insert k (set (map fst m))"
  by (induction k v m rule: tm_insert.induct) auto

lemma wf_tm_insert [simp]: "wf_tm m \<Longrightarrow> wf_tm (tm_insert k v m)"
proof (induction k v m rule: tm_insert.induct)
  case (1 k v)
  then show ?case by (simp add: wf_tm_def)
next
  case (2 k v k' v' m)
  have keys: "fst ` set (tm_insert k v m) = insert k (fst ` set m)"
    using tm_insert_keys [of k v m] by simp
  from 2 show ?case
    by (auto simp: wf_tm_def keys)
qed

lemma tm_get_insert [simp]: "wf_tm m \<Longrightarrow> tm_get (tm_insert k v m) k' = (if k' = k then Some v else tm_get m k')"
proof (induction k v m rule: tm_insert.induct)
  case (1 k v)
  then show ?case by (simp add: tm_get_def)
next
  case (2 k v k'' v'' m)
  then show ?case by (auto simp: tm_get_def wf_tm_def)
qed

lemma tm_empty [simp]: "wf_tm []" "tm_get [] k = None" "tm_values [] = []"
  by (simp_all add: wf_tm_def tm_get_def tm_values_def)

interpretation tmap: keyed_store "[]" tm_insert tm_get wf_tm
  by unfold_locales simp_all

text \<open>Every entry after an insertion is the new one or an old one of another key.\<close>

lemma tm_insert_mem: "wf_tm m \<Longrightarrow>
  (k', v') \<in> set (tm_insert k v m) \<longleftrightarrow> (k' = k \<and> v' = v) \<or> (k' \<noteq> k \<and> (k', v') \<in> set m)"
  by (induction k v m rule: tm_insert.induct) (auto simp: wf_tm_def dest: order.asym)

lemma tm_get_mem: "wf_tm m \<Longrightarrow> tm_get m k = Some v \<longleftrightarrow> (k, v) \<in> set m"
proof -
  assume "wf_tm m"
  then have "distinct (map fst m)" by (simp add: wf_tm_def strict_sorted_iff)
  then show ?thesis by (simp add: tm_get_def)
qed

lemma tm_get_fold:
  "wf_tm m \<Longrightarrow> tm_get (fold (\<lambda>(k, v). tm_insert k v) kvs m) k =
    (case map_of (rev kvs) k of None \<Rightarrow> tm_get m k | Some v \<Rightarrow> Some v)"
  by (rule tmap.look_ins_all)

lemma wf_tm_fold: "wf_tm m \<Longrightarrow> wf_tm (fold (\<lambda>(k, v). tm_insert k v) kvs m)"
  by (rule tmap.wf_ins_all)

lemma tm_values_mem: "v \<in> set (tm_values m) \<Longrightarrow> \<exists>k. (k, v) \<in> set m"
  by (auto simp: tm_values_def)

text \<open>Values inserted one by one under a key of their own: the last of each key stays.\<close>

lemma map_of_keyed: "map_of (map (\<lambda>g. (b g, g)) gs) k = find (\<lambda>g. b g = k) gs"
  by (induction gs) auto

lemma tm_keyed_fold:
  fixes b :: "'v \<Rightarrow> 'k::linorder"
  defines "m gs \<equiv> fold (\<lambda>g. tm_insert (b g) g) gs []"
  shows "wf_tm (m gs)" "tm_get (m gs) k = find (\<lambda>g. b g = k) (rev gs)"
    "(k, v) \<in> set (m gs) \<Longrightarrow> b v = k"
proof -
  have eq: "m gs = fold (\<lambda>(k, v). tm_insert k v) (map (\<lambda>g. (b g, g)) gs) []"
    by (simp add: m_def fold_map comp_def)
  show wf: "wf_tm (m gs)" unfolding eq by (rule wf_tm_fold) simp
  show get: "tm_get (m gs) k = find (\<lambda>g. b g = k) (rev gs)" for k
    unfolding eq tm_get_fold [OF tm_empty(1)]
    by (simp add: rev_map map_of_keyed split: option.splits)
  assume "(k, v) \<in> set (m gs)"
  then have "find (\<lambda>g. b g = k) (rev gs) = Some v"
    using get [of k] tm_get_mem [OF wf] by metis
  then show "b v = k" by (auto simp: find_Some_iff)
qed

end
