(* ===== verification/Derived.thy ===== *)
theory Derived
  imports Grid Tree_Map
begin

text \<open>
  The volume products, \<open>compute/derived.rs\<close>, with the beam geometry they use from
  \<open>compute/geometry.rs\<close>: Echo Tops and vertically integrated liquid (VIL) from the
  reflectivity tilts of one volume. Sine, cosine, power and the inverse functions are the record \<open>libm\<close>: their
  results are platform dependent and nothing here relies on their values. Indexing that
  would panic is a \<open>fault\<close>, as in the theory \<open>Grid\<close>.
\<close>

section \<open>Beam geometry\<close>

record libm =
  m_sin :: "fp \<Rightarrow> fp"
  m_cos :: "fp \<Rightarrow> fp"
  m_powf :: "fp \<Rightarrow> fp \<Rightarrow> fp"
  m_acos :: "fp \<Rightarrow> fp"
  m_asin :: "fp \<Rightarrow> fp"
  m_sqrt :: "fp \<Rightarrow> fp"

definition EARTH_RADIUS_M :: fp where
  "EARTH_RADIUS_M = f64lit 6371000"

definition REFRACTION_K :: fp where
  "REFRACTION_K = fdiv F64 (f64lit 4) (f64lit 3)"

definition KE_A :: fp where
  "KE_A = fmul F64 REFRACTION_K EARTH_RADIUS_M"

text \<open>\<open>f64::to_radians\<close> multiplies by the rounded constant; \<open>f64::abs\<close> clears the sign.\<close>

definition to_radians :: "fp \<Rightarrow> fp" where
  "to_radians x =
     fmul F64 x (fdiv F64 (f64lit (314159265358979323846264338327950288 / 10 ^ 35)) (f64lit 180))"

fun fabs :: "fp \<Rightarrow> fp" where
  "fabs FNaN = FNaN"
| "fabs (FInf s) = FInf False"
| "fabs (FFin s m) = FFin False m"

definition slant_range_and_height :: "libm \<Rightarrow> fp \<Rightarrow> fp \<Rightarrow> fp \<times> fp" where
  "slant_range_and_height lm ground_m elev_deg =
     (let theta = to_radians elev_deg;
          phi = fdiv F64 ground_m KE_A;
          denom = m_cos lm (fadd F64 theta phi)
      in if flt (fabs denom) (f64lit (1 / 10 ^ 9)) then (FInf False, FInf False)
         else (fdiv F64 (fmul F64 KE_A (m_sin lm phi)) denom,
               fmul F64 KE_A (fsub F64 (fdiv F64 (m_cos lm theta) denom) (f64lit 1))))"

text \<open>The forward direction, and the projection of a place around the radar.\<close>

definition ground_range_and_height :: "libm \<Rightarrow> fp \<Rightarrow> fp \<Rightarrow> fp \<times> fp" where
  "ground_range_and_height lm slant_m elev_deg =
     (let theta = to_radians elev_deg;
          h = fsub F64 (m_sqrt lm (fadd F64 (fadd F64 (fmul F64 slant_m slant_m) (fmul F64 KE_A KE_A))
                (fmul F64 (fmul F64 (fmul F64 (f64lit 2) slant_m) KE_A) (m_sin lm theta)))) KE_A;
          s = fmul F64 KE_A (m_asin lm (fdiv F64 (fmul F64 slant_m (m_cos lm theta)) (fadd F64 KE_A h)))
      in (s, h))"

definition MAX_CENTRAL_ANGLE :: fp where
  "MAX_CENTRAL_ANGLE =
     fsub F64 (f64lit (314159265358979323846264338327950288 / 10 ^ 35)) (f64lit (1 / 10 ^ 9))"

definition az_eq_project :: "libm \<Rightarrow> fp \<Rightarrow> fp \<Rightarrow> fp \<Rightarrow> fp \<Rightarrow> fp \<times> fp" where
  "az_eq_project lm site_lat site_lon lat lon =
     (let lat_r = to_radians lat; lon_r = to_radians lon;
          lat0 = to_radians site_lat; lon0 = to_radians site_lon;
          dlon = fsub F64 lon_r lon0;
          cos_c = fclamp (fadd F64 (fmul F64 (m_sin lm lat0) (m_sin lm lat_r))
                    (fmul F64 (fmul F64 (m_cos lm lat0) (m_cos lm lat_r)) (m_cos lm dlon)))
                    (fneg (f64lit 1)) (f64lit 1);
          c = fmin2 (m_acos lm cos_c) MAX_CENTRAL_ANGLE;
          k = (if flt c (f64lit (1 / 10 ^ 10)) then f64lit 1 else fdiv F64 c (m_sin lm c));
          x = fmul F64 (fmul F64 k (m_cos lm lat_r)) (m_sin lm dlon);
          y = fmul F64 k (fsub F64 (fmul F64 (m_cos lm lat0) (m_sin lm lat_r))
                (fmul F64 (fmul F64 (m_sin lm lat0) (m_cos lm lat_r)) (m_cos lm dlon)))
      in (fmul F64 x EARTH_RADIUS_M, fmul F64 y EARTH_RADIUS_M))"

section \<open>Tilts and columns\<close>

definition ECHO_TOP_THRESHOLD_DBZ :: fp where
  "ECHO_TOP_THRESHOLD_DBZ = f32lit 18"

definition ECHO_TOP_MAX_KFT :: fp where
  "ECHO_TOP_MAX_KFT = f32lit 70"

definition METERS_PER_FOOT :: fp where
  "METERS_PER_FOOT = f32lit (3048 / 10000)"

definition VIL_HAIL_CAP_DBZ :: fp where
  "VIL_HAIL_CAP_DBZ = f32lit 56"

definition VIL_MAX_KG_M2 :: fp where
  "VIL_MAX_KG_M2 = f32lit 80"

record output_geometry =
  o_azimuth_count :: u16
  o_gate_count :: u16
  o_first_gate_m :: u16
  o_gate_width_m :: u16

definition output_from_grid :: "sweep_grid \<Rightarrow> output_geometry" where
  "output_from_grid g =
     \<lparr>o_azimuth_count = g_azimuth_count g, o_gate_count = g_gate_count g,
      o_first_gate_m = g_first_gate_m g, o_gate_width_m = g_gate_width_m g\<rparr>"

definition angle_bucket :: "sweep_grid \<Rightarrow> int" where
  "angle_bucket g = fp_to_i32 (fround (fmul F32 (g_elevation_deg g) (f32lit 100)))"

definition distinct_tilts_ascending :: "sweep_grid list \<Rightarrow> sweep_grid list" where
  "distinct_tilts_ascending ref_grids =
     tm_values (fold (\<lambda>g. tm_insert (angle_bucket g) g) ref_grids [])"

definition azimuth_deg_center :: "u16 \<Rightarrow> u16 \<Rightarrow> fp" where
  "azimuth_deg_center a azimuth_count =
     fmul F32 (fadd F32 (fp_of_nat F32 (unat a)) (f32lit (1/2)))
       (fdiv F32 (f32lit 360) (fp_of_nat F32 (unat azimuth_count)))"

definition reindex_azimuth :: "u16 \<Rightarrow> u16 \<Rightarrow> u16 \<Rightarrow> fault + u16" where
  "reindex_azimuth a from_count to_count =
     (if from_count = to_count then Ok a
      else azimuth_slot (azimuth_deg_center a from_count) to_count)"

definition dbz_to_z :: "libm \<Rightarrow> fp \<Rightarrow> fp" where
  "dbz_to_z lm dbz = m_powf lm (f64lit 10) (fdiv F64 (f32_to_f64 dbz) (f64lit 10))"

definition vil_layer_contribution :: "libm \<Rightarrow> fp \<Rightarrow> fp \<Rightarrow> fp \<Rightarrow> fp" where
  "vil_layer_contribution lm z0 z1 dh_m =
     fmul F64
       (fmul F64 (f64lit (344 / 10 ^ 8))
         (m_powf lm (fdiv F64 (fadd F64 z0 z1) (f64lit 2)) (fdiv F64 (f64lit 4) (f64lit 7))))
       dh_m"

definition quantise :: "fp \<Rightarrow> fp \<Rightarrow> u8" where
  "quantise physical mx =
     (let k = fdiv F32 (f32lit 253) mx;
          cell = fround (fadd F32 (f32lit 2) (fmul F32 (fclamp physical (f32lit 0) mx) k))
      in fp_to_u8 (fclamp cell (FFin False 2) (FFin False 255)))"

definition gate_index :: "fp \<Rightarrow> sweep_grid \<Rightarrow> u16 option" where
  "gate_index slant_m tilt =
     (if g_gate_width_m tilt = 0 then None
      else
        let idx = fdiv F64 (fsub F64 slant_m (fp_of_nat F64 (unat (g_first_gate_m tilt))))
                    (fp_of_nat F64 (unat (g_gate_width_m tilt)))
        in if \<not> fp_is_finite idx \<or> flt idx (f64lit 0) \<or>
              fle (fp_of_nat F64 (unat (g_gate_count tilt))) idx
           then None else Some (fp_to_u16 idx))"

definition ground_range :: "output_geometry \<Rightarrow> nat \<Rightarrow> fp" where
  "ground_range out g =
     fadd F64 (fp_of_nat F64 (unat (o_first_gate_m out)))
       (fmul F64 (fp_of_nat F64 g) (fp_of_nat F64 (unat (o_gate_width_m out))))"

section \<open>The double loop over the output cells\<close>

text \<open>
  \<open>for a in 0..azimuth_count { for g in 0..gate_count { ... } }\<close>, where the body answers
  the value to store at the cell, or nothing (\<open>continue\<close>).
\<close>

definition write_column ::
  "output_geometry \<Rightarrow> (nat \<Rightarrow> nat \<Rightarrow> fault + u8 option) \<Rightarrow> nat \<Rightarrow> bytes \<times> bool list \<Rightarrow> nat \<Rightarrow>
   fault + bytes \<times> bool list" where
  "write_column out body a = (\<lambda>(cells, filled) g.
     rbind (body a g) (\<lambda>res.
       case res of
         None \<Rightarrow> Ok (cells, filled)
       | Some v \<Rightarrow>
           rbind (set_index (a * unat (o_gate_count out) + g) v cells) (\<lambda>cells.
           rbind (set_index a True filled) (\<lambda>filled.
           Ok (cells, filled)))))"

definition for_columns ::
  "output_geometry \<Rightarrow> (nat \<Rightarrow> nat \<Rightarrow> fault + u8 option) \<Rightarrow> fault + bytes \<times> bool list" where
  "for_columns out body =
     rfold (\<lambda>st a. rfold (write_column out body a) st [0..<unat (o_gate_count out)])
       (replicate (unat (o_azimuth_count out) * unat (o_gate_count out)) 0,
        replicate (unat (o_azimuth_count out)) False)
       [0..<unat (o_azimuth_count out)]"

definition derived_grid ::
  "display_product \<Rightarrow> fp \<Rightarrow> output_geometry \<Rightarrow> bytes \<times> bool list \<Rightarrow> sweep_grid" where
  "derived_grid product mx out = (\<lambda>(cells, filled).
     \<lparr>g_product = product, g_azimuth_count = o_azimuth_count out, g_gate_count = o_gate_count out,
      g_first_gate_m = o_first_gate_m out, g_gate_width_m = o_gate_width_m out,
      g_elevation_number = 0, g_elevation_deg = FFin False 0, g_nyquist_velocity_mps = None,
      g_scale = fdiv F32 (f32lit 253) mx, g_offset = f32lit 2, g_cells = cells,
      g_filled_azimuths = of_nat (length (filter (\<lambda>f. f) filled))\<rparr>)"

section \<open>Echo Tops\<close>

fun best_height ::
  "libm \<Rightarrow> output_geometry \<Rightarrow> nat \<Rightarrow> fp \<Rightarrow> sweep_grid list \<Rightarrow> fault + fp option" where
  "best_height lm out a ground_m [] = Ok None"
| "best_height lm out a ground_m (tilt # tilts) =
     (let (slant_m, height_m) =
        slant_range_and_height lm ground_m (f32_to_f64 (g_elevation_deg tilt))
      in case gate_index slant_m tilt of
           None \<Rightarrow> best_height lm out a ground_m tilts
         | Some gate \<Rightarrow>
             rbind (reindex_azimuth (of_nat a) (o_azimuth_count out) (g_azimuth_count tilt)) (\<lambda>az.
             rbind (grid_physical tilt az gate) (\<lambda>physical.
             if (case physical of None \<Rightarrow> False | Some dbz \<Rightarrow> fle ECHO_TOP_THRESHOLD_DBZ dbz)
             then Ok (Some height_m)
             else best_height lm out a ground_m tilts)))"

definition echo_cell :: "fp \<Rightarrow> u8" where
  "echo_cell height_m =
     (let kft = fdiv F32 (fdiv F32 (f64_to_f32 height_m) METERS_PER_FOOT) (f32lit 1000)
      in quantise kft ECHO_TOP_MAX_KFT)"

definition echo_tops :: "libm \<Rightarrow> sweep_grid list \<Rightarrow> output_geometry \<Rightarrow> fault + sweep_grid option" where
  "echo_tops lm tilts out =
     (if tilts = [] then Ok None
      else
        rbind (for_columns out (\<lambda>a g.
                 rbind (best_height lm out a (ground_range out g) (rev tilts)) (\<lambda>best.
                 Ok (map_option echo_cell best)))) (\<lambda>cf.
        Ok (Some (derived_grid EchoTops ECHO_TOP_MAX_KFT out cf))))"

section \<open>VIL\<close>

fun vil_points ::
  "libm \<Rightarrow> output_geometry \<Rightarrow> nat \<Rightarrow> fp \<Rightarrow> sweep_grid list \<Rightarrow> fault + (fp \<times> fp) list" where
  "vil_points lm out a ground_m [] = Ok []"
| "vil_points lm out a ground_m (tilt # tilts) =
     (let (slant_m, height_m) =
        slant_range_and_height lm ground_m (f32_to_f64 (g_elevation_deg tilt))
      in case gate_index slant_m tilt of
           None \<Rightarrow> vil_points lm out a ground_m tilts
         | Some gate \<Rightarrow>
             rbind (reindex_azimuth (of_nat a) (o_azimuth_count out) (g_azimuth_count tilt)) (\<lambda>az.
             rbind (grid_physical tilt az gate) (\<lambda>physical.
             rbind (vil_points lm out a ground_m tilts) (\<lambda>points.
             Ok (case physical of None \<Rightarrow> points
                 | Some dbz \<Rightarrow> (height_m, fmin2 dbz VIL_HAIL_CAP_DBZ) # points)))))"

text \<open>The sum over \<open>windows(2)\<close>; an empty float sum is negative zero.\<close>

fun vil_sum :: "libm \<Rightarrow> fp \<Rightarrow> (fp \<times> fp) list \<Rightarrow> fp" where
  "vil_sum lm acc ((h0, d0) # (h1, d1) # ps) =
     vil_sum lm
       (fadd F64 acc (vil_layer_contribution lm (dbz_to_z lm d0) (dbz_to_z lm d1) (fsub F64 h1 h0)))
       ((h1, d1) # ps)"
| "vil_sum lm acc _ = acc"

definition vil_cell :: "libm \<Rightarrow> (fp \<times> fp) list \<Rightarrow> u8 option" where
  "vil_cell lm points =
     (if length points < 2 then None
      else Some (quantise (f64_to_f32 (vil_sum lm (FFin True 0) points)) VIL_MAX_KG_M2))"

definition vil :: "libm \<Rightarrow> sweep_grid list \<Rightarrow> output_geometry \<Rightarrow> fault + sweep_grid option" where
  "vil lm tilts out =
     (if tilts = [] then Ok None
      else
        rbind (for_columns out (\<lambda>a g.
                 rbind (vil_points lm out a (ground_range out g) tilts) (\<lambda>points.
                 Ok (vil_cell lm points)))) (\<lambda>cf.
        Ok (Some (derived_grid Vil VIL_MAX_KG_M2 out cf))))"

definition compute_derived :: "libm \<Rightarrow> sweep_grid list \<Rightarrow> fault + sweep_grid list \<times> event list" where
  "compute_derived lm ref_grids =
     (let events = [];
          tilts = distinct_tilts_ascending ref_grids
      in case tilts of
           [] \<Rightarrow> Ok ([], events)
         | lowest # _ \<Rightarrow>
             let out = output_from_grid lowest
             in rbind (echo_tops lm tilts out) (\<lambda>et.
                rbind (vil lm tilts out) (\<lambda>vl.
                let grids = (case et of None \<Rightarrow> [] | Some g \<Rightarrow> [g]) @
                            (case vl of None \<Rightarrow> [] | Some g \<Rightarrow> [g])
                in Ok (grids, events))))"

section \<open>Gate indices and readings are in range\<close>

fun fp_nonneg_mag :: "fp \<Rightarrow> bool" where
  "fp_nonneg_mag (FFin s m) = (0 \<le> m)"
| "fp_nonneg_mag _ = True"

lemma round_fp_nonneg_mag: "0 \<le> m \<Longrightarrow> fp_nonneg_mag (round_fp F s m)"
  by (auto simp: round_fp_def Let_def intro!: mult_nonneg_nonneg round_half_even_mono_nonneg divide_nonneg_nonneg pow2_nonneg)

lemma fadd_nonneg_mag: "fp_nonneg_mag (fadd F x y)"
  by (cases "(F, x, y)" rule: fadd.cases) (auto simp: round_rat_def intro!: round_fp_nonneg_mag)

lemma fdiv_nonneg_mag: "fp_nonneg_mag x \<Longrightarrow> fp_nonneg_mag y \<Longrightarrow> fp_nonneg_mag (fdiv F x y)"
  by (cases "(F, x, y)" rule: fdiv.cases) (auto intro!: round_fp_nonneg_mag)

lemma fp_of_nat_nonneg_mag: "fp_nonneg_mag (fp_of_nat F n)"
  by (simp add: fp_of_nat_def round_fp_nonneg_mag)

lemma fp_of_nat_F64_u16: "n < 2 ^ 16 \<Longrightarrow> fp_of_nat F64 n = FFin False (of_nat n)"
proof -
  assume n: "n < 2 ^ 16"
  have "representable F64 (of_nat n)"
  proof (cases "n = 0")
    case True
    then show ?thesis by (auto simp: representable_def F64_def intro!: exI [of _ 0])
  next
    case False
    show ?thesis
      unfolding representable_def
      by (rule exI [of _ "int n"], rule exI [of _ 0])
        (use n False in \<open>auto simp: F64_def pow2_def\<close>)
  qed
  then show ?thesis by (simp add: fp_of_nat_def round_fp_exact)
qed

lemma gate_index_bound:
  assumes "gate_index slant tilt = Some gate"
  shows "unat gate < unat (g_gate_count tilt)"
proof -
  define idx where "idx = fdiv F64 (fsub F64 slant (fp_of_nat F64 (unat (g_first_gate_m tilt))))
                    (fp_of_nat F64 (unat (g_gate_width_m tilt)))"
  let ?n = "unat (g_gate_count tilt)"
  have n: "fp_of_nat F64 ?n = FFin False (of_nat ?n)"
    using unat_u16_less [of "g_gate_count tilt"] by (intro fp_of_nat_F64_u16) simp
  have pos: "fp_nonneg_mag idx"
    unfolding idx_def fsub_def by (intro fdiv_nonneg_mag fadd_nonneg_mag fp_of_nat_nonneg_mag)
  have c: "fp_is_finite idx" "\<not> flt idx (f64lit 0)" "\<not> fle (fp_of_nat F64 ?n) idx"
    and gate: "gate = fp_to_u16 idx"
    using assms by (auto simp: gate_index_def idx_def Let_def split: if_splits)
  obtain s m where idx: "idx = FFin s m" using c(1) by (cases idx) auto
  have m: "0 \<le> m" using pos idx by simp
  have lt: "fp_val idx < of_nat ?n" using c(3) by (auto simp: n idx fle_def split: if_splits)
  have nonneg: "0 \<le> fp_val idx" using c(2) by (auto simp: idx f64lit_def round_rat_def)
  have "\<lfloor>fp_val idx\<rfloor> < int ?n" using lt by (simp add: floor_less_iff)
  then have hi: "\<lfloor>fp_val idx\<rfloor> < int ?n" "\<lfloor>fp_val idx\<rfloor> \<le> 65535"
    using unat_u16_less [of "g_gate_count tilt"] by linarith+
  have "fp_to_int 0 65535 idx = \<lfloor>fp_val idx\<rfloor>"
  proof (cases s)
    case True
    then have "m = 0" using nonneg m by (simp add: idx)
    then show ?thesis using True by (simp add: idx)
  next
    case False
    then show ?thesis using hi(2) m by (simp add: idx)
  qed
  then have v: "fp_to_int 0 65535 idx = \<lfloor>fp_val idx\<rfloor>" "\<lfloor>fp_val idx\<rfloor> < int ?n" "0 \<le> \<lfloor>fp_val idx\<rfloor>"
    using hi nonneg by simp_all
  have "\<lfloor>fp_val idx\<rfloor> < 65536" using v(2) unat_u16_less [of "g_gate_count tilt"] by linarith
  then have "unat gate = nat \<lfloor>fp_val idx\<rfloor>"
    using v(1,3) by (simp add: gate fp_to_u16_def unsigned_of_int take_bit_int_eq_self)
  then show ?thesis using v(2,3) by linarith
qed

definition wf_grid :: "sweep_grid \<Rightarrow> bool" where
  "wf_grid g = (g_azimuth_count g \<noteq> 0 \<and>
     length (g_cells g) = unat (g_azimuth_count g) * unat (g_gate_count g))"

lemma grid_physical_total:
  assumes "wf_grid g" "unat a < unat (g_azimuth_count g)" "unat i < unat (g_gate_count g)"
  shows "\<exists>v. grid_physical g a i = Inr v"
  using assms row_index [OF assms(2,3)] by (simp add: grid_physical_def grid_cell_def at_index_def wf_grid_def)

lemma reindex_azimuth_total:
  assumes "unat a < unat n" "n' \<noteq> 0"
  shows "\<exists>a'. reindex_azimuth a n n' = Inr a' \<and> unat a' < unat n'"
  using assms azimuth_slot_total [OF assms(2)] by (auto simp: reindex_azimuth_def)

text \<open>
  The reading of a tilt in a column of the output, when the tilt covers the column, with
  the height of its beam there.
\<close>

definition column_reading ::
  "libm \<Rightarrow> output_geometry \<Rightarrow> nat \<Rightarrow> fp \<Rightarrow> sweep_grid \<Rightarrow> (fp \<times> fp) option" where
  "column_reading lm out a ground_m tilt =
     (let (slant_m, height_m) =
        slant_range_and_height lm ground_m (f32_to_f64 (g_elevation_deg tilt))
      in Option.bind (gate_index slant_m tilt) (\<lambda>gate.
         Option.bind (ok (reindex_azimuth (of_nat a) (o_azimuth_count out) (g_azimuth_count tilt))) (\<lambda>az.
         Option.bind (ok (grid_physical tilt az gate)) (map_option (Pair height_m)))))"

definition tops_column :: "libm \<Rightarrow> output_geometry \<Rightarrow> nat \<Rightarrow> fp \<Rightarrow> sweep_grid \<Rightarrow> bool" where
  "tops_column lm out a ground_m tilt =
     (case column_reading lm out a ground_m tilt of
        None \<Rightarrow> False | Some (_, dbz) \<Rightarrow> fle ECHO_TOP_THRESHOLD_DBZ dbz)"

definition beam_height :: "libm \<Rightarrow> fp \<Rightarrow> sweep_grid \<Rightarrow> fp" where
  "beam_height lm ground_m tilt =
     snd (slant_range_and_height lm ground_m (f32_to_f64 (g_elevation_deg tilt)))"

lemma column_calls:
  assumes "wf_grid t" "a < unat (o_azimuth_count out)"
    "gate_index (fst (slant_range_and_height lm ground (f32_to_f64 (g_elevation_deg t)))) t = Some gate"
  obtains az v where
    "reindex_azimuth (of_nat a) (o_azimuth_count out) (g_azimuth_count t) = Inr az"
    "grid_physical t az gate = Inr v"
proof -
  have "a < 65536" using assms(2) unat_u16_less [of "o_azimuth_count out"] by linarith
  then have "unat (of_nat a :: u16) = a" by (simp add: unat_of_nat)
  then have "unat (of_nat a :: u16) < unat (o_azimuth_count out)" using assms(2) by simp
  moreover have "g_azimuth_count t \<noteq> 0" using assms(1) by (simp add: wf_grid_def)
  ultimately obtain az where az:
    "reindex_azimuth (of_nat a) (o_azimuth_count out) (g_azimuth_count t) = Inr az"
    "unat az < unat (g_azimuth_count t)"
    using reindex_azimuth_total by blast
  obtain v where "grid_physical t az gate = Inr v"
    using grid_physical_total [OF assms(1) az(2) gate_index_bound [OF assms(3)]] by blast
  with az(1) that show ?thesis by blast
qed

lemma best_height_eq:
  assumes "list_all wf_grid tilts" "a < unat (o_azimuth_count out)"
  shows "best_height lm out a ground tilts =
    Inr (map_option (beam_height lm ground) (find (tops_column lm out a ground) tilts))"
  using assms(1)
proof (induction tilts)
  case Nil
  then show ?case by simp
next
  case (Cons t tilts)
  obtain sl h where sh: "slant_range_and_height lm ground (f32_to_f64 (g_elevation_deg t)) = (sl, h)"
    by fastforce
  show ?case
  proof (cases "gate_index sl t")
    case None
    then show ?thesis
      using Cons by (simp add: sh tops_column_def column_reading_def)
  next
    case (Some gate)
    then have "gate_index (fst (slant_range_and_height lm ground (f32_to_f64 (g_elevation_deg t)))) t = Some gate"
      by (simp add: sh)
    then obtain az v where
      "reindex_azimuth (of_nat a) (o_azimuth_count out) (g_azimuth_count t) = Inr az"
      "grid_physical t az gate = Inr v"
      using column_calls [of t a out lm ground gate] Cons.prems assms(2) by auto
    then show ?thesis
      using Cons Some by (auto simp: sh tops_column_def column_reading_def beam_height_def split: option.splits)
  qed
qed

lemma vil_points_eq:
  assumes "list_all wf_grid tilts" "a < unat (o_azimuth_count out)"
  shows "vil_points lm out a ground tilts =
    Inr (map (\<lambda>(h, d). (h, fmin2 d VIL_HAIL_CAP_DBZ)) (List.map_filter (column_reading lm out a ground) tilts))"
  using assms(1)
proof (induction tilts)
  case Nil
  then show ?case by (simp add: map_filter_simps)
next
  case (Cons t tilts)
  obtain sl h where sh: "slant_range_and_height lm ground (f32_to_f64 (g_elevation_deg t)) = (sl, h)"
    by fastforce
  show ?case
  proof (cases "gate_index sl t")
    case None
    then show ?thesis
      using Cons by (simp add: sh column_reading_def map_filter_simps)
  next
    case (Some gate)
    then have "gate_index (fst (slant_range_and_height lm ground (f32_to_f64 (g_elevation_deg t)))) t = Some gate"
      by (simp add: sh)
    then obtain az v where
      "reindex_azimuth (of_nat a) (o_azimuth_count out) (g_azimuth_count t) = Inr az"
      "grid_physical t az gate = Inr v"
      using column_calls [of t a out lm ground gate] Cons.prems assms(2) by auto
    then show ?thesis
      using Cons Some by (cases v) (auto simp: sh column_reading_def map_filter_simps)
  qed
qed

section \<open>The double loop\<close>

lemma rfold_product:
  "rfold (\<lambda>s a. rfold (f a) s gs) s as = rfold (\<lambda>s (a, g). f a s g) s (List.product as gs)"
proof (induction "as" arbitrary: s)
  case Nil
  then show ?case by simp
next
  case (Cons a "as")
  have "rfold (f a) s gs = rfold (\<lambda>s (a, g). f a s g) s (map (Pair a) gs)" for s
    by (induction gs arbitrary: s) simp_all
  then show ?case using Cons by (simp add: rfold_append)
qed

definition columns_inv ::
  "output_geometry \<Rightarrow> (nat \<Rightarrow> nat \<Rightarrow> u8 option) \<Rightarrow> (nat \<times> nat) set \<Rightarrow> bytes \<times> bool list \<Rightarrow> bool" where
  "columns_inv out col done = (\<lambda>(cells, filled).
     length cells = unat (o_azimuth_count out) * unat (o_gate_count out) \<and>
     length filled = unat (o_azimuth_count out) \<and>
     (\<forall>a<unat (o_azimuth_count out). \<forall>g<unat (o_gate_count out).
        cells ! (a * unat (o_gate_count out) + g) =
          (if (a, g) \<in> done then (case col a g of None \<Rightarrow> 0 | Some v \<Rightarrow> v) else 0)) \<and>
     (\<forall>a<unat (o_azimuth_count out).
        filled ! a = (\<exists>g. (a, g) \<in> done \<and> col a g \<noteq> None)))"

lemma index_inj:
  "g < m \<Longrightarrow> g' < m \<Longrightarrow> a * m + g = a' * m + g' \<longleftrightarrow> a = a' \<and> g = (g' :: nat)"
  by (metis add.commute div_mult_self1 less_nat_zero_code mod_less mod_mult_self1
      add_left_cancel div_less gr_zeroI add_0)

lemma write_column_step:
  assumes "columns_inv out col done st" "body a g = Inr (col a g)"
    "a < unat (o_azimuth_count out)" "g < unat (o_gate_count out)" "(a, g) \<notin> done"
  shows "\<exists>st'. write_column out body a st g = Inr st' \<and> columns_inv out col (insert (a, g) done) st'"
proof -
  obtain cells filled where st: "st = (cells, filled)" by fastforce
  note inv = assms(1) [unfolded columns_inv_def st, simplified]
  have idx: "a * unat (o_gate_count out) + g < length cells"
    using inv row_index [OF assms(3,4)] by simp
  show ?thesis
  proof (cases "col a g")
    case None
    then have "columns_inv out col (insert (a, g) done) st"
      using inv assms(3-5) by (auto simp: columns_inv_def st)
    with None assms(2) show ?thesis by (simp add: write_column_def st)
  next
    case (Some v)
    let ?st = "(cells[a * unat (o_gate_count out) + g := v], filled[a := True])"
    have "columns_inv out col (insert (a, g) done) ?st"
      unfolding columns_inv_def
      using inv assms(3,4) Some idx index_inj [of _ "unat (o_gate_count out)"]
      by (auto simp: nth_list_update)
    with Some assms(2,3) inv idx show ?thesis
      by (simp add: write_column_def st set_index_def)
  qed
qed

lemma columns_loop:
  assumes "\<forall>(a, g)\<in>set ps. a < unat (o_azimuth_count out) \<and> g < unat (o_gate_count out) \<and>
      body a g = Inr (col a g)"
    and "distinct ps" "set ps \<inter> done = {}" "columns_inv out col done st"
  shows "\<exists>st'. rfold (\<lambda>s (a, g). write_column out body a s g) st ps = Inr st' \<and>
    columns_inv out col (set ps \<union> done) st'"
  using assms
proof (induction ps arbitrary: st "done")
  case Nil
  then show ?case by simp
next
  case (Cons p ps)
  obtain a g where p: "p = (a, g)" by fastforce
  have "\<exists>st'. write_column out body a st g = Inr st' \<and> columns_inv out col (insert (a, g) done) st'"
    using Cons.prems p by (intro write_column_step) auto
  then obtain st1 where st1: "write_column out body a st g = Inr st1"
    "columns_inv out col (insert (a, g) done) st1" by blast
  have "\<exists>st'. rfold (\<lambda>s (a, g). write_column out body a s g) st1 ps = Inr st' \<and>
    columns_inv out col (set ps \<union> insert (a, g) done) st'"
    using Cons.prems st1 p by (intro Cons.IH) auto
  then show ?case using st1 p by simp
qed

lemma for_columns_spec:
  assumes "\<And>a g. a < unat (o_azimuth_count out) \<Longrightarrow> g < unat (o_gate_count out) \<Longrightarrow>
      body a g = Inr (col a g)"
  shows "\<exists>cells filled. for_columns out body = Inr (cells, filled) \<and>
    columns_inv out col ({..<unat (o_azimuth_count out)} \<times> {..<unat (o_gate_count out)}) (cells, filled)"
proof -
  let ?n = "unat (o_azimuth_count out)" and ?m = "unat (o_gate_count out)"
  let ?st = "(replicate (?n * ?m) 0, replicate ?n False)"
  have "columns_inv out col {} ?st"
    by (auto simp: columns_inv_def nth_replicate row_index)
  then have "\<exists>st'. rfold (\<lambda>s (a, g). write_column out body a s g) ?st (List.product [0..<?n] [0..<?m]) = Inr st' \<and>
      columns_inv out col (set (List.product [0..<?n] [0..<?m]) \<union> {}) st'"
    using assms by (intro columns_loop) (auto simp: distinct_product)
  then show ?thesis
    unfolding for_columns_def rfold_product by (auto simp: atLeast0LessThan)
qed

section \<open>Gridding the products\<close>

lemma quantise_not_folded: "quantise v mx \<noteq> 1"
  by (simp add: quantise_def Let_def)

lemma find_values:
  "\<forall>(k, v)\<in>set m. b v = k \<Longrightarrow> find (\<lambda>v. b v = k) (tm_values m) = tm_get m k"
  by (induction m) (auto simp: tm_values_def tm_get_def)

lemma distinct_tilts_spec:
  "sorted_wrt (<) (map angle_bucket (distinct_tilts_ascending gs))"
  "find (\<lambda>t. angle_bucket t = k) (distinct_tilts_ascending gs) = find (\<lambda>g. angle_bucket g = k) (rev gs)"
  "set (distinct_tilts_ascending gs) \<subseteq> set gs"
  "distinct_tilts_ascending gs = [] \<longleftrightarrow> gs = []"
proof -
  define m where "m = fold (\<lambda>g. tm_insert (angle_bucket g) g) gs []"
  have m: "distinct_tilts_ascending gs = tm_values m" "wf_tm m"
     "\<And>k. tm_get m k = find (\<lambda>g. angle_bucket g = k) (rev gs)"
     "\<forall>(k, v)\<in>set m. angle_bucket v = k"
    using tm_keyed_fold [where b = angle_bucket and gs = gs] by (auto simp: m_def distinct_tilts_ascending_def)
  have "map angle_bucket (tm_values m) = map fst m"
    using m(4) by (auto simp: tm_values_def)
  then show "sorted_wrt (<) (map angle_bucket (distinct_tilts_ascending gs))"
    using m(1,2) by (simp add: wf_tm_def)
  show f: "find (\<lambda>t. angle_bucket t = k) (distinct_tilts_ascending gs) = find (\<lambda>g. angle_bucket g = k) (rev gs)" for k
    unfolding m(1) find_values [where b = angle_bucket, OF m(4)] m(3) ..
  show "set (distinct_tilts_ascending gs) \<subseteq> set gs"
  proof
    fix t assume "t \<in> set (distinct_tilts_ascending gs)"
    then obtain k where "(k, t) \<in> set m" using m(1) tm_values_mem by metis
    then have "find (\<lambda>g. angle_bucket g = k) (rev gs) = Some t"
      using m(2,3) tm_get_mem by metis
    then show "t \<in> set gs" by (auto simp: find_Some_iff) (metis length_rev nth_mem set_rev)
  qed
  show "distinct_tilts_ascending gs = [] \<longleftrightarrow> gs = []"
  proof
    assume e: "distinct_tilts_ascending gs = []"
    show "gs = []"
    proof (rule ccontr)
      assume "gs \<noteq> []"
      then obtain g where "g \<in> set (rev gs)" by (cases gs) auto
      moreover have "find (\<lambda>t. angle_bucket t = angle_bucket g) (rev gs) = None"
        unfolding f [symmetric] e by simp
      ultimately show False by (auto simp: find_None_iff)
    qed
  qed (simp add: distinct_tilts_ascending_def)
qed

lemma columns_cells_split:
  assumes "columns_inv out col ({..<unat (o_azimuth_count out)} \<times> {..<unat (o_gate_count out)}) (cells, filled)"
    and "\<And>a g. col a g \<noteq> Some 1"
  shows "1 \<notin> set cells"
proof
  assume "1 \<in> set cells"
  let ?m = "unat (o_gate_count out)" and ?n = "unat (o_azimuth_count out)"
  have len: "length cells = ?n * ?m" using assms(1) by (simp add: columns_inv_def)
  obtain i where i: "i < ?n * ?m" "cells ! i = 1"
    using \<open>1 \<in> set cells\<close> len by (auto simp: in_set_conv_nth)
  have m: "0 < ?m" using i(1) by (cases "?m = 0") auto
  have ag: "i div ?m < ?n" "i mod ?m < ?m" "i = i div ?m * ?m + i mod ?m"
    using i(1) m by (simp_all add: less_mult_imp_div_less)
  then have "cells ! i = (case col (i div ?m) (i mod ?m) of None \<Rightarrow> 0 | Some v \<Rightarrow> v)"
    using assms(1) unfolding columns_inv_def by (smt (verit) case_prod_conv lessThan_iff mem_Sigma_iff)
  then show False using i(2) assms(2) by (auto split: option.splits)
qed

lemma columns_filled_count:
  assumes "columns_inv out col ({..<unat (o_azimuth_count out)} \<times> {..<unat (o_gate_count out)}) (cells, filled)"
  shows "length (filter (\<lambda>f. f) filled) =
    card {a. a < unat (o_azimuth_count out) \<and> (\<exists>g<unat (o_gate_count out). col a g \<noteq> None)}"
  using assms unfolding columns_inv_def
  by (auto simp: length_filter_conv_card intro!: arg_cong [of _ _ card])

lemma echo_tops_run:
  assumes "list_all wf_grid tilts" "tilts \<noteq> []"
  shows "\<exists>cells filled. echo_tops lm tilts out = Inr (Some (derived_grid EchoTops ECHO_TOP_MAX_KFT out (cells, filled))) \<and>
    columns_inv out (\<lambda>a g. map_option (\<lambda>t. echo_cell (beam_height lm (ground_range out g) t))
         (find (tops_column lm out a (ground_range out g)) (rev tilts)))
      ({..<unat (o_azimuth_count out)} \<times> {..<unat (o_gate_count out)}) (cells, filled)"
proof -
  have body: "rbind (best_height lm out a (ground_range out g) (rev tilts)) (\<lambda>best.
                 Ok (map_option echo_cell best)) =
     Inr (map_option (\<lambda>t. echo_cell (beam_height lm (ground_range out g) t))
         (find (tops_column lm out a (ground_range out g)) (rev tilts)))"
    if "a < unat (o_azimuth_count out)" for a g
    using best_height_eq [of "rev tilts" a out lm "ground_range out g"] assms(1) that
    by (simp add: option.map_comp comp_def)
  obtain cells filled where
    "for_columns out (\<lambda>a g. rbind (best_height lm out a (ground_range out g) (rev tilts)) (\<lambda>best.
                 Ok (map_option echo_cell best))) = Inr (cells, filled)"
    "columns_inv out (\<lambda>a g. map_option (\<lambda>t. echo_cell (beam_height lm (ground_range out g) t))
         (find (tops_column lm out a (ground_range out g)) (rev tilts)))
      ({..<unat (o_azimuth_count out)} \<times> {..<unat (o_gate_count out)}) (cells, filled)"
    using for_columns_spec [where body = "\<lambda>a g. rbind (best_height lm out a (ground_range out g) (rev tilts))
        (\<lambda>best. Ok (map_option echo_cell best))", OF body] by blast
  then show ?thesis
    using assms(2) by (intro exI [of _ cells] exI [of _ filled]) (simp add: echo_tops_def)
qed

lemma vil_run:
  assumes "list_all wf_grid tilts" "tilts \<noteq> []"
  shows "\<exists>cells filled. vil lm tilts out = Inr (Some (derived_grid Vil VIL_MAX_KG_M2 out (cells, filled))) \<and>
    columns_inv out (\<lambda>a g. vil_cell lm (map (\<lambda>(h, d). (h, fmin2 d VIL_HAIL_CAP_DBZ))
         (List.map_filter (column_reading lm out a (ground_range out g)) tilts)))
      ({..<unat (o_azimuth_count out)} \<times> {..<unat (o_gate_count out)}) (cells, filled)"
proof -
  have body: "rbind (vil_points lm out a (ground_range out g) tilts) (\<lambda>points. Ok (vil_cell lm points)) =
     Inr (vil_cell lm (map (\<lambda>(h, d). (h, fmin2 d VIL_HAIL_CAP_DBZ))
         (List.map_filter (column_reading lm out a (ground_range out g)) tilts)))"
    if "a < unat (o_azimuth_count out)" for a g
    using vil_points_eq [of tilts a out lm "ground_range out g"] assms(1) that by simp
  obtain cells filled where
    "for_columns out (\<lambda>a g. rbind (vil_points lm out a (ground_range out g) tilts)
        (\<lambda>points. Ok (vil_cell lm points))) = Inr (cells, filled)"
    "columns_inv out (\<lambda>a g. vil_cell lm (map (\<lambda>(h, d). (h, fmin2 d VIL_HAIL_CAP_DBZ))
         (List.map_filter (column_reading lm out a (ground_range out g)) tilts)))
      ({..<unat (o_azimuth_count out)} \<times> {..<unat (o_gate_count out)}) (cells, filled)"
    using for_columns_spec [where body = "\<lambda>a g. rbind (vil_points lm out a (ground_range out g) tilts)
        (\<lambda>points. Ok (vil_cell lm points))", OF body] by blast
  then show ?thesis
    using assms(2) by (intro exI [of _ cells] exI [of _ filled]) (simp add: vil_def)
qed

definition derived_ok :: "output_geometry \<Rightarrow> sweep_grid \<Rightarrow> bool" where
  "derived_ok out g = (wf_grid g \<and> output_from_grid g = out \<and> 1 \<notin> set (g_cells g))"

lemma derived_grid_ok:
  assumes "columns_inv out col ({..<unat (o_azimuth_count out)} \<times> {..<unat (o_gate_count out)}) (cells, filled)"
    and "\<And>a g. col a g \<noteq> Some 1" and "o_azimuth_count out \<noteq> 0"
  shows "derived_ok out (derived_grid p mx out (cells, filled))"
  using assms columns_cells_split [OF assms(1,2)]
  by (simp add: derived_ok_def derived_grid_def wf_grid_def output_from_grid_def columns_inv_def)

lemma compute_derived_empty: "compute_derived lm [] = Inr ([], [])"
proof -
  have "distinct_tilts_ascending [] = []" by (simp add: distinct_tilts_spec(4))
  then show ?thesis by (simp add: compute_derived_def)
qed

lemma compute_derived_run:
  assumes "list_all wf_grid gs" "gs \<noteq> []"
  shows "\<exists>et vl. compute_derived lm gs = Inr ([et, vl], []) \<and> g_product et = EchoTops \<and> g_product vl = Vil \<and>
    derived_ok (output_from_grid (hd (distinct_tilts_ascending gs))) et \<and>
    derived_ok (output_from_grid (hd (distinct_tilts_ascending gs))) vl"
proof -
  let ?ts = "distinct_tilts_ascending gs"
  obtain t ts where ts: "?ts = t # ts" using assms(2) distinct_tilts_spec(4) by (cases ?ts) auto
  have wf: "list_all wf_grid ?ts" using assms(1) distinct_tilts_spec(3) [of gs] by (auto simp: list_all_iff)
  let ?out = "output_from_grid (hd ?ts)"
  have n: "o_azimuth_count ?out \<noteq> 0"
    using wf by (simp add: ts wf_grid_def output_from_grid_def)
  have ne: "?ts \<noteq> []" using ts by simp
  obtain c1 f1 where e: "echo_tops lm ?ts ?out = Inr (Some (derived_grid EchoTops ECHO_TOP_MAX_KFT ?out (c1, f1)))"
    "derived_ok ?out (derived_grid EchoTops ECHO_TOP_MAX_KFT ?out (c1, f1))"
    using echo_tops_run [OF wf ne, of lm ?out] derived_grid_ok [OF _ _ n]
    by (fastforce simp: echo_cell_def quantise_not_folded Let_def)
  obtain c2 f2 where v: "vil lm ?ts ?out = Inr (Some (derived_grid Vil VIL_MAX_KG_M2 ?out (c2, f2)))"
    "derived_ok ?out (derived_grid Vil VIL_MAX_KG_M2 ?out (c2, f2))"
    using vil_run [OF wf ne, of lm ?out] derived_grid_ok [OF _ _ n]
    by (fastforce simp: vil_cell_def quantise_not_folded)
  have "compute_derived lm gs = Inr ([derived_grid EchoTops ECHO_TOP_MAX_KFT ?out (c1, f1),
      derived_grid Vil VIL_MAX_KG_M2 ?out (c2, f2)], [])"
    using e(1) v(1) by (simp add: compute_derived_def Let_def ts)
  then show ?thesis
    using e(2) v(2) by (auto simp: derived_grid_def)
qed

section \<open>Properties\<close>

text \<open>A tilt of one azimuth and two gates at half a degree, and constant functions for libm.\<close>

definition sample_tilt :: sweep_grid where
  "sample_tilt =
     \<lparr>g_product = Reflectivity, g_azimuth_count = 1, g_gate_count = 2, g_first_gate_m = 2125,
      g_gate_width_m = 250, g_elevation_number = 1, g_elevation_deg = FFin False (1/2),
      g_nyquist_velocity_mps = None, g_scale = FFin False 2, g_offset = FFin False 66,
      g_cells = [166, 0], g_filled_azimuths = 1\<rparr>"

definition sample_libm :: libm where
  "sample_libm = \<lparr>m_sin = \<lambda>x. x, m_cos = \<lambda>_. FFin False 1, m_powf = \<lambda>x y. FFin False 1,
     m_acos = \<lambda>x. x, m_asin = \<lambda>x. x, m_sqrt = \<lambda>x. x\<rparr>"

lemma wf_sample_tilt: "list_all wf_grid [sample_tilt]"
  by (simp add: wf_grid_def sample_tilt_def)

text \<open>
  Deriving the volume products never panics for well-formed tilts, whatever the
  trigonometry returns. Without tilts there is no product; otherwise there are exactly
  Echo Tops and VIL, in that order, well formed, on the geometry of the lowest tilt, and
  no cell of either is the range-folded code.
\<close>

theorem compute_derived_total:
  assumes "list_all wf_grid ref_grids"
  shows "\<exists>grids. compute_derived lm ref_grids = Inr (grids, []) \<and>
    map g_product grids = (if ref_grids = [] then [] else [EchoTops, Vil]) \<and>
    (\<forall>g\<in>set grids. wf_grid g \<and> 1 \<notin> set (g_cells g) \<and>
       output_from_grid g = output_from_grid (hd (distinct_tilts_ascending ref_grids)))"
proof (cases "ref_grids = []")
  case True
  then show ?thesis by (simp add: compute_derived_empty)
next
  case False
  obtain et vl where "compute_derived lm ref_grids = Inr ([et, vl], [])"
    "g_product et = EchoTops" "g_product vl = Vil"
    "derived_ok (output_from_grid (hd (distinct_tilts_ascending ref_grids))) et"
    "derived_ok (output_from_grid (hd (distinct_tilts_ascending ref_grids))) vl"
    using compute_derived_run [OF assms False] by blast
  with False show ?thesis by (auto simp: derived_ok_def)
qed

theorem compute_derived_total_witness:
  "\<exists>grids. compute_derived sample_libm [sample_tilt] = Inr (grids, []) \<and>
     map g_product grids = [EchoTops, Vil]"
  using compute_derived_total [OF wf_sample_tilt, of sample_libm] by auto

text \<open>
  C35: the Echo Tops cell of a column is the quantised beam height, over that column, of the
  last tilt of the list it is given whose reading there reaches 18 dBZ, and zero when none
  does; the filled count is the number of azimuths that have such a column. The heights of
  the tilts are not compared: \<open>compute_derived\<close> gives the list by ascending elevation.
\<close>

theorem echo_tops_cells:
  assumes "list_all wf_grid tilts" and "tilts \<noteq> []"
  shows "\<exists>grid. echo_tops lm tilts out = Inr (Some grid) \<and>
    (\<forall>a<unat (o_azimuth_count out). \<forall>g<unat (o_gate_count out).
       g_cells grid ! (a * unat (o_gate_count out) + g) =
         (case find (tops_column lm out a (ground_range out g)) (rev tilts) of
            None \<Rightarrow> 0 | Some t \<Rightarrow> echo_cell (beam_height lm (ground_range out g) t))) \<and>
    g_filled_azimuths grid = of_nat (card {a. a < unat (o_azimuth_count out) \<and>
       (\<exists>g<unat (o_gate_count out). \<exists>t\<in>set tilts. tops_column lm out a (ground_range out g) t)})"
proof -
  obtain cells filled where r:
    "echo_tops lm tilts out = Inr (Some (derived_grid EchoTops ECHO_TOP_MAX_KFT out (cells, filled)))"
    and inv: "columns_inv out (\<lambda>a g. map_option (\<lambda>t. echo_cell (beam_height lm (ground_range out g) t))
         (find (tops_column lm out a (ground_range out g)) (rev tilts)))
      ({..<unat (o_azimuth_count out)} \<times> {..<unat (o_gate_count out)}) (cells, filled)"
    using echo_tops_run [OF assms] by blast
  have some: "map_option f (find (tops_column lm out a (ground_range out g)) (rev tilts)) \<noteq> None \<longleftrightarrow>
      (\<exists>t\<in>set tilts. tops_column lm out a (ground_range out g) t)" for a g and f :: "sweep_grid \<Rightarrow> u8"
    using find_None_iff [of "tops_column lm out a (ground_range out g)" "rev tilts"] by auto
  have "\<forall>a<unat (o_azimuth_count out). \<forall>g<unat (o_gate_count out).
      cells ! (a * unat (o_gate_count out) + g) =
         (case find (tops_column lm out a (ground_range out g)) (rev tilts) of
            None \<Rightarrow> 0 | Some t \<Rightarrow> echo_cell (beam_height lm (ground_range out g) t))"
    using inv by (simp add: columns_inv_def case_map_option o_def cong: option.case_cong)
  then show ?thesis
    using r columns_filled_count [OF inv, unfolded some] by (simp add: derived_grid_def)
qed

theorem echo_tops_cells_witness:
  "\<exists>grid. echo_tops sample_libm [sample_tilt] (output_from_grid sample_tilt) = Inr (Some grid)"
  using echo_tops_cells [OF wf_sample_tilt, of sample_libm "output_from_grid sample_tilt"] by auto

text \<open>
  The VIL cell of a column integrates the readings of all tilts that cover it, lowest
  first and each capped at 56 dBZ; a column with fewer than two readings stays at zero, and
  only such columns do not count as filled.
\<close>

theorem vil_cells:
  assumes "list_all wf_grid tilts" and "tilts \<noteq> []"
  shows "\<exists>grid. vil lm tilts out = Inr (Some grid) \<and>
    (\<forall>a<unat (o_azimuth_count out). \<forall>g<unat (o_gate_count out).
       g_cells grid ! (a * unat (o_gate_count out) + g) =
         (let readings = List.map_filter (column_reading lm out a (ground_range out g)) tilts
          in if length readings < 2 then 0
             else quantise (f64_to_f32 (vil_sum lm (FFin True 0)
                    (map (\<lambda>(h, d). (h, fmin2 d VIL_HAIL_CAP_DBZ)) readings))) VIL_MAX_KG_M2)) \<and>
    g_filled_azimuths grid = of_nat (card {a. a < unat (o_azimuth_count out) \<and>
       (\<exists>g<unat (o_gate_count out).
          2 \<le> length (List.map_filter (column_reading lm out a (ground_range out g)) tilts))})"
proof -
  obtain cells filled where r:
    "vil lm tilts out = Inr (Some (derived_grid Vil VIL_MAX_KG_M2 out (cells, filled)))"
    and inv: "columns_inv out (\<lambda>a g. vil_cell lm (map (\<lambda>(h, d). (h, fmin2 d VIL_HAIL_CAP_DBZ))
         (List.map_filter (column_reading lm out a (ground_range out g)) tilts)))
      ({..<unat (o_azimuth_count out)} \<times> {..<unat (o_gate_count out)}) (cells, filled)"
    using vil_run [OF assms] by blast
  have some: "(vil_cell lm ps \<noteq> None) = (2 \<le> length ps)" for ps by (auto simp: vil_cell_def)
  have "\<forall>a<unat (o_azimuth_count out). \<forall>g<unat (o_gate_count out).
      cells ! (a * unat (o_gate_count out) + g) =
         (let readings = List.map_filter (column_reading lm out a (ground_range out g)) tilts
          in if length readings < 2 then 0
             else quantise (f64_to_f32 (vil_sum lm (FFin True 0)
                    (map (\<lambda>(h, d). (h, fmin2 d VIL_HAIL_CAP_DBZ)) readings))) VIL_MAX_KG_M2)"
    using inv by (simp add: columns_inv_def vil_cell_def Let_def)
  then show ?thesis
    using r columns_filled_count [OF inv, unfolded some] by (simp add: derived_grid_def)
qed

theorem vil_cells_witness:
  "\<exists>grid. vil sample_libm [sample_tilt] (output_from_grid sample_tilt) = Inr (Some grid)"
  using vil_cells [OF wf_sample_tilt, of sample_libm "output_from_grid sample_tilt"] by auto

text \<open>
  The tilts of a volume are one grid per elevation bucket of a hundredth of a degree,
  in strictly ascending order of the bucket, and the grid kept for a bucket is the one that
  closed last.
\<close>

theorem distinct_tilts_latest:
  "sorted_wrt (<) (map angle_bucket (distinct_tilts_ascending gs)) \<and>
   find (\<lambda>t. angle_bucket t = k) (distinct_tilts_ascending gs) =
     find (\<lambda>g. angle_bucket g = k) (rev gs)"
  using distinct_tilts_spec(1,2) by blast

end
