(* ===== verification/Compute.thy ===== *)
theory Compute
  imports Assembly Derived
begin

text \<open>
  The compute stage, \<open>compute/mod.rs\<close>: it grids every closed sweep, retains the
  reflectivity tilts of the open volume, and derives Echo Tops and VIL when a volume
  completes. What a handler does to the outside is a list of outputs: an event reported
  to the log, or an update sent to the applier. Whether the applier still takes an
  update is the argument \<open>accepts\<close>. A panic of the blocking closure propagates out of
  the task: it is the task state \<open>Panicked\<close>.
\<close>

section \<open>State updates\<close>

record volume_summary =
  sm_volume :: volume_id
  sm_vcp_number :: u16
  sm_status :: volume_status
  sm_latitude :: fp
  sm_longitude :: fp
  sm_site_amsl_m :: i16

definition summary_from_scan :: "volume_scan \<Rightarrow> volume_summary" where
  "summary_from_scan scan =
     \<lparr>sm_volume = Volume_Id (vs_julian_date scan) (vs_scan_time_ms scan),
      sm_vcp_number = vs_vcp_number scan, sm_status = vs_status scan,
      sm_latitude = vs_latitude scan, sm_longitude = vs_longitude scan,
      sm_site_amsl_m = vs_site_amsl_m scan\<rparr>"

text \<open>The fields of \<open>SweepGridded\<close> and \<open>DerivedComputed\<close>, in the order of the source.\<close>

datatype state_update =
  SweepGridded u8 fp volume_id u16 "sweep_grid list"
| DerivedComputed volume_id u16 "sweep_grid list"
| VolumeClosed_U volume_summary
| Info assembly_event

section \<open>Retained tilts\<close>

definition RETAINED_ELEVATION_CAP :: nat where
  "RETAINED_ELEVATION_CAP = 40"

record retained_tilts =
  rt_tilts :: "sweep_grid list"

definition retained_new :: retained_tilts where
  "retained_new = \<lparr>rt_tilts = []\<rparr>"

definition retained_offer :: "sweep_grid \<Rightarrow> retained_tilts \<Rightarrow> retained_tilts \<times> event option" where
  "retained_offer grid r =
     (if g_product grid \<noteq> Reflectivity then (r, None)
      else
        (let r = r\<lparr>rt_tilts := rt_tilts r @ [grid]\<rparr>
         in if RETAINED_ELEVATION_CAP < length (rt_tilts r) then
              (r\<lparr>rt_tilts := tl (rt_tilts r)\<rparr>,
               Some (RetainedGridSetBounded (g_elevation_number (hd (rt_tilts r)))))
            else (r, None)))"

definition retained_take :: "retained_tilts \<Rightarrow> retained_tilts \<times> sweep_grid list" where
  "retained_take r = (r\<lparr>rt_tilts := []\<rparr>, rt_tilts r)"

definition retained_clear :: "retained_tilts \<Rightarrow> retained_tilts" where
  "retained_clear r = r\<lparr>rt_tilts := []\<rparr>"

fun offer_all :: "sweep_grid list \<Rightarrow> retained_tilts \<Rightarrow> retained_tilts \<times> event list" where
  "offer_all [] r = (r, [])"
| "offer_all (g # gs) r =
     (let (r, e) = retained_offer g r; (r, es) = offer_all gs r
      in (r, (case e of None \<Rightarrow> es | Some e \<Rightarrow> e # es)))"

section \<open>The handler and the loop\<close>

datatype compute_output = Reported event | Sent state_update

text \<open>\<open>tx.send(...).await.is_ok()\<close>: the update is delivered when the applier takes it.\<close>

definition send_update ::
  "(state_update \<Rightarrow> bool) \<Rightarrow> state_update \<Rightarrow> bool \<times> compute_output list" where
  "send_update accepts u = (if accepts u then (True, [Sent u]) else (False, []))"

definition handle_event ::
  "((u8 \<times> nat) list \<Rightarrow> (u8 \<times> nat) list) \<Rightarrow> libm \<Rightarrow> (state_update \<Rightarrow> bool) \<Rightarrow> assembly_event \<Rightarrow>
   retained_tilts \<Rightarrow> fault + (bool \<times> retained_tilts \<times> compute_output list)" where
  "handle_event enum lm accepts ev retained =
     (case ev of
        SweepClosed s volume vcp_number \<Rightarrow>
          rbind (grid_all_base_products enum s) (\<lambda>(grids, events).
          let (retained, bounded) = offer_all grids retained;
              (sent, out) = send_update accepts
                (SweepGridded (sw_elevation_number s) (sw_elevation_deg s) volume vcp_number grids)
          in Ok (sent, retained, map Reported events @ map Reported bounded @ out))
      | VolumeClosed volume \<Rightarrow>
          let summary = summary_from_scan volume in
          if vs_status volume = Complete then
            (let (retained, tilts) = retained_take retained in
             rbind (compute_derived lm tilts) (\<lambda>(derived_grids, events).
             let (go_on, out) =
               (if derived_grids \<noteq> []
                then send_update accepts
                       (DerivedComputed (sm_volume summary) (sm_vcp_number summary) derived_grids)
                else (True, []))
             in if \<not> go_on then Ok (False, retained, map Reported events @ out)
                else
                  (let retained = retained_clear retained;
                       (sent, out2) = send_update accepts (VolumeClosed_U summary)
                   in Ok (sent, retained, map Reported events @ out @ out2))))
          else
            (let retained = retained_clear retained;
                 (sent, out) = send_update accepts (VolumeClosed_U summary)
             in Ok (sent, retained, out))
      | _ \<Rightarrow>
          let (sent, out) = send_update accepts (Info ev)
          in Ok (sent, retained, out))"

text \<open>
  One turn of the loop: an event with the applier's answer to what is sent for it, the
  end of the channel, or the shutdown signal.
\<close>

datatype compute_input = Event_In assembly_event "state_update \<Rightarrow> bool" | Channel_Closed | Shutdown_In

datatype compute_task = Running retained_tilts | Returned | Panicked fault

fun compute_step ::
  "((u8 \<times> nat) list \<Rightarrow> (u8 \<times> nat) list) \<Rightarrow> libm \<Rightarrow> compute_task \<Rightarrow> compute_input \<Rightarrow>
   compute_task \<times> compute_output list" where
  "compute_step enum lm (Running r) (Event_In ev accepts) =
     (case handle_event enum lm accepts ev r of
        Inl f \<Rightarrow> (Panicked f, [])
      | Inr (go_on, r, out) \<Rightarrow> (if go_on then Running r else Returned, out))"
| "compute_step enum lm (Running r) Channel_Closed = (Returned, [])"
| "compute_step enum lm (Running r) Shutdown_In = (Returned, [])"
| "compute_step enum lm t _ = (t, [])"

definition compute_loop ::
  "((u8 \<times> nat) list \<Rightarrow> (u8 \<times> nat) list) \<Rightarrow> libm \<Rightarrow> compute_input list \<Rightarrow>
   compute_task \<times> compute_output list" where
  "compute_loop enum lm inputs = run_io (compute_step enum lm) (Running retained_new) inputs"

section \<open>Invariant\<close>

text \<open>A grid made from a sweep, and one derived from a volume.\<close>

definition base_grid :: "sweep_grid \<Rightarrow> bool" where
  "base_grid g = (wf_grid g \<and> (\<exists>k. source_moment (g_product g) = Some k) \<and>
     (g_azimuth_count g = 720 \<or> g_azimuth_count g = 360) \<and> g_gate_count g \<noteq> 0 \<and> g_gate_width_m g \<noteq> 0)"

definition retained_ok :: "retained_tilts \<Rightarrow> bool" where
  "retained_ok r =
     (length (rt_tilts r) \<le> RETAINED_ELEVATION_CAP \<and>
      list_all (\<lambda>g. base_grid g \<and> g_product g = Reflectivity) (rt_tilts r))"

fun compute_inv :: "compute_task \<Rightarrow> bool" where
  "compute_inv (Running r) = retained_ok r"
| "compute_inv Returned = True"
| "compute_inv (Panicked _) = False"

fun update_ok :: "compute_output \<Rightarrow> bool" where
  "update_ok (Sent (SweepGridded e deg v n grids)) =
     (list_all (\<lambda>g. base_grid g \<and> g_elevation_number g = e) grids \<and>
      sorted_wrt (<) (map g_product grids))"
| "update_ok (Sent (DerivedComputed v n grids)) =
     (map g_product grids = [EchoTops, Vil] \<and> list_all wf_grid grids)"
| "update_ok _ = True"

lemma grid_sweep_base_grid:
  assumes "grid_sweep enum s product = Inr (Some (g, ev))"
  shows "base_grid g \<and> g_product g = product \<and> g_elevation_number g = sw_elevation_number s"
proof -
  obtain kind geo where kg: "source_moment product = Some kind" "source_geometry_of s kind = Some geo"
    "sg_gate_width_m geo \<noteq> 0" "sg_gate_count geo \<noteq> 0"
    using grid_sweep_none [of product s enum] assms by fastforce
  let ?n = "fst (modal_azimuth_count enum s)"
  have "g_product g = product \<and> g_azimuth_count g = ?n \<and> g_gate_count g = sg_gate_count geo \<and>
    g_gate_width_m g = sg_gate_width_m geo \<and> g_elevation_number g = sw_elevation_number s \<and>
    length (g_cells g) = unat ?n * unat (sg_gate_count geo)"
    using grid_sweep_run [OF kg refl, of enum, unfolded assms] by (auto simp: grid_inv_def)
  then show ?thesis
    using kg modal_azimuth_count_cases [of enum s] by (auto simp: base_grid_def wf_grid_def)
qed

lemma grid_all_run:
  fixes enum s
  assumes "sorted_wrt (<) (map fst ps)" "sorted_wrt (<) (map g_product gs)"
    "\<forall>g\<in>set gs. \<forall>p\<in>set ps. g_product g < fst p"
    "list_all (\<lambda>g. base_grid g \<and> g_elevation_number g = sw_elevation_number s) gs"
  shows "\<exists>gs' ev'. rfold (\<lambda>(grids, events) (product, _).
        rbind (grid_sweep enum s product) (\<lambda>res.
        Ok (case res of None \<Rightarrow> (grids, events)
            | Some (g, ev) \<Rightarrow> (grids @ [g], events @ ev)))) (gs, ev) ps = Inr (gs', ev') \<and>
    sorted_wrt (<) (map g_product gs') \<and>
    list_all (\<lambda>g. base_grid g \<and> g_elevation_number g = sw_elevation_number s) gs'"
  using assms
proof (induction ps arbitrary: gs ev)
  case Nil
  then show ?case by simp
next
  case (Cons p ps)
  obtain product k where p: "p = (product, k)" by fastforce
  obtain res where res: "grid_sweep enum s product = Inr res"
    using grid_sweep_total by blast
  show ?case
  proof (cases res)
    case None
    then show ?thesis using Cons p res by simp
  next
    case (Some ge)
    obtain g e where ge: "ge = (g, e)" by fastforce
    have g: "base_grid g" "g_product g = product" "g_elevation_number g = sw_elevation_number s"
      using grid_sweep_base_grid res Some ge by blast+
    have "\<exists>gs' ev'. rfold (\<lambda>(grids, events) (product, _).
        rbind (grid_sweep enum s product) (\<lambda>res.
        Ok (case res of None \<Rightarrow> (grids, events)
            | Some (g, ev) \<Rightarrow> (grids @ [g], events @ ev)))) (gs @ [g], ev @ e) ps = Inr (gs', ev') \<and>
      sorted_wrt (<) (map g_product gs') \<and>
      list_all (\<lambda>g. base_grid g \<and> g_elevation_number g = sw_elevation_number s) gs'"
      using Cons.prems g p by (intro Cons.IH) (auto simp: sorted_wrt_append)
    then show ?thesis using res Some ge p by simp
  qed
qed

lemma grid_all_ok:
  "\<exists>grids events. grid_all_base_products enum s = Inr (grids, events) \<and>
     sorted_wrt (<) (map g_product grids) \<and>
     list_all (\<lambda>g. base_grid g \<and> g_elevation_number g = sw_elevation_number s) grids"
  unfolding grid_all_base_products_def
  by (rule grid_all_run [OF BASE_PRODUCTS_sorted]) simp_all

lemma retained_offer_ok:
  "retained_ok r \<Longrightarrow> base_grid g \<Longrightarrow> retained_ok (fst (retained_offer g r))"
  by (auto simp: retained_offer_def retained_ok_def Let_def list_all_iff RETAINED_ELEVATION_CAP_def
      tl_append split: list.splits)

lemma offer_all_ok:
  "retained_ok r \<Longrightarrow> list_all base_grid gs \<Longrightarrow> retained_ok (fst (offer_all gs r))"
proof (induction gs arbitrary: r)
  case Nil
  then show ?case by simp
next
  case (Cons g gs)
  then have "retained_ok (fst (offer_all gs (fst (retained_offer g r))))"
    using retained_offer_ok by simp
  then show ?case by (simp add: split_beta Let_def)
qed

lemma retained_empty_ok [simp]: "retained_ok (r\<lparr>rt_tilts := []\<rparr>)"
  by (simp add: retained_ok_def RETAINED_ELEVATION_CAP_def)

lemma retained_new_ok: "retained_ok retained_new"
  by (simp add: retained_new_def retained_ok_def RETAINED_ELEVATION_CAP_def)

lemma handle_event_ok:
  assumes "retained_ok r"
  shows "\<exists>go_on r' out. handle_event enum lm accepts ev r = Inr (go_on, r', out) \<and>
    retained_ok r' \<and> list_all update_ok out"
proof (cases ev)
  case (SweepClosed s v n)
  obtain grids events where g: "grid_all_base_products enum s = Inr (grids, events)"
     "sorted_wrt (<) (map g_product grids)"
     "list_all (\<lambda>g. base_grid g \<and> g_elevation_number g = sw_elevation_number s) grids"
    using grid_all_ok by blast
  have "retained_ok (fst (offer_all grids r))"
    using assms g(3) by (intro offer_all_ok) (auto simp: list_all_iff)
  then show ?thesis
    using g by (auto simp: SweepClosed handle_event_def send_update_def split_beta Let_def list_all_iff)
next
  case (VolumeClosed vol)
  have wf: "list_all wf_grid (rt_tilts r)"
    using assms by (auto simp: retained_ok_def base_grid_def list_all_iff)
  obtain grids where d: "compute_derived lm (rt_tilts r) = Inr (grids, [])"
    "grids = [] \<or> map g_product grids = [EchoTops, Vil] \<and> list_all wf_grid grids"
  proof (cases "rt_tilts r = []")
    case True
    then show ?thesis using that [of "[]"] by (simp add: compute_derived_empty)
  next
    case False
    then show ?thesis using that compute_derived_run [OF wf False] by (fastforce simp: derived_ok_def)
  qed
  then show ?thesis
    by (auto simp: VolumeClosed handle_event_def send_update_def retained_take_def retained_clear_def
        split_beta Let_def)
qed (use assms in \<open>auto simp: handle_event_def send_update_def\<close>)

lemma compute_step_ok:
  assumes "compute_inv t"
  shows "compute_inv (fst (compute_step enum lm t i)) \<and> list_all update_ok (snd (compute_step enum lm t i))"
proof (cases "(enum, lm, t, i)" rule: compute_step.cases)
  case (1 enum lm r ev accepts)
  then show ?thesis
    using handle_event_ok [of r enum lm accepts ev] assms by (auto split: if_splits)
qed (use assms in auto)

interpretation cmp: io_machine "compute_step enum lm" compute_inv update_ok
  for enum lm
  by unfold_locales (use compute_step_ok in blast)+

section \<open>What the task retains\<close>

lemma retained_offer_tilts:
  assumes "length (rt_tilts r) \<le> RETAINED_ELEVATION_CAP"
  shows "rt_tilts (fst (retained_offer g r)) =
    keep_last RETAINED_ELEVATION_CAP (rt_tilts r @ (if g_product g = Reflectivity then [g] else []))"
proof (cases "length (rt_tilts r) = RETAINED_ELEVATION_CAP")
  case True
  then have "rt_tilts r \<noteq> []" and "Suc 0 - RETAINED_ELEVATION_CAP = 0"
    by (auto simp: RETAINED_ELEVATION_CAP_def)
  with True show ?thesis
    by (simp add: retained_offer_def Let_def keep_last_def drop_Suc)
next
  case False
  with assms show ?thesis by (simp add: retained_offer_def Let_def)
qed

lemma offer_all_tilts:
  assumes "length (rt_tilts r) \<le> RETAINED_ELEVATION_CAP"
  shows "rt_tilts (fst (offer_all gs r)) =
    keep_last RETAINED_ELEVATION_CAP (rt_tilts r @ filter (\<lambda>g. g_product g = Reflectivity) gs)"
  using assms
proof (induction gs arbitrary: r)
  case Nil
  then show ?case by simp
next
  case (Cons g gs)
  have len: "length (rt_tilts (fst (retained_offer g r))) \<le> RETAINED_ELEVATION_CAP"
    using retained_offer_tilts [OF Cons.prems] by simp
  show ?case
    using Cons.IH [OF len] retained_offer_tilts [OF Cons.prems, of g] Cons.prems
    by (simp add: split_beta Let_def keep_last_append)
qed

section \<open>What is sent, read off the events\<close>

text \<open>
  The task keeps its tilts from event to event. The specification has no state: what is sent
  for an event depends on the events before it, and the tilts a volume is derived from are
  those of the sweeps closed since the last close of a volume.
\<close>

definition grid_of ::
  "((u8 \<times> nat) list \<Rightarrow> (u8 \<times> nat) list) \<Rightarrow> sweep \<Rightarrow> display_product \<Rightarrow> sweep_grid list" where
  "grid_of enum s product =
     (case grid_sweep enum s product of Inr (Some (g, _)) \<Rightarrow> [g] | _ \<Rightarrow> [])"

fun is_close :: "assembly_event \<Rightarrow> bool" where
  "is_close (VolumeClosed _) = True"
| "is_close _ = False"

fun closed_sweep :: "assembly_event \<Rightarrow> sweep list" where
  "closed_sweep (SweepClosed s _ _) = [s]"
| "closed_sweep _ = []"

definition open_sweeps :: "assembly_event list \<Rightarrow> sweep list" where
  "open_sweeps evs = concat (map closed_sweep (rev (takeWhile (\<lambda>ev. \<not> is_close ev) (rev evs))))"

definition open_tilts ::
  "((u8 \<times> nat) list \<Rightarrow> (u8 \<times> nat) list) \<Rightarrow> assembly_event list \<Rightarrow> sweep_grid list" where
  "open_tilts enum evs =
     keep_last 40 (concat (map (\<lambda>s. grid_of enum s Reflectivity) (open_sweeps evs)))"

fun updates_for ::
  "((u8 \<times> nat) list \<Rightarrow> (u8 \<times> nat) list) \<Rightarrow> libm \<Rightarrow> assembly_event list \<Rightarrow> assembly_event \<Rightarrow>
   state_update list" where
  "updates_for enum lm before (SweepClosed s volume vcp) =
     [SweepGridded (sw_elevation_number s) (sw_elevation_deg s) volume vcp
        (concat (map (\<lambda>(product, _). grid_of enum s product) BASE_PRODUCTS))]"
| "updates_for enum lm before (VolumeClosed vol) =
     (if vs_status vol = Complete
      then (case compute_derived lm (open_tilts enum before) of
              Inr (g # gs, _) \<Rightarrow>
                [DerivedComputed (Volume_Id (vs_julian_date vol) (vs_scan_time_ms vol))
                   (vs_vcp_number vol) (g # gs)]
            | _ \<Rightarrow> [])
      else []) @
     [VolumeClosed_U \<lparr>sm_volume = Volume_Id (vs_julian_date vol) (vs_scan_time_ms vol),
        sm_vcp_number = vs_vcp_number vol, sm_status = vs_status vol, sm_latitude = vs_latitude vol,
        sm_longitude = vs_longitude vol, sm_site_amsl_m = vs_site_amsl_m vol\<rparr>]"
| "updates_for enum lm before ev = [Info ev]"

fun sent_updates :: "compute_output list \<Rightarrow> state_update list" where
  "sent_updates [] = []"
| "sent_updates (Sent u # out) = u # sent_updates out"
| "sent_updates (Reported _ # out) = sent_updates out"

definition accepting :: "assembly_event \<Rightarrow> compute_input" where
  "accepting ev = Event_In ev (\<lambda>_. True)"

lemma sent_updates_append [simp]: "sent_updates (xs @ ys) = sent_updates xs @ sent_updates ys"
  by (induction xs rule: sent_updates.induct) auto

lemma sent_updates_reported [simp]: "sent_updates (map Reported es) = []"
  by (induction es) auto

lemma open_sweeps_snoc:
  "open_sweeps (evs @ [ev]) = (if is_close ev then [] else open_sweeps evs @ closed_sweep ev)"
  by (simp add: open_sweeps_def)

lemma grids_run:
  "rfold (\<lambda>(grids, events) (product, _).
      rbind (grid_sweep enum s product) (\<lambda>res.
      Ok (case res of None \<Rightarrow> (grids, events)
          | Some (g, ev) \<Rightarrow> (grids @ [g], events @ ev)))) (gs, ev) ps = Inr (gs', ev') \<Longrightarrow>
   gs' = gs @ concat (map (\<lambda>(product, _). grid_of enum s product) ps)"
proof (induction ps arbitrary: gs ev)
  case Nil
  then show ?case by simp
next
  case (Cons p ps)
  obtain product k where p: "p = (product, k)" by fastforce
  obtain res where res: "grid_sweep enum s product = Inr res"
    using grid_sweep_total by blast
  show ?case
  proof (cases res)
    case None
    then show ?thesis using Cons.prems Cons.IH [of gs ev] res p by (simp add: grid_of_def)
  next
    case (Some ge)
    then show ?thesis
      using Cons.prems Cons.IH [of "gs @ [fst ge]" "ev @ snd ge"] res p
      by (cases ge) (simp add: grid_of_def)
  qed
qed

lemma grids_all:
  "grid_all_base_products enum s = Inr (grids, events) \<Longrightarrow>
   grids = concat (map (\<lambda>(product, _). grid_of enum s product) BASE_PRODUCTS)"
  unfolding grid_all_base_products_def using grids_run [where gs = "[]" and ev = "[]"] by fastforce

lemma grid_of_product: "g \<in> set (grid_of enum s product) \<Longrightarrow> g_product g = product"
proof -
  assume "g \<in> set (grid_of enum s product)"
  then obtain ev where "grid_sweep enum s product = Inr (Some (g, ev))"
    by (cases "grid_sweep enum s product") (auto simp: grid_of_def split: option.splits)
  then show ?thesis using grid_sweep_base_grid by blast
qed

lemma grid_of_filter:
  "filter (\<lambda>g. g_product g = Reflectivity) (grid_of enum s product) =
     (if product = Reflectivity then grid_of enum s product else [])"
  using grid_of_product [of _ enum s product] by (auto simp: filter_empty_conv filter_id_conv)

lemma reflectivity_grids:
  assumes "grid_all_base_products enum s = Inr (grids, events)"
  shows "filter (\<lambda>g. g_product g = Reflectivity) grids = grid_of enum s Reflectivity"
  using grids_all [OF assms] by (simp add: BASE_PRODUCTS_def grid_of_filter)

section \<open>One turn of the loop against the specification\<close>

lemma step_updates:
  assumes "rt_tilts r = open_tilts enum before" "retained_ok r"
  shows "\<exists>out. compute_step enum lm (Running r) (accepting ev) =
      (Running \<lparr>rt_tilts = open_tilts enum (before @ [ev])\<rparr>, out) \<and>
    sent_updates out = updates_for enum lm before ev"
proof (cases ev)
  case (SweepClosed s v n)
  obtain grids events where g: "grid_all_base_products enum s = Inr (grids, events)"
    using grid_all_ok by blast
  have "rt_tilts (fst (offer_all grids r)) =
      keep_last RETAINED_ELEVATION_CAP (rt_tilts r @ grid_of enum s Reflectivity)"
    using assms(2) reflectivity_grids [OF g] offer_all_tilts by (simp add: retained_ok_def)
  also have "\<dots> = open_tilts enum (before @ [ev])"
    using assms(1)
    by (simp add: SweepClosed open_tilts_def open_sweeps_snoc RETAINED_ELEVATION_CAP_def keep_last_append)
  finally have "fst (offer_all grids r) = \<lparr>rt_tilts = open_tilts enum (before @ [ev])\<rparr>" by simp
  then show ?thesis
    using g grids_all [OF g]
    by (auto simp: SweepClosed accepting_def handle_event_def send_update_def split_beta Let_def)
next
  case (VolumeClosed vol)
  have tilts: "open_tilts enum (before @ [ev]) = []"
    by (simp add: VolumeClosed open_tilts_def open_sweeps_snoc)
  have wf: "list_all wf_grid (rt_tilts r)"
    using assms(2) by (auto simp: retained_ok_def base_grid_def list_all_iff)
  obtain grids where d: "compute_derived lm (rt_tilts r) = Inr (grids, [])"
    using compute_derived_run [OF wf] compute_derived_empty by (cases "rt_tilts r = []") auto
  then show ?thesis
    by (cases grids) (auto simp: VolumeClosed assms(1) [symmetric] tilts [unfolded VolumeClosed] accepting_def handle_event_def
        send_update_def retained_take_def retained_clear_def summary_from_scan_def split_beta Let_def)
qed (use assms(1) in \<open>auto simp: accepting_def handle_event_def send_update_def open_tilts_def open_sweeps_snoc\<close>)

lemma run_updates:
  "\<exists>out. run_io (compute_step enum lm) (Running retained_new) (map accepting evs) =
      (Running \<lparr>rt_tilts = open_tilts enum evs\<rparr>, out) \<and>
    sent_updates out = concat (map (\<lambda>i. updates_for enum lm (take i evs) (evs ! i)) [0..<length evs])"
proof (induction evs rule: rev_induct)
  case Nil
  then show ?case by (simp add: retained_new_def open_tilts_def open_sweeps_def)
next
  case (snoc ev evs)
  obtain out where run: "run_io (compute_step enum lm) (Running retained_new) (map accepting evs) =
      (Running \<lparr>rt_tilts = open_tilts enum evs\<rparr>, out)"
    and sent: "sent_updates out =
      concat (map (\<lambda>i. updates_for enum lm (take i evs) (evs ! i)) [0..<length evs])"
    using snoc.IH by blast
  have ok: "retained_ok \<lparr>rt_tilts = open_tilts enum evs\<rparr>"
    using cmp.run_inv [of "Running retained_new" enum lm "map accepting evs"] retained_new_ok
    by (simp add: run)
  obtain out2 where st: "compute_step enum lm (Running \<lparr>rt_tilts = open_tilts enum evs\<rparr>) (accepting ev) =
      (Running \<lparr>rt_tilts = open_tilts enum (evs @ [ev])\<rparr>, out2)"
    "sent_updates out2 = updates_for enum lm evs ev"
    using step_updates [of "\<lparr>rt_tilts = open_tilts enum evs\<rparr>" enum evs lm ev] ok by auto
  have "concat (map (\<lambda>i. updates_for enum lm (take i (evs @ [ev])) ((evs @ [ev]) ! i)) [0..<length evs]) =
      concat (map (\<lambda>i. updates_for enum lm (take i evs) (evs ! i)) [0..<length evs])"
    by (rule arg_cong [of _ _ concat]) (simp add: nth_append)
  moreover have "take (length evs) (evs @ [ev]) = evs" by simp
  ultimately show ?case by (simp add: run_io_append run st sent del: take_append)
qed

section \<open>Properties\<close>

text \<open>
  C8: whatever events arrive and whenever the applier goes away, the compute task never
  panics and never retains more than forty tilts, all of them well-formed grids of
  reflectivity; every sweep update it sends holds grids of that sweep's elevation in strict
  product order, and every derived update holds exactly Echo Tops and VIL.
\<close>

theorem compute_loop_safe:
  "compute_inv (fst (compute_loop enum lm inputs)) \<and>
   list_all update_ok (snd (compute_loop enum lm inputs))"
proof -
  have "compute_inv (Running retained_new)" using retained_new_ok by simp
  then show ?thesis
    unfolding compute_loop_def using cmp.run_inv cmp.run_good by blast
qed

text \<open>
  C9: whatever events the assembler sends, while the applier takes what it is sent the updates
  are exactly those of the events, in their order: for a closed sweep its grids of the base
  products; for the close of a complete volume one derived update, under the identity of that
  volume, of what \<open>compute_derived\<close> makes of the last forty reflectivity grids among the sweeps
  closed since the previous close (none when it makes nothing of them), then the summary; for
  the close of an incomplete volume the summary alone; for anything else the event itself. The
  task holds those tilts and no others, so nothing of a volume reaches the next.
\<close>

theorem volume_derived_from_its_sweeps:
  "\<exists>out. compute_loop enum lm (map accepting evs) =
      (Running \<lparr>rt_tilts = open_tilts enum evs\<rparr>, out) \<and>
    sent_updates out = concat (map (\<lambda>i. updates_for enum lm (take i evs) (evs ! i)) [0..<length evs])"
  unfolding compute_loop_def by (rule run_updates)

end
