(* ===== verification/Radar_State.thy ===== *)
theory Radar_State
  imports Compute Ingest_Status
begin

text \<open>
  The shared application state, \<open>state/mod.rs\<close>, and the pure applier, \<open>state/apply.rs\<close>.
  The two \<open>BTreeMap\<close>s are those of the theory \<open>Tree_Map\<close>; the revision is a 64-bit
  counter; it wraps here where the release build, which checks overflow, would panic, after
  2 ^ 64 changes. The time an event is stamped with, \<open>Instant::now\<close> in the source, is an
  argument. Each method takes its lock for one operation only, so that a method of
  \<open>AppState\<close> is a function on the whole state. A site is a value of any type: nothing
  here looks inside it.
\<close>

section \<open>State\<close>

record display_sweep =
  ds_elevation_number :: u8
  ds_elevation_deg :: fp
  ds_volume :: volume_id
  ds_vcp_number :: u16
  ds_received :: nat
  ds_grids :: "sweep_grid list"

record 'site radar_state =
  rs_site :: 'site
  rs_sweeps :: "(u8, display_sweep) tree_map"
  rs_derived :: "(display_product, sweep_grid) tree_map"
  rs_derived_volume :: "volume_id option"
  rs_current_vcp :: "u16 option"
  rs_last_complete :: "volume_summary option"
  rs_revision :: u64

definition radar_new :: "'site \<Rightarrow> 'site radar_state" where
  "radar_new site =
     \<lparr>rs_site = site, rs_sweeps = [], rs_derived = [], rs_derived_volume = None,
      rs_current_vcp = None, rs_last_complete = None, rs_revision = 0\<rparr>"

definition radar_reset :: "'site \<Rightarrow> 'site radar_state \<Rightarrow> 'site radar_state" where
  "radar_reset site s =
     s\<lparr>rs_site := site, rs_sweeps := [], rs_derived := [], rs_derived_volume := None,
       rs_current_vcp := None, rs_last_complete := None, rs_revision := rs_revision s + 1\<rparr>"

section \<open>The applier\<close>

definition apply_update :: "state_update \<Rightarrow> nat \<Rightarrow> 'site radar_state \<Rightarrow> 'site radar_state \<times> bool" where
  "apply_update ev now s =
     (case ev of
        SweepGridded elevation_number elevation_deg volume vcp_number grids \<Rightarrow>
          let s = (if (case rs_current_vcp s of None \<Rightarrow> False | Some current \<Rightarrow> current \<noteq> vcp_number)
                   then s\<lparr>rs_sweeps := [], rs_derived := [], rs_derived_volume := None\<rparr>
                   else s);
              s = s\<lparr>rs_current_vcp := Some vcp_number\<rparr>;
              replace = (case tm_get (rs_sweeps s) elevation_number of
                           Some existing \<Rightarrow> ds_volume existing \<le> volume
                         | None \<Rightarrow> True)
          in if \<not> replace then (s, False)
             else
               (s\<lparr>rs_sweeps := tm_insert elevation_number
                    \<lparr>ds_elevation_number = elevation_number, ds_elevation_deg = elevation_deg,
                     ds_volume = volume, ds_vcp_number = vcp_number, ds_received = now,
                     ds_grids = grids\<rparr> (rs_sweeps s),
                  rs_revision := rs_revision s + 1\<rparr>, True)
      | DerivedComputed volume _ grids \<Rightarrow>
          if (case rs_derived_volume s of None \<Rightarrow> False | Some existing \<Rightarrow> volume < existing)
          then (s, False)
          else
            (s\<lparr>rs_derived := fold (\<lambda>g. tm_insert (g_product g) g) grids [],
               rs_derived_volume := Some volume, rs_revision := rs_revision s + 1\<rparr>, True)
      | VolumeClosed_U summary \<Rightarrow>
          if sm_status summary \<noteq> Complete then (s, False)
          else (s\<lparr>rs_last_complete := Some summary, rs_revision := rs_revision s + 1\<rparr>, True)
      | Info _ \<Rightarrow> (s, False))"

section \<open>The application state\<close>

record 'site app_state =
  as_radar :: "'site radar_state"
  as_ingest :: ingest_status
  as_events :: event_log

record 'site state_snapshot =
  ss_site :: 'site
  ss_sweeps :: "display_sweep list"
  ss_derived :: "sweep_grid list"
  ss_last_complete :: "volume_summary option"
  ss_revision :: u64
  ss_ingest :: ingest_status

definition app_new :: "'site \<Rightarrow> ingest_status \<Rightarrow> 'site app_state" where
  "app_new site ingest = \<lparr>as_radar = radar_new site, as_ingest = ingest, as_events = log_new\<rparr>"

definition snapshot :: "'site app_state \<Rightarrow> 'site state_snapshot" where
  "snapshot a =
     (let radar = as_radar a in
      \<lparr>ss_site = rs_site radar, ss_sweeps = tm_values (rs_sweeps radar),
       ss_derived = tm_values (rs_derived radar), ss_last_complete = rs_last_complete radar,
       ss_revision = rs_revision radar, ss_ingest = as_ingest a\<rparr>)"

definition report :: "event \<Rightarrow> nat \<Rightarrow> 'site app_state \<Rightarrow> 'site app_state" where
  "report ev now a = a\<lparr>as_events := log_push (as_events a) (now, ev)\<rparr>"

definition apply_event :: "state_update \<Rightarrow> nat \<Rightarrow> 'site app_state \<Rightarrow> 'site app_state \<times> bool" where
  "apply_event ev now a =
     (let a = (case ev of
                 Info (LateRadialsDiscarded elevation_number n) \<Rightarrow>
                   report (LateRadialsDiscarded_E elevation_number n) now a
               | Info MissingStartChunk \<Rightarrow> report MissingStartChunk_E now a
               | _ \<Rightarrow> a);
          (radar, changed) = apply_update ev now (as_radar a)
      in (a\<lparr>as_radar := radar\<rparr>, changed))"

definition app_reset :: "'site \<Rightarrow> 'site app_state \<Rightarrow> 'site app_state" where
  "app_reset site a = a\<lparr>as_radar := radar_reset site (as_radar a)\<rparr>"

definition recent_events :: "(event \<Rightarrow> utext) \<Rightarrow> nat \<Rightarrow> 'site app_state \<Rightarrow> (nat \<times> utext) list" where
  "recent_events show_event mx a = log_recent show_event (as_events a) mx"

text \<open>What the other tasks do to the state, one call at a time.\<close>

datatype 'site app_call =
  Apply_Event state_update nat
| Reset_Site 'site
| Report_Event event nat
| Publish_Ingest ingest_status

fun app_step :: "'site app_state \<Rightarrow> 'site app_call \<Rightarrow> 'site app_state \<times> bool list" where
  "app_step a (Apply_Event ev now) = (let (a, changed) = apply_event ev now a in (a, [changed]))"
| "app_step a (Reset_Site site) = (app_reset site a, [True])"
| "app_step a (Report_Event ev now) = (report ev now a, [])"
| "app_step a (Publish_Ingest st) = (a\<lparr>as_ingest := st\<rparr>, [])"

section \<open>Invariant\<close>

text \<open>
  Every retained sweep sits under its own elevation and belongs to the current VCP; there
  are sweeps only when a VCP is known; every derived grid sits under its own product, and
  there are derived grids only with a volume.
\<close>

definition radar_inv :: "'site radar_state \<Rightarrow> bool" where
  "radar_inv s =
     (wf_tm (rs_sweeps s) \<and> wf_tm (rs_derived s) \<and>
      (\<forall>(e, d)\<in>set (rs_sweeps s). ds_elevation_number d = e \<and> rs_current_vcp s = Some (ds_vcp_number d)) \<and>
      (\<forall>(p, g)\<in>set (rs_derived s). g_product g = p) \<and>
      (rs_derived_volume s = None \<longrightarrow> rs_derived s = []))"

definition app_inv :: "'site app_state \<Rightarrow> bool" where
  "app_inv a = (radar_inv (as_radar a) \<and> length (as_events a) \<le> EVENT_LOG_CAPACITY)"

lemma radar_new_inv: "radar_inv (radar_new site)"
  by (simp add: radar_inv_def radar_new_def)

lemma radar_reset_inv: "radar_inv (radar_reset site s)"
  by (simp add: radar_inv_def radar_reset_def)

lemma apply_update_inv:
  assumes "radar_inv s"
  shows "radar_inv (fst (apply_update ev now s))"
proof (cases ev)
  case (SweepGridded e deg v n grids)
  let ?s = "if (case rs_current_vcp s of None \<Rightarrow> False | Some current \<Rightarrow> current \<noteq> n)
     then s\<lparr>rs_sweeps := [], rs_derived := [], rs_derived_volume := None\<rparr> else s"
  have "radar_inv (?s\<lparr>rs_current_vcp := Some n\<rparr>)"
    using assms by (auto simp: radar_inv_def split: option.splits)
  then show ?thesis
    by (auto simp: SweepGridded apply_update_def Let_def radar_inv_def tm_insert_mem split: option.splits)
next
  case (DerivedComputed v n grids)
  then show ?thesis
    using assms tm_keyed_fold [where b = g_product and gs = grids] by (auto simp: apply_update_def radar_inv_def split: option.splits)
qed (use assms in \<open>auto simp: apply_update_def radar_inv_def\<close>)

lemma log_push_bound: "length l \<le> EVENT_LOG_CAPACITY \<Longrightarrow> length (log_push l e) \<le> EVENT_LOG_CAPACITY"
  using elog.step_inv [of l e] by (simp add: log_step_def)

lemma app_step_inv: "app_inv a \<Longrightarrow> app_inv (fst (app_step a c))"
  by (cases c)
    (auto simp: app_inv_def apply_event_def report_def app_reset_def split_beta Let_def
      radar_reset_inv apply_update_inv log_push_bound split: state_update.splits assembly_event.splits)

interpretation app: io_machine app_step app_inv "\<lambda>_. True"
  by unfold_locales (auto simp: app_step_inv list_all_iff)

section \<open>Sequences of updates\<close>

definition apply_all :: "(state_update \<times> nat) list \<Rightarrow> 'site radar_state \<Rightarrow> 'site radar_state" where
  "apply_all us s = fold (\<lambda>(u, now) s. fst (apply_update u now s)) us s"

text \<open>The update that a displayed sweep came from.\<close>

definition source_of :: "display_sweep \<Rightarrow> state_update \<times> nat" where
  "source_of d =
     (SweepGridded (ds_elevation_number d) (ds_elevation_deg d) (ds_volume d) (ds_vcp_number d)
        (ds_grids d), ds_received d)"

text \<open>
  The sweep an elevation shows, read off the updates alone: the last of the updates received
  for it with the newest volume. Those before it have no later volume, those after it have
  an earlier one.
\<close>

fun newest_entry :: "u16 \<Rightarrow> (state_update \<times> nat) list \<Rightarrow> u8 \<Rightarrow> display_sweep option \<Rightarrow> bool" where
  "newest_entry n us e None = (\<forall>deg v g t. (SweepGridded e deg v n g, t) \<notin> set us)"
| "newest_entry n us e (Some d) =
     (ds_elevation_number d = e \<and>
      (\<exists>before later. us = before @ source_of d # later \<and>
        (\<forall>deg v g t. (SweepGridded e deg v n g, t) \<in> set before \<longrightarrow> v \<le> ds_volume d) \<and>
        (\<forall>deg v g t. (SweepGridded e deg v n g, t) \<in> set later \<longrightarrow> v < ds_volume d)))"

text \<open>The updates all belong to one volume coverage pattern; those without sweeps may be any.\<close>

definition one_pattern :: "u16 \<Rightarrow> (state_update \<times> nat) list \<Rightarrow> bool" where
  "one_pattern n us =
     list_all (\<lambda>(u, _). case u of SweepGridded _ _ _ m _ \<Rightarrow> m = n | _ \<Rightarrow> True) us"

definition shows_newest :: "u16 \<Rightarrow> (state_update \<times> nat) list \<Rightarrow> 'site radar_state \<Rightarrow> bool" where
  "shows_newest n us s =
     (wf_tm (rs_sweeps s) \<and> (rs_current_vcp s = None \<or> rs_current_vcp s = Some n) \<and>
      (\<forall>e. newest_entry n us e (tm_get (rs_sweeps s) e)))"

lemma apply_sweep_get:
  fixes s :: "'site radar_state" and e v deg g t
  assumes "wf_tm (rs_sweeps s)" "rs_current_vcp s = None \<or> rs_current_vcp s = Some n"
  defines "s' \<equiv> fst (apply_update (SweepGridded e deg v n g) t s)"
    and "new \<equiv> \<lparr>ds_elevation_number = e, ds_elevation_deg = deg, ds_volume = v, ds_vcp_number = n,
       ds_received = t, ds_grids = g\<rparr>"
  shows "wf_tm (rs_sweeps s') \<and> rs_current_vcp s' = Some n \<and>
    tm_get (rs_sweeps s') e' =
      (if e' = e then (case tm_get (rs_sweeps s) e of
           None \<Rightarrow> Some new | Some d \<Rightarrow> if ds_volume d \<le> v then Some new else Some d)
       else tm_get (rs_sweeps s) e')"
  using assms(1,2) by (auto simp: s'_def new_def apply_update_def Let_def split: option.splits)

lemma newest_entryI:
  assumes "us = before @ source_of d # later" "ds_elevation_number d = e"
    "\<And>deg v g t. (SweepGridded e deg v n g, t) \<in> set before \<Longrightarrow> v \<le> ds_volume d"
    "\<And>deg v g t. (SweepGridded e deg v n g, t) \<in> set later \<Longrightarrow> v < ds_volume d"
  shows "newest_entry n us e (Some d)"
  using assms unfolding newest_entry.simps by blast

lemma newest_entry_skip:
  assumes "newest_entry n us e' x" "\<forall>deg v g. u \<noteq> SweepGridded e' deg v n g"
  shows "newest_entry n (us @ [(u, t)]) e' x"
proof (cases x)
  case None
  then show ?thesis using assms by auto
next
  case (Some d)
  then obtain before later where us: "us = before @ source_of d # later"
    and d: "ds_elevation_number d = e'"
    and newest: "\<forall>deg v g t. (SweepGridded e' deg v n g, t) \<in> set before \<longrightarrow> v \<le> ds_volume d"
      "\<forall>deg v g t. (SweepGridded e' deg v n g, t) \<in> set later \<longrightarrow> v < ds_volume d"
    using assms by auto
  show ?thesis unfolding Some
    using us d newest assms(2) by (intro newest_entryI [of _ before d "later @ [(u, t)]"]) (simp_all, blast+)
qed

lemma newest_entry_same:
  fixes deg v t g
  assumes "newest_entry n us e x"
  defines "new \<equiv> \<lparr>ds_elevation_number = e, ds_elevation_deg = deg, ds_volume = v, ds_vcp_number = n,
         ds_received = t, ds_grids = g\<rparr>"
  shows "newest_entry n (us @ [(SweepGridded e deg v n g, t)]) e
    (case x of None \<Rightarrow> Some new | Some d \<Rightarrow> if ds_volume d \<le> v then Some new else Some d)"
proof -
  have src: "source_of new = (SweepGridded e deg v n g, t)" by (simp add: source_of_def new_def)
  have replaced: "newest_entry n (us @ [(SweepGridded e deg v n g, t)]) e (Some new)"
    if "\<forall>deg v' g t. (SweepGridded e deg v' n g, t) \<in> set us \<longrightarrow> v' \<le> v"
    by (rule newest_entryI [of _ us new "[]"]) (use that in \<open>auto simp: new_def source_of_def\<close>)
  show ?thesis
  proof (cases x)
    case None
    then show ?thesis using assms(1) replaced by auto
  next
    case (Some d)
    then obtain before later where us: "us = before @ source_of d # later"
      and d: "ds_elevation_number d = e"
      and newest: "\<forall>deg v g t. (SweepGridded e deg v n g, t) \<in> set before \<longrightarrow> v \<le> ds_volume d"
        "\<forall>deg v g t. (SweepGridded e deg v n g, t) \<in> set later \<longrightarrow> v < ds_volume d"
      using assms(1) by auto
    show ?thesis
    proof (cases "ds_volume d \<le> v")
      case True
      have "\<forall>deg v' g t. (SweepGridded e deg v' n g, t) \<in> set us \<longrightarrow> v' \<le> v"
        using newest True us by (auto simp: source_of_def) (meson order_trans less_imp_le)+
      then show ?thesis using replaced Some True by simp
    next
      case False
      have "newest_entry n (us @ [(SweepGridded e deg v n g, t)]) e (Some d)"
        using us d newest False
        by (intro newest_entryI [of _ before d "later @ [(SweepGridded e deg v n g, t)]"])
          (simp_all add: not_le, blast+)
      then show ?thesis using Some False by simp
    qed
  qed
qed

lemma shows_newest_sweep:
  assumes "shows_newest n us s"
  shows "shows_newest n (us @ [(SweepGridded e deg v n g, t)]) (fst (apply_update (SweepGridded e deg v n g) t s))"
  using assms apply_sweep_get [of s n e deg v g t] newest_entry_skip newest_entry_same
  by (simp add: shows_newest_def)

lemma shows_newest_other:
  assumes "shows_newest n us s" "\<forall>e deg v m g. u \<noteq> SweepGridded e deg v m g"
  shows "shows_newest n (us @ [(u, t)]) (fst (apply_update u t s))"
proof -
  have "rs_sweeps (fst (apply_update u t s)) = rs_sweeps s \<and>
      rs_current_vcp (fst (apply_update u t s)) = rs_current_vcp s"
    using assms(2) by (cases u) (auto simp: apply_update_def split: option.splits)
  then show ?thesis
    using assms newest_entry_skip by (simp add: shows_newest_def)
qed

lemma shows_newest_run:
  assumes "one_pattern n us"
  shows "shows_newest n us (apply_all us (radar_new site))"
  using assms
proof (induction us rule: rev_induct)
  case Nil
  then show ?case by (simp add: apply_all_def shows_newest_def radar_new_def)
next
  case (snoc ut us)
  obtain u t where ut: "ut = (u, t)" by fastforce
  have IH: "shows_newest n us (apply_all us (radar_new site))"
    using snoc by (simp add: one_pattern_def)
  have "shows_newest n (us @ [(u, t)]) (fst (apply_update u t (apply_all us (radar_new site))))"
  proof (cases "\<exists>e deg v m g. u = SweepGridded e deg v m g")
    case True
    then obtain e deg v g where "u = SweepGridded e deg v n g"
      using snoc.prems ut by (auto simp: one_pattern_def)
    then show ?thesis using shows_newest_sweep [OF IH] by simp
  next
    case False
    then show ?thesis using shows_newest_other [OF IH] by blast
  qed
  then show ?case by (simp add: ut apply_all_def)
qed

text \<open>
  The older volume that wipes the newer one: the VCP test comes before the test of the
  volume, so an out-of-order sweep of an older volume with another VCP clears every sweep
  and derived grid of the newer volume and replaces them.
\<close>

definition sweep_update :: "u8 \<Rightarrow> nat \<Rightarrow> u16 \<Rightarrow> state_update" where
  "sweep_update e ms vcp = SweepGridded e (FFin False 1) (Volume_Id 20000 (of_nat ms)) vcp []"

lemma stale_vcp_wipes_newer:
  "map ds_volume (tm_values (rs_sweeps (apply_all
     [(sweep_update 1 900 212, 1), (sweep_update 2 900 212, 2), (sweep_update 1 500 35, 3)]
     (radar_new ())))) = [Volume_Id 20000 500]"
  by (simp add: apply_all_def apply_update_def sweep_update_def radar_new_def tm_get_def tm_values_def)

section \<open>Properties\<close>

text \<open>
  C10: whatever the tasks do to the state and in whatever order, every displayed sweep
  stays under its own elevation and belongs to the current VCP, every derived grid stays
  under its own product, both maps stay ordered, derived grids never outlive their volume,
  and the event log stays within its capacity.
\<close>

theorem app_state_invariant: "app_inv (fst (run_io app_step (app_new site ingest) calls))"
proof -
  have "app_inv (app_new site ingest)"
    by (simp add: app_inv_def app_new_def radar_new_inv log_new_def)
  then show ?thesis by (rule app.run_inv)
qed

text \<open>
  The answer of the applier, the revision counter and the data agree: when it answers
  no, nothing of the radar state has changed; when it answers yes the revision has gone up
  by one, modulo its 64 bits, so that a reader that compares revisions misses no update.
\<close>

theorem revision_tracks_change:
  assumes "radar_inv s" and "apply_update ev now s = (s', changed)"
  shows "(\<not> changed \<longrightarrow> s' = s) \<and> (changed \<longrightarrow> rs_revision s' = rs_revision s + 1)"
proof (cases ev)
  case (SweepGridded e deg v n grids)
  have "rs_current_vcp s \<noteq> None" if "tm_get (rs_sweeps s) e = Some d" for d
    using that assms(1) tm_get_mem [of "rs_sweeps s" e d] by (auto simp: radar_inv_def)
  then show ?thesis
    using assms(2) by (auto simp: SweepGridded apply_update_def Let_def split: option.splits if_splits)
qed (use assms(2) in \<open>auto simp: apply_update_def split: option.splits if_splits\<close>)

theorem revision_tracks_change_witness:
  "rs_revision (fst (apply_update (sweep_update 1 900 212) 1 (radar_new ()))) = 0 + 1"
proof -
  have "apply_update (sweep_update 1 900 212) 1 (radar_new ()) =
      (fst (apply_update (sweep_update 1 900 212) 1 (radar_new ())), True)"
    by (simp add: apply_update_def sweep_update_def radar_new_def tm_get_def)
  from revision_tracks_change [OF radar_new_inv this] show ?thesis
    by (simp add: radar_new_def)
qed

text \<open>
  C11: within one volume coverage pattern the display never goes back and never stays behind:
  after any updates, in any order of arrival, the sweep shown for an elevation is the last of
  the updates received for it with the newest volume (none before it is of a later volume,
  every one after it is of an earlier volume); an elevation without a sweep has had no update.
\<close>

theorem newest_volume_displayed:
  assumes "one_pattern n us"
  shows "case tm_get (rs_sweeps (apply_all us (radar_new site))) e of
      None \<Rightarrow> \<forall>deg v g t. (SweepGridded e deg v n g, t) \<notin> set us
    | Some d \<Rightarrow> ds_elevation_number d = e \<and>
        (\<exists>before later. us = before @ source_of d # later \<and>
          (\<forall>deg v g t. (SweepGridded e deg v n g, t) \<in> set before \<longrightarrow> v \<le> ds_volume d) \<and>
          (\<forall>deg v g t. (SweepGridded e deg v n g, t) \<in> set later \<longrightarrow> v < ds_volume d))"
proof -
  have "newest_entry n us e (tm_get (rs_sweeps (apply_all us (radar_new site))) e)"
    using shows_newest_run [OF assms, of site] by (simp add: shows_newest_def)
  then show ?thesis
    by (cases "tm_get (rs_sweeps (apply_all us (radar_new site))) e") simp_all
qed

text \<open>
  At the witness an older volume arrives late and the newest volume sends its sweep twice: the
  second of the two is shown.
\<close>

theorem newest_volume_displayed_witness:
  "\<exists>d. tm_get (rs_sweeps (apply_all [(sweep_update 1 900 212, 1), (sweep_update 1 900 212, 2),
        (sweep_update 1 500 212, 3)] (radar_new ()))) 1 = Some d \<and>
     source_of d = (sweep_update 1 900 212, 2)"
proof -
  let ?us = "[(sweep_update 1 900 212, 1), (sweep_update 1 900 212, 2), (sweep_update 1 500 212, 3)]"
  have "one_pattern 212 ?us" by (simp add: one_pattern_def sweep_update_def)
  note shown = newest_volume_displayed [OF this, where site = "()" and e = 1]
  obtain d where d: "tm_get (rs_sweeps (apply_all ?us (radar_new ()))) 1 = Some d"
    using shown by (auto simp: sweep_update_def split: option.splits)
  then obtain before later where split: "?us = before @ source_of d # later"
    and newest: "\<forall>deg v g t. (SweepGridded 1 deg v 212 g, t) \<in> set before \<longrightarrow> v \<le> ds_volume d"
      "\<forall>deg v g t. (SweepGridded 1 deg v 212 g, t) \<in> set later \<longrightarrow> v < ds_volume d"
    using shown by auto
  have older: "Volume_Id 20000 500 < Volume_Id 20000 900"
    by (simp add: less_volume_id_def)
  have "source_of d = (sweep_update 1 900 212, 2)"
    using split newest(1) [rule_format, of "FFin False 1" "Volume_Id 20000 900" "[]" 1]
      newest(2) [rule_format, of "FFin False 1" "Volume_Id 20000 900" "[]" 2] older
    by (auto simp: Cons_eq_append_conv sweep_update_def source_of_def)
  then show ?thesis using d by blast
qed

end
