(* ===== verification/Pipeline.thy ===== *)
theory Pipeline
  imports Radar_State
begin

text \<open>
  The supervisor of the ingest pipeline, \<open>pipeline.rs\<close>: the capped exponential backoff, the
  restart policy, the loop that restarts a panicking unit, and the applier task. Times are
  whole seconds of the monotonic clock. What a spawned unit does is an input: how it ended,
  when, and whether the shutdown signal was seen before or during the wait.
\<close>

section \<open>Backoff\<close>

definition BACKOFF_INITIAL_SECS :: nat where "BACKOFF_INITIAL_SECS = 1"
definition BACKOFF_CAP :: nat where "BACKOFF_CAP = 30"
definition BACKOFF_RESET_AFTER_CLEAN :: nat where "BACKOFF_RESET_AFTER_CLEAN = 5 * 60"

definition backoff :: "nat \<Rightarrow> nat" where
  "backoff consecutive_restarts =
     (let doublings = min consecutive_restarts 5
      in min (BACKOFF_INITIAL_SECS * 2 ^ doublings) BACKOFF_CAP)"

record restart_policy =
  rp_consecutive_restarts :: nat
  rp_last_restart_at :: "nat option"

definition policy_new :: restart_policy where
  "policy_new = \<lparr>rp_consecutive_restarts = 0, rp_last_restart_at = None\<rparr>"

text \<open>The result is \<open>None\<close> for the overflow of the 32-bit count.\<close>

definition policy_on_panic :: "nat \<Rightarrow> restart_policy \<Rightarrow> (nat \<times> restart_policy) option" where
  "policy_on_panic now p =
     (let n = (case rp_last_restart_at p of
                 Some l \<Rightarrow> if BACKOFF_RESET_AFTER_CLEAN \<le> now - l then 0 else rp_consecutive_restarts p
               | None \<Rightarrow> rp_consecutive_restarts p)
      in if n + 1 < 2 ^ 32
         then Some (backoff n, \<lparr>rp_consecutive_restarts = n + 1, rp_last_restart_at = Some now\<rparr>)
         else None)"

section \<open>Supervision\<close>

datatype unit_end = Returned_Normally | Aborted | Panicked bool nat bool

datatype supervise_state = Supervising restart_policy | Supervision_Ended | Supervisor_Panicked

text \<open>
  One spawn of the unit. A panic carries whether shutdown was already signalled, the time,
  and whether shutdown arrived during the wait.
\<close>

definition supervise_step ::
  "task_kind \<Rightarrow> supervise_state \<Rightarrow> unit_end \<Rightarrow> supervise_state \<times> event list" where
  "supervise_step kind s e =
     (case s of
        Supervising policy \<Rightarrow>
          (case e of
             Returned_Normally \<Rightarrow> (Supervision_Ended, [])
           | Aborted \<Rightarrow> (Supervision_Ended, [])
           | Panicked shutting_down now shutdown_in_wait \<Rightarrow>
               if shutting_down then (Supervision_Ended, [TaskPanicked kind])
               else (case policy_on_panic now policy of
                       None \<Rightarrow> (Supervisor_Panicked, [TaskPanicked kind])
                     | Some (delay, policy) \<Rightarrow>
                         (if shutdown_in_wait then Supervision_Ended else Supervising policy,
                          [TaskPanicked kind, TaskRestarted kind delay])))
      | _ \<Rightarrow> (s, []))"

definition supervise :: "task_kind \<Rightarrow> unit_end list \<Rightarrow> supervise_state \<times> event list" where
  "supervise kind = run_io (supervise_step kind) (Supervising policy_new)"

section \<open>The applier task\<close>

datatype apply_input = Update_In state_update nat | Updates_Closed | Apply_Shutdown

text \<open>The state and whether the task still runs.\<close>

definition apply_loop_step ::
  "'site app_state \<times> bool \<Rightarrow> apply_input \<Rightarrow> ('site app_state \<times> bool) \<times> bool list" where
  "apply_loop_step s i =
     (case s of
        (a, False) \<Rightarrow> (s, [])
      | (a, True) \<Rightarrow>
          (case i of
             Update_In ev now \<Rightarrow> (let (a, changed) = apply_event ev now a in ((a, True), [changed]))
           | Updates_Closed \<Rightarrow> ((a, False), [])
           | Apply_Shutdown \<Rightarrow> ((a, False), [])))"

definition apply_loop :: "'site app_state \<Rightarrow> apply_input list \<Rightarrow> ('site app_state \<times> bool) \<times> bool list" where
  "apply_loop a = run_io apply_loop_step (a, True)"

interpretation applier: io_machine apply_loop_step "\<lambda>(a, _). app_inv a" "\<lambda>_. True"
proof unfold_locales
  fix s :: "'site app_state \<times> bool" and i
  assume "case s of (a, _) \<Rightarrow> app_inv a"
  then show "case fst (apply_loop_step s i) of (a, _) \<Rightarrow> app_inv a"
    using app_step_inv [of "fst s" "Apply_Event ev now" for ev now]
    by (cases s) (auto simp: apply_loop_step_def Let_def split_beta split: bool.split apply_input.split)
qed (simp add: list_all_iff)

section \<open>Facts about the delays\<close>

lemma backoff_bounds: "1 \<le> backoff n \<and> backoff n \<le> 30"
proof -
  have "1 \<le> (2::nat) ^ min n 5" by simp
  then show ?thesis by (simp add: backoff_def BACKOFF_INITIAL_SECS_def BACKOFF_CAP_def Let_def min_def)
qed

lemma backoff_mono: "m \<le> n \<Longrightarrow> backoff m \<le> backoff n"
proof -
  assume "m \<le> n"
  then have "(2::nat) ^ min m 5 \<le> 2 ^ min n 5" by (intro power_increasing) auto
  then show ?thesis by (simp add: backoff_def BACKOFF_INITIAL_SECS_def Let_def min_le_iff_disj)
qed

lemma supervise_panic:
  assumes "policy_on_panic now p = Some (delay, p')"
  shows "supervise_step kind (Supervising p) (Panicked False now False) =
    (Supervising p', [TaskPanicked kind, TaskRestarted kind delay])"
  using assms by (simp add: supervise_step_def)

definition schedule :: "task_kind \<Rightarrow> nat \<Rightarrow> event list" where
  "schedule kind n =
     concat (map (\<lambda>i. [TaskPanicked kind, TaskRestarted kind (min (2 ^ min i 5) 30)]) [0..<n])"

lemma schedule_Suc:
  "schedule kind (Suc n) = schedule kind n @ [TaskPanicked kind, TaskRestarted kind (backoff n)]"
  by (simp add: schedule_def backoff_def BACKOFF_INITIAL_SECS_def BACKOFF_CAP_def Let_def)

lemma crash_loop:
  assumes "case rp_last_restart_at p of None \<Rightarrow> rp_consecutive_restarts p = 0 | Some l \<Rightarrow> 300 \<le> t0 - l"
    and "successively (\<lambda>a b. b - a < 300) (t0 # ts)" and "length ts + 1 < 2 ^ 32"
  shows "run_io (supervise_step kind) (Supervising p) (map (\<lambda>t. Panicked False t False) (t0 # ts)) =
    (Supervising \<lparr>rp_consecutive_restarts = length ts + 1, rp_last_restart_at = Some (List.last (t0 # ts))\<rparr>,
     schedule kind (length ts + 1))"
  using assms(2,3)
proof (induction ts rule: rev_induct)
  case Nil
  have "policy_on_panic t0 p = Some (backoff 0, \<lparr>rp_consecutive_restarts = 1, rp_last_restart_at = Some t0\<rparr>)"
    using assms(1) by (auto simp: policy_on_panic_def Let_def BACKOFF_RESET_AFTER_CLEAN_def split: option.splits)
  from supervise_panic [OF this, of kind] show ?case
    using schedule_Suc [of kind 0] by (simp add: schedule_def [of _ 0])
next
  case (snoc t ts)
  let ?l = "List.last (t0 # ts)"
  let ?p = "\<lparr>rp_consecutive_restarts = length ts + 1, rp_last_restart_at = Some ?l\<rparr>"
  have gaps: "successively (\<lambda>a b. b - a < 300) (t0 # ts)" "t - ?l < 300"
    using snoc.prems(1) successively_append_iff [of "\<lambda>a b. b - a < 300" "t0 # ts" "[t]"] by auto
  have "policy_on_panic t ?p =
      Some (backoff (length ts + 1), \<lparr>rp_consecutive_restarts = length ts + 2, rp_last_restart_at = Some t\<rparr>)"
    using gaps(2) snoc.prems(2) by (simp add: policy_on_panic_def Let_def BACKOFF_RESET_AFTER_CLEAN_def)
  from supervise_panic [OF this, of kind]
  have one: "run_io (supervise_step kind) (Supervising ?p) (map (\<lambda>t. Panicked False t False) [t]) =
      (Supervising \<lparr>rp_consecutive_restarts = length ts + 2, rp_last_restart_at = Some t\<rparr>,
       [TaskPanicked kind, TaskRestarted kind (backoff (length ts + 1))])" by simp
  have "length ts + 1 < 2 ^ 32" using snoc.prems(2) by simp
  note IH = snoc.IH [OF gaps(1) this]
  have split: "t0 # ts @ [t] = (t0 # ts) @ [t]" by simp
  have len: "length (ts @ [t]) + 1 = Suc (length ts + 1)" "Suc (length ts + 1) = length ts + 2" by simp_all
  have "List.last ((t0 # ts) @ [t]) = t" by simp
  then show ?case
    unfolding split map_append run_io_append IH Let_def prod.case one len(1) schedule_Suc
    by (simp only: len(2))
qed

section \<open>Properties\<close>

text \<open>
  A crashing pipeline is restarted for ever, on the documented schedule: from the first
  panic, or the first after five clean minutes, the n-th panic in a row is followed by a
  restart after 1, 2, 4, 8, 16 and then always 30 seconds, and supervision goes on.
\<close>

theorem crash_loop_schedule:
  assumes "case rp_last_restart_at p of None \<Rightarrow> rp_consecutive_restarts p = 0 | Some l \<Rightarrow> 300 \<le> t0 - l"
    and "successively (\<lambda>a b. b - a < 300) (t0 # ts)" and "length ts + 1 < 2 ^ 32"
  shows "run_io (supervise_step kind) (Supervising p) (map (\<lambda>t. Panicked False t False) (t0 # ts)) =
    (Supervising \<lparr>rp_consecutive_restarts = length ts + 1, rp_last_restart_at = Some (List.last (t0 # ts))\<rparr>,
     concat (map (\<lambda>i. [TaskPanicked kind, TaskRestarted kind (min (2 ^ min i 5) 30)]) [0..<length ts + 1]))"
  using crash_loop [OF assms] by (simp add: schedule_def)

theorem crash_loop_schedule_witness:
  "snd (run_io (supervise_step IngestPipeline) (Supervising policy_new)
       (map (\<lambda>t. Panicked False t False) [7, 9, 20])) =
     [TaskPanicked IngestPipeline, TaskRestarted IngestPipeline 1, TaskPanicked IngestPipeline,
      TaskRestarted IngestPipeline 2, TaskPanicked IngestPipeline, TaskRestarted IngestPipeline 4]"
  by (subst crash_loop_schedule) (simp_all add: policy_new_def upt_rec)

end
