(* ===== verification/Overlay_Bundle.thy ===== *)
theory Overlay_Bundle
  imports Floats Event
begin

text \<open>
  The map underlay bundle, \<open>overlay/mod.rs\<close>: the header and section bounds that
  \<open>Bundle::parse\<close> checks, and the accessors that read layers, parts, points and labels
  out of the bytes. The bytes of the committed \<open>overlay.bin\<close> are an argument. The second
  half states the file format as an encoder and shows that the reader accepts exactly the
  encodings and loses no element of them.
\<close>

section \<open>UTF-8\<close>

text \<open>\<open>std::str::from_utf8\<close>: the shortest form only, no surrogates, at most U+10FFFF.\<close>

definition utf8_tail :: "u8 \<Rightarrow> bool" where
  "utf8_tail b = (0x80 \<le> b \<and> b < 0xC0)"

fun from_utf8 :: "bytes \<Rightarrow> utext option" where
  "from_utf8 [] = Some []"
| "from_utf8 (a # bs) =
     (if a < 0x80 then map_option ((#) (unat a)) (from_utf8 bs)
      else if a < 0xC2 then None
      else if a < 0xE0 then
        (case bs of
           b # bs \<Rightarrow> if utf8_tail b
                     then map_option ((#) ((unat a - 0xC0) * 64 + (unat b - 0x80))) (from_utf8 bs)
                     else None
         | _ \<Rightarrow> None)
      else if a < 0xF0 then
        (case bs of
           b # c # bs \<Rightarrow>
             let v = (unat a - 0xE0) * 4096 + (unat b - 0x80) * 64 + (unat c - 0x80)
             in if utf8_tail b \<and> utf8_tail c \<and> 0x800 \<le> v \<and> \<not> (0xD800 \<le> v \<and> v < 0xE000)
                then map_option ((#) v) (from_utf8 bs) else None
         | _ \<Rightarrow> None)
      else if a < 0xF5 then
        (case bs of
           b # c # d # bs \<Rightarrow>
             let v = (unat a - 0xF0) * 262144 + (unat b - 0x80) * 4096 + (unat c - 0x80) * 64 + (unat d - 0x80)
             in if utf8_tail b \<and> utf8_tail c \<and> utf8_tail d \<and> 0x10000 \<le> v \<and> v \<le> 0x10FFFF
                then map_option ((#) v) (from_utf8 bs) else None
         | _ \<Rightarrow> None)
      else None)"

section \<open>Reading little-endian fields\<close>

definition le_nat :: "bytes \<Rightarrow> nat" where
  "le_nat bs = be_nat (rev bs)"

definition read_u32 :: "bytes \<Rightarrow> nat \<Rightarrow> u32 option" where
  "read_u32 b off = map_option (\<lambda>s. of_nat (le_nat s)) (slice_get b off (off + 4))"

definition read_i32 :: "bytes \<Rightarrow> nat \<Rightarrow> int option" where
  "read_i32 b off = map_option (\<lambda>s. sint (of_nat (le_nat s) :: u32)) (slice_get b off (off + 4))"

definition read_u16 :: "bytes \<Rightarrow> nat \<Rightarrow> u16 option" where
  "read_u16 b off = map_option (\<lambda>s. of_nat (le_nat s)) (slice_get b off (off + 2))"

definition fixed_to_deg :: "int \<Rightarrow> fp" where
  "fixed_to_deg v = fdiv F64 (round_rat F64 False (of_int v)) (f64lit 10000000)"

section \<open>The bundle\<close>

definition MAGIC :: bytes where "MAGIC = ascii ''RWMOVL01''"
definition FORMAT_VERSION :: u32 where "FORMAT_VERSION = 1"
definition HEADER_LEN :: nat where "HEADER_LEN = 32"
definition LAYER_ENTRY_LEN :: nat where "LAYER_ENTRY_LEN = 12"
definition PART_ENTRY_LEN :: nat where "PART_ENTRY_LEN = 24"
definition POINT_LEN :: nat where "POINT_LEN = 8"
definition LABEL_ENTRY_LEN :: nat where "LABEL_ENTRY_LEN = 16"

record layer =
  ly_kind :: u32
  ly_first_part :: u32
  ly_part_count :: u32

record part =
  pt_bbox_deg :: "fp list"
  pt_first_point :: u32
  pt_point_count :: u32

record label =
  lb_lon :: fp
  lb_lat :: fp
  lb_rank :: u16
  lb_name :: utext

record overlay_bundle =
  bn_bytes :: bytes
  bn_layer_count :: u32
  bn_part_count :: u32
  bn_point_count :: u32
  bn_label_count :: u32
  bn_string_bytes :: u32
  bn_layers_off :: nat
  bn_parts_off :: nat
  bn_points_off :: nat
  bn_labels_off :: nat
  bn_strings_off :: nat

text \<open>\<open>usize::checked_add\<close> and \<open>checked_mul\<close>.\<close>

definition checked_add :: "nat \<Rightarrow> nat \<Rightarrow> nat option" where
  "checked_add a b = (if a + b < 2 ^ 64 then Some (a + b) else None)"

definition checked_mul :: "nat \<Rightarrow> nat \<Rightarrow> nat option" where
  "checked_mul a b = (if a * b < 2 ^ 64 then Some (a * b) else None)"

abbreviation obind :: "'a option \<Rightarrow> ('a \<Rightarrow> 'b option) \<Rightarrow> 'b option" where
  "obind \<equiv> Option.bind"

definition parse_bundle :: "bytes \<Rightarrow> overlay_bundle option" where
  "parse_bundle bs =
     obind (slice_get bs 0 8) (\<lambda>magic.
     if magic \<noteq> MAGIC then None else
     obind (read_u32 bs 8) (\<lambda>version.
     if version \<noteq> FORMAT_VERSION then None else
     obind (read_u32 bs 12) (\<lambda>layer_count.
     obind (read_u32 bs 16) (\<lambda>part_count.
     obind (read_u32 bs 20) (\<lambda>point_count.
     obind (read_u32 bs 24) (\<lambda>label_count.
     obind (read_u32 bs 28) (\<lambda>string_bytes.
     let layers_off = HEADER_LEN in
     obind (checked_mul (unat layer_count) LAYER_ENTRY_LEN) (\<lambda>layers_len.
     obind (checked_add layers_off layers_len) (\<lambda>parts_off.
     obind (checked_mul (unat part_count) PART_ENTRY_LEN) (\<lambda>parts_len.
     obind (checked_add parts_off parts_len) (\<lambda>points_off.
     obind (checked_mul (unat point_count) POINT_LEN) (\<lambda>points_len.
     obind (checked_add points_off points_len) (\<lambda>labels_off.
     obind (checked_mul (unat label_count) LABEL_ENTRY_LEN) (\<lambda>labels_len.
     obind (checked_add labels_off labels_len) (\<lambda>strings_off.
     obind (checked_add strings_off (unat string_bytes)) (\<lambda>end_off.
     if length bs < end_off then None else
     Some \<lparr>bn_bytes = bs, bn_layer_count = layer_count, bn_part_count = part_count,
           bn_point_count = point_count, bn_label_count = label_count,
           bn_string_bytes = string_bytes, bn_layers_off = layers_off, bn_parts_off = parts_off,
           bn_points_off = points_off, bn_labels_off = labels_off, bn_strings_off = strings_off\<rparr>
     ))))))))))))))))"

section \<open>The accessors\<close>

definition read_layer :: "overlay_bundle \<Rightarrow> nat \<Rightarrow> layer option" where
  "read_layer b i =
     (let off = bn_layers_off b + i * LAYER_ENTRY_LEN in
      obind (read_u32 (bn_bytes b) off) (\<lambda>kind.
      obind (read_u32 (bn_bytes b) (off + 4)) (\<lambda>first_part.
      obind (read_u32 (bn_bytes b) (off + 8)) (\<lambda>part_count.
      Some \<lparr>ly_kind = kind, ly_first_part = first_part, ly_part_count = part_count\<rparr>))))"

definition layers :: "overlay_bundle \<Rightarrow> layer list" where
  "layers b = List.map_filter (read_layer b) [0..<unat (bn_layer_count b)]"

definition read_part :: "overlay_bundle \<Rightarrow> nat \<Rightarrow> part option" where
  "read_part b i =
     (let off = bn_parts_off b + i * PART_ENTRY_LEN in
      obind (read_u32 (bn_bytes b) off) (\<lambda>first_point.
      obind (read_u32 (bn_bytes b) (off + 4)) (\<lambda>point_count.
      obind (read_i32 (bn_bytes b) (off + 8)) (\<lambda>min_lon.
      obind (read_i32 (bn_bytes b) (off + 12)) (\<lambda>min_lat.
      obind (read_i32 (bn_bytes b) (off + 16)) (\<lambda>max_lon.
      obind (read_i32 (bn_bytes b) (off + 20)) (\<lambda>max_lat.
      Some \<lparr>pt_bbox_deg = [fixed_to_deg min_lon, fixed_to_deg min_lat, fixed_to_deg max_lon, fixed_to_deg max_lat],
            pt_first_point = first_point, pt_point_count = point_count\<rparr>)))))))"

text \<open>The part of \<open>[0..<total]\<close> that starts at \<open>first\<close> and has \<open>n\<close> elements, clamped.\<close>

definition clamped_range :: "nat \<Rightarrow> u32 \<Rightarrow> u32 \<Rightarrow> nat list" where
  "clamped_range limit first n = [min (unat first) limit ..< min (min (unat first + unat n) (2 ^ 64 - 1)) limit]"

definition parts :: "overlay_bundle \<Rightarrow> layer \<Rightarrow> part list" where
  "parts b l = List.map_filter (read_part b)
     (clamped_range (unat (bn_part_count b)) (ly_first_part l) (ly_part_count l))"

definition read_point :: "overlay_bundle \<Rightarrow> nat \<Rightarrow> (fp \<times> fp) option" where
  "read_point b i =
     (let off = bn_points_off b + i * POINT_LEN in
      obind (read_i32 (bn_bytes b) off) (\<lambda>lon.
      obind (read_i32 (bn_bytes b) (off + 4)) (\<lambda>lat.
      Some (fixed_to_deg lon, fixed_to_deg lat))))"

definition points :: "overlay_bundle \<Rightarrow> part \<Rightarrow> (fp \<times> fp) list" where
  "points b p = List.map_filter (read_point b)
     (clamped_range (unat (bn_point_count b)) (pt_first_point p) (pt_point_count p))"

definition read_name :: "overlay_bundle \<Rightarrow> u32 \<Rightarrow> u16 \<Rightarrow> utext option" where
  "read_name b name_off name_len =
     obind (checked_add (bn_strings_off b) (unat (bn_string_bytes b))) (\<lambda>strings_end.
     obind (checked_add (bn_strings_off b) (unat name_off)) (\<lambda>start.
     obind (checked_add start (unat name_len)) (\<lambda>end_off.
     if strings_end < end_off then None
     else obind (slice_get (bn_bytes b) start end_off) from_utf8)))"

definition read_label :: "overlay_bundle \<Rightarrow> nat \<Rightarrow> label option" where
  "read_label b i =
     (let off = bn_labels_off b + i * LABEL_ENTRY_LEN in
      obind (read_i32 (bn_bytes b) off) (\<lambda>lon.
      obind (read_i32 (bn_bytes b) (off + 4)) (\<lambda>lat.
      obind (read_u16 (bn_bytes b) (off + 8)) (\<lambda>rank.
      obind (read_u32 (bn_bytes b) (off + 10)) (\<lambda>name_off.
      obind (read_u16 (bn_bytes b) (off + 14)) (\<lambda>name_len.
      obind (read_name b name_off name_len) (\<lambda>name.
      Some \<lparr>lb_lon = fixed_to_deg lon, lb_lat = fixed_to_deg lat, lb_rank = rank, lb_name = name\<rparr>)))))))"

definition labels :: "overlay_bundle \<Rightarrow> label list" where
  "labels b = List.map_filter (read_label b) [0..<unat (bn_label_count b)]"

definition total_points :: "overlay_bundle \<Rightarrow> nat" where
  "total_points b = unat (bn_point_count b)"

text \<open>The bytes compiled in are an argument; memoizing their parse does not change it.\<close>

definition bundled :: "bytes \<Rightarrow> overlay_bundle option" where
  "bundled overlay_bin = parse_bundle overlay_bin"

section \<open>The file format\<close>

text \<open>
  The format of \<open>overlay.bin\<close> as an encoder: magic, version, five counts, then the layer,
  part, point and label tables and the string table, every field little-endian.
\<close>

record bundle_file =
  bf_layers :: "layer list"
  bf_parts :: "(u32 \<times> u32 \<times> u32 \<times> u32 \<times> u32 \<times> u32) list"
  bf_points :: "(u32 \<times> u32) list"
  bf_labels :: "(u32 \<times> u32 \<times> u16 \<times> u32 \<times> u16) list"
  bf_strings :: bytes

definition enc_u32 :: "u32 \<Rightarrow> bytes" where
  "enc_u32 w = rev (be_bytes 4 (unat w))"

definition enc_u16 :: "u16 \<Rightarrow> bytes" where
  "enc_u16 w = rev (be_bytes 2 (unat w))"

definition enc_layer :: "layer \<Rightarrow> bytes" where
  "enc_layer l = enc_u32 (ly_kind l) @ enc_u32 (ly_first_part l) @ enc_u32 (ly_part_count l)"

fun enc_part :: "u32 \<times> u32 \<times> u32 \<times> u32 \<times> u32 \<times> u32 \<Rightarrow> bytes" where
  "enc_part (first, n, x0, y0, x1, y1) =
     enc_u32 first @ enc_u32 n @ enc_u32 x0 @ enc_u32 y0 @ enc_u32 x1 @ enc_u32 y1"

fun enc_point :: "u32 \<times> u32 \<Rightarrow> bytes" where
  "enc_point (lon, lat) = enc_u32 lon @ enc_u32 lat"

fun enc_label :: "u32 \<times> u32 \<times> u16 \<times> u32 \<times> u16 \<Rightarrow> bytes" where
  "enc_label (lon, lat, rank, off, len) =
     enc_u32 lon @ enc_u32 lat @ enc_u16 rank @ enc_u32 off @ enc_u16 len"

definition encode_bundle :: "bundle_file \<Rightarrow> bytes" where
  "encode_bundle f =
     MAGIC @ enc_u32 FORMAT_VERSION @ enc_u32 (of_nat (length (bf_layers f))) @
     enc_u32 (of_nat (length (bf_parts f))) @ enc_u32 (of_nat (length (bf_points f))) @
     enc_u32 (of_nat (length (bf_labels f))) @ enc_u32 (of_nat (length (bf_strings f))) @
     concat (map enc_layer (bf_layers f)) @ concat (map enc_part (bf_parts f)) @
     concat (map enc_point (bf_points f)) @ concat (map enc_label (bf_labels f)) @ bf_strings f"

definition bundle_file_ok :: "bundle_file \<Rightarrow> bool" where
  "bundle_file_ok f =
     (length (bf_layers f) < 2 ^ 32 \<and> length (bf_parts f) < 2 ^ 32 \<and> length (bf_points f) < 2 ^ 32 \<and>
      length (bf_labels f) < 2 ^ 32 \<and> length (bf_strings f) < 2 ^ 32)"

definition degrees :: "u32 \<Rightarrow> fp" where
  "degrees w = fixed_to_deg (sint w)"

fun part_of :: "u32 \<times> u32 \<times> u32 \<times> u32 \<times> u32 \<times> u32 \<Rightarrow> part" where
  "part_of (first, n, x0, y0, x1, y1) =
     \<lparr>pt_bbox_deg = [degrees x0, degrees y0, degrees x1, degrees y1], pt_first_point = first, pt_point_count = n\<rparr>"

fun point_of :: "u32 \<times> u32 \<Rightarrow> fp \<times> fp" where
  "point_of (lon, lat) = (degrees lon, degrees lat)"

fun label_of :: "bytes \<Rightarrow> u32 \<times> u32 \<times> u16 \<times> u32 \<times> u16 \<Rightarrow> label option" where
  "label_of strings (lon, lat, rank, off, len) =
     (case obind (slice_get strings (unat off) (unat off + unat len)) from_utf8 of
        None \<Rightarrow> None
      | Some name \<Rightarrow> Some \<lparr>lb_lon = degrees lon, lb_lat = degrees lat, lb_rank = rank, lb_name = name\<rparr>)"

text \<open>What the reader gives for the encoding of \<open>f\<close>, whatever follows it.\<close>

definition bundle_of :: "bundle_file \<Rightarrow> bytes \<Rightarrow> overlay_bundle" where
  "bundle_of f rest =
     (let p = 32 + 12 * length (bf_layers f); q = p + 24 * length (bf_parts f);
          r = q + 8 * length (bf_points f); s = r + 16 * length (bf_labels f)
      in \<lparr>bn_bytes = encode_bundle f @ rest, bn_layer_count = of_nat (length (bf_layers f)),
          bn_part_count = of_nat (length (bf_parts f)), bn_point_count = of_nat (length (bf_points f)),
          bn_label_count = of_nat (length (bf_labels f)), bn_string_bytes = of_nat (length (bf_strings f)),
          bn_layers_off = 32, bn_parts_off = p, bn_points_off = q, bn_labels_off = r, bn_strings_off = s\<rparr>)"

section \<open>Fields and tables\<close>

lemma enc_length [simp]:
  "length (enc_u32 w) = 4" "length (enc_u16 h) = 2" "length (enc_layer l) = 12" "length MAGIC = 8"
  by (simp_all add: enc_u32_def enc_u16_def enc_layer_def MAGIC_def ascii_def)

lemma enc_entry_length [simp]: "length (enc_part p) = 24" "length (enc_point q) = 8" "length (enc_label l) = 16"
  by (cases p, simp) (cases q, simp, cases l, simp)

lemma le_nat_enc_u32 [simp]: "of_nat (le_nat (enc_u32 w)) = w"
proof -
  have "unat w < 256 ^ 4" by simp
  then show ?thesis by (simp add: le_nat_def enc_u32_def be_nat_be_bytes)
qed

lemma le_nat_enc_u16 [simp]: "of_nat (le_nat (enc_u16 w)) = w"
proof -
  have "unat w < 256 ^ 2" by simp
  then show ?thesis by (simp add: le_nat_def enc_u16_def be_nat_be_bytes)
qed

lemma read_u32_slice: "slice_get bs off (off + 4) = Some (enc_u32 w) \<Longrightarrow> read_u32 bs off = Some w"
  by (simp add: read_u32_def)

lemma read_i32_slice: "slice_get bs off (off + 4) = Some (enc_u32 w) \<Longrightarrow> read_i32 bs off = Some (sint w)"
  by (simp add: read_i32_def)

lemma read_u16_slice: "slice_get bs off (off + 2) = Some (enc_u16 w) \<Longrightarrow> read_u16 bs off = Some w"
  by (simp add: read_u16_def)

lemma read_outside: "length bs < off + 4 \<Longrightarrow> read_u32 bs off = None"
  by (simp add: read_u32_def slice_get_def)

text \<open>An entry of a table of equally long entries, and a field of it.\<close>

lemma take_drop_concat:
  assumes "\<forall>x. length (enc x) = k" "i < length xs"
  shows "take k (drop (i * k) (concat (map enc xs) @ suf)) = enc (xs ! i)"
  using assms(2)
proof (induction xs arbitrary: i)
  case Nil
  then show ?case by simp
next
  case (Cons x xs)
  show ?case
  proof (cases i)
    case 0
    then show ?thesis using assms(1) by simp
  next
    case (Suc j)
    have "drop (k + j * k) (enc x @ concat (map enc xs) @ suf) = drop (j * k) (concat (map enc xs) @ suf)"
      using assms(1) by (simp add: drop_append)
    then show ?thesis using Cons.IH [of j] Cons.prems Suc by simp
  qed
qed

lemma length_concat_entries: "\<forall>x. length (enc x) = k \<Longrightarrow> length (concat (map enc xs)) = length xs * k"
  by (induction xs) simp_all

lemma entry_slice:
  assumes "\<forall>x. length (enc x) = k" "i < length xs" "off = length pre"
    "slice_get (enc (xs ! i)) a b = Some s"
  shows "slice_get (pre @ concat (map enc xs) @ suf) (off + i * k + a) (off + i * k + b) = Some s"
proof -
  let ?e = "enc (xs ! i)"
  have ab: "a \<le> b" "b \<le> k" and s: "s = take (b - a) (drop a ?e)"
    using assms(1,4) by (auto simp: slice_get_eq_Some)
  have "Suc i * k \<le> length xs * k" using assms(2) by (intro mult_le_mono1) simp
  then have len: "i * k + k \<le> length (concat (map enc xs))"
    using length_concat_entries [OF assms(1)] by simp
  let ?t = "concat (map enc xs) @ suf"
  obtain post where post: "drop (i * k) ?t = ?e @ post"
    using take_drop_concat [OF assms(1,2)] by (metis append_take_drop_id)
  have "drop (off + i * k + a) (pre @ ?t) = drop a (drop (i * k) (drop off (pre @ ?t)))"
    by (simp only: drop_drop ac_simps)
  also have "\<dots> = drop a (?e @ post)"
    using assms(3) post by simp
  also have "\<dots> = drop a ?e @ post"
    using ab assms(1) by simp
  finally show ?thesis
    using ab len s assms(1,3) by (simp add: slice_get_def)
qed

text \<open>The fields of one entry, in a table that starts at \<open>off\<close> of the bytes.\<close>

definition table_at :: "bytes \<Rightarrow> nat \<Rightarrow> nat \<Rightarrow> ('a \<Rightarrow> bytes) \<Rightarrow> 'a list \<Rightarrow> bool" where
  "table_at bs off k enc xs \<longleftrightarrow>
     (\<forall>i a b s. i < length xs \<longrightarrow> slice_get (enc (xs ! i)) a b = Some s \<longrightarrow>
        slice_get bs (off + i * k + a) (off + i * k + b) = Some s)"

lemma table_atI:
  assumes "\<forall>x. length (enc x) = k" "bs = pre @ concat (map enc xs) @ suf" "off = length pre"
  shows "table_at bs off k enc xs"
  unfolding table_at_def assms(2) by (blast intro: entry_slice [OF assms(1) _ assms(3)])

lemma table_field:
  "table_at bs off k enc xs \<Longrightarrow> i < length xs \<Longrightarrow> slice_get (enc (xs ! i)) a b = Some s \<Longrightarrow>
   slice_get bs (off + i * k + a) (off + i * k + b) = Some s"
  unfolding table_at_def by blast

lemma table_u32:
  "table_at bs off k enc xs \<Longrightarrow> i < length xs \<Longrightarrow> slice_get (enc (xs ! i)) a (a + 4) = Some (enc_u32 w) \<Longrightarrow>
   read_u32 bs (off + i * k + a) = Some w"
  by (rule read_u32_slice) (metis add.assoc table_field)

lemma table_i32:
  "table_at bs off k enc xs \<Longrightarrow> i < length xs \<Longrightarrow> slice_get (enc (xs ! i)) a (a + 4) = Some (enc_u32 w) \<Longrightarrow>
   read_i32 bs (off + i * k + a) = Some (sint w)"
  by (rule read_i32_slice) (metis add.assoc table_field)

lemma table_u16:
  "table_at bs off k enc xs \<Longrightarrow> i < length xs \<Longrightarrow> slice_get (enc (xs ! i)) a (a + 2) = Some (enc_u16 w) \<Longrightarrow>
   read_u16 bs (off + i * k + a) = Some w"
  by (rule read_u16_slice) (metis add.assoc table_field)

lemma read_layer_table:
  assumes "table_at (bn_bytes b) (bn_layers_off b) 12 enc_layer xs" "i < length xs"
  shows "read_layer b i = Some (xs ! i)"
  using table_u32 [OF assms, of 0 "ly_kind (xs ! i)"] table_u32 [OF assms, of 4 "ly_first_part (xs ! i)"]
    table_u32 [OF assms, of 8 "ly_part_count (xs ! i)"]
  by (simp add: read_layer_def LAYER_ENTRY_LEN_def Let_def enc_layer_def slice_get_def)

lemma read_part_table:
  assumes "table_at (bn_bytes b) (bn_parts_off b) 24 enc_part xs" "i < length xs"
  shows "read_part b i = Some (part_of (xs ! i))"
proof -
  obtain first n x0 y0 x1 y1 where e: "xs ! i = (first, n, x0, y0, x1, y1)" by (cases "xs ! i") auto
  show ?thesis
    using table_u32 [OF assms, of 0 first] table_u32 [OF assms, of 4 n] table_i32 [OF assms, of 8 x0]
      table_i32 [OF assms, of 12 y0] table_i32 [OF assms, of 16 x1] table_i32 [OF assms, of 20 y1]
    by (simp add: e read_part_def PART_ENTRY_LEN_def Let_def slice_get_def degrees_def)
qed

lemma read_point_table:
  assumes "table_at (bn_bytes b) (bn_points_off b) 8 enc_point xs" "i < length xs"
  shows "read_point b i = Some (point_of (xs ! i))"
proof -
  obtain lon lat where e: "xs ! i = (lon, lat)" by (cases "xs ! i")
  show ?thesis
    using table_i32 [OF assms, of 0 lon] table_i32 [OF assms, of 4 lat]
    by (simp add: e read_point_def POINT_LEN_def Let_def slice_get_def degrees_def)
qed

lemma read_label_table:
  assumes "table_at (bn_bytes b) (bn_labels_off b) 16 enc_label xs" "i < length xs"
    and name: "\<And>off len. read_name b off len = obind (slice_get strings (unat off) (unat off + unat len)) from_utf8"
  shows "read_label b i = label_of strings (xs ! i)"
proof -
  obtain lon lat rank off len where e: "xs ! i = (lon, lat, rank, off, len)" by (cases "xs ! i") auto
  note t = assms(1,2)
  show ?thesis
    using table_i32 [OF t, of 0 lon] table_i32 [OF t, of 4 lat] table_u16 [OF t, of 8 rank]
      table_u32 [OF t, of 10 off] table_u16 [OF t, of 14 len]
    by (simp add: e name read_label_def LABEL_ENTRY_LEN_def Let_def slice_get_def degrees_def
        split: option.split Option.bind_split)
qed

lemma map_filter_all:
  "(\<And>x. x \<in> set xs \<Longrightarrow> f x = Some (g x)) \<Longrightarrow> List.map_filter f xs = map g xs"
  by (induction xs) (simp_all add: List.map_filter_def)

lemma map_filter_cong: "(\<And>x. x \<in> set xs \<Longrightarrow> f x = g x) \<Longrightarrow> List.map_filter f xs = List.map_filter g xs"
  by (induction xs) (simp_all add: List.map_filter_def)

lemma map_filter_nth: "List.map_filter (\<lambda>i. f (xs ! i)) [0..<length xs] = List.map_filter f xs"
proof -
  have "List.map_filter (\<lambda>i. f (xs ! i)) is = List.map_filter f (map (\<lambda>i. xs ! i) is)" for "is"
    by (induction "is") (simp_all add: List.map_filter_def)
  then show ?thesis by (simp add: map_nth)
qed

lemma map_nth_range:
  assumes "n \<le> length xs"
  shows "map (\<lambda>i. g (xs ! i)) [m..<n] = map g (take (n - m) (drop m xs))"
proof (rule nth_equalityI)
  fix i assume "i < length (map (\<lambda>i. g (xs ! i)) [m..<n])"
  then have i: "m + i < n" by auto
  then have "[m..<n] ! i = m + i" by (rule nth_upt)
  then show "map (\<lambda>i. g (xs ! i)) [m..<n] ! i = map g (take (n - m) (drop m xs)) ! i"
    using assms i by simp
qed (use assms in auto)

lemma clamped_range_map:
  "map (\<lambda>i. g (xs ! i)) (clamped_range (length xs) first n) = map g (take (unat n) (drop (unat first) xs))"
proof -
  have "unat first + unat n < 4294967296 + 4294967296"
    using unat_u32_less [of first] unat_u32_less [of n] by linarith
  then have small: "min (unat first + unat n) (2 ^ 64 - 1) = unat first + unat n" by simp
  show ?thesis
    unfolding clamped_range_def small
    by (subst map_nth_range) (auto simp: min_def)
qed

lemma clamped_range_bound: "i \<in> set (clamped_range limit first n) \<Longrightarrow> i < limit"
  by (simp add: clamped_range_def)

section \<open>Reading an encoding\<close>

lemma unat_count [simp]: "n < 2 ^ 32 \<Longrightarrow> unat (of_nat n :: u32) = n"
  by (simp add: unat_of_nat)

definition bundle_header :: "bundle_file \<Rightarrow> bytes" where
  "bundle_header f =
     MAGIC @ enc_u32 FORMAT_VERSION @ enc_u32 (of_nat (length (bf_layers f))) @
     enc_u32 (of_nat (length (bf_parts f))) @ enc_u32 (of_nat (length (bf_points f))) @
     enc_u32 (of_nat (length (bf_labels f))) @ enc_u32 (of_nat (length (bf_strings f)))"

lemma length_bundle_header [simp]: "length (bundle_header f) = 32"
  by (simp add: bundle_header_def)

lemma length_tables [simp]:
  "length (concat (map enc_layer ls)) = length ls * 12" "length (concat (map enc_part ps)) = length ps * 24"
  "length (concat (map enc_point qs)) = length qs * 8" "length (concat (map enc_label lbs)) = length lbs * 16"
  by (simp_all add: length_concat_entries)

lemma encode_bundle_sections:
  "encode_bundle f @ rest = bundle_header f @ concat (map enc_layer (bf_layers f)) @
     concat (map enc_part (bf_parts f)) @ concat (map enc_point (bf_points f)) @
     concat (map enc_label (bf_labels f)) @ bf_strings f @ rest"
  by (simp add: encode_bundle_def bundle_header_def)

lemma header_fields:
  "slice_get (bundle_header f @ r) 0 8 = Some MAGIC"
  "read_u32 (bundle_header f @ r) 8 = Some FORMAT_VERSION"
  "read_u32 (bundle_header f @ r) 12 = Some (of_nat (length (bf_layers f)))"
  "read_u32 (bundle_header f @ r) 16 = Some (of_nat (length (bf_parts f)))"
  "read_u32 (bundle_header f @ r) 20 = Some (of_nat (length (bf_points f)))"
  "read_u32 (bundle_header f @ r) 24 = Some (of_nat (length (bf_labels f)))"
  "read_u32 (bundle_header f @ r) 28 = Some (of_nat (length (bf_strings f)))"
  by (simp_all add: bundle_header_def slice_get_def read_u32_def)

lemma parse_encoded:
  assumes "bundle_file_ok f"
  shows "parse_bundle (encode_bundle f @ rest) = Some (bundle_of f rest)"
proof -
  note ok = assms [unfolded bundle_file_ok_def]
  have small: "n < 2 ^ 32 \<Longrightarrow> n * 12 < 2 ^ 40 \<and> n * 24 < 2 ^ 40 \<and> n * 8 < 2 ^ 40 \<and> n * 16 < 2 ^ 40 \<and> n < 2 ^ 40" for n :: nat
    by simp
  note bounds = ok [THEN conjunct1, THEN small] ok [THEN conjunct2, THEN conjunct1, THEN small]
    ok [THEN conjunct2, THEN conjunct2, THEN conjunct1, THEN small]
    ok [THEN conjunct2, THEN conjunct2, THEN conjunct2, THEN conjunct1, THEN small]
    ok [THEN conjunct2, THEN conjunct2, THEN conjunct2, THEN conjunct2, THEN small]
  have mul: "checked_mul a b = Some (a * b)" if "a * b < 2 ^ 40" for a b
    using that by (simp add: checked_mul_def)
  have add: "checked_add a b = Some (a + b)" if "a < 2 ^ 60" "b < 2 ^ 60" for a b
    using that by (simp add: checked_add_def)
  have len: "length (encode_bundle f @ rest) = 32 + length (bf_layers f) * 12 + length (bf_parts f) * 24 +
      length (bf_points f) * 8 + length (bf_labels f) * 16 + length (bf_strings f) + length rest"
    by (simp add: encode_bundle_sections)
  show ?thesis
    unfolding parse_bundle_def encode_bundle_sections header_fields
    unfolding encode_bundle_sections [symmetric]
    using ok bounds len
    by (simp add: mul add bundle_of_def Let_def HEADER_LEN_def LAYER_ENTRY_LEN_def PART_ENTRY_LEN_def
        POINT_LEN_def LABEL_ENTRY_LEN_def mult.commute)
qed

lemma bundle_tables:
  "table_at (bn_bytes (bundle_of f rest)) (bn_layers_off (bundle_of f rest)) 12 enc_layer (bf_layers f)"
  "table_at (bn_bytes (bundle_of f rest)) (bn_parts_off (bundle_of f rest)) 24 enc_part (bf_parts f)"
  "table_at (bn_bytes (bundle_of f rest)) (bn_points_off (bundle_of f rest)) 8 enc_point (bf_points f)"
  "table_at (bn_bytes (bundle_of f rest)) (bn_labels_off (bundle_of f rest)) 16 enc_label (bf_labels f)"
proof -
  note b = bundle_of_def Let_def encode_bundle_sections
  show "table_at (bn_bytes (bundle_of f rest)) (bn_layers_off (bundle_of f rest)) 12 enc_layer (bf_layers f)"
    by (rule table_atI [of _ _ _ "bundle_header f"]) (simp_all add: b)
  show "table_at (bn_bytes (bundle_of f rest)) (bn_parts_off (bundle_of f rest)) 24 enc_part (bf_parts f)"
    by (rule table_atI [of _ _ _ "bundle_header f @ concat (map enc_layer (bf_layers f))"]) (simp_all add: b)
  show "table_at (bn_bytes (bundle_of f rest)) (bn_points_off (bundle_of f rest)) 8 enc_point (bf_points f)"
    by (rule table_atI [of _ _ _ "bundle_header f @ concat (map enc_layer (bf_layers f)) @
        concat (map enc_part (bf_parts f))"]) (simp_all add: b)
  show "table_at (bn_bytes (bundle_of f rest)) (bn_labels_off (bundle_of f rest)) 16 enc_label (bf_labels f)"
    by (rule table_atI [of _ _ _ "bundle_header f @ concat (map enc_layer (bf_layers f)) @
        concat (map enc_part (bf_parts f)) @ concat (map enc_point (bf_points f))"]) (simp_all add: b)
qed

lemma slice_get_section:
  assumes "b \<le> length mid"
  shows "slice_get (pre @ mid @ suf) (length pre + a) (length pre + b) = slice_get mid a b"
  using assms by (auto simp: slice_get_def)

lemma read_name_encoded:
  assumes "bundle_file_ok f"
  shows "read_name (bundle_of f rest) off n =
    obind (slice_get (bf_strings f) (unat off) (unat off + unat n)) from_utf8"
proof -
  let ?b = "bundle_of f rest" and ?pre = "bundle_header f @ concat (map enc_layer (bf_layers f)) @
     concat (map enc_part (bf_parts f)) @ concat (map enc_point (bf_points f)) @
     concat (map enc_label (bf_labels f))"
  note ok = assms [unfolded bundle_file_ok_def]
  have bytes: "bn_bytes ?b = ?pre @ bf_strings f @ rest"
    by (simp add: bundle_of_def Let_def encode_bundle_sections)
  have offs: "bn_strings_off ?b = length ?pre"
    by (simp add: bundle_of_def Let_def)
  have cnt: "unat (bn_string_bytes ?b) = length (bf_strings f)"
    using ok by (simp add: bundle_of_def Let_def)
  have add: "checked_add a b = Some (a + b)" if "a < 1000000000000000" "b < 1000000000000000" for a b
    using that by (simp add: checked_add_def)
  have pre: "length ?pre < 900000000000000" using ok by simp
  have small: "unat off < 4294967296" "unat n < 65536"
    by (rule unat_u32_less, rule unat_u16_less)
  have strings: "length (bf_strings f) < 4294967296" using ok by simp
  have s1: "checked_add (length ?pre) (length (bf_strings f)) = Some (length ?pre + length (bf_strings f))"
    using pre strings by (intro add; linarith)
  have s2: "checked_add (length ?pre) (unat off) = Some (length ?pre + unat off)"
    using pre small by (intro add; linarith)
  have s3: "checked_add (length ?pre + unat off) (unat n) = Some (length ?pre + (unat off + unat n))"
    unfolding add.assoc [symmetric] using pre small by (intro add; linarith)
  have outside: "slice_get (bf_strings f) (unat off) (unat off + unat n) = None"
    if "length (bf_strings f) < unat off + unat n"
    using that by (simp add: slice_get_def)
  show ?thesis
  proof (cases "length (bf_strings f) < unat off + unat n")
    case True
    then show ?thesis
      unfolding read_name_def offs cnt s1 bind.bind_lunit s2 s3 by (simp add: outside)
  next
    case False
    then show ?thesis
      unfolding read_name_def offs cnt s1 bind.bind_lunit s2 s3 bytes
      by (simp add: slice_get_section [of _ _ ?pre] del: append_assoc length_append)
  qed
qed

lemma accessors_encoded:
  assumes "bundle_file_ok f"
  shows "layers (bundle_of f rest) = bf_layers f"
    "parts (bundle_of f rest) l = map part_of (take (unat (ly_part_count l)) (drop (unat (ly_first_part l)) (bf_parts f)))"
    "points (bundle_of f rest) p = map point_of (take (unat (pt_point_count p)) (drop (unat (pt_first_point p)) (bf_points f)))"
    "labels (bundle_of f rest) = List.map_filter (label_of (bf_strings f)) (bf_labels f)"
    "total_points (bundle_of f rest) = length (bf_points f)"
proof -
  let ?b = "bundle_of f rest"
  have counts: "unat (bn_layer_count ?b) = length (bf_layers f)" "unat (bn_part_count ?b) = length (bf_parts f)"
    "unat (bn_point_count ?b) = length (bf_points f)" "unat (bn_label_count ?b) = length (bf_labels f)"
    using assms by (simp_all add: bundle_of_def Let_def bundle_file_ok_def)
  note t = bundle_tables [of f rest]
  have "layers ?b = map (\<lambda>i. bf_layers f ! i) [0..<length (bf_layers f)]"
    unfolding layers_def counts by (intro map_filter_all) (simp add: read_layer_table [OF t(1)])
  then show "layers ?b = bf_layers f" by (simp add: map_nth)
  have "parts ?b l = map (\<lambda>i. part_of (bf_parts f ! i))
      (clamped_range (length (bf_parts f)) (ly_first_part l) (ly_part_count l))"
    unfolding parts_def counts
    by (intro map_filter_all) (simp add: read_part_table [OF t(2)] clamped_range_bound)
  then show "parts ?b l = map part_of (take (unat (ly_part_count l)) (drop (unat (ly_first_part l)) (bf_parts f)))"
    by (simp only: clamped_range_map)
  have "points ?b p = map (\<lambda>i. point_of (bf_points f ! i))
      (clamped_range (length (bf_points f)) (pt_first_point p) (pt_point_count p))"
    unfolding points_def counts
    by (intro map_filter_all) (simp add: read_point_table [OF t(3)] clamped_range_bound)
  then show "points ?b p = map point_of (take (unat (pt_point_count p)) (drop (unat (pt_first_point p)) (bf_points f)))"
    by (simp only: clamped_range_map)
  have "labels ?b = List.map_filter (\<lambda>i. label_of (bf_strings f) (bf_labels f ! i)) [0..<length (bf_labels f)]"
    unfolding labels_def counts
    by (intro map_filter_cong read_label_table [OF t(4)] read_name_encoded [OF assms]) simp
  then show "labels ?b = List.map_filter (label_of (bf_strings f)) (bf_labels f)"
    by (simp only: map_filter_nth)
  show "total_points ?b = length (bf_points f)"
    by (simp add: total_points_def counts)
qed

section \<open>Every accepted file is an encoding\<close>

lemma enc_u32_surj: "length s = 4 \<Longrightarrow> enc_u32 (of_nat (le_nat s)) = s"
proof -
  assume len: "length s = 4"
  then have "be_nat (rev s) < 2 ^ 32" using be_nat_bound [of "rev s"] by simp
  then have "unat (of_nat (be_nat (rev s)) :: u32) = be_nat (rev s)" by (simp add: unat_of_nat)
  then show ?thesis using be_bytes_be_nat [of "rev s"] len by (simp add: enc_u32_def le_nat_def)
qed

lemma enc_u16_surj: "length s = 2 \<Longrightarrow> enc_u16 (of_nat (le_nat s)) = s"
proof -
  assume len: "length s = 2"
  then have "be_nat (rev s) < 2 ^ 16" using be_nat_bound [of "rev s"] by simp
  then have "unat (of_nat (be_nat (rev s)) :: u16) = be_nat (rev s)" by (simp add: unat_of_nat)
  then show ?thesis using be_bytes_be_nat [of "rev s"] len by (simp add: enc_u16_def le_nat_def)
qed

lemma field_u32: "length s = 4 + n \<Longrightarrow> \<exists>w r. s = enc_u32 w @ r \<and> length r = n"
  by (rule exI [of _ "of_nat (le_nat (take 4 s))"], rule exI [of _ "drop 4 s"]) (simp add: enc_u32_surj)

lemma field_u16: "length s = 2 + n \<Longrightarrow> \<exists>w r. s = enc_u16 w @ r \<and> length r = n"
  by (rule exI [of _ "of_nat (le_nat (take 2 s))"], rule exI [of _ "drop 2 s"]) (simp add: enc_u16_surj)

text \<open>A byte string of the right length is the encoding of an entry.\<close>

lemma enc_layer_surj:
  assumes "length s = 12" shows "\<exists>l. enc_layer l = s"
proof -
  obtain a r where "s = enc_u32 a @ r" "length r = 8" using field_u32 [of s 8] assms by auto
  moreover obtain b r' where "r = enc_u32 b @ r'" "length r' = 4" using field_u32 [of r 4] calculation by auto
  moreover obtain c r'' where "r' = enc_u32 c @ r''" "length r'' = 0" using field_u32 [of r' 0] calculation by auto
  ultimately have "enc_layer \<lparr>ly_kind = a, ly_first_part = b, ly_part_count = c\<rparr> = s" by (simp add: enc_layer_def)
  then show ?thesis ..
qed

lemma enc_point_surj:
  assumes "length s = 8" shows "\<exists>p. enc_point p = s"
proof -
  obtain a r where "s = enc_u32 a @ r" "length r = 4" using field_u32 [of s 4] assms by auto
  moreover obtain b r' where "r = enc_u32 b @ r'" "length r' = 0" using field_u32 [of r 0] calculation by auto
  ultimately have "enc_point (a, b) = s" by simp
  then show ?thesis ..
qed

lemma enc_part_surj:
  assumes "length s = 24" shows "\<exists>p. enc_part p = s"
proof -
  obtain a r1 where 1: "s = enc_u32 a @ r1" "length r1 = 20" using field_u32 [of s 20] assms by auto
  obtain b r2 where 2: "r1 = enc_u32 b @ r2" "length r2 = 16" using field_u32 [of r1 16] 1 by auto
  obtain c r3 where 3: "r2 = enc_u32 c @ r3" "length r3 = 12" using field_u32 [of r2 12] 2 by auto
  obtain d r4 where 4: "r3 = enc_u32 d @ r4" "length r4 = 8" using field_u32 [of r3 8] 3 by auto
  obtain e r5 where 5: "r4 = enc_u32 e @ r5" "length r5 = 4" using field_u32 [of r4 4] 4 by auto
  obtain f r6 where 6: "r5 = enc_u32 f @ r6" "length r6 = 0" using field_u32 [of r5 0] 5 by auto
  have "enc_part (a, b, c, d, e, f) = s" using 1 2 3 4 5 6 by simp
  then show ?thesis ..
qed

lemma enc_label_surj:
  assumes "length s = 16" shows "\<exists>l. enc_label l = s"
proof -
  obtain a r1 where 1: "s = enc_u32 a @ r1" "length r1 = 12" using field_u32 [of s 12] assms by auto
  obtain b r2 where 2: "r1 = enc_u32 b @ r2" "length r2 = 8" using field_u32 [of r1 8] 1 by auto
  obtain c r3 where 3: "r2 = enc_u16 c @ r3" "length r3 = 6" using field_u16 [of r2 6] 2 by auto
  obtain d r4 where 4: "r3 = enc_u32 d @ r4" "length r4 = 2" using field_u32 [of r3 2] 3 by auto
  obtain e r5 where 5: "r4 = enc_u16 e @ r5" "length r5 = 0" using field_u16 [of r4 0] 4 by auto
  have "enc_label (a, b, c, d, e) = s" using 1 2 3 4 5 by simp
  then show ?thesis ..
qed

lemma table_surj:
  assumes "\<And>s. length s = k \<Longrightarrow> \<exists>x. enc x = s" "length s = n * k + m"
  shows "\<exists>xs r. s = concat (map enc xs) @ r \<and> length xs = n \<and> length r = m"
  using assms(2)
proof (induction n arbitrary: s)
  case 0
  then show ?case by (intro exI [of _ "[]"] exI [of _ s]) simp
next
  case (Suc n)
  then have "length (take k s) = k" "length (drop k s) = n * k + m" by simp_all
  then obtain x xs r where "enc x = take k s" "drop k s = concat (map enc xs) @ r" "length xs = n" "length r = m"
    using assms(1) Suc.IH by blast
  then show ?case
    by (intro exI [of _ "x # xs"] exI [of _ r]) (metis append_assoc append_take_drop_id concat.simps(2)
        length_Cons list.simps(9))
qed

lemma parsed_is_encoded:
  assumes "parse_bundle bs = Some b"
  shows "\<exists>f rest. bundle_file_ok f \<and> bs = encode_bundle f @ rest \<and> b = bundle_of f rest"
proof -
  obtain lc pc qc nc sc where head: "slice_get bs 0 8 = Some MAGIC" "read_u32 bs 8 = Some FORMAT_VERSION"
      "read_u32 bs 12 = Some lc" "read_u32 bs 16 = Some pc" "read_u32 bs 20 = Some qc"
      "read_u32 bs 24 = Some nc" "read_u32 bs 28 = Some sc"
    and len: "32 + unat lc * 12 + unat pc * 24 + unat qc * 8 + unat nc * 16 + unat sc \<le> length bs"
    using assms
    by (auto simp: parse_bundle_def checked_add_def checked_mul_def Let_def HEADER_LEN_def LAYER_ENTRY_LEN_def
        PART_ENTRY_LEN_def POINT_LEN_def LABEL_ENTRY_LEN_def bind_eq_Some_conv split: if_splits)
  let ?m = "unat lc * 12 + (unat pc * 24 + (unat qc * 8 + (unat nc * 16 + (unat sc +
      (length bs - (32 + unat lc * 12 + unat pc * 24 + unat qc * 8 + unat nc * 16 + unat sc))))))"
  have bs: "bs = MAGIC @ drop 8 bs" "length (drop 8 bs) = 4 + (20 + ?m)"
    using head(1) len append_take_drop_id [of 8 bs] by (simp_all add: slice_get_eq_Some)
  obtain v r1 where 1: "drop 8 bs = enc_u32 v @ r1" "length r1 = 4 + (16 + ?m)"
    using field_u32 [OF bs(2)] by auto
  obtain w1 r2 where 2: "r1 = enc_u32 w1 @ r2" "length r2 = 4 + (12 + ?m)" using field_u32 [OF 1(2)] by auto
  obtain w2 r3 where 3: "r2 = enc_u32 w2 @ r3" "length r3 = 4 + (8 + ?m)" using field_u32 [OF 2(2)] by auto
  obtain w3 r4 where 4: "r3 = enc_u32 w3 @ r4" "length r4 = 4 + (4 + ?m)" using field_u32 [OF 3(2)] by auto
  obtain w4 r5 where 5: "r4 = enc_u32 w4 @ r5" "length r5 = 4 + ?m" using field_u32 [OF 4(2)] by auto
  obtain w5 r6 where 6: "r5 = enc_u32 w5 @ r6" "length r6 = ?m" using field_u32 [OF 5(2)] by auto
  have bs': "bs = MAGIC @ enc_u32 v @ enc_u32 w1 @ enc_u32 w2 @ enc_u32 w3 @ enc_u32 w4 @ enc_u32 w5 @ r6"
    using bs(1) 1(1) 2(1) 3(1) 4(1) 5(1) 6(1) by simp
  have words: "v = FORMAT_VERSION" "w1 = lc" "w2 = pc" "w3 = qc" "w4 = nc" "w5 = sc"
    using head(2-) unfolding bs' by (simp_all add: read_u32_def slice_get_def)
  obtain ls t1 where t1: "r6 = concat (map enc_layer ls) @ t1" "length ls = unat lc"
      "length t1 = unat pc * 24 + (unat qc * 8 + (unat nc * 16 + (unat sc + (length bs -
         (32 + unat lc * 12 + unat pc * 24 + unat qc * 8 + unat nc * 16 + unat sc)))))"
    using table_surj [OF enc_layer_surj 6(2)] by blast
  obtain ps t2 where t2: "t1 = concat (map enc_part ps) @ t2" "length ps = unat pc"
      "length t2 = unat qc * 8 + (unat nc * 16 + (unat sc + (length bs -
         (32 + unat lc * 12 + unat pc * 24 + unat qc * 8 + unat nc * 16 + unat sc))))"
    using table_surj [OF enc_part_surj t1(3)] by blast
  obtain qs t3 where t3: "t2 = concat (map enc_point qs) @ t3" "length qs = unat qc"
      "length t3 = unat nc * 16 + (unat sc + (length bs -
         (32 + unat lc * 12 + unat pc * 24 + unat qc * 8 + unat nc * 16 + unat sc)))"
    using table_surj [OF enc_point_surj t2(3)] by blast
  obtain ns t4 where t4: "t3 = concat (map enc_label ns) @ t4" "length ns = unat nc"
      "length t4 = unat sc + (length bs -
         (32 + unat lc * 12 + unat pc * 24 + unat qc * 8 + unat nc * 16 + unat sc))"
    using table_surj [OF enc_label_surj t3(3)] by blast
  let ?f = "\<lparr>bf_layers = ls, bf_parts = ps, bf_points = qs, bf_labels = ns, bf_strings = take (unat sc) t4\<rparr>"
  have lens: "length (take (unat sc) t4) = unat sc" using t4(3) by simp
  have ok: "bundle_file_ok ?f"
    unfolding bundle_file_ok_def by (simp add: t1(2) t2(2) t3(2) t4(2) lens del: length_take)
  have eq: "bs = encode_bundle ?f @ drop (unat sc) t4"
    unfolding bs' words t1(1) t2(1) t3(1) t4(1) encode_bundle_def
    by (simp add: t1(2) t2(2) t3(2) t4(2) lens del: length_take)
  have "b = bundle_of ?f (drop (unat sc) t4)"
    using assms parse_encoded [OF ok, of "drop (unat sc) t4"] unfolding eq by simp
  then show ?thesis using ok eq by blast
qed

section \<open>Properties\<close>

text \<open>
  The reader accepts exactly the files of the format. Bytes are a bundle if and only if
  they are the encoding of some tables, with any bytes after it, and the bundle then has
  the counts and the section offsets of that encoding; everything else is refused, and no
  count can make an offset wrap.
\<close>

theorem bundle_accepts_exactly:
  "parse_bundle bs = Some b \<longleftrightarrow>
     (\<exists>f rest. bundle_file_ok f \<and> bs = encode_bundle f @ rest \<and> b = bundle_of f rest)"
  using parsed_is_encoded parse_encoded by blast

text \<open>
  What was written is read back. From the encoding of a file the accessors give its
  layers, the parts of any layer and the points of any part, clamped to the tables, and
  every label whose name is a valid piece of the string table; a bad label is dropped alone.
\<close>

theorem bundle_read_back:
  assumes "bundle_file_ok f"
  shows "\<exists>b. parse_bundle (encode_bundle f @ rest) = Some b \<and> layers b = bf_layers f \<and>
    (\<forall>l. parts b l = map part_of (take (unat (ly_part_count l)) (drop (unat (ly_first_part l)) (bf_parts f)))) \<and>
    (\<forall>p. points b p = map point_of (take (unat (pt_point_count p)) (drop (unat (pt_first_point p)) (bf_points f)))) \<and>
    labels b = List.map_filter (label_of (bf_strings f)) (bf_labels f)"
  using parse_encoded [OF assms] accessors_encoded [OF assms] by blast

definition sample_bundle :: bundle_file where
  "sample_bundle =
     \<lparr>bf_layers = [\<lparr>ly_kind = 1, ly_first_part = 0, ly_part_count = 1\<rparr>],
      bf_parts = [(0, 2, 0, 0, 0, 0)], bf_points = [(10000000, 0), (0, 10000000)],
      bf_labels = [(0, 0, 1, 0, 2)], bf_strings = [0xC3, 0xA9]\<rparr>"

lemma sample_bundle_ok: "bundle_file_ok sample_bundle"
  by (simp add: bundle_file_ok_def sample_bundle_def)

theorem bundle_read_back_witness:
  "\<exists>b. parse_bundle (encode_bundle sample_bundle) = Some b \<and> map lb_name (labels b) = [[0xE9]] \<and>
     length (concat (map (points b) (concat (map (parts b) (layers b))))) = 2"
proof -
  obtain b where b: "parse_bundle (encode_bundle sample_bundle) = Some b" "layers b = bf_layers sample_bundle"
      "\<And>l. parts b l = map part_of (take (unat (ly_part_count l)) (drop (unat (ly_first_part l)) (bf_parts sample_bundle)))"
      "\<And>p. points b p = map point_of (take (unat (pt_point_count p)) (drop (unat (pt_first_point p)) (bf_points sample_bundle)))"
      "labels b = List.map_filter (label_of (bf_strings sample_bundle)) (bf_labels sample_bundle)"
    using bundle_read_back [OF sample_bundle_ok, of "[]"] by auto
  have "map lb_name (labels b) = [[0xE9]]"
    by (simp add: b(5) sample_bundle_def List.map_filter_def slice_get_def utf8_tail_def)
  moreover have "length (concat (map (points b) (concat (map (parts b) (layers b))))) = 2"
    by (simp add: b(2-4) sample_bundle_def)
  ultimately show ?thesis using b(1) by (intro exI [of _ b] conjI)
qed
end
