(* ===== verification/Text.thy ===== *)
theory Text
  imports Prelude
begin

text \<open>
  The operations of Rust's \<open>str\<close> that the text formats use, on code points: the Unicode
  white space, \<open>trim\<close>, \<open>lines\<close>, \<open>split_once\<close>, \<open>split\<close>, the ASCII classes and case maps,
  and the parsers of unsigned decimal numbers.
\<close>

section \<open>White space and lines\<close>

definition is_white :: "nat \<Rightarrow> bool" where
  "is_white c =
     ((9 \<le> c \<and> c \<le> 13) \<or> c = 32 \<or> c = 0x85 \<or> c = 0xA0 \<or> c = 0x1680 \<or> (0x2000 \<le> c \<and> c \<le> 0x200A) \<or>
      c = 0x2028 \<or> c = 0x2029 \<or> c = 0x202F \<or> c = 0x205F \<or> c = 0x3000)"

definition trim_start :: "utext \<Rightarrow> utext" where
  "trim_start t = dropWhile is_white t"

definition trim_end :: "utext \<Rightarrow> utext" where
  "trim_end t = rev (dropWhile is_white (rev t))"

definition trim :: "utext \<Rightarrow> utext" where
  "trim t = trim_end (trim_start t)"

text \<open>A line ends at LF or CR LF; the last one may lack its end, and then keeps a CR.\<close>

definition strip_cr :: "utext \<Rightarrow> utext" where
  "strip_cr l = (if l \<noteq> [] \<and> List.last l = 13 then butlast l else l)"

fun lines_from :: "utext \<Rightarrow> utext \<Rightarrow> utext list" where
  "lines_from cur [] = (if cur = [] then [] else [cur])"
| "lines_from cur (c # t) = (if c = 10 then strip_cr cur # lines_from [] t else lines_from (cur @ [c]) t)"

definition text_lines :: "utext \<Rightarrow> utext list" where
  "text_lines t = lines_from [] t"

section \<open>Splitting\<close>

definition split_once :: "'a \<Rightarrow> 'a list \<Rightarrow> ('a list \<times> 'a list) option" where
  "split_once c t =
     (case dropWhile (\<lambda>x. x \<noteq> c) t of [] \<Rightarrow> None | _ # rest \<Rightarrow> Some (takeWhile (\<lambda>x. x \<noteq> c) t, rest))"

fun join_lines :: "utext list \<Rightarrow> utext" where
  "join_lines [] = []"
| "join_lines [l] = l"
| "join_lines (l # m # ls) = l @ 10 # join_lines (m # ls)"

text \<open>\<open>split_whitespace\<close>: the maximal runs of other characters.\<close>

fun words_from :: "utext \<Rightarrow> utext \<Rightarrow> utext list" where
  "words_from cur [] = (if cur = [] then [] else [cur])"
| "words_from cur (c # t) =
     (if is_white c then (if cur = [] then [] else [cur]) @ words_from [] t else words_from (cur @ [c]) t)"

definition split_whitespace :: "utext \<Rightarrow> utext list" where
  "split_whitespace t = words_from [] t"

fun join_words :: "utext list \<Rightarrow> utext" where
  "join_words [] = []"
| "join_words [w] = w"
| "join_words (w # v # ws) = w @ 32 # join_words (v # ws)"

section \<open>ASCII\<close>

definition char_digit :: "nat \<Rightarrow> bool" where
  "char_digit c = (48 \<le> c \<and> c \<le> 57)"

definition char_alnum :: "nat \<Rightarrow> bool" where
  "char_alnum c = (char_digit c \<or> (65 \<le> c \<and> c \<le> 90) \<or> (97 \<le> c \<and> c \<le> 122))"

definition ascii_upper :: "utext \<Rightarrow> utext" where
  "ascii_upper t = map (\<lambda>c. if 97 \<le> c \<and> c \<le> 122 then c - 32 else c) t"

definition ascii_lower :: "utext \<Rightarrow> utext" where
  "ascii_lower t = map (\<lambda>c. if 65 \<le> c \<and> c \<le> 90 then c + 32 else c) t"

definition digits_value :: "utext \<Rightarrow> nat" where
  "digits_value ds = foldl (\<lambda>n d. 10 * n + (d - 48)) 0 ds"

text \<open>\<open>str::parse\<close> for an unsigned type of \<open>w\<close> bits.\<close>

definition parse_uint :: "nat \<Rightarrow> utext \<Rightarrow> nat option" where
  "parse_uint w t =
     (let ds = (case t of [] \<Rightarrow> [] | c # cs \<Rightarrow> if c = 43 then cs else t)
      in if ds = [] \<or> \<not> list_all char_digit ds \<or> 2 ^ w \<le> digits_value ds then None
         else Some (digits_value ds))"

text \<open>Printing a number in decimal.\<close>

fun decimal :: "nat \<Rightarrow> utext" where
  "decimal n = (if n < 10 then [48 + n] else decimal (n div 10) @ [48 + n mod 10])"

declare decimal.simps [simp del]

section \<open>Facts\<close>

lemma list_all2_mem: "list_all2 R xs ys \<Longrightarrow> y \<in> set ys \<Longrightarrow> \<exists>x\<in>set xs. R x y"
  by (induction xs ys rule: list_all2_induct) auto

lemma trim_start_append:
  "t \<noteq> [] \<Longrightarrow> \<not> is_white (hd t) \<Longrightarrow> trim_start (t @ u) = t @ u"
  by (cases t) (simp_all add: trim_start_def)

lemma trim_nothing:
  assumes "t \<noteq> []" "\<not> is_white (hd t)" "\<not> is_white (List.last t)"
  shows "trim t = t"
proof -
  have "trim_start t = t" using assms(1,2) by (cases t) (simp_all add: trim_start_def)
  moreover have "trim_end t = t"
    using assms(1,3) by (cases t rule: rev_cases) (simp_all add: trim_end_def)
  ultimately show ?thesis by (simp add: trim_def)
qed

lemma trim_end_snoc [simp]: "is_white c \<Longrightarrow> trim_end (t @ [c]) = trim_end t"
  by (simp add: trim_end_def)

lemma trim_end_Nil [simp]: "trim_end [] = []" "trim_start [] = []" "trim [] = []"
  by (simp_all add: trim_end_def trim_start_def trim_def)

lemma trim_start_white [simp]: "is_white c \<Longrightarrow> trim_start (c # t) = trim_start t"
  by (simp add: trim_start_def)

lemma trim_start_Nil_iff: "trim_start t = [] \<longleftrightarrow> list_all is_white t"
  by (simp add: trim_start_def dropWhile_eq_Nil_conv list_all_iff)

lemma trim_start_snoc:
  "trim_start (t @ [c]) = (if list_all is_white t then trim_start [c] else trim_start t @ [c])"
  by (auto simp: trim_start_def dropWhile_append list_all_iff dropWhile_eq_Nil_conv)

lemma trim_snoc_white [simp]: "is_white c \<Longrightarrow> trim (t @ [c]) = trim t"
  by (auto simp: trim_def trim_start_snoc trim_start_Nil_iff [symmetric])

lemma trim_strip_cr [simp]: "trim (strip_cr l) = trim l"
proof (cases "l \<noteq> [] \<and> List.last l = 13")
  case True
  then have "l = strip_cr l @ [13]" by (metis append_butlast_last_id strip_cr_def)
  moreover have "is_white 13" by (simp add: is_white_def)
  ultimately show ?thesis by (metis trim_snoc_white)
next
  case False
  then have "strip_cr l = l" unfolding strip_cr_def by (rule if_not_P)
  then show ?thesis by simp
qed

lemma lines_from_line:
  "10 \<notin> set l \<Longrightarrow> lines_from cur (l @ 10 # t) = strip_cr (cur @ l) # lines_from [] t"
  by (induction l arbitrary: cur) auto

lemma lines_no_lf: "l \<in> set (lines_from cur t) \<Longrightarrow> 10 \<notin> set cur \<Longrightarrow> 10 \<notin> set l"
proof (induction t arbitrary: cur)
  case Nil
  then show ?case by (simp split: if_splits)
next
  case (Cons c t)
  show ?case
  proof (cases "c = 10")
    case True
    then have "l = strip_cr cur \<or> l \<in> set (lines_from [] t)" using Cons.prems by simp
    then show ?thesis
      using Cons.IH [of "[]"] Cons.prems(2) by (auto simp: strip_cr_def dest: in_set_butlastD split: if_splits)
  next
    case False
    then show ?thesis using Cons.IH [of "cur @ [c]"] Cons.prems by simp
  qed
qed

lemma text_lines_no_lf: "l \<in> set (text_lines t) \<Longrightarrow> 10 \<notin> set l"
  by (simp add: text_lines_def lines_no_lf)

lemma lines_join:
  "\<forall>l\<in>set ls. 10 \<notin> set l \<Longrightarrow> ls \<noteq> [] \<Longrightarrow> text_lines (join_lines ls @ [10]) = map strip_cr ls"
proof (induction ls rule: join_lines.induct)
  case (2 l)
  then show ?case using lines_from_line [of l "[]" "[]"] by (simp add: text_lines_def)
next
  case (3 l m ls)
  then show ?case
    using lines_from_line [of l "[]" "join_lines (m # ls) @ [10]"] by (simp add: text_lines_def)
qed simp

lemma split_once_hit:
  "c \<notin> set a \<Longrightarrow> split_once c (a @ c # b) = Some (a, b)"
proof -
  assume a: "c \<notin> set a"
  then have "\<forall>x\<in>set a. x \<noteq> c" by auto
  then have "takeWhile (\<lambda>x. x \<noteq> c) (a @ c # b) = a" "dropWhile (\<lambda>x. x \<noteq> c) (a @ c # b) = c # b"
    by (simp_all add: takeWhile_tail dropWhile_append3)
  then show ?thesis by (simp add: split_once_def)
qed

lemma split_once_None: "split_once c t = None \<longleftrightarrow> c \<notin> set t"
proof -
  have "split_once c t = None \<longleftrightarrow> dropWhile (\<lambda>x. x \<noteq> c) t = []"
    by (cases "dropWhile (\<lambda>x. x \<noteq> c) t")
      (simp_all only: split_once_def list.case option.distinct list.distinct simp_thms)
  also have "\<dots> \<longleftrightarrow> c \<notin> set t" by (auto simp only: dropWhile_eq_Nil_conv)
  finally show ?thesis .
qed

lemma dropWhile_fixed: "dropWhile P t = t \<Longrightarrow> t \<noteq> [] \<Longrightarrow> \<not> P (hd t)"
  by (metis hd_dropWhile)

lemma trim_fixed:
  assumes "trim t = t" and "t \<noteq> []"
  shows "\<not> is_white (hd t) \<and> \<not> is_white (List.last t)"
proof -
  have le: "length (trim_end u) \<le> length u" "length (trim_start u) \<le> length u" for u
    using length_dropWhile_le [of is_white "rev u"] by (simp_all add: trim_end_def trim_start_def length_dropWhile_le)
  have "length (trim_start t) = length t"
    using le(1) [of "trim_start t"] le(2) [of t] assms(1) by (simp add: trim_def)
  then have start: "trim_start t = t"
    unfolding trim_start_def by (metis append_eq_conv_conj takeWhile_dropWhile_id append_Nil length_append add_cancel_right_left length_0_conv)
  then have "rev (dropWhile is_white (rev t)) = t" using assms(1) by (simp add: trim_def trim_end_def)
  then have "dropWhile is_white (rev t) = rev t" by (metis rev_rev_ident)
  then show ?thesis
    using dropWhile_fixed [of is_white t] dropWhile_fixed [of is_white "rev t"] start assms(2)
    by (simp add: trim_start_def hd_rev)
qed

lemma trim_solid:
  assumes "a \<noteq> []" and "\<not> is_white (hd a)" and "trim v = v" and "v \<noteq> []"
  shows "trim (a @ v) = a @ v"
  using trim_nothing [of "a @ v"] trim_fixed [OF assms(3,4)] assms by simp

end
