(* ===== verification/Sites.thy ===== *)
theory Sites
  imports Text Floats "HOL-Library.List_Lexorder"
begin

text \<open>
  The bundled site table, \<open>sites_generated.rs\<close>, and its lookup, \<open>sites.rs\<close>. The search is
  the binary search of \<open>core::slice\<close>; text is compared by code point, the order of the
  UTF-8 bytes.
\<close>

record site =
  st_id :: utext
  st_name :: utext
  st_state :: utext
  st_lat :: fp
  st_lon :: fp
  st_elevation_m :: int

definition mk_site :: "string \<Rightarrow> string \<Rightarrow> string \<Rightarrow> rat \<Rightarrow> rat \<Rightarrow> int \<Rightarrow> site" where
  "mk_site i name state lat lon elevation =
     \<lparr>st_id = lit i, st_name = lit name, st_state = lit state, st_lat = f64lit lat,
      st_lon = f64lit lon, st_elevation_m = elevation\<rparr>"

definition SITES :: "site list" where
  "SITES =
    [
     mk_site ''KABR'' ''ABERDEEN'' ''SD'' (45455833 / 1000000) (- (98413333 / 1000000)) (422),
     mk_site ''KABX'' ''ALBUQUERQUE'' ''NM'' (35149722 / 1000000) (- (10682388 / 100000)) (1814),
     mk_site ''KAKQ'' ''NORFOLK RICH'' ''VA'' (3698405 / 100000) (- (77007361 / 1000000)) (78),
     mk_site ''KAMA'' ''AMARILLO'' ''TX'' (35233333 / 1000000) (- (10170927 / 100000)) (1129),
     mk_site ''KAMX'' ''MIAMI'' ''FL'' (25611083 / 1000000) (- (80412667 / 1000000)) (34),
     mk_site ''KAPX'' ''GAYLORD'' ''MI'' (4490635 / 100000) (- (84719533 / 1000000)) (476),
     mk_site ''KARX'' ''LA CROSSE'' ''WI'' (43822778 / 1000000) (- (91191111 / 1000000)) (414),
     mk_site ''KATX'' ''SEATTLE'' ''WA'' (48194611 / 1000000) (- (12249569 / 100000)) (196),
     mk_site ''KBBX'' ''BEALE AFB'' ''CA'' (39495639 / 1000000) (- (12163161 / 100000)) (67),
     mk_site ''KBGM'' ''BINGHAMTON'' ''NY'' (42199694 / 1000000) (- (75984722 / 1000000)) (519),
     mk_site ''KBHX'' ''EUREKA'' ''CA'' (40498583 / 1000000) (- (12429216 / 100000)) (767),
     mk_site ''KBIS'' ''BISMARCK'' ''ND'' (46770833 / 1000000) (- (10076055 / 100000)) (535),
     mk_site ''KBLX'' ''BILLINGS'' ''MT'' (45853778 / 1000000) (- (1086068 / 10000)) (1129),
     mk_site ''KBMX'' ''BIRMINGHAM'' ''AL'' (33172417 / 1000000) (- (86770167 / 1000000)) (231),
     mk_site ''KBOX'' ''BOSTON'' ''MA'' (41955778 / 1000000) (- (71136861 / 1000000)) (71),
     mk_site ''KBRO'' ''BROWNSVILLE'' ''TX'' (25916 / 1000) (- (97418967 / 1000000)) (27),
     mk_site ''KBUF'' ''BUFFALO'' ''NY'' (42948789 / 1000000) (- (78736781 / 1000000)) (241),
     mk_site ''KBYX'' ''KEY WEST'' ''FL'' (245975 / 10000) (- (81703167 / 1000000)) (27),
     mk_site ''KCAE'' ''COLUMBIA'' ''SC'' (33948722 / 1000000) (- (81118278 / 1000000)) (105),
     mk_site ''KCBW'' ''HOULTON'' ''ME'' (4603925 / 100000) (- (67806431 / 1000000)) (262),
     mk_site ''KCBX'' ''BOISE'' ''ID'' (43490217 / 1000000) (- (11623603 / 100000)) (967),
     mk_site ''KCCX'' ''STATE COLLEGE'' ''PA'' (40923167 / 1000000) (- (78003722 / 1000000)) (758),
     mk_site ''KCLE'' ''CLEVELAND'' ''OH'' (41413217 / 1000000) (- (81859867 / 1000000)) (262),
     mk_site ''KCLX'' ''CHARLESTON'' ''SC'' (32655528 / 1000000) (- (81042194 / 1000000)) (70),
     mk_site ''KCRI'' ''ROC FAA REDUNDANT RDA 1'' ''OK'' (35238333 / 1000000) (- (9746 / 100)) (401),
     mk_site ''KCRP'' ''CORPUS CHRISTI'' ''TX'' (27784017 / 1000000) (- (9751125 / 100000)) (43),
     mk_site ''KCXX'' ''BURLINGTON'' ''VT'' (44511 / 1000) (- (73166431 / 1000000)) (131),
     mk_site ''KCYS'' ''CHEYENNE'' ''WY'' (41151919 / 1000000) (- (10480603 / 100000)) (1888),
     mk_site ''KDAX'' ''SACRAMENTO'' ''CA'' (38501111 / 1000000) (- (12167783 / 100000)) (44),
     mk_site ''KDDC'' ''DODGE CITY'' ''KS'' (37760833 / 1000000) (- (99968889 / 1000000)) (814),
     mk_site ''KDFX'' ''LAUGHLIN AFB'' ''TX'' (29273139 / 1000000) (- (10028033 / 100000)) (365),
     mk_site ''KDGX'' ''JACKSON BRANDON'' ''MS'' (32279944 / 1000000) (- (89984444 / 1000000)) (186),
     mk_site ''KDIX'' ''PHILADELPHIA'' ''NJ'' (39947089 / 1000000) (- (74410731 / 1000000)) (70),
     mk_site ''KDLH'' ''DULUTH'' ''MN'' (46836944 / 1000000) (- (92209722 / 1000000)) (470),
     mk_site ''KDMX'' ''DES MOINES'' ''IA'' (417312 / 10000) (- (93722869 / 1000000)) (334),
     mk_site ''KDOX'' ''DOVER AFB'' ''DE'' (38825767 / 1000000) (- (75440117 / 1000000)) (50),
     mk_site ''KDTX'' ''DETROIT'' ''MI'' (427 / 10) (- (83471667 / 1000000)) (371),
     mk_site ''KDVN'' ''DAVENPORT'' ''IA'' (41611667 / 1000000) (- (90580833 / 1000000)) (259),
     mk_site ''KDYX'' ''DYESS AFB'' ''TX'' (325385 / 10000) (- (99254333 / 1000000)) (482),
     mk_site ''KEAX'' ''KANSAS CITY'' ''MO'' (3881025 / 100000) (- (94264472 / 1000000)) (333),
     mk_site ''KEMX'' ''TUCSON'' ''AZ'' (3189365 / 100000) (- (11063025 / 100000)) (1621),
     mk_site ''KENX'' ''ALBANY'' ''NY'' (42586556 / 1000000) (- (74064083 / 1000000)) (590),
     mk_site ''KEOX'' ''FORT RUCKER'' ''AL'' (31460556 / 1000000) (- (85459389 / 1000000)) (164),
     mk_site ''KEPZ'' ''EL PASO'' ''NM'' (31873056 / 1000000) (- (106698 / 1000)) (1286),
     mk_site ''KESX'' ''LAS VEGAS'' ''NV'' (3570135 / 100000) (- (11489165 / 100000)) (1508),
     mk_site ''KEVX'' ''EGLIN AFB'' ''FL'' (30565033 / 1000000) (- (85921667 / 1000000)) (67),
     mk_site ''KEWX'' ''AUSTIN SAN ANTONIO'' ''TX'' (29704056 / 1000000) (- (98028611 / 1000000)) (234),
     mk_site ''KEYX'' ''EDWARDS'' ''CA'' (3509785 / 100000) (- (11756075 / 100000)) (876),
     mk_site ''KFCX'' ''ROANOKE'' ''VA'' (370244 / 10000) (- (80273969 / 1000000)) (904),
     mk_site ''KFDR'' ''ALTUS AFB'' ''OK'' (34362194 / 1000000) (- (98976667 / 1000000)) (401),
     mk_site ''KFDX'' ''CANNON AFB'' ''NM'' (34634167 / 1000000) (- (10361888 / 100000)) (1432),
     mk_site ''KFFC'' ''ATLANTA'' ''GA'' (3336355 / 100000) (- (8456595 / 100000)) (296),
     mk_site ''KFSD'' ''SIOUX FALLS'' ''SD'' (43587778 / 1000000) (- (96729444 / 1000000)) (456),
     mk_site ''KFSX'' ''FLAGSTAFF'' ''AZ'' (34574333 / 1000000) (- (11119844 / 100000)) (2290),
     mk_site ''KFTG'' ''DENVER FRONT RANGE AP'' ''CO'' (39786639 / 1000000) (- (1045458 / 10000)) (1710),
     mk_site ''KFWS'' ''DALLAS'' ''TX'' (32573 / 1000) (- (9730315 / 100000)) (237),
     mk_site ''KGGW'' ''GLASGOW'' ''MT'' (48206361 / 1000000) (- (10662469 / 100000)) (727),
     mk_site ''KGJX'' ''GRAND JUNCTION'' ''CO'' (39062169 / 1000000) (- (10821376 / 100000)) (3079),
     mk_site ''KGLD'' ''GOODLAND'' ''KS'' (39366944 / 1000000) (- (10170027 / 100000)) (1133),
     mk_site ''KGRB'' ''GREEN BAY'' ''WI'' (44498633 / 1000000) (- (88111111 / 1000000)) (251),
     mk_site ''KGRK'' ''FORT HOOD'' ''TX'' (30721833 / 1000000) (- (97382944 / 1000000)) (184),
     mk_site ''KGRR'' ''GRAND RAPIDS'' ''MI'' (42893889 / 1000000) (- (85544889 / 1000000)) (267),
     mk_site ''KGSP'' ''GREER'' ''SC'' (34883306 / 1000000) (- (82219833 / 1000000)) (326),
     mk_site ''KGWX'' ''COLUMBUS AFB'' ''MS'' (33896917 / 1000000) (- (88329194 / 1000000)) (180),
     mk_site ''KGYX'' ''PORTLAND'' ''ME'' (43891306 / 1000000) (- (70256361 / 1000000)) (144),
     mk_site ''KHDC'' ''HAMMOND MUNICIPAL AIRPORT'' ''LA'' (305193 / 10000) (- (904074 / 10000)) (13),
     mk_site ''KHDX'' ''HOLLOMAN AFB'' ''NM'' (33077 / 1000) (- (10612003 / 100000)) (1301),
     mk_site ''KHGX'' ''HOUSTON'' ''TX'' (294719 / 10000) (- (95078733 / 1000000)) (35),
     mk_site ''KHNX'' ''SAN JOAQUIN VALLEY'' ''CA'' (36314181 / 1000000) (- (11963213 / 100000)) (104),
     mk_site ''KHPX'' ''FORT CAMPBELL'' ''KY'' (36736972 / 1000000) (- (87285583 / 1000000)) (187),
     mk_site ''KHTX'' ''HUNTSVILLE'' ''AL'' (34930556 / 1000000) (- (86083611 / 1000000)) (567),
     mk_site ''KICT'' ''WICHITA'' ''KS'' (37654444 / 1000000) (- (97443056 / 1000000)) (427),
     mk_site ''KICX'' ''CEDAR CITY'' ''UT'' (3759105 / 100000) (- (11286218 / 100000)) (3279),
     mk_site ''KILN'' ''CINCINNATI'' ''OH'' (39420483 / 1000000) (- (8382145 / 100000)) (357),
     mk_site ''KILX'' ''LINCOLN'' ''IL'' (401505 / 10000) (- (89336792 / 1000000)) (223),
     mk_site ''KIND'' ''INDIANAPOLIS'' ''IN'' (397075 / 10000) (- (86280278 / 1000000)) (270),
     mk_site ''KINX'' ''TULSA'' ''OK'' (36175131 / 1000000) (- (95564161 / 1000000)) (228),
     mk_site ''KIWA'' ''PHOENIX'' ''AZ'' (33289233 / 1000000) (- (11166991 / 100000)) (435),
     mk_site ''KIWX'' ''FORT WAYNE'' ''IN'' (41358611 / 1000000) (- (857 / 10)) (322),
     mk_site ''KJAX'' ''JACKSONVILLE'' ''FL'' (30484633 / 1000000) (- (817019 / 10000)) (49),
     mk_site ''KJGX'' ''ROBINS AFB'' ''GA'' (32675683 / 1000000) (- (83350833 / 1000000)) (188),
     mk_site ''KJKL'' ''JACKSON'' ''KY'' (37590833 / 1000000) (- (83313056 / 1000000)) (445),
     mk_site ''KLBB'' ''LUBBOCK'' ''TX'' (33654139 / 1000000) (- (10181416 / 100000)) (1030),
     mk_site ''KLCH'' ''LAKE CHARLES'' ''LA'' (30125306 / 1000000) (- (93215889 / 1000000)) (42),
     mk_site ''KLGX'' ''LANGLEY HILL NW WASHINGTON'' ''WA'' (47116944 / 1000000) (- (12410666 / 100000)) (112),
     mk_site ''KLIX'' ''NEW ORLEANS'' ''LA'' (30336667 / 1000000) (- (89825417 / 1000000)) (55),
     mk_site ''KLNX'' ''NORTH PLATTE'' ''NE'' (41957944 / 1000000) (- (10057622 / 100000)) (949),
     mk_site ''KLOT'' ''CHICAGO'' ''IL'' (41604444 / 1000000) (- (88084444 / 1000000)) (232),
     mk_site ''KLRX'' ''ELKO'' ''NV'' (4073955 / 100000) (- (1168027 / 10000)) (2102),
     mk_site ''KLSX'' ''ST LOUIS'' ''MO'' (38698611 / 1000000) (- (90682778 / 1000000)) (220),
     mk_site ''KLTX'' ''WILMINGTON'' ''NC'' (3398915 / 100000) (- (78429108 / 1000000)) (44),
     mk_site ''KLVX'' ''LOUISVILLE'' ''KY'' (37975278 / 1000000) (- (85943889 / 1000000)) (254),
     mk_site ''KLWX'' ''STERLING'' ''VA'' (38976111 / 1000000) (- (774875 / 10000)) (123),
     mk_site ''KLZK'' ''LITTLE ROCK'' ''AR'' (348365 / 10000) (- (92262194 / 1000000)) (198),
     mk_site ''KMAF'' ''MIDLAND ODESSA'' ''TX'' (31943461 / 1000000) (- (10218925 / 100000)) (903),
     mk_site ''KMAX'' ''MEDFORD'' ''OR'' (42081169 / 1000000) (- (12271736 / 100000)) (2305),
     mk_site ''KMBX'' ''MINOT AFB'' ''ND'' (48393056 / 1000000) (- (10086444 / 100000)) (485),
     mk_site ''KMHX'' ''MOREHEAD CITY'' ''NC'' (34775908 / 1000000) (- (76876189 / 1000000)) (44),
     mk_site ''KMKX'' ''MILWAUKEE'' ''WI'' (429679 / 10000) (- (88550667 / 1000000)) (312),
     mk_site ''KMLB'' ''MELBOURNE'' ''FL'' (28113194 / 1000000) (- (80654083 / 1000000)) (45),
     mk_site ''KMOB'' ''MOBILE'' ''AL'' (30679444 / 1000000) (- (8824 / 100)) (88),
     mk_site ''KMPX'' ''MINNEAPOLIS'' ''MN'' (44848889 / 1000000) (- (93565528 / 1000000)) (336),
     mk_site ''KMQT'' ''MARQUETTE'' ''MI'' (46531111 / 1000000) (- (87548333 / 1000000)) (465),
     mk_site ''KMRX'' ''KNOXVILLE'' ''TN'' (36168611 / 1000000) (- (83401944 / 1000000)) (437),
     mk_site ''KMSX'' ''MISSOULA'' ''MT'' (47041 / 1000) (- (11398622 / 100000)) (2432),
     mk_site ''KMTX'' ''SALT LAKE CITY'' ''UT'' (41262778 / 1000000) (- (11244777 / 100000)) (2010),
     mk_site ''KMUX'' ''SAN FRANCISCO'' ''CA'' (37155222 / 1000000) (- (12189844 / 100000)) (1082),
     mk_site ''KMVX'' ''GRAND FORKS'' ''ND'' (47527778 / 1000000) (- (97325556 / 1000000)) (330),
     mk_site ''KMXX'' ''MAXWELL AFB'' ''AL'' (3253665 / 100000) (- (8578975 / 100000)) (171),
     mk_site ''KNKX'' ''SAN DIEGO'' ''CA'' (32919017 / 1000000) (- (1170418 / 10000)) (321),
     mk_site ''KNQA'' ''MEMPHIS'' ''TN'' (35344722 / 1000000) (- (89873333 / 1000000)) (133),
     mk_site ''KOAX'' ''OMAHA'' ''NE'' (41320369 / 1000000) (- (96366819 / 1000000)) (385),
     mk_site ''KOHX'' ''NASHVILLE'' ''TN'' (36247222 / 1000000) (- (865625 / 10000)) (206),
     mk_site ''KOKX'' ''NEW YORK CITY'' ''NY'' (40865528 / 1000000) (- (72863917 / 1000000)) (61),
     mk_site ''KOTX'' ''SPOKANE'' ''WA'' (47680417 / 1000000) (- (11762677 / 100000)) (746),
     mk_site ''KOUN'' ''NORMAN NSSL'' ''OK'' (35236058 / 1000000) (- (9746235 / 100000)) (391),
     mk_site ''KPAH'' ''PADUCAH'' ''KY'' (37068333 / 1000000) (- (88771944 / 1000000)) (154),
     mk_site ''KPBZ'' ''PITTSBURGH'' ''PA'' (40531717 / 1000000) (- (80217967 / 1000000)) (386),
     mk_site ''KPDT'' ''PENDLETON'' ''OR'' (4569065 / 100000) (- (11885293 / 100000)) (482),
     mk_site ''KPOE'' ''FORT POLK'' ''LA'' (31155278 / 1000000) (- (92976111 / 1000000)) (144),
     mk_site ''KPUX'' ''PUEBLO'' ''CO'' (3845955 / 100000) (- (10418135 / 100000)) (1635),
     mk_site ''KRAX'' ''RALEIGH DURHAM'' ''NC'' (35665519 / 1000000) (- (7848975 / 100000)) (141),
     mk_site ''KRGX'' ''RENO'' ''NV'' (39754056 / 1000000) (- (11946202 / 100000)) (2559),
     mk_site ''KRIW'' ''RIVERTON'' ''WY'' (43066089 / 1000000) (- (1084773 / 10000)) (1717),
     mk_site ''KRLX'' ''CHARLESTON'' ''WV'' (38311111 / 1000000) (- (81722778 / 1000000)) (370),
     mk_site ''KRTX'' ''PORTLAND'' ''OR'' (45715039 / 1000000) (- (122965 / 1000)) (527),
     mk_site ''KSFX'' ''POCATELLO'' ''ID'' (431056 / 10000) (- (11268613 / 100000)) (1383),
     mk_site ''KSGF'' ''SPRINGFIELD'' ''MO'' (37235239 / 1000000) (- (93400419 / 1000000)) (419),
     mk_site ''KSHV'' ''SHREVEPORT'' ''LA'' (32450833 / 1000000) (- (9384125 / 100000)) (118),
     mk_site ''KSJT'' ''SAN ANGELO'' ''TX'' (31371278 / 1000000) (- (1004925 / 10000)) (611),
     mk_site ''KSOX'' ''SANTA ANA MOUNTAINS'' ''CA'' (33817733 / 1000000) (- (117636 / 1000)) (947),
     mk_site ''KSRX'' ''FORT SMITH'' ''AR'' (35290417 / 1000000) (- (94361889 / 1000000)) (225),
     mk_site ''KTBW'' ''TAMPA'' ''FL'' (277055 / 10000) (- (82401778 / 1000000)) (37),
     mk_site ''KTFX'' ''GREAT FALLS'' ''MT'' (47459583 / 1000000) (- (11138533 / 100000)) (1160),
     mk_site ''KTLH'' ''TALLAHASSEE'' ''FL'' (30397583 / 1000000) (- (84328944 / 1000000)) (54),
     mk_site ''KTLX'' ''OKLAHOMA CITY'' ''OK'' (35333361 / 1000000) (- (97277761 / 1000000)) (390),
     mk_site ''KTWX'' ''TOPEKA'' ''KS'' (3899695 / 100000) (- (9623255 / 100000)) (431),
     mk_site ''KTYX'' ''FORT DRUM'' ''NY'' (43755694 / 1000000) (- (75679861 / 1000000)) (597),
     mk_site ''KUDX'' ''RAPID CITY'' ''SD'' (44124722 / 1000000) (- (10283 / 100)) (974),
     mk_site ''KUEX'' ''HASTINGS'' ''NE'' (40320833 / 1000000) (- (98441944 / 1000000)) (627),
     mk_site ''KVAX'' ''MOODY AFB'' ''GA'' (30890278 / 1000000) (- (83001806 / 1000000)) (101),
     mk_site ''KVBX'' ''VANDENBERG AFB'' ''CA'' (3483855 / 100000) (- (12039791 / 100000)) (413),
     mk_site ''KVNX'' ''VANCE AFB'' ''OK'' (36740617 / 1000000) (- (98127717 / 1000000)) (383),
     mk_site ''KVTX'' ''LOS ANGELES'' ''CA'' (34412017 / 1000000) (- (11917875 / 100000)) (856),
     mk_site ''KVWX'' ''EVANSVILLE'' ''IN'' (3826025 / 100000) (- (87724528 / 1000000)) (190),
     mk_site ''KYUX'' ''YUMA'' ''AZ'' (32495281 / 1000000) (- (11465671 / 100000)) (73),
     mk_site ''LPLA'' ''LAJES AB'' '''' (3873028 / 100000) (- (2732167 / 100000)) (1016),
     mk_site ''PABC'' ''BETHEL FAA'' ''AK'' (60791944 / 1000000) (- (16187638 / 100000)) (59),
     mk_site ''PACG'' ''SITKA'' ''AK'' (56852778 / 1000000) (- (13552916 / 100000)) (83),
     mk_site ''PAEC'' ''NOME'' ''AK'' (64511389 / 1000000) (- (165295 / 1000)) (27),
     mk_site ''PAHG'' ''ANCHORAGE'' ''AK'' (60725914 / 1000000) (- (15135146 / 100000)) (109),
     mk_site ''PAIH'' ''MIDDLETON ISLAND'' ''AK'' (59460767 / 1000000) (- (14630344 / 100000)) (40),
     mk_site ''PAKC'' ''KING SALMON'' ''AK'' (58679444 / 1000000) (- (15662944 / 100000)) (44),
     mk_site ''PAPD'' ''FAIRBANKS'' ''AK'' (65035114 / 1000000) (- (14750143 / 100000)) (825),
     mk_site ''PGUA'' ''ANDERSEN AFB AGANA'' ''GU'' (13455833 / 1000000) (144811111 / 1000000) (118),
     mk_site ''PHKI'' ''SOUTH KAUAI'' ''HI'' (21893889 / 1000000) (- (1595525 / 10000)) (104),
     mk_site ''PHKM'' ''KAMUELA'' ''HI'' (20125278 / 1000000) (- (15577777 / 100000)) (1209),
     mk_site ''PHMO'' ''MOLOKAI'' ''HI'' (21132778 / 1000000) (- (15718027 / 100000)) (440),
     mk_site ''PHWA'' ''SOUTH SHORE'' ''HI'' (19095 / 1000) (- (15556888 / 100000)) (445),
     mk_site ''RKJK'' ''KUNSAN'' '''' (35924167 / 1000000) (126622222 / 1000000) (59),
     mk_site ''RKSG'' ''CAMP HUMPHREYS'' '''' (37207569 / 1000000) (127285561 / 1000000) (464),
     mk_site ''RODN'' ''KADENA'' '''' (263078 / 10000) (127903469 / 1000000) (126),
     mk_site ''TJUA'' ''SAN JUAN'' ''PR'' (18115667 / 1000000) (- (66078167 / 1000000)) (902)
    ]"

section \<open>Lookup\<close>

text \<open>
  The loop of \<open>binary_search_by\<close>: the size of the remaining part halves, and the base
  moves to the middle unless the element there is greater.
\<close>

function search_from :: "(nat \<Rightarrow> bool) \<Rightarrow> nat \<Rightarrow> nat \<Rightarrow> nat" where
  "search_from beyond base n =
     (if n \<le> 1 then base
      else let half = n div 2; mid = base + half
           in search_from beyond (if beyond mid then base else mid) (n - half))"
  by auto
termination by (relation "measure (\<lambda>(_, _, n). n)") auto

declare search_from.simps [simp del]

definition by_id :: "site list \<Rightarrow> utext \<Rightarrow> site option" where
  "by_id sites i =
     (let upper = ascii_upper i in
      if sites = [] then None
      else let base = search_from (\<lambda>k. upper < st_id (sites ! k)) 0 (length sites)
           in if st_id (sites ! base) = upper then Some (sites ! base) else None)"

fun is_sorted_no_duplicates :: "site list \<Rightarrow> bool" where
  "is_sorted_no_duplicates (a # b # sites) =
     (st_id a < st_id b \<and> is_sorted_no_duplicates (b # sites))"
| "is_sorted_no_duplicates _ = True"

lemma is_sorted_iff: "is_sorted_no_duplicates sites \<longleftrightarrow> sorted_wrt (<) (map st_id sites)"
  by (induction sites rule: is_sorted_no_duplicates.induct) (auto intro: less_trans)

lemma SITES_sorted: "is_sorted_no_duplicates SITES"
  by (simp add: SITES_def mk_site_def lit_def)

text \<open>What the loop leaves: everything beyond the part is greater, its first is not.\<close>

lemma search_from_spec:
  assumes "0 < n" and "\<And>k. base + n \<le> k \<Longrightarrow> k < N \<Longrightarrow> beyond k"
    and "base + n \<le> N" and "base = 0 \<or> \<not> beyond base"
    and mono: "\<And>i j. i \<le> j \<Longrightarrow> j < N \<Longrightarrow> beyond i \<Longrightarrow> beyond j"
  shows "(let b = search_from beyond base n in
     b < N \<and> (b = 0 \<or> \<not> beyond b) \<and> (\<forall>k. b < k \<and> k < N \<longrightarrow> beyond k))"
  using assms
proof (induction beyond base n rule: search_from.induct)
  case (1 beyond base n)
  show ?case
  proof (cases "n \<le> 1")
    case True
    then show ?thesis using 1(2-5) by (simp add: search_from.simps [of beyond base n] Let_def)
  next
    case False
    let ?half = "n div 2"
    let ?base = "if beyond (base + ?half) then base else base + ?half"
    have step: "search_from beyond base n = search_from beyond ?base (n - ?half)"
      using False by (simp add: search_from.simps [of beyond base n] Let_def)
    have "0 < n - ?half" "?base + (n - ?half) \<le> N" "?base = 0 \<or> \<not> beyond ?base"
      using False 1(4,5) by auto
    moreover have "beyond k" if "?base + (n - ?half) \<le> k" "k < N" for k
    proof (cases "beyond (base + ?half)")
      case True
      then show ?thesis using 1(6) [of "base + ?half" k] that by simp
    next
      case False
      then show ?thesis using 1(3) [of k] that by simp
    qed
    ultimately show ?thesis
      unfolding step using 1(1) [OF False refl refl] 1(6) by blast
  qed
qed

text \<open>The search is the search of the reference, on a sorted table.\<close>

lemma by_id_sorted:
  assumes sorted: "is_sorted_no_duplicates sites"
  shows "by_id sites i = find (\<lambda>s. st_id s = ascii_upper i) sites"
proof (cases "sites = []")
  case True
  then show ?thesis by (simp add: by_id_def)
next
  case False
  let ?u = "ascii_upper i"
  let ?b = "search_from (\<lambda>k. ?u < st_id (sites ! k)) 0 (length sites)"
  have less: "st_id (sites ! j) < st_id (sites ! k)" if "j < k" "k < length sites" for j k
    using sorted that by (auto simp: is_sorted_iff sorted_wrt_iff_nth_less)
  have mono: "?u < st_id (sites ! k)" if "j \<le> k" "k < length sites" "?u < st_id (sites ! j)" for j k
    using less [of j k] that by (cases "j = k") auto
  have "let b = ?b in b < length sites \<and> (b = 0 \<or> \<not> ?u < st_id (sites ! b)) \<and>
      (\<forall>k. b < k \<and> k < length sites \<longrightarrow> ?u < st_id (sites ! k))"
  proof (rule search_from_spec)
    show "?u < st_id (sites ! k)" if "j \<le> k" "k < length sites" "?u < st_id (sites ! j)" for j k
      by (rule mono [OF that])
  qed (use False in simp_all)
  then have b: "?b < length sites" "?b = 0 \<or> \<not> ?u < st_id (sites ! ?b)"
    "\<And>k. ?b < k \<Longrightarrow> k < length sites \<Longrightarrow> ?u < st_id (sites ! k)"
    unfolding Let_def by blast+
  have only: "j = ?b" if "j < length sites" "st_id (sites ! j) = ?u" for j
  proof (rule ccontr)
    assume "j \<noteq> ?b"
    then consider "?b < j" | "j < ?b" by linarith
    then show False
    proof cases
      case 1
      then show ?thesis using b(3) [of j] that by simp
    next
      case 2
      then show ?thesis using less [OF 2 b(1)] b(2) that by auto
    qed
  qed
  show ?thesis
  proof (cases "st_id (sites ! ?b) = ?u")
    case True
    have "find (\<lambda>s. st_id s = ?u) sites = Some (sites ! ?b)"
      unfolding find_Some_iff
    proof (intro exI [of _ ?b] conjI allI impI)
      fix j assume "j < ?b"
      then show "st_id (sites ! j) \<noteq> ?u" using only [of j] b(1) by fastforce
    qed (use True b(1) in simp_all)
    then show ?thesis using True False by (simp add: by_id_def Let_def)
  next
    case False': False
    then have "find (\<lambda>s. st_id s = ?u) sites = None"
      using only by (auto simp: find_None_iff in_set_conv_nth)
    then show ?thesis using False False' by (simp add: by_id_def Let_def)
  qed
qed

lemma by_id_Some_iff:
  assumes "is_sorted_no_duplicates sites"
  shows "by_id sites i = Some s \<longleftrightarrow> s \<in> set sites \<and> st_id s = ascii_upper i"
proof -
  have inj: "inj_on st_id (set sites)"
    using assms by (simp add: is_sorted_iff strict_sorted_iff distinct_map)
  let ?P = "\<lambda>s. st_id s = ascii_upper i"
  show ?thesis
  proof
    assume "by_id sites i = Some s"
    then show "s \<in> set sites \<and> ?P s"
      unfolding by_id_sorted [OF assms] by (auto simp: find_Some_iff)
  next
    assume s: "s \<in> set sites \<and> ?P s"
    then obtain s' where s': "find ?P sites = Some s'"
      by (cases "find ?P sites") (auto simp: find_None_iff)
    then have "s' \<in> set sites" "?P s'" by (auto simp: find_Some_iff)
    then have "s' = s" using s inj_onD [OF inj, of s' s] by simp
    then show "by_id sites i = Some s" using s' by (simp add: by_id_sorted [OF assms])
  qed
qed

section \<open>Properties\<close>

text \<open>
  The binary search of the bundled table finds exactly the sites it holds: an
  identifier gives a site just when the table has a row under it, in any case of letters,
  and then it is that row.
\<close>

theorem site_lookup_exact:
  "by_id SITES i = Some s \<longleftrightarrow> s \<in> set SITES \<and> st_id s = ascii_upper i"
  by (rule by_id_Some_iff [OF SITES_sorted])

end
