(* ===== verification/Overlay_Project.thy ===== *)
theory Overlay_Project
  imports Overlay_Bundle Derived Sites
begin

text \<open>
  The projection of the underlay around a site, \<open>overlay/project.rs\<close>: one vertex per
  projected point, index pairs per part, one index range per drawn layer, the labels in
  world metres. The 32-bit indices are numbers with the overflow checks of the release
  profile: \<open>None\<close> is the panic of an overflowing addition.
\<close>

section \<open>Definitions\<close>

definition LABEL_LAYER_KIND :: u32 where "LABEL_LAYER_KIND = 5"

definition KNOWN_GEOMETRY_KINDS :: "u32 \<times> u32" where "KNOWN_GEOMETRY_KINDS = (1, 4)"

record projected_layer =
  pl_kind :: u32
  pl_index_range :: "nat \<times> nat"

record projected_label =
  pb_world :: "fp \<times> fp"
  pb_rank :: u16
  pb_name :: utext

record projected =
  pj_vertices :: "(fp \<times> fp) list"
  pj_indices :: "nat list"
  pj_layers :: "projected_layer list"
  pj_labels :: "projected_label list"

text \<open>The cast \<open>usize as u32\<close>.\<close>

definition as_u32 :: "nat \<Rightarrow> nat" where
  "as_u32 n = n mod 2 ^ 32"

definition to_world :: "libm \<Rightarrow> site \<Rightarrow> fp \<times> fp \<Rightarrow> fp \<times> fp" where
  "to_world lm s p =
     (case p of (lon, lat) \<Rightarrow>
        (let (x, y) = az_eq_project lm (st_lat s) (st_lon s) lat lon in (f64_to_f32 x, f64_to_f32 y)))"

fun push_points ::
  "libm \<Rightarrow> site \<Rightarrow> (fp \<times> fp) list \<Rightarrow> (fp \<times> fp) list \<Rightarrow> nat \<Rightarrow> ((fp \<times> fp) list \<times> nat) option" where
  "push_points lm s [] vertices n = Some (vertices, n)"
| "push_points lm s (p # ps) vertices n =
     (if n + 1 < 2 ^ 32 then push_points lm s ps (vertices @ [to_world lm s p]) (n + 1) else None)"

fun push_pairs :: "nat \<Rightarrow> nat list \<Rightarrow> nat list \<Rightarrow> nat list option" where
  "push_pairs start_vertex [] indices = Some indices"
| "push_pairs start_vertex (i # is) indices =
     (if start_vertex + i + 1 < 2 ^ 32
      then push_pairs start_vertex is (indices @ [start_vertex + i, start_vertex + i + 1]) else None)"

definition project_part ::
  "libm \<Rightarrow> site \<Rightarrow> (fp \<times> fp) list \<Rightarrow> (fp \<times> fp) list \<times> nat list \<Rightarrow> ((fp \<times> fp) list \<times> nat list) option" where
  "project_part lm s pts vi =
     (case vi of (vertices, indices) \<Rightarrow>
        let start_vertex = as_u32 (length vertices) in
        obind (push_points lm s pts vertices 0) (\<lambda>(vertices, n).
        if n < 2 then Some (take start_vertex vertices, indices)
        else map_option (\<lambda>indices. (vertices, indices)) (push_pairs start_vertex [0..<n - 1] indices)))"

fun project_parts ::
  "libm \<Rightarrow> site \<Rightarrow> (fp \<times> fp) list list \<Rightarrow> (fp \<times> fp) list \<times> nat list \<Rightarrow> ((fp \<times> fp) list \<times> nat list) option" where
  "project_parts lm s [] vi = Some vi"
| "project_parts lm s (pts # ps) vi = obind (project_part lm s pts vi) (project_parts lm s ps)"

definition project_label :: "libm \<Rightarrow> site \<Rightarrow> label \<Rightarrow> projected_label" where
  "project_label lm s l =
     \<lparr>pb_world = to_world lm s (lb_lon l, lb_lat l), pb_rank = lb_rank l, pb_name = lb_name l\<rparr>"

definition project_layer ::
  "libm \<Rightarrow> overlay_bundle \<Rightarrow> site \<Rightarrow> layer \<Rightarrow> projected \<times> event list \<Rightarrow> (projected \<times> event list) option" where
  "project_layer lm b s l pe =
     (case pe of (p, events) \<Rightarrow>
        if ly_kind l = LABEL_LAYER_KIND
        then Some (p\<lparr>pj_labels := pj_labels p @ map (project_label lm s) (labels b)\<rparr>, events)
        else if \<not> (fst KNOWN_GEOMETRY_KINDS \<le> ly_kind l \<and> ly_kind l \<le> snd KNOWN_GEOMETRY_KINDS)
        then Some (p, events @ [OverlayLayerUnknownKind (ly_kind l)])
        else
          let index_start = as_u32 (length (pj_indices p)) in
          map_option (\<lambda>(vertices, indices).
            (p\<lparr>pj_vertices := vertices, pj_indices := indices,
               pj_layers := pj_layers p @ [\<lparr>pl_kind = ly_kind l, pl_index_range = (index_start, as_u32 (length indices))\<rparr>]\<rparr>,
             events))
            (project_parts lm s (map (points b) (parts b l)) (pj_vertices p, pj_indices p)))"

fun project_layers ::
  "libm \<Rightarrow> overlay_bundle \<Rightarrow> site \<Rightarrow> layer list \<Rightarrow> projected \<times> event list \<Rightarrow> (projected \<times> event list) option" where
  "project_layers lm b s [] pe = Some pe"
| "project_layers lm b s (l # ls) pe = obind (project_layer lm b s l pe) (project_layers lm b s ls)"

definition project :: "libm \<Rightarrow> overlay_bundle \<Rightarrow> site \<Rightarrow> (projected \<times> event list) option" where
  "project lm b s =
     project_layers lm b s (layers b)
       (\<lparr>pj_vertices = [], pj_indices = [], pj_layers = [], pj_labels = []\<rparr>, [])"

section \<open>What is drawn\<close>

text \<open>
  The reference: the drawn parts are those of the known layers with two points or more, each
  contributes its points and the segments between neighbours, and each layer owns the
  segments of its parts.
\<close>

definition drawable :: "layer \<Rightarrow> bool" where
  "drawable l \<longleftrightarrow> 1 \<le> ly_kind l \<and> ly_kind l \<le> 4"

definition drawn_parts :: "overlay_bundle \<Rightarrow> layer \<Rightarrow> (fp \<times> fp) list list" where
  "drawn_parts b l = filter (\<lambda>pts. 2 \<le> length pts) (map (points b) (parts b l))"

definition segments :: "nat \<Rightarrow> nat \<Rightarrow> nat list" where
  "segments start n = concat (map (\<lambda>i. [start + i, start + i + 1]) [0..<n - 1])"

fun part_segments :: "nat \<Rightarrow> (fp \<times> fp) list list \<Rightarrow> nat list" where
  "part_segments start [] = []"
| "part_segments start (pts # ps) = segments start (length pts) @ part_segments (start + length pts) ps"

fun layer_ranges :: "overlay_bundle \<Rightarrow> nat \<Rightarrow> layer list \<Rightarrow> projected_layer list" where
  "layer_ranges b start [] = []"
| "layer_ranges b start (l # ls) =
     (let stop = start + length (part_segments 0 (drawn_parts b l))
      in \<lparr>pl_kind = ly_kind l, pl_index_range = (start, stop)\<rparr> # layer_ranges b stop ls)"

definition project_spec :: "libm \<Rightarrow> overlay_bundle \<Rightarrow> site \<Rightarrow> projected \<times> event list" where
  "project_spec lm b s =
     (let drawn = filter drawable (layers b); ps = concat (map (drawn_parts b) drawn) in
      (\<lparr>pj_vertices = map (to_world lm s) (concat ps), pj_indices = part_segments 0 ps,
        pj_layers = layer_ranges b 0 drawn,
        pj_labels = concat (map (\<lambda>l. map (project_label lm s) (labels b))
          (filter (\<lambda>l. ly_kind l = 5) (layers b)))\<rparr>,
       map (\<lambda>l. OverlayLayerUnknownKind (ly_kind l))
         (filter (\<lambda>l. \<not> drawable l \<and> ly_kind l \<noteq> 5) (layers b))))"

text \<open>The number of points that are projected, those of dropped parts included.\<close>

definition projected_points :: "overlay_bundle \<Rightarrow> layer list \<Rightarrow> nat" where
  "projected_points b ls =
     sum_list (map (\<lambda>l. length (concat (map (points b) (parts b l)))) (filter drawable ls))"

section \<open>The loops in closed form\<close>

lemma push_points_all:
  "n + length ps < 2 ^ 32 \<Longrightarrow>
   push_points lm s ps vertices n = Some (vertices @ map (to_world lm s) ps, n + length ps)"
  by (induction lm s ps vertices n rule: push_points.induct) simp_all

lemma push_pairs_all:
  "\<forall>i\<in>set is. start + i + 1 < 2 ^ 32 \<Longrightarrow>
   push_pairs start is indices = Some (indices @ concat (map (\<lambda>i. [start + i, start + i + 1]) is))"
  by (induction start "is" indices rule: push_pairs.induct) simp_all

lemma project_part_all:
  assumes "length vertices + length pts < 2 ^ 32"
  shows "project_part lm s pts (vertices, indices) =
    Some (if length pts < 2 then (vertices, indices)
          else (vertices @ map (to_world lm s) pts, indices @ segments (length vertices) (length pts)))"
proof -
  have "push_points lm s pts vertices 0 = Some (vertices @ map (to_world lm s) pts, length pts)"
    using assms push_points_all [of 0 pts lm s vertices] by simp
  moreover have "push_pairs (length vertices) [0..<length pts - 1] indices =
      Some (indices @ segments (length vertices) (length pts))"
    unfolding segments_def using assms by (intro push_pairs_all) auto
  ultimately show ?thesis
    using assms by (simp add: project_part_def as_u32_def)
qed

lemma project_parts_all:
  "length vertices + length (concat ps) < 2 ^ 32 \<Longrightarrow>
   project_parts lm s ps (vertices, indices) =
     Some (vertices @ map (to_world lm s) (concat (filter (\<lambda>pts. 2 \<le> length pts) ps)),
           indices @ part_segments (length vertices) (filter (\<lambda>pts. 2 \<le> length pts) ps))"
proof (induction ps arbitrary: vertices indices)
  case Nil
  then show ?case by simp
next
  case (Cons pts ps)
  then have "length vertices + length pts < 2 ^ 32" by simp
  note part = project_part_all [OF this, of lm s indices]
  show ?case
  proof (cases "length pts < 2")
    case True
    then show ?thesis using Cons part by simp
  next
    case False
    then show ?thesis
      using Cons.prems part
        Cons.IH [of "vertices @ map (to_world lm s) pts" "indices @ segments (length vertices) (length pts)"]
      by simp
  qed
qed

lemma length_segments: "length (segments start n) = 2 * (n - 1)"
  by (simp add: segments_def length_concat sum_list_triv o_def)

lemma length_part_segments: "length (part_segments start ps) = length (part_segments 0 ps)"
  by (induction ps arbitrary: start)
    (simp_all add: length_segments, metis)

lemma length_part_segments_le: "length (part_segments start ps) \<le> 2 * length (concat ps)"
  by (induction ps arbitrary: start) (auto simp: length_segments intro: add_mono)

lemma part_segments_append:
  "part_segments start (ps @ qs) = part_segments start ps @ part_segments (start + length (concat ps)) qs"
  by (induction ps arbitrary: start) (simp_all add: add.assoc)

lemma length_filter_parts: "length (concat (filter P ps)) \<le> length (concat ps)"
  by (induction ps) auto

lemma kinds_drawable:
  "fst KNOWN_GEOMETRY_KINDS \<le> ly_kind l \<and> ly_kind l \<le> snd KNOWN_GEOMETRY_KINDS \<longleftrightarrow> drawable l"
  by (simp add: KNOWN_GEOMETRY_KINDS_def drawable_def)

lemma label_not_drawable: "ly_kind l = 5 \<Longrightarrow> \<not> drawable l"
  by (simp add: drawable_def)

lemma project_layer_drawable:
  assumes "drawable l" "length (pj_vertices p) + length (concat (map (points b) (parts b l))) < 2 ^ 31"
    "length (pj_indices p) \<le> 2 * length (pj_vertices p)"
  shows "project_layer lm b s l (p, e) =
    (let is = pj_indices p @ part_segments (length (pj_vertices p)) (drawn_parts b l) in
     Some (p\<lparr>pj_vertices := pj_vertices p @ map (to_world lm s) (concat (drawn_parts b l)),
             pj_indices := is,
             pj_layers := pj_layers p @ [\<lparr>pl_kind = ly_kind l, pl_index_range = (length (pj_indices p), length is)\<rparr>]\<rparr>, e))"
proof -
  have "ly_kind l \<noteq> LABEL_LAYER_KIND"
    using assms(1) label_not_drawable by (auto simp: LABEL_LAYER_KIND_def)
  moreover have "length (pj_indices p) < 2 ^ 32" using assms(2,3) by simp
  moreover have "length (part_segments (length (pj_vertices p)) (drawn_parts b l)) \<le>
      2 * length (concat (map (points b) (parts b l)))"
    unfolding drawn_parts_def
    by (rule order_trans [OF length_part_segments_le mult_le_mono2 [OF length_filter_parts]])
  moreover have "length (pj_vertices p) + length (concat (map (points b) (parts b l))) < 2 ^ 32"
    using assms(2) by simp
  note parts = project_parts_all [OF this, of lm s "pj_indices p"]
  ultimately show ?thesis
    using assms unfolding project_layer_def kinds_drawable
    by (simp add: parts drawn_parts_def as_u32_def Let_def)
qed

lemma project_layers_all:
  assumes "length (pj_vertices p) + projected_points b ls < 2 ^ 31"
    "length (pj_indices p) \<le> 2 * length (pj_vertices p)"
  shows "project_layers lm b s ls (p, e) =
    (let drawn = filter drawable ls; ps = concat (map (drawn_parts b) drawn) in
     Some (p\<lparr>pj_vertices := pj_vertices p @ map (to_world lm s) (concat ps),
             pj_indices := pj_indices p @ part_segments (length (pj_vertices p)) ps,
             pj_layers := pj_layers p @ layer_ranges b (length (pj_indices p)) drawn,
             pj_labels := pj_labels p @ concat (map (\<lambda>l. map (project_label lm s) (labels b))
               (filter (\<lambda>l. ly_kind l = 5) ls))\<rparr>,
       e @ map (\<lambda>l. OverlayLayerUnknownKind (ly_kind l)) (filter (\<lambda>l. \<not> drawable l \<and> ly_kind l \<noteq> 5) ls)))"
  using assms
proof (induction ls arbitrary: p e)
  case Nil
  then show ?case by (simp add: Let_def)
next
  case (Cons l ls)
  consider (label) "ly_kind l = 5" "\<not> drawable l" | (unknown) "ly_kind l \<noteq> 5" "\<not> drawable l"
    | (known) "ly_kind l \<noteq> 5" "drawable l"
    using label_not_drawable by blast
  then show ?case
  proof cases
    case label
    then show ?thesis
      using Cons by (simp add: project_layer_def LABEL_LAYER_KIND_def projected_points_def Let_def)
  next
    case unknown
    then show ?thesis
      using Cons by (simp add: project_layer_def kinds_drawable LABEL_LAYER_KIND_def projected_points_def Let_def)
  next
    case known
    let ?pts = "drawn_parts b l"
    have fits: "length (pj_vertices p) + length (concat (map (points b) (parts b l))) < 2 ^ 31"
      using Cons.prems(1) known by (simp add: projected_points_def)
    note step = project_layer_drawable [OF known(2) fits Cons.prems(2), of lm s e, unfolded Let_def]
    have "length (concat ?pts) \<le> length (concat (map (points b) (parts b l)))"
      unfolding drawn_parts_def by (rule length_filter_parts)
    moreover have "length (part_segments (length (pj_vertices p)) ?pts) \<le> 2 * length (concat ?pts)"
      by (rule length_part_segments_le)
    ultimately show ?thesis
      using Cons.prems known length_part_segments [of "length (pj_vertices p)" ?pts]
      by (simp add: step projected_points_def Cons.IH Let_def part_segments_append)
  qed
qed

lemma project_is_spec:
  "projected_points b (layers b) < 2 ^ 31 \<Longrightarrow> project lm b s = Some (project_spec lm b s)"
  using project_layers_all [of "\<lparr>pj_vertices = [], pj_indices = [], pj_layers = [], pj_labels = []\<rparr>"
      b "layers b" lm s "[]"]
  by (simp add: project_def project_spec_def Let_def)

lemma sample_tables:
  "bf_layers sample_bundle = [\<lparr>ly_kind = 1, ly_first_part = 0, ly_part_count = 1\<rparr>]"
  "bf_parts sample_bundle = [(0, 2, 0, 0, 0, 0)]" "bf_points sample_bundle = [(10000000, 0), (0, 10000000)]"
  by (simp_all add: sample_bundle_def)

section \<open>Properties\<close>

text \<open>
  C23: everything that can be drawn is drawn, and nothing else. For a bundle of fewer than
  2^31 projected points no index overflows, and the result is exactly the reference: the
  points of the parts with two points or more of the known layers, in bundle order, the
  segments between neighbouring points of one part, for each layer the range of its own
  segments, the labels of the label layers, and one event per layer of an unknown kind.
\<close>

theorem project_exact:
  assumes "projected_points b (layers b) < 2 ^ 31"
  shows "project lm b s = Some (project_spec lm b s)"
  using assms by (rule project_is_spec)

lemma sample_bundle_points: "projected_points (bundle_of sample_bundle []) (layers (bundle_of sample_bundle [])) = 2"
  by (simp add: projected_points_def accessors_encoded [OF sample_bundle_ok] sample_tables drawable_def)

theorem project_exact_witness:
  "\<exists>p. project sample_libm (bundle_of sample_bundle []) (hd SITES) = Some p \<and> pj_indices (fst p) = [0, 1] \<and>
     pj_layers (fst p) = [\<lparr>pl_kind = 1, pl_index_range = (0, 2)\<rparr>]"
proof -
  let ?b = "bundle_of sample_bundle []"
  have "projected_points ?b (layers ?b) < 2 ^ 31" by (simp add: sample_bundle_points)
  note p = project_exact [OF this, of sample_libm "hd SITES"]
  have drawn: "drawn_parts ?b (hd (layers ?b)) = [[(degrees 10000000, degrees 0), (degrees 0, degrees 10000000)]]"
    by (simp add: drawn_parts_def accessors_encoded [OF sample_bundle_ok] sample_tables)
  have ls: "layers ?b = [hd (layers ?b)]" "drawable (hd (layers ?b))" "ly_kind (hd (layers ?b)) = 1"
    by (simp_all add: accessors_encoded [OF sample_bundle_ok] sample_tables drawable_def)
  have "filter drawable (layers ?b) = [hd (layers ?b)]" using ls by (metis filter.simps)
  then show ?thesis
    unfolding p project_spec_def Let_def by (simp add: drawn ls(3) segments_def)
qed

lemma part_segments_bound: "i \<in> set (part_segments start ps) \<Longrightarrow> i < start + length (concat ps)"
  by (induction ps arbitrary: start) (fastforce simp: segments_def)+

lemma layer_ranges_ordered: "\<forall>r\<in>set (layer_ranges b start ls). fst (pl_index_range r) \<le> snd (pl_index_range r)"
  by (induction ls arbitrary: start) (simp_all add: Let_def)

lemma layer_ranges_chain:
  "concat (map (\<lambda>r. [fst (pl_index_range r) ..< snd (pl_index_range r)]) (layer_ranges b start ls)) =
     [start ..< start + length (part_segments 0 (concat (map (drawn_parts b) ls)))]"
proof (induction ls arbitrary: start)
  case Nil
  then show ?case by simp
next
  case (Cons l ls)
  let ?m = "length (part_segments 0 (drawn_parts b l))"
  let ?n = "length (part_segments 0 (concat (map (drawn_parts b) ls)))"
  have len: "length (part_segments 0 (concat (map (drawn_parts b) (l # ls)))) = ?m + ?n"
    by (simp add: part_segments_append length_part_segments [of "0 + _"])
      (metis length_part_segments)
  show ?case
    unfolding len using Cons.IH [of "start + ?m"]
    by (simp add: Let_def upt_add_eq_append [of start "start + ?m" ?n] add.assoc [symmetric])
qed

text \<open>
  What is handed to the graphics card is safe to draw. Every index is that of a vertex,
  the indices come in pairs, and the ranges of the layers follow one another without gap or
  overlap and together are all of the indices.
\<close>

theorem projected_buffers_safe:
  assumes "projected_points b (layers b) < 2 ^ 31"
  shows "\<exists>p events. project lm b s = Some (p, events) \<and>
    (\<forall>i\<in>set (pj_indices p). i < length (pj_vertices p)) \<and> even (length (pj_indices p)) \<and>
    concat (map (\<lambda>r. [fst (pl_index_range r) ..< snd (pl_index_range r)]) (pj_layers p)) =
      [0 ..< length (pj_indices p)] \<and>
    (\<forall>r\<in>set (pj_layers p). fst (pl_index_range r) \<le> snd (pl_index_range r))"
proof -
  have even: "even (length (part_segments start ps))" for start ps
    by (induction ps arbitrary: start) (simp_all add: length_segments)
  show ?thesis
    unfolding project_is_spec [OF assms] project_spec_def Let_def
    using part_segments_bound [of _ 0] layer_ranges_chain [of b 0 "filter drawable (layers b)"]
      layer_ranges_ordered [of b 0 "filter drawable (layers b)"] even
    by (auto simp: length_concat)
qed

theorem projected_buffers_safe_witness:
  "\<exists>p events. project sample_libm (bundle_of sample_bundle []) (hd SITES) = Some (p, events) \<and>
    (\<forall>i\<in>set (pj_indices p). i < length (pj_vertices p))"
proof -
  have "projected_points (bundle_of sample_bundle []) (layers (bundle_of sample_bundle [])) < 2 ^ 31"
    by (simp add: sample_bundle_points)
  from projected_buffers_safe [OF this, of sample_libm "hd SITES"] show ?thesis by blast
qed
end
