(* ===== verification/Palette_Files.thy ===== *)
theory Palette_Files
  imports Text
begin

text \<open>
  The colour tables that are compiled into the program, \<open>compute/palettes/*.pal\<close>, line by
  line. Characters outside ASCII occur in comments only and are given as code points.
\<close>

definition reflectivity_pal :: "utext list" where
  "reflectivity_pal =
    [lit ''; Reflectivity (dBZ) '' @ [0x2014] @ lit '' NWS-standard 16-step palette, ported verbatim from'',
     lit ''; utility/radar-viz/src/color_table.rs'' @ [39] @ lit ''s nws_reflectivity() (validated'',
     lit ''; against real data by that utility'' @ [39] @ lit ''s PPI renderer).'',
     lit ''Product: Reflectivity'',
     lit ''Units: dBZ'',
     lit ''Step: 5'',
     lit ''SolidColor:  5 118 118 118'',
     lit ''SolidColor: 10   4 233 231'',
     lit ''SolidColor: 15   1 159 244'',
     lit ''SolidColor: 20   3   0 244'',
     lit ''SolidColor: 25   2 253   2'',
     lit ''SolidColor: 30   1 197   1'',
     lit ''SolidColor: 35   0 142   0'',
     lit ''SolidColor: 40 253 248   2'',
     lit ''SolidColor: 45 229 188   0'',
     lit ''SolidColor: 50 253 149   0'',
     lit ''SolidColor: 55 253   0   0'',
     lit ''SolidColor: 60 212   0   0'',
     lit ''SolidColor: 65 188   0   0'',
     lit ''SolidColor: 70 248   0 253'',
     lit ''SolidColor: 75 152  84 198'',
     lit ''RF: 160 160 160'',
     lit ''ND: 0 0 0 0'']"

definition velocity_pal :: "utext list" where
  "velocity_pal =
    [lit ''; Radial velocity (m/s) '' @ [0x2014] @ lit '' NWS-style 16-step palette, ported verbatim from'',
     lit ''; utility/radar-viz/src/color_table.rs'' @ [39] @ lit ''s nws_velocity(). Negative = toward'',
     lit ''; the radar, positive = away.'',
     lit ''Product: Velocity'',
     lit ''Units: m/s'',
     lit ''Step: 10'',
     lit ''SolidColor: -64   0   0 200'',
     lit ''SolidColor: -54   0  40 255'',
     lit ''SolidColor: -44   0 160 255'',
     lit ''SolidColor: -34   0 240 255'',
     lit ''SolidColor: -24   0 255 176'',
     lit ''SolidColor: -14   0 200  80'',
     lit ''SolidColor:  -4   0 100   0'',
     lit ''SolidColor:  -1 100 100 100'',
     lit ''SolidColor:   1 100 100   0'',
     lit ''SolidColor:   4 170 170   0'',
     lit ''SolidColor:  14 255 255   0'',
     lit ''SolidColor:  24 255 160   0'',
     lit ''SolidColor:  34 255  80   0'',
     lit ''SolidColor:  44 255   0   0'',
     lit ''SolidColor:  54 200   0   0'',
     lit ''RF: 160 160 160'',
     lit ''ND: 0 0 0 0'']"

definition spectrum_width_pal :: "utext list" where
  "spectrum_width_pal =
    [lit ''; Spectrum width (m/s) '' @ [0x2014] @ lit '' grayscale palette, ported verbatim from'',
     lit ''; utility/radar-viz/src/color_table.rs'' @ [39] @ lit ''s spectrum_width().'',
     lit ''Product: SpectrumWidth'',
     lit ''Units: m/s'',
     lit ''Step: 2'',
     lit ''SolidColor:  0  20  20  20'',
     lit ''SolidColor:  1  50  50  50'',
     lit ''SolidColor:  2  80  80  80'',
     lit ''SolidColor:  3 110 110 110'',
     lit ''SolidColor:  4 140 140 140'',
     lit ''SolidColor:  5 170 170 170'',
     lit ''SolidColor:  6 200 200 200'',
     lit ''SolidColor:  7 220 220 220'',
     lit ''SolidColor:  8 235 235 235'',
     lit ''SolidColor: 10 255 255 255'',
     lit ''RF: 160 160 160'',
     lit ''ND: 0 0 0 0'']"

definition zdr_pal :: "utext list" where
  "zdr_pal =
    [lit ''; Differential reflectivity, ZDR (dB) '' @ [0x2014] @ lit '' authored for this project against'',
     lit ''; the conventional -8..+8 dB NWS-style dual-pol display range (matching'',
     lit ''; compute::grid'' @ [39] @ lit ''s ZDR requantisation range, ADR-0020). Not sourced from a'',
     lit ''; specific published GRLevelX palette '' @ [0x2014] @ lit '' see ADR-0021'' @ [39] @ lit ''s verification note.'',
     lit ''; Blue (negative, vertically-oriented/hail) through white (near 0, spherical'',
     lit ''; drops) to red/orange (positive, large oblate raindrops).'',
     lit ''Product: Zdr'',
     lit ''Units: dB'',
     lit ''Step: 1'',
     lit ''SolidColor: -8   0   0 180'',
     lit ''SolidColor: -4   0 120 220'',
     lit ''SolidColor: -2   0 200 220'',
     lit ''SolidColor: -1  80 220 200'',
     lit ''SolidColor:  0 220 220 220'',
     lit ''SolidColor:  1 200 220  80'',
     lit ''SolidColor:  2 230 200   0'',
     lit ''SolidColor:  3 240 150   0'',
     lit ''SolidColor:  4 250 100   0'',
     lit ''SolidColor:  6 250   0   0'',
     lit ''SolidColor:  8 180   0 120'',
     lit ''RF: 160 160 160'',
     lit ''ND: 0 0 0 0'']"

definition cc_pal :: "utext list" where
  "cc_pal =
    [lit ''; Correlation coefficient, CC (unitless) '' @ [0x2014] @ lit '' authored for this project over'',
     lit ''; the conventional 0.2..1.05 NWS-style dual-pol display range. Not sourced'',
     lit ''; from a specific published GRLevelX palette '' @ [0x2014] @ lit '' see ADR-0021'' @ [39] @ lit ''s verification'',
     lit ''; note. Low CC (non-meteorological: debris, chaff, biota) is red/orange;'',
     lit ''; high CC (~1.0, uniform precipitation) is green; the narrow band just below'',
     lit ''; 1.0, where a tornadic debris signature typically sits, gets the finest'',
     lit ''; steps.'',
     lit ''Product: Cc'',
     lit ''Units: (unitless)'',
     lit ''Step: 0.05'',
     lit ''SolidColor: 0.20 200   0   0'',
     lit ''SolidColor: 0.50 230 100   0'',
     lit ''SolidColor: 0.70 230 200   0'',
     lit ''SolidColor: 0.80 200 230   0'',
     lit ''SolidColor: 0.90 120 220   0'',
     lit ''SolidColor: 0.95  40 200  40'',
     lit ''SolidColor: 0.98  20 160 120'',
     lit ''SolidColor: 1.00   0 120 200'',
     lit ''SolidColor: 1.03  60  60  60'',
     lit ''RF: 160 160 160'',
     lit ''ND: 0 0 0 0'']"

definition echo_tops_pal :: "utext list" where
  "echo_tops_pal =
    [lit ''; Echo Tops (kft above the radar) '' @ [0x2014] @ lit '' authored for this project over the'',
     lit ''; conventional 0..70 kft NWS-style display range (compute::derived'' @ [39] @ lit ''s'',
     lit ''; ECHO_TOP_MAX_KFT, ADR-0020). Not sourced from a specific published'',
     lit ''; GRLevelX palette '' @ [0x2014] @ lit '' see ADR-0021'' @ [39] @ lit ''s verification note. Blue (low tops)'',
     lit ''; through green/yellow to red/magenta (overshooting-top-scale heights).'',
     lit ''Product: EchoTops'',
     lit ''Units: kft'',
     lit ''Step: 5'',
     lit ''SolidColor:  0   0  40 160'',
     lit ''SolidColor: 10   0 120 220'',
     lit ''SolidColor: 20   0 180 120'',
     lit ''SolidColor: 30  60 200   0'',
     lit ''SolidColor: 40 220 220   0'',
     lit ''SolidColor: 50 240 140   0'',
     lit ''SolidColor: 60 230   0   0'',
     lit ''SolidColor: 70 200   0 200'',
     lit ''RF: 160 160 160'',
     lit ''ND: 0 0 0 0'']"

definition vil_pal :: "utext list" where
  "vil_pal =
    [lit ''; Vertically Integrated Liquid, VIL (kg/m^2) '' @ [0x2014] @ lit '' authored for this project'',
     lit ''; over the conventional 0..80 kg/m^2 NWS-style display range'',
     lit ''; (compute::derived'' @ [39] @ lit ''s VIL_MAX_KG_M2, ADR-0020). Not sourced from a specific'',
     lit ''; published GRLevelX palette '' @ [0x2014] @ lit '' see ADR-0021'' @ [39] @ lit ''s verification note. Follows'',
     lit ''; the same blue-to-magenta progression as reflectivity, since VIL is'',
     lit ''; derived from it and operators read the two together.'',
     lit ''Product: Vil'',
     lit ''Units: kg/m^2'',
     lit ''Step: 5'',
     lit ''SolidColor:  0   4 233 231'',
     lit ''SolidColor:  5   1 159 244'',
     lit ''SolidColor: 10   3   0 244'',
     lit ''SolidColor: 20   2 253   2'',
     lit ''SolidColor: 30   1 197   1'',
     lit ''SolidColor: 40 253 248   2'',
     lit ''SolidColor: 50 253 149   0'',
     lit ''SolidColor: 60 253   0   0'',
     lit ''SolidColor: 70 188   0   0'',
     lit ''SolidColor: 80 248   0 253'',
     lit ''RF: 160 160 160'',
     lit ''ND: 0 0 0 0'']"

end
