(* ===== verification/Config_File.thy ===== *)
theory Config_File
  imports Sites Event
begin

text \<open>
  The configuration file, \<open>config/parse.rs\<close>, \<open>config/mod.rs\<close> and \<open>config/save.rs\<close>: the
  line parser, the settings read from its pairs, and the line-preserving, atomic save. The
  file system is a map from a directory and a name to the text; a fault of a write or of a
  rename is an input.
\<close>

section \<open>The parser\<close>

definition is_key_char :: "nat \<Rightarrow> bool" where
  "is_key_char c = (char_alnum c \<or> c = 95)"

definition is_valid_key :: "utext \<Rightarrow> bool" where
  "is_valid_key key =
     (key \<noteq> [] \<and> list_all (\<lambda>segment. segment \<noteq> [] \<and> list_all is_key_char segment) (split_on 46 key))"

fun put_pair :: "utext \<Rightarrow> utext \<Rightarrow> (utext \<times> utext) list \<Rightarrow> (utext \<times> utext) list" where
  "put_pair key v [] = [(key, v)]"
| "put_pair key v ((k, w) # pairs) = (if k = key then (k, v) # pairs else (k, w) # put_pair key v pairs)"

datatype line_kind = Blank_Line | Bad_Line | Pair_Line utext utext

definition read_line :: "utext \<Rightarrow> line_kind" where
  "read_line raw_line =
     (let line = trim raw_line in
      if line = [] \<or> hd line = 35 then Blank_Line
      else (case split_once 61 line of
              None \<Rightarrow> Bad_Line
            | Some (key, v) \<Rightarrow>
                if \<not> is_valid_key (trim key) then Bad_Line else Pair_Line (trim key) (trim v)))"

fun parse_config_lines ::
  "nat \<Rightarrow> utext list \<Rightarrow> (utext \<times> utext) list \<Rightarrow> nat list \<Rightarrow> (utext \<times> utext) list \<times> nat list" where
  "parse_config_lines n [] pairs skipped = (pairs, skipped)"
| "parse_config_lines n (l # ls) pairs skipped =
     (case read_line l of
        Blank_Line \<Rightarrow> parse_config_lines (n + 1) ls pairs skipped
      | Bad_Line \<Rightarrow> parse_config_lines (n + 1) ls pairs (skipped @ [n])
      | Pair_Line key v \<Rightarrow> parse_config_lines (n + 1) ls (put_pair key v pairs) skipped)"

definition parse_config :: "utext \<Rightarrow> (utext \<times> utext) list \<times> nat list" where
  "parse_config text_in = parse_config_lines 1 (text_lines text_in) [] []"

definition line_key :: "utext \<Rightarrow> utext option" where
  "line_key line =
     (let trimmed = trim line in
      if trimmed = [] \<or> hd trimmed = 35 then None
      else Option.bind (split_once 61 trimmed) (\<lambda>(key, _).
           if is_valid_key (trim key) then Some (trim key) else None))"

section \<open>The settings\<close>

definition POLL_INTERVAL_MIN :: nat where "POLL_INTERVAL_MIN = 2"
definition POLL_INTERVAL_MAX :: nat where "POLL_INTERVAL_MAX = 60"
definition DEFAULT_POLL_INTERVAL :: nat where "DEFAULT_POLL_INTERVAL = 5"

definition SITE_KEY :: utext where "SITE_KEY = lit ''site''"
definition POLL_INTERVAL_KEY :: utext where "POLL_INTERVAL_KEY = lit ''ingest.poll_interval_seconds''"
definition WINDOW_WIDTH_KEY :: utext where "WINDOW_WIDTH_KEY = lit ''window.width''"
definition WINDOW_HEIGHT_KEY :: utext where "WINDOW_HEIGHT_KEY = lit ''window.height''"
definition VIEW_PRODUCT_KEY :: utext where "VIEW_PRODUCT_KEY = lit ''view.product''"
definition VIEW_HIGHWAYS_KEY :: utext where "VIEW_HIGHWAYS_KEY = lit ''view.highways''"
definition VIEW_REFERENCE_KEY :: utext where "VIEW_REFERENCE_KEY = lit ''view.reference''"

definition WINDOW_WIDTH_RANGE :: "nat \<times> nat" where "WINDOW_WIDTH_RANGE = (640, 7680)"
definition WINDOW_HEIGHT_RANGE :: "nat \<times> nat" where "WINDOW_HEIGHT_RANGE = (480, 4320)"

record config =
  cf_site :: "site option"
  cf_poll_interval :: nat
  cf_window_width :: "nat option"
  cf_window_height :: "nat option"
  cf_view_product :: "display_product option"
  cf_show_highways :: "bool option"
  cf_show_reference :: "bool option"

definition config_default :: config where
  "config_default =
     \<lparr>cf_site = None, cf_poll_interval = DEFAULT_POLL_INTERVAL, cf_window_width = None,
      cf_window_height = None, cf_view_product = None, cf_show_highways = None,
      cf_show_reference = None\<rparr>"

definition parse_dimension :: "utext \<Rightarrow> utext \<Rightarrow> nat \<times> nat \<Rightarrow> nat option \<times> event list" where
  "parse_dimension key v bounds =
     (case parse_uint 32 v of
        Some n \<Rightarrow> if fst bounds \<le> n \<and> n \<le> snd bounds then (Some n, []) else (None, [ConfigValueInvalid key v])
      | None \<Rightarrow> (None, [ConfigValueInvalid key v]))"

definition parse_bool :: "utext \<Rightarrow> utext \<Rightarrow> bool option \<times> event list" where
  "parse_bool key v =
     (if ascii_lower v = lit ''true'' then (Some True, [])
      else if ascii_lower v = lit ''false'' then (Some False, [])
      else (None, [ConfigValueInvalid key v]))"

definition apply_key :: "utext \<Rightarrow> utext \<Rightarrow> config \<Rightarrow> config \<times> event list" where
  "apply_key key v config =
     (if key = SITE_KEY then
        (case by_id SITES v of
           Some site \<Rightarrow> (config\<lparr>cf_site := Some site\<rparr>, [])
         | None \<Rightarrow> (config, [ConfigUnknownSite v]))
      else if key = POLL_INTERVAL_KEY then
        (case parse_uint 64 v of
           Some secs \<Rightarrow>
             let clamped = max POLL_INTERVAL_MIN (min POLL_INTERVAL_MAX secs)
             in (config\<lparr>cf_poll_interval := clamped\<rparr>,
                 if clamped \<noteq> secs then [ConfigPollIntervalClamped secs clamped] else [])
         | None \<Rightarrow> (config, [ConfigValueInvalid key v]))
      else if key = WINDOW_WIDTH_KEY then
        (let (n, es) = parse_dimension key v WINDOW_WIDTH_RANGE in (config\<lparr>cf_window_width := n\<rparr>, es))
      else if key = WINDOW_HEIGHT_KEY then
        (let (n, es) = parse_dimension key v WINDOW_HEIGHT_RANGE in (config\<lparr>cf_window_height := n\<rparr>, es))
      else if key = VIEW_PRODUCT_KEY then
        (case parse_product_name v of
           Some product \<Rightarrow> (config\<lparr>cf_view_product := Some product\<rparr>, [])
         | None \<Rightarrow> (config, [ConfigValueInvalid key v]))
      else if key = VIEW_HIGHWAYS_KEY then
        (let (b, es) = parse_bool key v in (config\<lparr>cf_show_highways := b\<rparr>, es))
      else if key = VIEW_REFERENCE_KEY then
        (let (b, es) = parse_bool key v in (config\<lparr>cf_show_reference := b\<rparr>, es))
      else (config, []))"

fun apply_pairs :: "(utext \<times> utext) list \<Rightarrow> config \<Rightarrow> event list \<Rightarrow> config \<times> event list" where
  "apply_pairs [] config es = (config, es)"
| "apply_pairs ((key, v) # pairs) config es =
     (let (config, new) = apply_key key v config in apply_pairs pairs config (es @ new))"

text \<open>What reading the file gave: its text, nothing for a missing file, or a failure.\<close>

datatype file_read = File_Text utext | File_Missing | File_Failed utext

fun load_config :: "utext \<Rightarrow> file_read \<Rightarrow> config \<times> event list" where
  "load_config path File_Missing = (config_default, [])"
| "load_config path (File_Failed reason) = (config_default, [ConfigUnreadable path reason])"
| "load_config path (File_Text text_in) =
     (let (pairs, skipped) = parse_config text_in
      in apply_pairs pairs config_default (map ConfigLineUnparseable skipped))"

section \<open>Saving\<close>

definition render_pair :: "utext \<Rightarrow> utext \<Rightarrow> utext" where
  "render_pair key v = key @ lit '' = '' @ v"

text \<open>The inner loop: the first change not yet applied whose key the line defines.\<close>

fun apply_change ::
  "utext \<Rightarrow> (utext \<times> utext) list \<Rightarrow> bool list \<Rightarrow> (utext \<times> bool list) option" where
  "apply_change existing_key ((key, v) # changes) (a # applied) =
     (if \<not> a \<and> key = existing_key then Some (render_pair key v, True # applied)
      else map_option (\<lambda>(line, applied). (line, a # applied)) (apply_change existing_key changes applied))"
| "apply_change existing_key _ _ = None"

fun replace_lines ::
  "(utext \<times> utext) list \<Rightarrow> utext list \<Rightarrow> bool list \<Rightarrow> utext list \<times> bool list" where
  "replace_lines changes [] applied = ([], applied)"
| "replace_lines changes (line # ls) applied =
     (case Option.bind (line_key line) (\<lambda>key. apply_change key changes applied) of
        None \<Rightarrow> (let (ls, applied) = replace_lines changes ls applied in (line # ls, applied))
      | Some (new, applied) \<Rightarrow>
          (let (ls, applied) = replace_lines changes ls applied in (new # ls, applied)))"

definition appended_lines :: "(utext \<times> utext) list \<Rightarrow> bool list \<Rightarrow> utext list" where
  "appended_lines changes applied =
     map (\<lambda>((key, v), _). render_pair key v) (filter (\<lambda>(_, a). \<not> a) (zip changes applied))"

definition save_text :: "utext \<Rightarrow> (utext \<times> utext) list \<Rightarrow> utext" where
  "save_text existing changes =
     (let (ls, applied) = replace_lines changes (text_lines existing) (replicate (length changes) False);
          contents = join_lines (ls @ appended_lines changes applied)
      in if contents = [] then contents else contents @ [10])"

text \<open>A path of the configuration: the directory, if the path names one, and the file name.\<close>

record config_path =
  cp_dir :: "utext option"
  cp_name :: utext

type_synonym file_system = "utext \<times> utext \<Rightarrow> utext option"

text \<open>
  What goes wrong, if anything: the write of the temporary file, which then holds any text
  or does not exist, or the rename.
\<close>

datatype write_fault = No_Fault | Write_Fails "utext option" | Rename_Fails

definition tmp_name :: "nat \<Rightarrow> utext \<Rightarrow> utext" where
  "tmp_name pid file_name = lit ''.'' @ file_name @ lit ''.tmp.'' @ decimal pid"

definition write_atomic ::
  "nat \<Rightarrow> write_fault \<Rightarrow> config_path \<Rightarrow> utext \<Rightarrow> file_system \<Rightarrow> file_system \<times> (io_error + unit)" where
  "write_atomic pid fault path contents fs =
     (case cp_dir path of
        None \<Rightarrow> (fs, Err (Io_Error ''config path has no parent directory''))
      | Some dir \<Rightarrow>
          let tmp = (dir, tmp_name pid (cp_name path)) in
          (case fault of
             Write_Fails left \<Rightarrow> (fs(tmp := left), Err (Io_Error ''write''))
           | Rename_Fails \<Rightarrow> (fs(tmp := Some contents), Err (Io_Error ''rename''))
           | No_Fault \<Rightarrow> (fs((dir, cp_name path) := Some contents, tmp := None), Ok ())))"

text \<open>Reading the old text may fail otherwise than for a missing file.\<close>

definition save_config ::
  "nat \<Rightarrow> bool \<Rightarrow> write_fault \<Rightarrow> config_path \<Rightarrow> (utext \<times> utext) list \<Rightarrow> file_system \<Rightarrow>
   file_system \<times> (io_error + unit)" where
  "save_config pid readable fault path changes fs =
     (if \<not> readable then (fs, Err (Io_Error ''read''))
      else
        let existing = (case cp_dir path of
                          None \<Rightarrow> []
                        | Some dir \<Rightarrow> (case fs (dir, cp_name path) of None \<Rightarrow> [] | Some text_in \<Rightarrow> text_in))
        in write_atomic pid fault path (save_text existing changes) fs)"

section \<open>Lines as updates\<close>

definition line_update :: "utext \<Rightarrow> (utext \<rightharpoonup> utext) \<Rightarrow> (utext \<rightharpoonup> utext)" where
  "line_update l m = (case read_line l of Pair_Line k v \<Rightarrow> m(k \<mapsto> v) | _ \<Rightarrow> m)"

lemma map_of_put_pair: "map_of (put_pair k v ps) = (map_of ps)(k \<mapsto> v)"
  by (induction k v ps rule: put_pair.induct) (auto simp: fun_eq_iff)

lemma parse_lines_update:
  "map_of (fst (parse_config_lines n ls pairs sk)) = fold line_update ls (map_of pairs)"
  by (induction n ls pairs sk rule: parse_config_lines.induct)
    (auto simp: line_update_def [abs_def] map_of_put_pair fun_upd_def split: line_kind.split)

lemma parse_config_update: "map_of (fst (parse_config t)) = fold line_update (text_lines t) Map.empty"
  by (simp add: parse_config_def parse_lines_update)

lemma line_key_iff: "line_key l = Some k \<longleftrightarrow> (\<exists>v. read_line l = Pair_Line k v)"
  by (auto simp: line_key_def read_line_def Let_def split: option.split prod.split)

lemma line_update_other: "line_key l \<noteq> Some k \<Longrightarrow> line_update l m k = m k"
  by (auto simp: line_update_def line_key_iff split: line_kind.split)

lemma line_update_cr: "map line_update (map strip_cr ls) = map line_update ls"
  by (simp add: line_update_def [abs_def] read_line_def)

lemma fold_other: "\<forall>l\<in>set ls. line_key l \<noteq> Some k \<Longrightarrow> fold line_update ls m k = m k"
  by (induction ls arbitrary: m) (simp_all add: line_update_other)

text \<open>A key and a value as the save writes them are read back.\<close>

lemma split_on_mem: "x \<in> set t \<Longrightarrow> x \<noteq> c \<Longrightarrow> \<exists>s\<in>set (split_on c t). x \<in> set s"
  by (induction t) (auto split: list.split)

lemma valid_key_char:
  assumes "is_valid_key k" and "c \<in> set k"
  shows "is_key_char c \<or> c = 46"
  using split_on_mem [OF assms(2), of 46] assms(1) by (fastforce simp: is_valid_key_def list_all_iff)

lemma key_char_plain:
  assumes "is_key_char c \<or> c = 46"
  shows "\<not> is_white c" "c \<noteq> 61" "c \<noteq> 35" "c \<noteq> 10" "c \<noteq> 13"
  using assms by (auto simp: is_key_char_def char_alnum_def char_digit_def is_white_def)

lemma read_rendered:
  assumes "is_valid_key k" and "trim v = v"
  shows "read_line (render_pair k v) = Pair_Line k v"
proof -
  have k: "k \<noteq> []" "\<And>c. c \<in> set k \<Longrightarrow> \<not> is_white c \<and> c \<noteq> 61 \<and> c \<noteq> 35"
    using assms(1) valid_key_char [OF assms(1)] key_char_plain by (auto simp: is_valid_key_def)
  have hd: "\<not> is_white (hd (k @ u))" "hd (k @ u) \<noteq> 35" for u
    using k by (cases k; auto)+
  have sp: "is_white 32" by (simp add: is_white_def)
  have key: "trim (k @ [32]) = k"
    using k sp trim_nothing [of k] by simp
  have val: "trim (32 # v) = v"
    using sp assms(2) by (simp add: trim_def)
  have once: "split_once 61 (k @ 32 # 61 # u) = Some (k @ [32], u)" for u
    using split_once_hit [of 61 "k @ [32]" u] k by auto
  show ?thesis
  proof (cases "v = []")
    case True
    have "trim (k @ [32, 61]) = k @ [32, 61]"
      using trim_nothing [of "k @ [32, 61]"] hd k(1) by (simp add: is_white_def)
    then have "trim (render_pair k v) = k @ [32, 61]"
      using trim_snoc_white [OF sp, of "k @ [32, 61]"] True by (simp add: render_pair_def lit_def)
    then show ?thesis
      using hd(2) [of "[32, 61]"] once [of "[]"] key assms True by (simp add: read_line_def Let_def)
  next
    case False
    have "trim (render_pair k v) = k @ 32 # 61 # 32 # v"
      using trim_solid [of "k @ [32, 61, 32]" v] hd k(1) assms(2) False by (simp add: render_pair_def lit_def)
    then show ?thesis
      using hd(2) [of "32 # 61 # 32 # v"] once [of "32 # v"] key val assms(1) k(1)
      by (simp add: read_line_def Let_def)
  qed
qed

section \<open>The changes still to be made, as a map\<close>

definition pending :: "(utext \<times> utext) list \<Rightarrow> bool list \<Rightarrow> (utext \<rightharpoonup> utext)" where
  "pending changes applied = map_of (map fst (filter (\<lambda>(_, a). \<not> a) (zip changes applied)))"

fun replace_pending :: "(utext \<rightharpoonup> utext) \<Rightarrow> utext list \<Rightarrow> utext list \<times> (utext \<rightharpoonup> utext)" where
  "replace_pending P [] = ([], P)"
| "replace_pending P (l # ls) =
     (case Option.bind (line_key l) (\<lambda>k. map_option (Pair k) (P k)) of
        None \<Rightarrow> (let (ls, P) = replace_pending P ls in (l # ls, P))
      | Some (k, v) \<Rightarrow> (let (ls, P) = replace_pending (P(k := None)) ls in (render_pair k v # ls, P)))"

lemma pending_simps [simp]:
  "pending [] applied = Map.empty" "pending changes [] = Map.empty"
  "pending ((k, v) # changes) (a # applied) =
     (if a then pending changes applied else (pending changes applied)(k \<mapsto> v))"
  by (simp add: pending_def, simp add: pending_def, cases a, simp_all add: pending_def)

lemma pending_dom: "k \<notin> fst ` set changes \<Longrightarrow> pending changes applied k = None"
proof (induction changes arbitrary: applied)
  case (Cons c changes)
  then show ?case by (cases c; cases applied) auto
qed simp

lemma apply_change_pending:
  assumes "distinct (map fst changes)" and "length applied = length changes"
  shows "case apply_change k changes applied of
      None \<Rightarrow> pending changes applied k = None
    | Some (l, applied') \<Rightarrow> length applied' = length changes \<and>
        (\<exists>v. pending changes applied k = Some v \<and> l = render_pair k v) \<and>
        pending changes applied' = (pending changes applied)(k := None)"
  using assms
proof (induction k changes applied rule: apply_change.induct)
  case (1 ek key v changes a applied)
  show ?case
  proof (cases "\<not> a \<and> key = ek")
    case True
    then show ?thesis
      using 1(2,3) pending_dom [of key changes applied] by (auto simp: fun_eq_iff)
  next
    case False
    then show ?thesis
      using 1(1) [OF False] 1(2,3) pending_dom [of key changes applied]
      by (auto simp: fun_eq_iff split: option.splits)
  qed
qed simp_all

lemma replace_lines_pending:
  assumes "distinct (map fst changes)" and "length applied = length changes"
  shows "length (snd (replace_lines changes ls applied)) = length changes \<and>
    replace_pending (pending changes applied) ls =
      (fst (replace_lines changes ls applied), pending changes (snd (replace_lines changes ls applied)))"
  using assms(2)
proof (induction ls arbitrary: applied)
  case Nil
  then show ?case by simp
next
  case (Cons l ls)
  note IH = Cons.IH [OF Cons.prems]
  show ?case
  proof (cases "line_key l")
    case None
    then show ?thesis using IH by (simp add: Let_def split_beta)
  next
    case key: (Some k)
    note spec = apply_change_pending [OF assms(1) Cons.prems, of k]
    show ?thesis
    proof (cases "apply_change k changes applied")
      case None
      then show ?thesis using IH spec key by (simp add: Let_def split_beta)
    next
      case (Some r)
      obtain new applied' where r: "r = (new, applied')" by (cases r)
      obtain v where v: "length applied' = length changes" "pending changes applied k = Some v"
        "new = render_pair k v" "pending changes applied' = (pending changes applied)(k := None)"
        using spec Some r by auto
      show ?thesis
        using Cons.IH [OF v(1), unfolded v(4)] Some r v(1-3) key by (simp add: Let_def split_beta fun_upd_def)
    qed
  qed
qed

text \<open>What the replacement makes of the meaning of the lines.\<close>

definition unique_key :: "utext list \<Rightarrow> utext \<Rightarrow> bool" where
  "unique_key ls k = (length (filter (\<lambda>l. line_key l = Some k) ls) \<le> 1)"

definition writable :: "utext \<Rightarrow> utext \<Rightarrow> bool" where
  "writable k v = (is_valid_key k \<and> trim v = v \<and> 10 \<notin> set v)"

lemma line_update_rendered:
  "writable k v \<Longrightarrow> line_update (render_pair k v) m = m(k \<mapsto> v)"
  by (simp add: line_update_def read_rendered writable_def)

lemma fold_agree: "m k = m' k \<Longrightarrow> fold line_update ls m k = fold line_update ls m' k"
proof (induction ls arbitrary: m m')
  case (Cons l ls)
  have "line_update l m k = line_update l m' k"
    using Cons.prems by (cases "read_line l") (simp_all add: line_update_def)
  then show ?case using Cons.IH [of "line_update l m" "line_update l m'"] by simp
qed simp

lemma replace_pending_update:
  assumes "\<And>k v. P k = Some v \<Longrightarrow> writable k v \<and> unique_key ls k"
  shows "fold line_update (fst (replace_pending P ls)) m ++ snd (replace_pending P ls) =
    fold line_update ls m ++ P"
  using assms
proof (induction ls arbitrary: P m)
  case Nil
  then show ?case by simp
next
  case (Cons l ls)
  have unique: "writable k v \<and> unique_key ls k" if "P k = Some v" for k v
    using Cons.prems [OF that] by (auto simp: unique_key_def split: if_splits)
  show ?case
  proof (cases "Option.bind (line_key l) (\<lambda>k. map_option (Pair k) (P k))")
    case None
    then show ?thesis using Cons.IH [of P "line_update l m"] unique by (simp add: Let_def split_beta)
  next
    case (Some kv)
    then obtain k v where kv: "kv = (k, v)" "line_key l = Some k" "P k = Some v"
      by (auto simp: bind_eq_Some_conv)
    have no: "\<forall>l\<in>set ls. line_key l \<noteq> Some k"
      using Cons.prems [OF kv(3)] kv(2) by (auto simp: unique_key_def filter_empty_conv)
    have IH: "fold line_update (fst (replace_pending (P(k := None)) ls)) (m(k \<mapsto> v)) ++
        snd (replace_pending (P(k := None)) ls) = fold line_update ls (m(k \<mapsto> v)) ++ P(k := None)"
      by (rule Cons.IH) (use unique in \<open>auto split: if_splits\<close>)
    have eq: "fold line_update ls (m(k \<mapsto> v)) ++ P(k := None) = fold line_update ls (line_update l m) ++ P"
    proof (rule ext)
      fix x
      show "(fold line_update ls (m(k \<mapsto> v)) ++ P(k := None)) x =
          (fold line_update ls (line_update l m) ++ P) x"
      proof (cases "x = k")
        case True
        then show ?thesis using fold_other [OF no] kv(3) by (simp add: map_add_def)
      next
        case False
        then have "line_update l m x = (m(k \<mapsto> v)) x"
          using kv(2) line_update_other [of l x m] by simp
        then show ?thesis
          using False fold_agree [of "m(k \<mapsto> v)" x "line_update l m" ls]
          by (simp add: map_add_def split: option.split)
      qed
    qed
    have step: "fst (replace_pending P (l # ls)) = render_pair k v # fst (replace_pending (P(k := None)) ls)"
      "snd (replace_pending P (l # ls)) = snd (replace_pending (P(k := None)) ls)"
      using Some kv by (simp_all add: Let_def split_beta)
    have r: "line_update (render_pair k v) m = m(k \<mapsto> v)"
      using line_update_rendered unique [OF kv(3)] by blast
    show ?thesis
      unfolding step fold_simps comp_def r IH eq ..
  qed
qed

lemma appended_update:
  assumes "distinct (map fst changes)" and "\<forall>(k, v)\<in>set changes. writable k v"
    and "length applied = length changes"
  shows "fold line_update (appended_lines changes applied) m = m ++ pending changes applied"
  using assms
proof (induction changes arbitrary: applied m)
  case Nil
  then show ?case by (simp add: appended_lines_def)
next
  case (Cons c changes)
  obtain k v where c: "c = (k, v)" by (cases c)
  obtain a applied' where a: "applied = a # applied'" using Cons.prems(3) by (cases applied) auto
  have app: "appended_lines (c # changes) applied =
      (if a then [] else [render_pair k v]) @ appended_lines changes applied'"
    by (simp add: appended_lines_def c a)
  have none: "pending changes applied' k = None"
    using Cons.prems(1) c pending_dom by simp
  have IH: "fold line_update (appended_lines changes applied') m = m ++ pending changes applied'" for m
    by (rule Cons.IH) (use Cons.prems c a in auto)
  show ?case
    unfolding app using IH Cons.prems(2) line_update_rendered [of k v m] none
    by (auto simp: c a map_add_upd_left dom_def)
qed

section \<open>The saved text\<close>

text \<open>A line of the file after the save: as it was, or the new value of its key.\<close>

definition kept_or_set :: "(utext \<rightharpoonup> utext) \<Rightarrow> utext \<Rightarrow> utext \<Rightarrow> bool" where
  "kept_or_set P l l' = (l' = l \<or> (\<exists>k v. line_key l = Some k \<and> P k = Some v \<and> l' = render_pair k v))"

lemma replace_pending_rel: "list_all2 (kept_or_set P) ls (fst (replace_pending P ls))"
proof (induction ls arbitrary: P)
  case Nil
  then show ?case by simp
next
  case (Cons l ls)
  show ?case
  proof (cases "Option.bind (line_key l) (\<lambda>k. map_option (Pair k) (P k))")
    case None
    then show ?thesis using Cons [of P] by (simp add: Let_def split_beta kept_or_set_def)
  next
    case (Some kv)
    then obtain k v where kv: "kv = (k, v)" "line_key l = Some k" "P k = Some v"
      by (auto simp: bind_eq_Some_conv)
    have "list_all2 (kept_or_set P) ls (fst (replace_pending (P(k := None)) ls))"
      by (rule list_all2_mono [OF Cons]) (auto simp: kept_or_set_def split: if_splits)
    moreover have "kept_or_set P l (render_pair k v)" using kv(2,3) by (auto simp: kept_or_set_def)
    ultimately show ?thesis using Some kv by (simp add: Let_def split_beta)
  qed
qed

lemma rendered_no_lf: "writable k v \<Longrightarrow> 10 \<notin> set (render_pair k v)"
  using valid_key_char [of k 10] key_char_plain(4) by (auto simp: writable_def render_pair_def lit_def)

definition saved_lines :: "utext \<Rightarrow> (utext \<times> utext) list \<Rightarrow> utext list" where
  "saved_lines existing changes =
     (let (ls, applied) = replace_lines changes (text_lines existing) (replicate (length changes) False)
      in ls @ appended_lines changes applied)"

lemma save_text_lines:
  "save_text existing changes =
     (let contents = join_lines (saved_lines existing changes) in if contents = [] then [] else contents @ [10])"
  by (simp add: save_text_def saved_lines_def Let_def split_beta)

lemma pending_all: "pending changes (replicate (length changes) False) = map_of changes"
  by (induction changes) auto

lemma saved_lines_pending:
  assumes "distinct (map fst changes)"
  obtains applied where "length applied = length changes"
    "saved_lines existing changes =
       fst (replace_pending (map_of changes) (text_lines existing)) @ appended_lines changes applied"
    "pending changes applied = snd (replace_pending (map_of changes) (text_lines existing))"
  using replace_lines_pending [OF assms, of "replicate (length changes) False" "text_lines existing"]
  unfolding saved_lines_def pending_all
  by (simp add: Let_def split_beta) blast

lemma saved_lines_update:
  assumes "distinct (map fst changes)"
    and "\<forall>(k, v)\<in>set changes. writable k v \<and> unique_key (text_lines existing) k"
  shows "fold line_update (saved_lines existing changes) m =
    fold line_update (text_lines existing) m ++ map_of changes"
proof -
  obtain applied where applied: "length applied = length changes"
    "saved_lines existing changes =
       fst (replace_pending (map_of changes) (text_lines existing)) @ appended_lines changes applied"
    "pending changes applied = snd (replace_pending (map_of changes) (text_lines existing))"
    using saved_lines_pending [OF assms(1)] .
  have "writable k v \<and> unique_key (text_lines existing) k" if "map_of changes k = Some v" for k v
    using assms(2) map_of_SomeD [OF that] by blast
  then have old: "fold line_update (fst (replace_pending (map_of changes) (text_lines existing))) m ++
      snd (replace_pending (map_of changes) (text_lines existing)) =
    fold line_update (text_lines existing) m ++ map_of changes"
    by (rule replace_pending_update)
  have "\<forall>(k, v)\<in>set changes. writable k v" using assms(2) by auto
  from appended_update [OF assms(1) this applied(1)] show ?thesis
    by (simp add: applied(2,3) old)
qed

lemma saved_lines_no_lf:
  assumes "distinct (map fst changes)" and "\<forall>(k, v)\<in>set changes. writable k v"
  shows "\<forall>l\<in>set (saved_lines existing changes). 10 \<notin> set l"
proof -
  obtain applied where applied:
    "saved_lines existing changes =
       fst (replace_pending (map_of changes) (text_lines existing)) @ appended_lines changes applied"
    using saved_lines_pending [OF assms(1)] .
  have app: "10 \<notin> set l" if "l \<in> set (appended_lines changes applied)" for l
    using that assms(2) rendered_no_lf by (fastforce simp: appended_lines_def dest: set_zip_leftD)
  have "10 \<notin> set l" if mem: "l \<in> set (fst (replace_pending (map_of changes) (text_lines existing)))" for l
  proof -
    obtain old where "old \<in> set (text_lines existing)" "kept_or_set (map_of changes) old l"
      using list_all2_mem [OF replace_pending_rel mem] by blast
    then show ?thesis
      using assms(2) text_lines_no_lf rendered_no_lf by (auto simp: kept_or_set_def dest!: map_of_SomeD)
  qed
  then show ?thesis using app applied by auto
qed

lemma join_lines_Nil: "join_lines ls = [] \<Longrightarrow> ls = [] \<or> ls = [[]]"
  by (induction ls rule: join_lines.induct) auto

lemma fold_update_cr: "fold line_update (map strip_cr ls) m = fold line_update ls m"
proof -
  have "line_update (strip_cr l) = line_update l" for l
    by (simp add: fun_eq_iff line_update_def read_line_def)
  then show ?thesis by (simp add: fold_map comp_def)
qed

lemma parse_saved:
  assumes "distinct (map fst changes)" and "\<forall>(k, v)\<in>set changes. writable k v"
  shows "map_of (fst (parse_config (save_text existing changes))) =
    fold line_update (saved_lines existing changes) Map.empty"
proof (cases "join_lines (saved_lines existing changes) = []")
  case True
  have "line_update [] m = m" for m by (simp add: line_update_def read_line_def)
  then show ?thesis
    using join_lines_Nil [OF True] True
    by (auto simp: parse_config_update save_text_lines text_lines_def)
next
  case False
  then have "saved_lines existing changes \<noteq> []" by auto
  from lines_join [OF saved_lines_no_lf [OF assms] this] False show ?thesis
    by (simp add: parse_config_update save_text_lines fold_update_cr Let_def)
qed

section \<open>The settings that are read\<close>

definition config_ok :: "config \<Rightarrow> bool" where
  "config_ok c =
     (POLL_INTERVAL_MIN \<le> cf_poll_interval c \<and> cf_poll_interval c \<le> POLL_INTERVAL_MAX \<and>
      (\<forall>w. cf_window_width c = Some w \<longrightarrow> fst WINDOW_WIDTH_RANGE \<le> w \<and> w \<le> snd WINDOW_WIDTH_RANGE) \<and>
      (\<forall>h. cf_window_height c = Some h \<longrightarrow> fst WINDOW_HEIGHT_RANGE \<le> h \<and> h \<le> snd WINDOW_HEIGHT_RANGE) \<and>
      (\<forall>s. cf_site c = Some s \<longrightarrow> s \<in> set SITES))"

lemma config_default_ok: "config_ok config_default"
  by (simp add: config_ok_def config_default_def POLL_INTERVAL_MIN_def POLL_INTERVAL_MAX_def
      DEFAULT_POLL_INTERVAL_def)

lemma parse_dimension_range:
  "parse_dimension key v bounds = (Some n, es) \<Longrightarrow> fst bounds \<le> n \<and> n \<le> snd bounds"
  by (auto simp: parse_dimension_def split: option.splits if_splits)

text \<open>An event of a setting, as against one of a line.\<close>

fun setting_event :: "event \<Rightarrow> bool" where
  "setting_event (ConfigLineUnparseable _) = False"
| "setting_event _ = True"

lemma parse_dimension_event [simp]: "list_all setting_event (snd (parse_dimension key v bounds))"
  by (auto simp: parse_dimension_def split: option.split)

lemma parse_bool_event [simp]: "list_all setting_event (snd (parse_bool key v))"
  by (simp add: parse_bool_def)

lemma config_ok_width:
  "config_ok c \<Longrightarrow> config_ok (c\<lparr>cf_window_width := fst (parse_dimension key v WINDOW_WIDTH_RANGE)\<rparr>)"
  using parse_dimension_range [of key v WINDOW_WIDTH_RANGE]
  by (cases "parse_dimension key v WINDOW_WIDTH_RANGE") (auto simp: config_ok_def)

lemma config_ok_height:
  "config_ok c \<Longrightarrow> config_ok (c\<lparr>cf_window_height := fst (parse_dimension key v WINDOW_HEIGHT_RANGE)\<rparr>)"
  using parse_dimension_range [of key v WINDOW_HEIGHT_RANGE]
  by (cases "parse_dimension key v WINDOW_HEIGHT_RANGE") (auto simp: config_ok_def)

lemma config_ok_site: "config_ok c \<Longrightarrow> by_id SITES v = Some s \<Longrightarrow> config_ok (c\<lparr>cf_site := Some s\<rparr>)"
  using by_id_Some_iff [OF SITES_sorted, of v s] by (auto simp: config_ok_def)

lemma config_ok_free:
  "config_ok (c\<lparr>cf_view_product := p\<rparr>) = config_ok c"
  "config_ok (c\<lparr>cf_show_highways := b\<rparr>) = config_ok c"
  "config_ok (c\<lparr>cf_show_reference := b\<rparr>) = config_ok c"
  by (simp_all add: config_ok_def)

lemma config_ok_interval:
  "config_ok c \<Longrightarrow> config_ok (c\<lparr>cf_poll_interval := max POLL_INTERVAL_MIN (min POLL_INTERVAL_MAX secs)\<rparr>)"
  by (simp add: config_ok_def POLL_INTERVAL_MIN_def POLL_INTERVAL_MAX_def)

lemma apply_key_ok:
  "config_ok c \<Longrightarrow> config_ok (fst (apply_key key v c)) \<and> list_all setting_event (snd (apply_key key v c))"
  unfolding apply_key_def Let_def split_beta
  by (simp add: config_ok_width config_ok_height config_ok_site config_ok_free config_ok_interval
      split: option.split)

lemma apply_pairs_ok:
  "config_ok c \<Longrightarrow> config_ok (fst (apply_pairs pairs c es)) \<and>
     (\<exists>new. snd (apply_pairs pairs c es) = es @ new \<and> list_all setting_event new)"
proof (induction pairs c es rule: apply_pairs.induct)
  case (1 c es)
  then show ?case by simp
next
  case (2 key v pairs c es)
  obtain c' new where step: "apply_key key v c = (c', new)" by (cases "apply_key key v c")
  then have "config_ok c'" "list_all setting_event new" using apply_key_ok [OF 2(2), of key v] by auto
  then show ?case using 2(1) [OF step [symmetric] refl] by (auto simp: step)
qed

lemma load_config_ok: "config_ok (fst (load_config path content))"
  using apply_pairs_ok [OF config_default_ok] config_default_ok
  by (cases content) (simp_all add: split_beta)

lemma parse_config_skipped:
  "snd (parse_config_lines n ls pairs sk) =
     sk @ map fst (filter (\<lambda>(_, l). read_line l = Bad_Line) (zip [n..<n + length ls] ls))"
proof (induction n ls pairs sk rule: parse_config_lines.induct)
  case (2 n l ls pairs sk)
  have "[n..<n + length (l # ls)] = n # [n + 1..<n + 1 + length ls]" by (simp add: upt_conv_Cons del: upt_Suc)
  then show ?case using 2 by (auto split: line_kind.split)
qed simp

section \<open>Properties\<close>

text \<open>
  A saved setting is what the next load reads. After a save, the pairs the parser finds
  are those of the old file with the changed keys at their new values, for any file that
  defines each changed key at most once.
\<close>

theorem save_then_load:
  assumes "distinct (map fst changes)"
    and "\<forall>(k, v)\<in>set changes. is_valid_key k \<and> trim v = v \<and> 10 \<notin> set v \<and>
      unique_key (text_lines existing) k"
  shows "map_of (fst (parse_config (save_text existing changes))) =
    map_of (fst (parse_config existing)) ++ map_of changes"
proof -
  have "\<forall>(k, v)\<in>set changes. writable k v" using assms(2) by (auto simp: writable_def)
  then show ?thesis
    using parse_saved [OF assms(1)] saved_lines_update [OF assms(1)] assms(2)
    by (auto simp: writable_def parse_config_update)
qed

theorem save_then_load_witness:
  "map_of (fst (parse_config (save_text (lit ''site = KDOX'') [(lit ''site'', lit ''KTLH'')]))) (lit ''site'') =
     Some (lit ''KTLH'')"
  by (subst save_then_load)
    (simp_all add: lit_def is_valid_key_def is_key_char_def char_alnum_def char_digit_def trim_def trim_start_def
      trim_end_def is_white_def unique_key_def text_lines_def line_key_def Let_def split_once_def)

text \<open>
  A save leaves every other line as it was: the new file is the old lines in their
  order, each unchanged or set to the new value of the key it defines, with only new
  settings after them, and each line ended by a line feed.
\<close>

theorem save_keeps_lines:
  assumes "distinct (map fst changes)"
  shows "\<exists>ls new. save_text existing changes =
      (let contents = join_lines (ls @ new) in if contents = [] then [] else contents @ [10]) \<and>
    list_all2 (kept_or_set (map_of changes)) (text_lines existing) ls \<and>
    (\<forall>l\<in>set new. \<exists>(k, v)\<in>set changes. l = render_pair k v)"
proof -
  obtain applied where applied:
    "saved_lines existing changes =
       fst (replace_pending (map_of changes) (text_lines existing)) @ appended_lines changes applied"
    using saved_lines_pending [OF assms] .
  moreover have "\<forall>l\<in>set (appended_lines changes applied). \<exists>(k, v)\<in>set changes. l = render_pair k v"
    by (fastforce simp: appended_lines_def dest: set_zip_leftD)
  ultimately show ?thesis
    unfolding save_text_lines using replace_pending_rel by metis
qed

theorem save_keeps_lines_witness:
  "\<exists>ls new. save_text (lit ''# mine'') [(lit ''site'', lit ''KTLH'')] =
      (let contents = join_lines (ls @ new) in if contents = [] then [] else contents @ [10]) \<and>
    list_all2 (kept_or_set (map_of [(lit ''site'', lit ''KTLH'')])) (text_lines (lit ''# mine'')) ls"
  using save_keeps_lines [of "[(lit ''site'', lit ''KTLH'')]" "lit ''# mine''"] by auto

lemma tmp_name_other: "tmp_name pid n \<noteq> n"
proof
  assume "tmp_name pid n = n"
  then have "length (tmp_name pid n) = length n" by simp
  then show False by (simp add: tmp_name_def lit_def)
qed

text \<open>
  C21: the save is atomic. Whatever fails, and wherever, the configuration file is the old
  one or the complete new one, the new one exactly when the save reports success, and no
  file but it and the temporary one is touched.
\<close>

theorem save_atomic:
  assumes "cp_dir path = Some dir"
  shows "case save_config pid readable fault path changes fs of
    (fs', r) \<Rightarrow>
      (r = Ok () \<and> fs' (dir, cp_name path) =
         Some (save_text (case fs (dir, cp_name path) of None \<Rightarrow> [] | Some t \<Rightarrow> t) changes) \<or>
       (\<exists>e. r = Err e) \<and> fs' (dir, cp_name path) = fs (dir, cp_name path)) \<and>
      (\<forall>p. p \<noteq> (dir, cp_name path) \<and> p \<noteq> (dir, tmp_name pid (cp_name path)) \<longrightarrow> fs' p = fs p)"
  using assms tmp_name_other [of pid "cp_name path"]
  by (auto simp: save_config_def write_atomic_def Let_def split: write_fault.split option.split)

theorem save_atomic_witness:
  "fst (save_config 7 True Rename_Fails \<lparr>cp_dir = Some [100], cp_name = [99]\<rparr> [] [([100], [99]) \<mapsto> [65]])
     ([100], [99]) = Some [65]"
  using save_atomic [where path = "\<lparr>cp_dir = Some [100], cp_name = [99]\<rparr>" and dir = "[100]" and pid = 7 and
      readable = True and fault = Rename_Fails and changes = "[]" and fs = "[([100], [99]) \<mapsto> [65]]"]
  by (auto simp: save_config_def write_atomic_def Let_def tmp_name_def lit_def)

text \<open>
  C22: loading never fails and never lets a bad value through: for a missing, unreadable or
  arbitrary file the interval, the window size and the site are within their ranges, and
  exactly the lines that are neither blank, comments nor settings are reported.
\<close>

theorem load_always_valid:
  "case load_config path content of (c, es) \<Rightarrow>
     2 \<le> cf_poll_interval c \<and> cf_poll_interval c \<le> 60 \<and>
     (case cf_window_width c of None \<Rightarrow> True | Some w \<Rightarrow> 640 \<le> w \<and> w \<le> 7680) \<and>
     (case cf_window_height c of None \<Rightarrow> True | Some h \<Rightarrow> 480 \<le> h \<and> h \<le> 4320) \<and>
     (case cf_site c of None \<Rightarrow> True | Some s \<Rightarrow> s \<in> set SITES) \<and>
     (case content of
        File_Text t \<Rightarrow>
          filter (\<lambda>e. \<not> setting_event e) es =
            map (\<lambda>(i, _). ConfigLineUnparseable i)
              (filter (\<lambda>(_, l). read_line l = Bad_Line) (zip [1..<1 + length (text_lines t)] (text_lines t)))
      | _ \<Rightarrow> True)"
proof -
  have "filter (\<lambda>e. \<not> setting_event e) (snd (load_config path (File_Text t))) =
      map (\<lambda>(i, _). ConfigLineUnparseable i)
        (filter (\<lambda>(_, l). read_line l = Bad_Line) (zip [1..<1 + length (text_lines t)] (text_lines t)))" for t
  proof -
    obtain new where new: "snd (load_config path (File_Text t)) =
        map ConfigLineUnparseable (snd (parse_config t)) @ new" "list_all setting_event new"
      using apply_pairs_ok [OF config_default_ok, of "fst (parse_config t)"
          "map ConfigLineUnparseable (snd (parse_config t))"] by (auto simp: split_beta)
    have "filter (\<lambda>e. \<not> setting_event e) (map ConfigLineUnparseable ns) = map ConfigLineUnparseable ns" for ns
      by (induction ns) auto
    moreover have "filter (\<lambda>e. \<not> setting_event e) new = []"
      using new(2) by (simp add: filter_empty_conv list_all_iff)
    ultimately show ?thesis
      using new(1) by (simp add: parse_config_def parse_config_skipped comp_def split_beta)
  qed
  note skipped = this
  obtain c es where load: "load_config path content = (c, es)" by (cases "load_config path content")
  have lines: "case content of
      File_Text t \<Rightarrow>
        filter (\<lambda>e. \<not> setting_event e) es =
          map (\<lambda>(i, _). ConfigLineUnparseable i)
            (filter (\<lambda>(_, l). read_line l = Bad_Line) (zip [1..<1 + length (text_lines t)] (text_lines t)))
    | _ \<Rightarrow> True"
  proof (cases content)
    case (File_Text t)
    with skipped [of t] load show ?thesis by simp
  qed simp_all
  have c: "config_ok c" using load_config_ok [of path content] load by simp
  have "2 \<le> cf_poll_interval c \<and> cf_poll_interval c \<le> 60"
    "case cf_window_width c of None \<Rightarrow> True | Some w \<Rightarrow> 640 \<le> w \<and> w \<le> 7680"
    "case cf_window_height c of None \<Rightarrow> True | Some h \<Rightarrow> 480 \<le> h \<and> h \<le> 4320"
    "case cf_site c of None \<Rightarrow> True | Some s \<Rightarrow> s \<in> set SITES"
    using c by (simp_all add: config_ok_def POLL_INTERVAL_MIN_def POLL_INTERVAL_MAX_def
        WINDOW_WIDTH_RANGE_def WINDOW_HEIGHT_RANGE_def split: option.split)
  then show ?thesis unfolding load prod.case using lines by blast
qed

section \<open>Where the save departs from its description\<close>

text \<open>
  A key on two lines: the save sets the first, the load takes the last, so that the saved
  value is not the one read back.
\<close>

lemma duplicate_key_save_lost:
  "save_text [97, 61, 49, 10, 97, 61, 50, 10] [([97], [51])] = [97, 32, 61, 32, 51, 10, 97, 61, 50, 10]"
  "fst (parse_config [97, 32, 61, 32, 51, 10, 97, 61, 50, 10]) = [([97], [50])]"
  by (simp_all add: save_text_def text_lines_def strip_cr_def line_key_def trim_def trim_start_def trim_end_def
      is_white_def split_once_def is_valid_key_def is_key_char_def char_alnum_def char_digit_def Let_def
      render_pair_def lit_def appended_lines_def parse_config_def read_line_def)

text \<open>Lines that end in CR LF lose their CR, although no key of theirs changes.\<close>

lemma save_rewrites_crlf:
  "save_text [35, 13, 10, 35, 13, 10] [] = [35, 10, 35, 10]"
  by (simp add: save_text_def text_lines_def strip_cr_def line_key_def trim_def trim_start_def trim_end_def
      is_white_def Let_def appended_lines_def)

end
