(* ===== verification/Startup.thy ===== *)
theory Startup
  imports Config_File
begin

text \<open>
  Start-up: the command line and the choice of the site, \<open>cli.rs\<close>, and the base
  directories, \<open>paths.rs\<close>. Arguments and the environment are Unicode text; the
  environment is a map from variables to values.
\<close>

section \<open>The command line\<close>

record args =
  ar_site :: "utext option"
  ar_config_path :: "utext option"
  ar_headless :: bool

datatype parse_outcome = Args_Given args | Help | Version | Args_Error utext

fun parse_args_from :: "utext list \<Rightarrow> args \<Rightarrow> parse_outcome" where
  "parse_args_from [] a = Args_Given a"
| "parse_args_from (arg # rest) a =
     (if arg = lit ''--help'' \<or> arg = lit ''-h'' then Help
      else if arg = lit ''--version'' \<or> arg = lit ''-V'' then Version
      else if arg = lit ''--headless'' then parse_args_from rest (a\<lparr>ar_headless := True\<rparr>)
      else if arg = lit ''--config'' then
        (case rest of
           path # rest' \<Rightarrow> parse_args_from rest' (a\<lparr>ar_config_path := Some path\<rparr>)
         | [] \<Rightarrow> Args_Error (lit ''--config requires a PATH argument''))
      else if arg \<noteq> [] \<and> hd arg = 45 \<and> arg \<noteq> lit ''-'' then
        Args_Error (lit ''unrecognized option: '' @ arg)
      else if ar_site a \<noteq> None then Args_Error (lit ''unexpected extra argument: '' @ arg)
      else parse_args_from rest (a\<lparr>ar_site := Some arg\<rparr>))"

definition parse_args :: "utext list \<Rightarrow> parse_outcome" where
  "parse_args argv =
     parse_args_from (tl argv) \<lparr>ar_site = None, ar_config_path = None, ar_headless = False\<rparr>"

datatype site_resolution_error = NoSiteSpecified | UnknownCliSite utext

definition resolve_site :: "utext option \<Rightarrow> site option \<Rightarrow> site_resolution_error + site" where
  "resolve_site cli_site config_site =
     (case cli_site of
        Some i \<Rightarrow> ok_or (UnknownCliSite i) (by_id SITES i)
      | None \<Rightarrow> ok_or NoSiteSpecified config_site)"

section \<open>Base directories\<close>

type_synonym environment = "utext \<Rightarrow> utext option"

definition APP_DIR_NAME :: utext where "APP_DIR_NAME = lit ''radar-workstation''"

definition is_absolute :: "utext \<Rightarrow> bool" where
  "is_absolute path = (path \<noteq> [] \<and> hd path = 47)"

definition path_join :: "utext \<Rightarrow> utext \<Rightarrow> utext" where
  "path_join base rel = (if base \<noteq> [] \<and> List.last base = 47 then base @ rel else base @ 47 # rel)"

definition xdg_dir :: "environment \<Rightarrow> utext \<Rightarrow> utext \<Rightarrow> utext option" where
  "xdg_dir env xdg_var home_fallback =
     (let from_home =
            Option.bind (env (lit ''HOME'')) (\<lambda>home.
            if \<not> is_absolute home then None
            else Some (path_join (path_join home home_fallback) APP_DIR_NAME))
      in case env xdg_var of
           Some path \<Rightarrow>
             if path \<noteq> [] \<and> is_absolute path then Some (path_join path APP_DIR_NAME) else from_home
         | None \<Rightarrow> from_home)"

definition config_dir :: "environment \<Rightarrow> utext option" where
  "config_dir env = xdg_dir env (lit ''XDG_CONFIG_HOME'') (lit ''.config'')"

definition cache_dir :: "environment \<Rightarrow> utext option" where
  "cache_dir env = xdg_dir env (lit ''XDG_CACHE_HOME'') (lit ''.cache'')"

definition data_dir :: "environment \<Rightarrow> utext option" where
  "data_dir env = xdg_dir env (lit ''XDG_DATA_HOME'') (lit ''.local/share'')"

lemma xdg_dir_absolute: "xdg_dir env var fallback = Some d \<Longrightarrow> is_absolute d"
  by (auto simp: xdg_dir_def Let_def is_absolute_def path_join_def bind_eq_Some_conv split: option.splits if_splits)

text \<open>
  The site that is started is always a bundled one: the one named on the command line or,
  only when none is named there, the configured one; a name that is not bundled is an error.
\<close>

lemma resolve_site_bundled:
  assumes "load_config path content = (c, es)"
  shows "case resolve_site cli (cf_site c) of
      Inr s \<Rightarrow> s \<in> set SITES \<and> (\<forall>i. cli = Some i \<longrightarrow> st_id s = ascii_upper i)
    | Inl (UnknownCliSite i) \<Rightarrow> cli = Some i \<and> (\<forall>s\<in>set SITES. st_id s \<noteq> ascii_upper i)
    | Inl NoSiteSpecified \<Rightarrow> cli = None \<and> cf_site c = None"
proof -
  have "config_ok c"
    using load_config_ok [of path content] assms by simp
  then have "cf_site c = Some s \<Longrightarrow> s \<in> set SITES" for s by (simp add: config_ok_def)
  moreover have "by_id SITES i = None \<Longrightarrow> \<forall>s\<in>set SITES. st_id s \<noteq> ascii_upper i" for i
    using by_id_Some_iff [OF SITES_sorted, of i] by force
  ultimately show ?thesis
    using by_id_Some_iff [OF SITES_sorted]
    by (auto simp: resolve_site_def ok_or_def split: option.splits)
qed

end
