(* ===== verification/Palette.thy ===== *)
theory Palette
  imports Palette_Files Display_Product Floats Startup Tree_Map
begin

text \<open>
  Colour tables, \<open>compute/palette.rs\<close>: the \<open>.pal\<close> reader, the colour of a physical value,
  the lookup table of a grid, and the choice between the bundled and the user's table. The
  order that \<open>sort_by\<close> leaves when some threshold is not a number is a parameter: its
  comparison is no order then, and the library may also panic, which is \<open>None\<close>.
\<close>

section \<open>Reading numbers\<close>

text \<open>\<open>str::parse::<f32>\<close>: sign, digits with a point, exponent, or a named value.\<close>

definition pow10 :: "int \<Rightarrow> rat" where
  "pow10 e = (if 0 \<le> e then 10 ^ nat e else 1 / 10 ^ nat (- e))"

definition parse_exponent :: "utext \<Rightarrow> int option" where
  "parse_exponent t =
     (case t of
        [] \<Rightarrow> Some 0
      | c # r \<Rightarrow>
          if c = 101 \<or> c = 69 then
            let (neg, ds) = (case r of [] \<Rightarrow> (False, []) | s # r' \<Rightarrow>
                               if s = 45 then (True, r') else if s = 43 then (False, r') else (False, r))
            in if ds = [] \<or> \<not> list_all char_digit ds then None
               else Some (if neg then - int (digits_value ds) else int (digits_value ds))
          else None)"

definition parse_decimal :: "utext \<Rightarrow> rat option" where
  "parse_decimal t =
     (let whole = takeWhile char_digit t; r = dropWhile char_digit t;
          (part, r) = (case r of [] \<Rightarrow> ([], []) | c # r' \<Rightarrow>
             if c = 46 then (takeWhile char_digit r', dropWhile char_digit r') else ([], r))
      in if whole @ part = [] then None
         else map_option (\<lambda>e. of_nat (digits_value (whole @ part)) * pow10 (e - int (length part)))
                (parse_exponent r))"

definition parse_f32 :: "utext \<Rightarrow> fp option" where
  "parse_f32 t =
     (let neg = (t \<noteq> [] \<and> hd t = 45); body = (if t \<noteq> [] \<and> (hd t = 45 \<or> hd t = 43) then tl t else t)
      in if body = [] then None
         else case parse_decimal body of
                Some m \<Rightarrow> Some (round_fp F32 neg m)
              | None \<Rightarrow>
                  let name = ascii_lower body in
                  if name = lit ''nan'' then Some FNaN
                  else if name = lit ''inf'' \<or> name = lit ''infinity'' then Some (FInf neg) else None)"

section \<open>Palettes\<close>

type_synonym rgba = "u8 list"

record palette_entry =
  pe_threshold :: fp
  pe_from :: rgba
  pe_to :: "rgba option"

record palette =
  pal_product :: display_product
  pal_units :: utext
  pal_step :: "fp option"
  pal_entries :: "palette_entry list"
  pal_range_folded :: rgba
  pal_no_data :: rgba

definition palette_empty :: "display_product \<Rightarrow> palette" where
  "palette_empty product =
     \<lparr>pal_product = product, pal_units = [], pal_step = None, pal_entries = [],
      pal_range_folded = [160, 160, 160, 255], pal_no_data = [0, 0, 0, 0]\<rparr>"

definition has_entries :: "palette \<Rightarrow> bool" where
  "has_entries p = (pal_entries p \<noteq> [])"

definition threshold_range :: "palette \<Rightarrow> (fp \<times> fp) option" where
  "threshold_range p =
     (case pal_entries p of
        [] \<Rightarrow> None
      | e # es \<Rightarrow> Some (pe_threshold e, pe_threshold (List.last (e # es))))"

text \<open>\<open>slice::partition_point\<close>, a binary search for the first element outside.\<close>

definition partition_point :: "('a \<Rightarrow> bool) \<Rightarrow> 'a list \<Rightarrow> nat" where
  "partition_point f xs =
     (if xs = [] then 0
      else let base = search_from (\<lambda>k. \<not> f (xs ! k)) 0 (length xs)
           in if f (xs ! base) then base + 1 else base)"

definition channel :: "u8 \<Rightarrow> fp" where
  "channel b = fp_of_nat F32 (unat b)"

definition lerp_color :: "rgba \<Rightarrow> rgba \<Rightarrow> fp \<Rightarrow> rgba" where
  "lerp_color a b t =
     map (\<lambda>i. fp_to_u8 (fclamp (fround
            (fadd F32 (channel (a ! i)) (fmul F32 (fsub F32 (channel (b ! i)) (channel (a ! i))) t)))
            (f32lit 0) (f32lit 255))) [0..<4]"

definition sample :: "palette \<Rightarrow> fp \<Rightarrow> rgba" where
  "sample p v =
     (let idx = partition_point (\<lambda>e. fle (pe_threshold e) v) (pal_entries p) in
      if idx = 0 then pal_no_data p
      else let entry = pal_entries p ! (idx - 1) in
        case pe_to entry of
          None \<Rightarrow> pe_from entry
        | Some col \<Rightarrow>
            (case elem_get (pal_entries p) idx of
               None \<Rightarrow> pe_from entry
             | Some nxt \<Rightarrow>
                 let span = fsub F32 (pe_threshold nxt) (pe_threshold entry) in
                 if fle span (f32lit 0) then pe_from entry
                 else lerp_color (pe_from entry) col
                        (fclamp (fdiv F32 (fsub F32 v (pe_threshold entry)) span) (f32lit 0) (f32lit 1))))"

section \<open>Reading a table\<close>

definition strip_comment :: "utext \<Rightarrow> utext" where
  "strip_comment line = takeWhile (\<lambda>c. c \<noteq> 59) line"

definition clamp_u8 :: "fp \<Rightarrow> u8" where
  "clamp_u8 v = fp_to_u8 (fclamp (fround v) (f32lit 0) (f32lit 255))"

definition parse_numbers :: "utext list \<Rightarrow> fp list option" where
  "parse_numbers tokens = those (map parse_f32 tokens)"

definition color_from :: "fp list \<Rightarrow> bool \<Rightarrow> rgba" where
  "color_from nums has_alpha =
     (if has_alpha then [clamp_u8 (nums ! 0), clamp_u8 (nums ! 1), clamp_u8 (nums ! 2), clamp_u8 (nums ! 3)]
      else [clamp_u8 (nums ! 0), clamp_u8 (nums ! 1), clamp_u8 (nums ! 2), 255])"

definition apply_fixed_color :: "utext list \<Rightarrow> rgba option" where
  "apply_fixed_color rest =
     Option.bind (parse_numbers rest) (\<lambda>nums.
       if length nums = 3 then Some [clamp_u8 (nums ! 0), clamp_u8 (nums ! 1), clamp_u8 (nums ! 2), 255]
       else if length nums = 4
       then Some [clamp_u8 (nums ! 0), clamp_u8 (nums ! 1), clamp_u8 (nums ! 2), clamp_u8 (nums ! 3)]
       else None)"

text \<open>A directive gives the new palette, or nothing when the line is refused.\<close>

definition push_entry :: "palette_entry \<Rightarrow> palette \<Rightarrow> palette" where
  "push_entry e p = p\<lparr>pal_entries := pal_entries p @ [e]\<rparr>"

definition apply_color :: "palette \<Rightarrow> utext list \<Rightarrow> bool \<Rightarrow> bool \<Rightarrow> palette option" where
  "apply_color p rest has_alpha solid_only =
     Option.bind (parse_numbers rest) (\<lambda>nums.
       let width = (if has_alpha then 4 else 3); solid_len = 1 + width; gradient_len = 1 + width * 2 in
       if length nums = solid_len then
         Some (push_entry \<lparr>pe_threshold = nums ! 0, pe_from = color_from (drop 1 nums) has_alpha, pe_to = None\<rparr> p)
       else if \<not> solid_only \<and> length nums = gradient_len then
         Some (push_entry \<lparr>pe_threshold = nums ! 0, pe_from = color_from (take width (drop 1 nums)) has_alpha,
                           pe_to = Some (color_from (drop (1 + width) nums) has_alpha)\<rparr> p)
       else None)"

definition apply_directive :: "palette \<Rightarrow> utext \<Rightarrow> palette option" where
  "apply_directive p line =
     (case split_whitespace line of
        [] \<Rightarrow> None
      | directive # rest \<Rightarrow>
          if directive = lit ''Product:'' then Some p
          else if directive = lit ''Units:'' then Some (p\<lparr>pal_units := join_words rest\<rparr>)
          else if directive = lit ''Step:'' then
            (case rest of
               [] \<Rightarrow> None
             | s # _ \<Rightarrow> map_option (\<lambda>v. p\<lparr>pal_step := Some v\<rparr>) (parse_f32 s))
          else if directive = lit ''Color:'' then apply_color p rest False False
          else if directive = lit ''Color4:'' then apply_color p rest True False
          else if directive = lit ''SolidColor:'' then apply_color p rest False True
          else if directive = lit ''SolidColor4:'' then apply_color p rest True True
          else if directive = lit ''RF:'' then
            map_option (\<lambda>c. p\<lparr>pal_range_folded := c\<rparr>) (apply_fixed_color rest)
          else if directive = lit ''ND:'' then
            map_option (\<lambda>c. p\<lparr>pal_no_data := c\<rparr>) (apply_fixed_color rest)
          else None)"

fun parse_palette_lines :: "display_product \<Rightarrow> nat \<Rightarrow> utext list \<Rightarrow> palette \<Rightarrow> event list \<Rightarrow> palette \<times> event list" where
  "parse_palette_lines product line_no [] p events = (p, events)"
| "parse_palette_lines product line_no (raw_line # ls) p events =
     (let line = trim (strip_comment raw_line) in
      if line = [] then parse_palette_lines product (line_no + 1) ls p events
      else case apply_directive p line of
             Some p \<Rightarrow> parse_palette_lines product (line_no + 1) ls p events
           | None \<Rightarrow> parse_palette_lines product (line_no + 1) ls p
                       (events @ [PaletteLineUnparseable product (line_no + 1)]))"

text \<open>A stable sort by a comparison that is a total preorder has one result: equal keys keep
  their order. With a threshold that is not a number the comparison is none.\<close>

fun insert_entry :: "palette_entry \<Rightarrow> palette_entry list \<Rightarrow> palette_entry list" where
  "insert_entry e [] = [e]"
| "insert_entry e (x # xs) = (if flt (pe_threshold e) (pe_threshold x) then e # x # xs else x # insert_entry e xs)"

definition nan_free :: "palette_entry list \<Rightarrow> bool" where
  "nan_free es = list_all (\<lambda>e. pe_threshold e \<noteq> FNaN) es"

type_synonym unordered_sort = "palette_entry list \<Rightarrow> palette_entry list option"

definition sort_entries :: "unordered_sort \<Rightarrow> palette_entry list \<Rightarrow> palette_entry list option" where
  "sort_entries unsorted es =
     (if nan_free es \<or> length es < 2 then Some (foldl (\<lambda>sorted e. insert_entry e sorted) [] es) else unsorted es)"

definition parse_palette :: "unordered_sort \<Rightarrow> utext \<Rightarrow> display_product \<Rightarrow> (palette \<times> event list) option" where
  "parse_palette unsorted t product =
     (let (p, events) = parse_palette_lines product 0 (text_lines t) (palette_empty product) []
      in map_option (\<lambda>es. (p\<lparr>pal_entries := es\<rparr>, events)) (sort_entries unsorted (pal_entries p)))"

section \<open>The lookup table\<close>

definition compile_lut :: "palette \<Rightarrow> fp \<Rightarrow> fp \<Rightarrow> rgba list" where
  "compile_lut p scale offset =
     [pal_no_data p, pal_range_folded p] @
     map (\<lambda>raw. sample p (fdiv F32 (fsub F32 (fp_of_nat F32 raw) offset) scale)) [2..<256]"

section \<open>Bundled and user tables\<close>

fun bundled_pal_lines :: "display_product \<Rightarrow> utext list" where
  "bundled_pal_lines Reflectivity = reflectivity_pal"
| "bundled_pal_lines Velocity = velocity_pal"
| "bundled_pal_lines SpectrumWidth_P = spectrum_width_pal"
| "bundled_pal_lines Zdr_P = zdr_pal"
| "bundled_pal_lines Cc = cc_pal"
| "bundled_pal_lines EchoTops = echo_tops_pal"
| "bundled_pal_lines Vil = vil_pal"

definition bundled_pal_text :: "display_product \<Rightarrow> utext" where
  "bundled_pal_text product = join_lines (bundled_pal_lines product) @ [10]"

definition bundled_default :: "unordered_sort \<Rightarrow> display_product \<Rightarrow> palette option" where
  "bundled_default unsorted product = map_option fst (parse_palette unsorted (bundled_pal_text product) product)"

definition user_palette_path :: "environment \<Rightarrow> display_product \<Rightarrow> utext option" where
  "user_palette_path env product =
     map_option (\<lambda>dir. path_join (path_join dir (lit ''palettes'')) (product_name product @ lit ''.pal'')) (data_dir env)"

text \<open>The reads of the file system are a function from paths to outcomes.\<close>

definition read_user_palette ::
  "environment \<Rightarrow> (utext \<Rightarrow> file_read) \<Rightarrow> display_product \<Rightarrow> event list \<Rightarrow> utext option \<times> event list" where
  "read_user_palette env read_file product events =
     (case user_palette_path env product of
        None \<Rightarrow> (None, events)
      | Some path \<Rightarrow>
          (case read_file path of
             File_Text t \<Rightarrow> (Some t, events)
           | File_Missing \<Rightarrow> (None, events)
           | File_Failed reason \<Rightarrow> (None, events @ [UserPaletteUnreadable product path reason])))"

definition resolve_palette ::
  "unordered_sort \<Rightarrow> environment \<Rightarrow> (utext \<Rightarrow> file_read) \<Rightarrow> display_product \<Rightarrow> event list \<Rightarrow> (palette \<times> event list) option" where
  "resolve_palette unsorted env read_file product events =
     Option.bind (parse_palette unsorted (bundled_pal_text product) product) (\<lambda>(bundled, bundled_events).
     let events = events @ bundled_events in
     case read_user_palette env read_file product events of
       (None, events) \<Rightarrow> Some (bundled, events)
     | (Some user_text, events) \<Rightarrow>
         Option.bind (parse_palette unsorted user_text product) (\<lambda>(user_palette, user_events).
         let events = events @ user_events in
         if has_entries user_palette then Some (user_palette, events)
         else case user_palette_path env product of
                Some path \<Rightarrow> Some (bundled, events @ [UserPaletteMalformed product path])
              | None \<Rightarrow> Some (bundled, events)))"

fun load_products ::
  "unordered_sort \<Rightarrow> environment \<Rightarrow> (utext \<Rightarrow> file_read) \<Rightarrow> display_product list \<Rightarrow>
   (display_product, palette) tree_map \<Rightarrow> event list \<Rightarrow> ((display_product, palette) tree_map \<times> event list) option" where
  "load_products unsorted env read_file [] palettes events = Some (palettes, events)"
| "load_products unsorted env read_file (product # ps) palettes events =
     Option.bind (resolve_palette unsorted env read_file product events) (\<lambda>(resolved, events).
       load_products unsorted env read_file ps (tm_insert product resolved palettes) events)"

definition load_all ::
  "unordered_sort \<Rightarrow> environment \<Rightarrow> (utext \<Rightarrow> file_read) \<Rightarrow>
   ((display_product, palette) tree_map \<times> event list) option" where
  "load_all unsorted env read_file = load_products unsorted env read_file ALL_PRODUCTS [] []"

section \<open>The order of the entries\<close>

lemma fle_not_flt: "a \<noteq> FNaN \<Longrightarrow> b \<noteq> FNaN \<Longrightarrow> fle a b \<longleftrightarrow> \<not> flt b a"
  by (cases a; cases b) (auto simp: fle_def)

lemma fle_NaN [simp]: "\<not> fle FNaN a" "\<not> fle a FNaN"
  by (simp_all add: fle_def) (cases a; simp)

lemma fle_trans: "fle a b \<Longrightarrow> fle b c \<Longrightarrow> fle a c"
  by (cases a; cases b; cases c) (auto simp: fle_def split: if_splits)

lemma flt_fle_trans: "flt a b \<Longrightarrow> fle b c \<Longrightarrow> fle a c"
  by (rule fle_trans [of a b c]) (simp_all add: fle_def)

definition ascending :: "palette_entry list \<Rightarrow> bool" where
  "ascending es = sorted_wrt (\<lambda>a b. fle (pe_threshold a) (pe_threshold b)) es"

lemma insert_entry_set [simp]: "set (insert_entry e es) = insert e (set es)"
  by (induction e es rule: insert_entry.induct) auto

lemma insert_entry_length [simp]: "length (insert_entry e es) = Suc (length es)"
  by (induction e es rule: insert_entry.induct) auto

lemma nan_free_simps [simp]:
  "nan_free []" "nan_free (e # es) \<longleftrightarrow> pe_threshold e \<noteq> FNaN \<and> nan_free es"
  "nan_free (es @ fs) \<longleftrightarrow> nan_free es \<and> nan_free fs"
  "nan_free (insert_entry e es) \<longleftrightarrow> pe_threshold e \<noteq> FNaN \<and> nan_free es"
  by (auto simp: nan_free_def list_all_iff)

lemma insert_entry_ascending:
  "nan_free (e # es) \<Longrightarrow> ascending es \<Longrightarrow> ascending (insert_entry e es)"
proof (induction e es rule: insert_entry.induct)
  case (1 e)
  then show ?case by (simp add: ascending_def)
next
  case (2 e x xs)
  show ?case
  proof (cases "flt (pe_threshold e) (pe_threshold x)")
    case True
    then show ?thesis using 2 by (auto simp: ascending_def fle_def [of "pe_threshold e" "pe_threshold x"] intro: flt_fle_trans)
  next
    case False
    then have "fle (pe_threshold x) (pe_threshold e)" using 2 by (simp add: fle_not_flt)
    then show ?thesis using 2 False by (auto simp: ascending_def)
  qed
qed

text \<open>Equal thresholds keep the order of the file.\<close>

lemma insert_entry_stable:
  "nan_free (e # es) \<Longrightarrow> ascending es \<Longrightarrow>
   filter (\<lambda>x. feq (pe_threshold x) t) (insert_entry e es) =
   filter (\<lambda>x. feq (pe_threshold x) t) es @ (if feq (pe_threshold e) t then [e] else [])"
proof (induction e es rule: insert_entry.induct)
  case (1 e)
  then show ?case by simp
next
  case (2 e x xs)
  have greater_not: "\<not> feq (pe_threshold y) t"
    if "flt (pe_threshold e) (pe_threshold x)" "feq (pe_threshold e) t" "fle (pe_threshold x) (pe_threshold y)" for y
    using that by (cases "pe_threshold e"; cases "pe_threshold x"; cases "pe_threshold y"; cases t)
      (auto simp: fle_def split: if_splits)
  show ?case
  proof (cases "flt (pe_threshold e) (pe_threshold x)")
    case True
    have xx: "fle (pe_threshold x) (pe_threshold x)" using 2 by (simp add: fle_not_flt)
    show ?thesis
    proof (cases "feq (pe_threshold e) t")
      case feq: True
      have "filter (\<lambda>x. feq (pe_threshold x) t) (x # xs) = []"
        using 2(3) greater_not [OF True feq] xx by (auto simp: ascending_def filter_empty_conv)
      then show ?thesis using True feq by simp
    qed (use True in simp)
  next
    case False
    then show ?thesis using 2 by (simp add: ascending_def)
  qed
qed

lemma sort_entries_spec:
  assumes "nan_free es"
  obtains ss where "sort_entries unsorted es = Some ss" "ascending ss" "nan_free ss" "set ss = set es"
    "length ss = length es" "\<And>t. filter (\<lambda>x. feq (pe_threshold x) t) ss = filter (\<lambda>x. feq (pe_threshold x) t) es"
proof -
  let ?f = "foldl (\<lambda>sorted e. insert_entry e sorted) []"
  have "ascending (?f es) \<and> nan_free (?f es) \<and> set (?f es) = set es \<and> length (?f es) = length es \<and>
      (\<forall>t. filter (\<lambda>x. feq (pe_threshold x) t) (?f es) = filter (\<lambda>x. feq (pe_threshold x) t) es)"
    using assms
    by (induction es rule: rev_induct) (simp_all add: ascending_def [of "[]"] insert_entry_ascending insert_entry_stable)
  then show ?thesis using that [of "?f es"] assms by (simp add: sort_entries_def)
qed

section \<open>The colour of a value\<close>

lemma partition_point_takeWhile:
  assumes "\<And>i j. i \<le> j \<Longrightarrow> j < length xs \<Longrightarrow> f (xs ! j) \<Longrightarrow> f (xs ! i)"
  shows "partition_point f xs = length (takeWhile f xs)"
proof (cases "xs = []")
  case True
  then show ?thesis by (simp add: partition_point_def)
next
  case False
  let ?b = "search_from (\<lambda>k. \<not> f (xs ! k)) 0 (length xs)"
  have "let b = ?b in b < length xs \<and> (b = 0 \<or> \<not> \<not> f (xs ! b)) \<and> (\<forall>k. b < k \<and> k < length xs \<longrightarrow> \<not> f (xs ! k))"
    by (rule search_from_spec) (use False assms in auto)
  then have b: "?b < length xs" "?b = 0 \<or> f (xs ! ?b)" "\<And>k. ?b < k \<Longrightarrow> k < length xs \<Longrightarrow> \<not> f (xs ! k)"
    unfolding Let_def by blast+
  let ?n = "if f (xs ! ?b) then ?b + 1 else ?b"
  have "takeWhile f xs = take ?n xs"
  proof (rule takeWhile_eq_take_P_nth)
    show "f (xs ! i)" if "i < ?n" "i < length xs" for i
      using that b(1,2) assms [of i ?b] by (cases "f (xs ! ?b)") auto
    show "\<not> f (xs ! ?n)" if "?n < length xs"
      using that b by (cases "f (xs ! ?b)") auto
  qed
  then show ?thesis using False b(1) by (auto simp: partition_point_def)
qed

lemma ascending_partition:
  assumes "ascending es"
  shows "partition_point (\<lambda>e. fle (pe_threshold e) v) es = length (takeWhile (\<lambda>e. fle (pe_threshold e) v) es)"
proof (rule partition_point_takeWhile)
  fix i j assume "i \<le> j" "j < length es" "fle (pe_threshold (es ! j)) v"
  then show "fle (pe_threshold (es ! i)) v"
    using assms fle_trans [of "pe_threshold (es ! i)" "pe_threshold (es ! j)" v]
    by (cases "i = j") (auto simp: ascending_def sorted_wrt_iff_nth_less)
qed

lemma ascending_filter:
  assumes "ascending es" "nan_free es"
  shows "takeWhile (\<lambda>e. fle (pe_threshold e) v) es = filter (\<lambda>e. fle (pe_threshold e) v) es"
    and "dropWhile (\<lambda>e. fle (pe_threshold e) v) es = filter (\<lambda>e. \<not> fle (pe_threshold e) v) es"
proof -
  have none: "\<not> fle (pe_threshold x) v" if "ascending (e # es)" "\<not> fle (pe_threshold e) v" "x \<in> set es" for e es x
    using that by (auto simp: ascending_def dest: fle_trans)
  show "takeWhile (\<lambda>e. fle (pe_threshold e) v) es = filter (\<lambda>e. fle (pe_threshold e) v) es"
    using assms(1)
  proof (induction es)
    case (Cons e es)
    then show ?case using none [OF Cons.prems] by (auto simp: ascending_def filter_empty_conv)
  qed simp
  show "dropWhile (\<lambda>e. fle (pe_threshold e) v) es = filter (\<lambda>e. \<not> fle (pe_threshold e) v) es"
    using assms(1)
  proof (induction es)
    case (Cons e es)
    then show ?case using none [OF Cons.prems] by (auto simp: ascending_def filter_id_conv)
  qed simp
qed

text \<open>The reference is a scan of all entries.\<close>

definition sample_ref :: "palette \<Rightarrow> fp \<Rightarrow> rgba" where
  "sample_ref p v =
     (let below = filter (\<lambda>e. fle (pe_threshold e) v) (pal_entries p);
          above = filter (\<lambda>e. \<not> fle (pe_threshold e) v) (pal_entries p)
      in if below = [] then pal_no_data p
         else let entry = List.last below in
           (case (pe_to entry, above) of
              (Some col, nxt # _) \<Rightarrow>
                let span = fsub F32 (pe_threshold nxt) (pe_threshold entry) in
                if fle span (f32lit 0) then pe_from entry
                else lerp_color (pe_from entry) col
                       (fclamp (fdiv F32 (fsub F32 v (pe_threshold entry)) span) (f32lit 0) (f32lit 1))
            | _ \<Rightarrow> pe_from entry))"

lemma sample_is_ref:
  assumes "ascending (pal_entries p)" "nan_free (pal_entries p)"
  shows "sample p v = sample_ref p v"
proof -
  let ?es = "pal_entries p" and ?f = "\<lambda>e. fle (pe_threshold e) v"
  let ?idx = "length (takeWhile ?f ?es)"
  note part = ascending_partition [OF assms(1), of v] and filt = ascending_filter [OF assms, of v]
  have split: "?es = takeWhile ?f ?es @ dropWhile ?f ?es" by simp
  show ?thesis
  proof (cases "takeWhile ?f ?es = []")
    case True
    then show ?thesis by (simp add: sample_def sample_ref_def part Let_def flip: filt)
  next
    case False
    have nth: "?es ! (?idx - 1) = List.last (takeWhile ?f ?es)"
      using False by (subst split) (simp add: nth_append last_conv_nth del: takeWhile_dropWhile_id)
    have elem: "elem_get ?es ?idx = (case dropWhile ?f ?es of [] \<Rightarrow> None | nxt # _ \<Rightarrow> Some nxt)"
    proof (cases "dropWhile ?f ?es")
      case Nil
      then have "?idx = length ?es" by (metis append_Nil2 split)
      then show ?thesis unfolding Nil elem_get_def by simp
    next
      case (Cons nxt r)
      then have es: "?es = takeWhile ?f ?es @ nxt # r" using split by simp
      have "?es ! ?idx = nxt" by (subst es) (simp only: nth_append_length)
      moreover have "?idx < length ?es" by (subst (2) es) simp
      ultimately show ?thesis using Cons by (simp add: elem_get_def)
    qed
    have pos: "(?idx = 0) = False" "(takeWhile ?f ?es = []) = False" using False by simp_all
    show ?thesis
    proof (cases "dropWhile ?f ?es")
      case Nil
      show ?thesis
        unfolding sample_def sample_ref_def part Let_def filt [symmetric] nth elem Nil pos
        by (simp split: option.split)
    next
      case (Cons nxt r)
      show ?thesis
        unfolding sample_def sample_ref_def part Let_def filt [symmetric] nth elem Cons pos
        by (simp split: option.split)
    qed
  qed
qed

text \<open>At its own threshold an entry gives its own colour, a gradient too.\<close>

lemma byte_representable: "n < 256 \<Longrightarrow> representable F32 (of_nat n)"
proof -
  assume n: "n < 256"
  then have "of_nat n < (of_nat 256 :: rat)" by (simp only: of_nat_less_iff)
  also have "\<dots> = pow2 8" by (simp add: pow2_def)
  also have "\<dots> < pow2 128" by simp
  finally show ?thesis
    using n by (intro representable_F32I [of "int n" 0]) (simp_all add: pow2_def)
qed

lemma channel_value: "channel b = FFin False (of_nat (unat b))"
  unfolding channel_def fp_of_nat_def by (rule round_fp_exact, rule byte_representable) simp

lemma byte_difference:
  assumes "A < 256" "B < 256"
  shows "\<exists>n<256. \<bar>of_nat B - of_nat A :: rat\<bar> = of_nat n"
proof (cases "A \<le> B")
  case True
  then show ?thesis using assms by (intro exI [of _ "B - A"]) (simp add: of_nat_diff)
next
  case False
  then show ?thesis using assms by (intro exI [of _ "A - B"]) (simp add: of_nat_diff)
qed

lemma byte_plus_zero: "n < 256 \<Longrightarrow> fadd F32 (FFin False (of_nat n)) (FFin s 0) = FFin False (of_nat n)"
  using round_fp_exact [OF byte_representable] by (simp add: round_rat_def)

lemma byte_clamped:
  assumes "n < 256"
  shows "fclamp (fround (FFin False (of_nat n))) (f32lit 0) (f32lit 255) = FFin False (of_nat n)"
proof -
  have "\<lfloor>of_nat n + 1 / 2 :: rat\<rfloor> = int n" by (simp add: floor_eq_iff)
  moreover have "f32lit 0 = FFin False 0" "f32lit 255 = FFin False 255"
    using round_fp_exact [OF byte_representable [of 255]] by (simp_all add: f32lit_def round_rat_def)
  moreover have "\<not> (255 :: rat) < of_nat n" using assms of_nat_less_iff [of 255 n] by simp
  ultimately show ?thesis by (simp add: fclamp_def)
qed

lemma byte_back: "n < 256 \<Longrightarrow> fp_to_u8 (FFin False (of_nat n)) = of_nat n"
  by (simp add: fp_to_u8_def)

lemma lerp_color_zero:
  assumes "length a = 4"
  shows "lerp_color a b (FFin s 0) = a"
proof (rule nth_equalityI)
  show "length (lerp_color a b (FFin s 0)) = length a" using assms by (simp add: lerp_color_def)
  fix i assume "i < length (lerp_color a b (FFin s 0))"
  then have i: "i < 4" by (simp add: lerp_color_def)
  let ?a = "unat (a ! i)"
  have lt: "?a < 256" by simp
  have fin: "\<exists>u m. fsub F32 (channel (b ! i)) (channel (a ! i)) = FFin u m"
  proof -
    let ?d = "of_nat (unat (b ! i)) - of_nat ?a :: rat"
    have "\<exists>n<256. \<bar>?d\<bar> = of_nat n" by (rule byte_difference) simp_all
    then obtain n where "n < 256" "\<bar>?d\<bar> = of_nat n" by blast
    then have "round_fp F32 s' \<bar>?d\<bar> = FFin s' \<bar>?d\<bar>" for s'
      using round_fp_exact [OF byte_representable] by simp
    then show ?thesis by (auto simp: fsub_def channel_value round_rat_def)
  qed
  then obtain u m where d: "fsub F32 (channel (b ! i)) (channel (a ! i)) = FFin u m" by blast
  have sum: "fadd F32 (channel (a ! i)) (FFin s' 0) = channel (a ! i)" for s'
    unfolding channel_value by (rule byte_plus_zero [OF lt])
  have "fclamp (fround (channel (a ! i))) (f32lit 0) (f32lit 255) = FFin False (of_nat ?a)"
    unfolding channel_value by (rule byte_clamped [OF lt])
  then have "lerp_color a b (FFin s 0) ! i = fp_to_u8 (FFin False (of_nat ?a))"
    using i by (simp add: lerp_color_def d round_fp_def sum)
  also have "\<dots> = a ! i"
    unfolding byte_back [OF lt] by simp
  finally show "lerp_color a b (FFin s 0) ! i = a ! i" .
qed

lemma sample_at_threshold:
  assumes order: "ascending (pal_entries p)" "nan_free (pal_entries p)"
    and e: "pe_threshold e = FFin s m" "length (pe_from e) = 4"
    and below: "filter (\<lambda>x. fle (pe_threshold x) (pe_threshold e)) (pal_entries p) = es @ [e]"
  shows "sample p (pe_threshold e) = pe_from e"
proof -
  let ?t = "pe_threshold e" and ?es = "pal_entries p"
  have zero: "fsub F32 ?t ?t = FFin (s \<and> \<not> s) 0"
    by (simp add: e fsub_def round_rat_def)
  have lits: "f32lit 0 = FFin False 0" "f32lit 1 = FFin False 1"
    using round_fp_exact [OF byte_representable [of 1]] by (simp_all add: f32lit_def round_rat_def)
  have ratio: "\<exists>u. fclamp (fdiv F32 (FFin s' 0) span) (f32lit 0) (f32lit 1) = FFin u 0"
    if "\<not> fle span (f32lit 0)" "span \<noteq> FNaN" for span s'
    using that by (cases span) (auto simp: lits fle_def fclamp_def round_fp_def Let_def split: if_splits)
  have number: "fsub F32 x ?t \<noteq> FNaN" if "x \<noteq> FNaN" for x
    using that by (cases x) (auto simp: e fsub_def round_rat_def round_fp_number)
  have "nxt \<in> set ?es" if "filter (\<lambda>x. \<not> fle (pe_threshold x) ?t) ?es = nxt # r" for nxt r
    using that by (metis filter_is_subset list.set_intros(1) subsetD)
  then have next_number: "pe_threshold nxt \<noteq> FNaN"
    if "filter (\<lambda>x. \<not> fle (pe_threshold x) ?t) ?es = nxt # r" for nxt r
    using that order(2) by (auto simp: nan_free_def list_all_iff)
  show ?thesis
  proof (cases "filter (\<lambda>x. \<not> fle (pe_threshold x) ?t) ?es")
    case Nil
    then show ?thesis
      by (simp add: sample_is_ref [OF order] sample_ref_def below split: option.split)
  next
    case (Cons nxt r)
    let ?span = "fsub F32 (pe_threshold nxt) ?t"
    have "?span \<noteq> FNaN" by (rule number [OF next_number [OF Cons]])
    then obtain u where "\<not> fle ?span (f32lit 0) \<longrightarrow>
        fclamp (fdiv F32 (FFin (s \<and> \<not> s) 0) ?span) (f32lit 0) (f32lit 1) = FFin u 0"
      using ratio by blast
    then show ?thesis
      unfolding sample_is_ref [OF order] sample_ref_def below Cons Let_def zero
      using e(2) by (simp add: zero lerp_color_zero split: option.split)
  qed
qed

section \<open>One line at a time\<close>

definition directive_of :: "utext \<Rightarrow> utext" where
  "directive_of raw_line = trim (strip_comment raw_line)"

definition read_into :: "utext \<Rightarrow> palette \<Rightarrow> palette" where
  "read_into raw_line p =
     (if directive_of raw_line = [] then p
      else case apply_directive p (directive_of raw_line) of Some p' \<Rightarrow> p' | None \<Rightarrow> p)"

definition bad_line :: "utext \<Rightarrow> bool" where
  "bad_line raw_line \<longleftrightarrow>
     directive_of raw_line \<noteq> [] \<and> apply_directive (palette_empty Reflectivity) (directive_of raw_line) = None"

definition bad_events :: "display_product \<Rightarrow> nat \<Rightarrow> utext list \<Rightarrow> event list" where
  "bad_events product n ls =
     map (\<lambda>(i, l). PaletteLineUnparseable product (i + 1)) (filter (\<lambda>(i, l). bad_line l) (enumerate n ls))"

text \<open>Whether a line is refused does not depend on what was read before.\<close>

lemma apply_color_None: "apply_color p rest a s = None \<longleftrightarrow> apply_color q rest a s = None"
  by (simp add: apply_color_def Let_def split: Option.bind_split)

lemma apply_directive_None: "apply_directive p line = None \<longleftrightarrow> apply_directive q line = None"
proof (cases "split_whitespace line")
  case Nil
  then show ?thesis by (simp add: apply_directive_def)
next
  case (Cons d rest)
  show ?thesis
    unfolding apply_directive_def Cons list.case
    using apply_color_None [of p rest _ _ q] by (simp split: list.split)
qed

lemma parse_palette_lines_fold:
  "parse_palette_lines product n ls p ev = (fold read_into ls p, ev @ bad_events product n ls)"
proof (induction product n ls p ev rule: parse_palette_lines.induct)
  case (1 product n p ev)
  then show ?case by (simp add: bad_events_def)
next
  case (2 product n raw_line ls p ev)
  let ?line = "directive_of raw_line"
  have unf: "trim (strip_comment raw_line) = ?line" by (simp add: directive_of_def)
  show ?case
  proof (cases "?line = []")
    case True
    then have "read_into raw_line p = p" "\<not> bad_line raw_line" by (simp_all add: read_into_def bad_line_def)
    then show ?thesis using 2(1) True by (simp add: unf bad_events_def)
  next
    case False
    show ?thesis
    proof (cases "apply_directive p ?line")
      case None
      then have "bad_line raw_line"
        using False apply_directive_None unfolding bad_line_def by blast
      moreover have "read_into raw_line p = p" using None False by (simp add: read_into_def)
      ultimately show ?thesis
        using None False 2(2,3) by (simp add: unf bad_events_def Let_def)
    next
      case (Some p')
      then have "\<not> bad_line raw_line"
        using apply_directive_None [of p ?line "palette_empty Reflectivity"] unfolding bad_line_def by simp
      moreover have "read_into raw_line p = p'" using Some False by (simp add: read_into_def)
      ultimately show ?thesis
        using Some False 2(2,3) by (simp add: unf bad_events_def Let_def)
    qed
  qed
qed

lemma bad_line_read: "bad_line l \<Longrightarrow> read_into l p = p"
  using apply_directive_None [of p "directive_of l" "palette_empty Reflectivity"]
  by (auto simp: bad_line_def read_into_def)

lemma fold_read_good: "fold read_into (filter (\<lambda>l. \<not> bad_line l) ls) p = fold read_into ls p"
  by (induction ls arbitrary: p) (simp_all add: bad_line_read)

text \<open>The line ends do not matter.\<close>

lemma directive_strip_cr [simp]: "directive_of (strip_cr l) = directive_of l"
proof (cases "l \<noteq> [] \<and> List.last l = 13")
  case True
  then obtain x where l: "l = x @ [13]" by (metis append_butlast_last_id)
  have white: "is_white 13" by (simp add: is_white_def)
  show ?thesis
  proof (cases "59 \<in> set x")
    case True
    then have "strip_comment (x @ [13]) = strip_comment x"
      by (simp add: strip_comment_def takeWhile_append1)
    then show ?thesis by (simp add: l strip_cr_def directive_of_def)
  next
    case False
    then have "strip_comment x = x" "strip_comment (x @ [13]) = x @ [13]"
      by (simp_all add: strip_comment_def takeWhile_eq_all_conv) (metis, metis)
    then show ?thesis using white by (simp add: l strip_cr_def directive_of_def)
  qed
next
  case False
  then have "strip_cr l = l" unfolding strip_cr_def by (rule if_not_P)
  then show ?thesis by simp
qed

lemma read_strip_cr [simp]: "read_into (strip_cr l) = read_into l" "bad_line (strip_cr l) = bad_line l"
  by (simp_all add: fun_eq_iff read_into_def bad_line_def)

lemma fold_read_cr: "fold read_into (map strip_cr ls) p = fold read_into ls p"
  by (simp add: fold_map comp_def)

lemma bad_events_cr: "bad_events product n (map strip_cr ls) = bad_events product n ls"
  by (induction ls arbitrary: n) (simp_all add: bad_events_def)

lemma bad_events_good: "\<forall>l\<in>set ls. \<not> bad_line l \<Longrightarrow> bad_events product n ls = []"
  by (induction ls arbitrary: n) (simp_all add: bad_events_def)

lemma parse_palette_fold:
  "parse_palette unsorted t product =
     (let p = fold read_into (text_lines t) (palette_empty product) in
      map_option (\<lambda>es. (p\<lparr>pal_entries := es\<rparr>, bad_events product 0 (text_lines t))) (sort_entries unsorted (pal_entries p)))"
  by (simp add: parse_palette_def parse_palette_lines_fold Let_def)

lemma parse_joined:
  assumes "\<forall>l\<in>set ls. 10 \<notin> set l" "\<forall>l\<in>set ls. \<not> bad_line l"
  shows "parse_palette unsorted (join_lines ls @ [10]) product =
    (let p = fold read_into ls (palette_empty product) in
     map_option (\<lambda>es. (p\<lparr>pal_entries := es\<rparr>, [])) (sort_entries unsorted (pal_entries p)))"
proof (cases "ls = []")
  case True
  have "text_lines [10] = [[]]" by (simp add: text_lines_def strip_cr_def)
  moreover have "read_into [] p = p" "\<not> bad_line []" for p
    by (simp_all add: read_into_def bad_line_def directive_of_def strip_comment_def)
  ultimately show ?thesis using True by (simp add: parse_palette_fold bad_events_good)
next
  case False
  have "bad_events product 0 ls = []" by (rule bad_events_good) (rule assms(2))
  then show ?thesis
    using lines_join [OF assms(1) False]
    by (simp add: parse_palette_fold fold_read_cr bad_events_cr)
qed

section \<open>The bundled tables\<close>

definition nan_word :: "utext \<Rightarrow> bool" where
  "nan_word w \<longleftrightarrow> ascii_lower (if w \<noteq> [] \<and> (hd w = 45 \<or> hd w = 43) then tl w else w) = lit ''nan''"

definition plain_line :: "utext \<Rightarrow> bool" where
  "plain_line l \<longleftrightarrow> 10 \<notin> set l \<and> \<not> bad_line l \<and> list_all (\<lambda>w. \<not> nan_word w) (split_whitespace (directive_of l))"

lemma parse_f32_number: "parse_f32 w = Some v \<Longrightarrow> \<not> nan_word w \<Longrightarrow> v \<noteq> FNaN"
  using round_fp_number
  by (auto simp: parse_f32_def nan_word_def Let_def split: option.splits if_splits)

lemmas plain_eval = plain_line_def bad_line_def directive_of_def strip_comment_def trim_def trim_start_def trim_end_def
  split_whitespace_def apply_directive_def apply_color_def apply_fixed_color_def parse_numbers_def
  parse_f32_def parse_decimal_def parse_exponent_def nan_word_def ascii_lower_def is_white_def char_digit_def lit_def

text \<open>
  C24: the colour of a value is that of the last entry at or below it. The binary search
  gives the colour that a scan of all entries gives, no data below the first threshold;
  and at its own threshold an entry gives exactly its own colour, a gradient too.
\<close>

theorem palette_sample_exact:
  assumes "ascending (pal_entries p)" "nan_free (pal_entries p)"
  shows "sample p v = sample_ref p v \<and>
    (\<forall>es e s m. filter (\<lambda>x. fle (pe_threshold x) (pe_threshold e)) (pal_entries p) = es @ [e] \<and>
        pe_threshold e = FFin s m \<and> length (pe_from e) = 4 \<longrightarrow>
      sample p (pe_threshold e) = pe_from e)"
  using sample_is_ref [OF assms] sample_at_threshold [OF assms] by blast

definition sample_palette :: palette where
  "sample_palette = (palette_empty Reflectivity)\<lparr>pal_entries :=
     [\<lparr>pe_threshold = FFin False 0, pe_from = [10, 20, 30, 255], pe_to = Some [100, 100, 100, 255]\<rparr>,
      \<lparr>pe_threshold = FFin False 10, pe_from = [200, 200, 200, 255], pe_to = None\<rparr>]\<rparr>"

theorem palette_sample_exact_witness:
  "sample sample_palette (FFin False 0) = [10, 20, 30, 255] \<and>
   sample sample_palette (FFin True 1) = [0, 0, 0, 0]"
proof -
  have "ascending (pal_entries sample_palette)" "nan_free (pal_entries sample_palette)"
    by (simp_all add: sample_palette_def ascending_def fle_def)
  note s = palette_sample_exact [OF this]
  have "sample sample_palette (FFin False 0) = [10, 20, 30, 255]"
    using s [THEN conjunct2, rule_format, of "hd (pal_entries sample_palette)" "[]" False 0]
    by (simp add: sample_palette_def fle_def)
  moreover have "sample sample_palette (FFin True 1) = [0, 0, 0, 0]"
    using s [of "FFin True 1", THEN conjunct1]
    by (simp add: sample_ref_def sample_palette_def fle_def palette_empty_def)
  ultimately show ?thesis ..
qed

text \<open>
  A bad line costs only itself. The events name exactly the refused lines, by their
  numbers from 1, and the file without those lines gives the same table and no event.
\<close>

theorem palette_bad_lines_alone:
  assumes "parse_palette unsorted t product = Some (p, events)"
  shows "events = bad_events product 0 (text_lines t) \<and>
    parse_palette unsorted (join_lines (filter (\<lambda>l. \<not> bad_line l) (text_lines t)) @ [10]) product = Some (p, [])"
proof -
  let ?ls = "filter (\<lambda>l. \<not> bad_line l) (text_lines t)"
  have "\<forall>l\<in>set ?ls. 10 \<notin> set l" "\<forall>l\<in>set ?ls. \<not> bad_line l"
    using text_lines_no_lf by auto
  from parse_joined [OF this, of unsorted product] assms show ?thesis
    by (auto simp: parse_palette_fold Let_def fold_read_good)
qed

theorem palette_bad_lines_alone_witness:
  "parse_palette Some (join_lines (filter (\<lambda>l. \<not> bad_line l) (text_lines (lit ''RF: 1 2''))) @ [10]) Vil =
     Some (palette_empty Vil, [])"
proof -
  have "text_lines (lit ''RF: 1 2'') = [lit ''RF: 1 2'']" by (simp add: text_lines_def lit_def)
  moreover have "bad_line (lit ''RF: 1 2'')" by (simp add: plain_eval)
  then have "read_into (lit ''RF: 1 2'') q = q" for q by (rule bad_line_read)
  ultimately have "parse_palette Some (lit ''RF: 1 2'') Vil =
      Some (palette_empty Vil, bad_events Vil 0 (text_lines (lit ''RF: 1 2'')))"
    by (simp add: parse_palette_fold Let_def sort_entries_def palette_empty_def)
  from palette_bad_lines_alone [OF this] show ?thesis by blast
qed

text \<open>With a threshold that is not a number the result is whatever the sort does.\<close>

lemma nan_threshold_unsorted:
  "parse_palette (\<lambda>_. None) (lit ''Color: nan 0 0 0'' @ [10] @ lit ''Color: 1 0 0 0'') product = None"
proof -
  have "text_lines (lit ''Color: nan 0 0 0'' @ [10] @ lit ''Color: 1 0 0 0'') =
      [lit ''Color: nan 0 0 0'', lit ''Color: 1 0 0 0'']"
    by (simp add: text_lines_def lit_def strip_cr_def)
  moreover have "\<exists>c. read_into (lit ''Color: nan 0 0 0'') q =
      push_entry \<lparr>pe_threshold = FNaN, pe_from = c, pe_to = None\<rparr> q" for q
    by (simp add: plain_eval read_into_def) blast
  then obtain c where "read_into (lit ''Color: nan 0 0 0'') (palette_empty product) =
      push_entry \<lparr>pe_threshold = FNaN, pe_from = c, pe_to = None\<rparr> (palette_empty product)" by blast
  moreover have "\<exists>e. read_into (lit ''Color: 1 0 0 0'') q = push_entry e q" for q
    by (simp add: plain_eval read_into_def) blast
  then obtain e where "read_into (lit ''Color: 1 0 0 0'') (push_entry \<lparr>pe_threshold = FNaN, pe_from = c, pe_to = None\<rparr> (palette_empty product)) =
      push_entry e (push_entry \<lparr>pe_threshold = FNaN, pe_from = c, pe_to = None\<rparr> (palette_empty product))" by blast
  ultimately show ?thesis
    by (simp add: parse_palette_fold push_entry_def palette_empty_def sort_entries_def Let_def)
qed
end
