(* ===== verification/Palette_Load.thy ===== *)
theory Palette_Load
  imports Palette
begin

text \<open>
  The tables that are compiled in are read without a complaint, and \<open>load_all\<close> gives every
  product a table with colours.
\<close>

section \<open>The bundled tables\<close>

lemma reflectivity_plain: "list_all plain_line reflectivity_pal"
  by (simp add: reflectivity_pal_def plain_eval)

lemma velocity_plain: "list_all plain_line velocity_pal"
  by (simp add: velocity_pal_def plain_eval)

lemma spectrum_width_plain: "list_all plain_line spectrum_width_pal"
  by (simp add: spectrum_width_pal_def plain_eval)

lemma zdr_plain: "list_all plain_line zdr_pal"
  by (simp add: zdr_pal_def plain_eval)

lemma cc_plain: "list_all plain_line cc_pal"
  by (simp add: cc_pal_def plain_eval)

lemma echo_tops_plain: "list_all plain_line echo_tops_pal"
  by (simp add: echo_tops_pal_def plain_eval)

lemma vil_plain: "list_all plain_line vil_pal"
  by (simp add: vil_pal_def plain_eval)

lemma bundled_plain: "list_all plain_line (bundled_pal_lines product)"
  by (cases product) (simp_all only: bundled_pal_lines.simps reflectivity_plain velocity_plain
      spectrum_width_plain zdr_plain cc_plain echo_tops_plain vil_plain)

text \<open>No threshold of a plain line is not a number, and entries are never removed.\<close>

lemma parse_numbers_first:
  "parse_numbers ws = Some nums \<Longrightarrow> nums \<noteq> [] \<Longrightarrow> list_all (\<lambda>w. \<not> nan_word w) ws \<Longrightarrow> nums ! 0 \<noteq> FNaN"
  by (cases ws) (auto simp: parse_numbers_def parse_f32_number split: option.splits)

lemma apply_color_nan_free:
  "apply_color p ws a s = Some q \<Longrightarrow> list_all (\<lambda>w. \<not> nan_word w) ws \<Longrightarrow> nan_free (pal_entries p) \<Longrightarrow>
   nan_free (pal_entries q)"
  using parse_numbers_first [of ws]
  by (fastforce simp: apply_color_def push_entry_def Let_def bind_eq_Some_conv split: if_splits)

lemma apply_color_entries:
  "apply_color p ws a s = Some q \<Longrightarrow> \<exists>e. pal_entries q = pal_entries p @ [e]"
  by (auto simp: apply_color_def push_entry_def Let_def bind_eq_Some_conv split: if_splits)

lemma apply_directive_entries:
  assumes "apply_directive p line = Some q"
  shows "pal_entries q = pal_entries p \<or>
    (\<exists>a s. apply_color p (tl (split_whitespace line)) a s = Some q)"
  using assms unfolding apply_directive_def
  by (auto split: list.splits if_splits)

lemma read_into_plain:
  assumes "plain_line l" "nan_free (pal_entries p)"
  shows "nan_free (pal_entries (read_into l p))"
proof (cases "directive_of l = [] \<or> apply_directive p (directive_of l) = None")
  case True
  then show ?thesis using assms(2) by (auto simp: read_into_def)
next
  case False
  then obtain q where q: "apply_directive p (directive_of l) = Some q" "read_into l p = q"
    by (auto simp: read_into_def)
  have "list_all (\<lambda>w. \<not> nan_word w) (tl (split_whitespace (directive_of l)))"
    using assms(1) by (cases "split_whitespace (directive_of l)") (simp_all add: plain_line_def)
  then show ?thesis
    using apply_directive_entries [OF q(1)] apply_color_nan_free assms(2) unfolding q(2) by metis
qed

lemma read_into_grows: "\<exists>es. pal_entries (read_into l p) = pal_entries p @ es"
proof (cases "directive_of l = [] \<or> apply_directive p (directive_of l) = None")
  case True
  then show ?thesis by (auto simp: read_into_def)
next
  case False
  then obtain q where q: "apply_directive p (directive_of l) = Some q" "read_into l p = q"
    by (auto simp: read_into_def)
  then show ?thesis
    using apply_directive_entries [OF q(1)] apply_color_entries by (metis append_Nil2)
qed

lemma fold_read_grows: "\<exists>es. pal_entries (fold read_into ls p) = pal_entries p @ es"
proof (induction ls arbitrary: p)
  case (Cons l ls)
  then show ?case using read_into_grows [of l p] by (metis append_assoc fold_simps(2))
qed simp

lemma fold_read_plain:
  "list_all plain_line ls \<Longrightarrow> nan_free (pal_entries p) \<Longrightarrow> nan_free (pal_entries (fold read_into ls p))"
  by (induction ls arbitrary: p) (simp_all add: read_into_plain)

definition color_line :: "utext \<Rightarrow> bool" where
  "color_line l \<longleftrightarrow> (\<forall>p. \<exists>e. read_into l p = push_entry e p)"

lemma fold_read_color:
  assumes "l \<in> set ls" "color_line l"
  shows "pal_entries (fold read_into ls p) \<noteq> []"
proof -
  obtain xs ys where ls: "ls = xs @ l # ys" using assms(1) by (meson split_list)
  obtain e where "read_into l (fold read_into xs p) = push_entry e (fold read_into xs p)"
    using assms(2) unfolding color_line_def by blast
  then show ?thesis
    using fold_read_grows [of ys "read_into l (fold read_into xs p)"] by (auto simp: ls push_entry_def)
qed

lemmas color_eval = color_line_def read_into_def plain_eval

lemma reflectivity_color: "\<exists>l\<in>set reflectivity_pal. color_line l"
proof (rule bexI)
  show "color_line (lit ''SolidColor: 10   4 233 231'')"
    by (simp add: color_eval) blast
  show "lit ''SolidColor: 10   4 233 231'' \<in> set reflectivity_pal"
    unfolding reflectivity_pal_def by (simp only: list.set insert_iff simp_thms)
qed

lemma velocity_color: "\<exists>l\<in>set velocity_pal. color_line l"
proof (rule bexI)
  show "color_line (lit ''SolidColor: -64   0   0 200'')"
    by (simp add: color_eval) blast
  show "lit ''SolidColor: -64   0   0 200'' \<in> set velocity_pal"
    unfolding velocity_pal_def by (simp only: list.set insert_iff simp_thms)
qed

lemma spectrum_width_color: "\<exists>l\<in>set spectrum_width_pal. color_line l"
proof (rule bexI)
  show "color_line (lit ''SolidColor:  0  20  20  20'')"
    by (simp add: color_eval) blast
  show "lit ''SolidColor:  0  20  20  20'' \<in> set spectrum_width_pal"
    unfolding spectrum_width_pal_def by (simp only: list.set insert_iff simp_thms)
qed

lemma zdr_color: "\<exists>l\<in>set zdr_pal. color_line l"
proof (rule bexI)
  show "color_line (lit ''SolidColor: -8   0   0 180'')"
    by (simp add: color_eval) blast
  show "lit ''SolidColor: -8   0   0 180'' \<in> set zdr_pal"
    unfolding zdr_pal_def by (simp only: list.set insert_iff simp_thms)
qed

lemma cc_color: "\<exists>l\<in>set cc_pal. color_line l"
proof (rule bexI)
  show "color_line (lit ''SolidColor: 0.20 200   0   0'')"
    by (simp add: color_eval) blast
  show "lit ''SolidColor: 0.20 200   0   0'' \<in> set cc_pal"
    unfolding cc_pal_def by (simp only: list.set insert_iff simp_thms)
qed

lemma echo_tops_color: "\<exists>l\<in>set echo_tops_pal. color_line l"
proof (rule bexI)
  show "color_line (lit ''SolidColor:  0   0  40 160'')"
    by (simp add: color_eval) blast
  show "lit ''SolidColor:  0   0  40 160'' \<in> set echo_tops_pal"
    unfolding echo_tops_pal_def by (simp only: list.set insert_iff simp_thms)
qed

lemma vil_color: "\<exists>l\<in>set vil_pal. color_line l"
proof (rule bexI)
  show "color_line (lit ''SolidColor:  0   4 233 231'')"
    by (simp add: color_eval) blast
  show "lit ''SolidColor:  0   4 233 231'' \<in> set vil_pal"
    unfolding vil_pal_def by (simp only: list.set insert_iff simp_thms)
qed

lemma bundled_color: "\<exists>l\<in>set (bundled_pal_lines product). color_line l"
  by (cases product) (simp_all only: bundled_pal_lines.simps reflectivity_color velocity_color
      spectrum_width_color zdr_color cc_color echo_tops_color vil_color)

lemma parse_bundled:
  obtains p where "\<And>unsorted. parse_palette unsorted (bundled_pal_text product) product = Some (p, [])"
    "has_entries p" "ascending (pal_entries p)" "nan_free (pal_entries p)"
proof -
  let ?ls = "bundled_pal_lines product"
  let ?q = "fold read_into ?ls (palette_empty product)"
  have plain: "\<forall>l\<in>set ?ls. plain_line l" using bundled_plain [of product] by (simp add: list_all_iff)
  have nan: "nan_free (pal_entries ?q)"
    by (rule fold_read_plain [OF bundled_plain]) (simp add: palette_empty_def)
  have some: "pal_entries ?q \<noteq> []" using bundled_color [of product] fold_read_color by blast
  obtain ss where ss: "\<And>unsorted. sort_entries unsorted (pal_entries ?q) = Some ss" "ascending ss" "nan_free ss"
      "length ss = length (pal_entries ?q)"
    using sort_entries_spec [OF nan] nan unfolding sort_entries_def by metis
  have "parse_palette unsorted (bundled_pal_text product) product = Some (?q\<lparr>pal_entries := ss\<rparr>, [])" for unsorted
    unfolding bundled_pal_text_def using plain
    by (subst parse_joined) (auto simp: plain_line_def Let_def ss(1))
  moreover have "ss \<noteq> []" using some ss(4) by auto
  ultimately show ?thesis
    using that [of "?q\<lparr>pal_entries := ss\<rparr>"] ss by (simp add: has_entries_def)
qed

section \<open>Every product has its colours\<close>

text \<open>The user's table of a product: what its file holds, when there is one that reads.\<close>

definition user_table ::
  "unordered_sort \<Rightarrow> environment \<Rightarrow> (utext \<Rightarrow> file_read) \<Rightarrow> display_product \<Rightarrow> palette option" where
  "user_table unsorted env read_file product =
     Option.bind (user_palette_path env product) (\<lambda>path.
       case read_file path of
         File_Text t \<Rightarrow> map_option fst (parse_palette unsorted t product)
       | _ \<Rightarrow> None)"

definition chosen_table ::
  "unordered_sort \<Rightarrow> environment \<Rightarrow> (utext \<Rightarrow> file_read) \<Rightarrow> display_product \<Rightarrow> palette option" where
  "chosen_table unsorted env read_file product =
     (case user_table unsorted env read_file product of
        Some p \<Rightarrow> if has_entries p then Some p else bundled_default unsorted product
      | None \<Rightarrow> bundled_default unsorted product)"

definition user_files_sort ::
  "unordered_sort \<Rightarrow> environment \<Rightarrow> (utext \<Rightarrow> file_read) \<Rightarrow> bool" where
  "user_files_sort unsorted env read_file \<longleftrightarrow>
     (\<forall>product path t. user_palette_path env product = Some path \<and> read_file path = File_Text t \<longrightarrow>
        parse_palette unsorted t product \<noteq> None)"

lemma resolve_chosen:
  assumes "user_files_sort unsorted env read_file"
  obtains p new where "\<And>events. resolve_palette unsorted env read_file product events = Some (p, events @ new)"
    "has_entries p" "chosen_table unsorted env read_file product = Some p"
proof -
  obtain b where b: "parse_palette unsorted (bundled_pal_text product) product = Some (b, [])" "has_entries b"
    using parse_bundled [of product] by metis
  have d: "bundled_default unsorted product = Some b" by (simp add: bundled_default_def b)
  note defs = resolve_palette_def read_user_palette_def chosen_table_def user_table_def d b
  show ?thesis
  proof (cases "user_palette_path env product")
    case None
    then show ?thesis using that [of b "[]"] b(2) by (simp add: defs)
  next
    case (Some path)
    show ?thesis
    proof (cases "read_file path")
      case (File_Text t)
      obtain q new where q: "parse_palette unsorted t product = Some (q, new)"
        using assms Some File_Text unfolding user_files_sort_def by fastforce
      show ?thesis
        using that [of q new] that [of b "new @ [UserPaletteMalformed product path]"] b(2)
        by (cases "has_entries q") (simp_all add: defs Some File_Text q)
    next
      case File_Missing
      then show ?thesis using that [of b "[]"] b(2) by (simp add: defs Some)
    next
      case (File_Failed reason)
      then show ?thesis
        using that [of b "[UserPaletteUnreadable product path reason]"] b(2) by (simp add: defs Some)
    qed
  qed
qed

lemma load_products_all:
  assumes "user_files_sort unsorted env read_file"
  shows "\<exists>events'. load_products unsorted env read_file ps m events =
    Some (fold (\<lambda>(k, v). tm_insert k v) (map (\<lambda>p. (p, the (chosen_table unsorted env read_file p))) ps) m, events')"
proof (induction ps arbitrary: m events)
  case Nil
  then show ?case by simp
next
  case (Cons product ps)
  obtain p new where "resolve_palette unsorted env read_file product events = Some (p, events @ new)"
      "chosen_table unsorted env read_file product = Some p"
    using resolve_chosen [OF assms, of product] by metis
  then show ?case using Cons by simp
qed

text \<open>
  A user's file on which the sort panics: two entries at least, a threshold that is not a
  number among them, and a sort that gives up on such a list.
\<close>

definition sort_panics_on ::
  "unordered_sort \<Rightarrow> environment \<Rightarrow> (utext \<Rightarrow> file_read) \<Rightarrow> display_product \<Rightarrow> bool" where
  "sort_panics_on unsorted env read_file product =
     (\<exists>path t. user_palette_path env product = Some path \<and> read_file path = File_Text t \<and>
        (let es = pal_entries (fst (parse_palette_lines product 0 (text_lines t) (palette_empty product) []))
         in 2 \<le> length es \<and> list_ex (\<lambda>e. pe_threshold e = FNaN) es \<and> unsorted es = None))"

lemma parse_palette_None:
  "parse_palette unsorted t product = None \<longleftrightarrow>
     (let es = pal_entries (fst (parse_palette_lines product 0 (text_lines t) (palette_empty product) []))
      in 2 \<le> length es \<and> list_ex (\<lambda>e. pe_threshold e = FNaN) es \<and> unsorted es = None)"
  by (auto simp: parse_palette_def sort_entries_def nan_free_def list_all_iff list_ex_iff split_beta Let_def)

lemma user_files_sort_iff:
  "user_files_sort unsorted env read_file \<longleftrightarrow> \<not> (\<exists>product. sort_panics_on unsorted env read_file product)"
  unfolding user_files_sort_def sort_panics_on_def parse_palette_None [symmetric] by auto

lemma resolve_panics:
  assumes "sort_panics_on unsorted env read_file product"
  shows "resolve_palette unsorted env read_file product events = None"
proof -
  obtain path t where "user_palette_path env product = Some path" "read_file path = File_Text t"
      "parse_palette unsorted t product = None"
    using assms unfolding sort_panics_on_def parse_palette_None [symmetric] by blast
  moreover obtain b where "parse_palette unsorted (bundled_pal_text product) product = Some (b, [])"
    using parse_bundled [of product] by metis
  ultimately show ?thesis by (simp add: resolve_palette_def read_user_palette_def)
qed

lemma load_products_panics:
  "product \<in> set ps \<Longrightarrow> sort_panics_on unsorted env read_file product \<Longrightarrow>
   load_products unsorted env read_file ps m events = None"
proof (induction ps arbitrary: m events)
  case (Cons q ps)
  show ?case
  proof (cases "resolve_palette unsorted env read_file q events")
    case (Some r)
    then have "q \<noteq> product" using resolve_panics [OF Cons.prems(2), of events] by auto
    then show ?thesis using Cons Some by (cases r) simp
  qed simp
qed simp

text \<open>
  C25: no product is ever without colours. Whatever files the user has, loading gives every
  product a table with entries: the user's when its file reads to one with entries, the bundled
  one otherwise. It fails in one case only, and then exactly: a user's file has two entries, a
  threshold among them is not a number, and the sort of the standard library panics on them.
  The seven bundled tables read without a complaint, in ascending order.
\<close>

theorem load_all_total:
  "(load_all unsorted env read_file = None \<longleftrightarrow> (\<exists>product. sort_panics_on unsorted env read_file product)) \<and>
   (\<forall>product. case load_all unsorted env read_file of None \<Rightarrow> True
      | Some (m, events) \<Rightarrow> \<exists>p. tm_get m product = Some p \<and> has_entries p \<and>
          chosen_table unsorted env read_file product = Some p) \<and>
   (\<forall>product. \<exists>p. parse_palette unsorted (bundled_pal_text product) product = Some (p, []) \<and>
      has_entries p \<and> ascending (pal_entries p))"
proof -
  have bundled: "\<exists>p. parse_palette unsorted (bundled_pal_text product) product = Some (p, []) \<and>
       has_entries p \<and> ascending (pal_entries p)" for product
    using parse_bundled [of product] by metis
  show ?thesis
  proof (cases "user_files_sort unsorted env read_file")
    case True
    let ?kvs = "map (\<lambda>p. (p, the (chosen_table unsorted env read_file p))) ALL_PRODUCTS"
    obtain events where load: "load_all unsorted env read_file = Some (fold (\<lambda>(k, v). tm_insert k v) ?kvs [], events)"
      using load_products_all [OF True] unfolding load_all_def by blast
    have "\<exists>p. tm_get (fold (\<lambda>(k, v). tm_insert k v) ?kvs []) product = Some p \<and> has_entries p \<and>
         chosen_table unsorted env read_file product = Some p" for product
    proof -
      obtain p where p: "has_entries p" "chosen_table unsorted env read_file product = Some p"
        using resolve_chosen [OF True, of product] by metis
      have "map_of (rev ?kvs) product = Some (the (chosen_table unsorted env read_file product))"
        by (cases product) (simp_all add: ALL_PRODUCTS_def)
      then show ?thesis using p by (simp add: tm_get_fold)
    qed
    moreover have "\<not> (\<exists>product. sort_panics_on unsorted env read_file product)"
      using True by (simp add: user_files_sort_iff)
    ultimately show ?thesis using load bundled by simp
  next
    case False
    then obtain product where panics: "sort_panics_on unsorted env read_file product"
      by (auto simp: user_files_sort_iff)
    have "product \<in> set ALL_PRODUCTS" by (cases product) (simp_all add: ALL_PRODUCTS_def)
    then have "load_all unsorted env read_file = None"
      unfolding load_all_def using panics by (rule load_products_panics)
    then show ?thesis using panics bundled by auto
  qed
qed

theorem load_all_total_witness:
  "\<exists>m events. load_all Some (\<lambda>_. Some (lit ''/h'')) (\<lambda>_. File_Text (lit ''Step: x'')) = Some (m, events) \<and>
     (\<exists>p. tm_get m Vil = Some p \<and> has_entries p)"
proof -
  let ?env = "\<lambda>_. Some (lit ''/h'')"
  let ?read = "\<lambda>_. File_Text (lit ''Step: x'')"
  have "\<not> sort_panics_on Some ?env ?read product" for product
    by (simp add: sort_panics_on_def Let_def)
  then obtain m events where load: "load_all Some ?env ?read = Some (m, events)"
    using load_all_total [of Some ?env ?read] by auto
  with load_all_total [of Some ?env ?read, THEN conjunct2, THEN conjunct1, rule_format, of Vil]
  show ?thesis by auto
qed

end
