(* ===== verification/View.thy ===== *)
theory View
  imports Floats Display_Product Text "HOL-Library.Sublist"
begin

text \<open>
  The view of the map: \<open>render/view.rs\<close> (the camera and every transform between screen and
  world), \<open>render/input.rs\<close> (the key map) and \<open>render/labels.rs\<close> (the placement of the
  labels).
\<close>

section \<open>The view state\<close>

definition MIN_M_PER_PX :: fp where "MIN_M_PER_PX = f64lit 60"
definition MAX_M_PER_PX :: fp where "MAX_M_PER_PX = f64lit 3000"
definition DEFAULT_RANGE_M :: fp where "DEFAULT_RANGE_M = f64lit 230000"

type_synonym viewport = "fp \<times> fp"

record view_state =
  vw_center_m :: "fp \<times> fp"
  vw_m_per_px :: fp
  vw_product :: display_product
  vw_elevation_number :: u8
  vw_show_reference :: bool
  vw_show_highways :: bool

record camera =
  cm_center_m :: "fp \<times> fp"
  cm_m_per_px :: fp
  cm_viewport :: viewport

definition camera_from_view :: "view_state \<Rightarrow> viewport \<Rightarrow> camera" where
  "camera_from_view v vp = \<lparr>cm_center_m = vw_center_m v, cm_m_per_px = vw_m_per_px v, cm_viewport = vp\<rparr>"

text \<open>\<open>f32::max\<close>.\<close>

definition fmax2 :: "fp \<Rightarrow> fp \<Rightarrow> fp" where
  "fmax2 a b = (if a = FNaN then b else if b = FNaN then a else if flt a b then b else a)"

definition fit_range :: "fp \<Rightarrow> viewport \<Rightarrow> fp" where
  "fit_range range_m vp =
     (let short = f32_to_f64 (fmax2 (fmin2 (fst vp) (snd vp)) (f32lit 1))
      in fclamp (fdiv F64 range_m (fdiv F64 short (f64lit 2))) MIN_M_PER_PX MAX_M_PER_PX)"

definition view_initial :: "viewport \<Rightarrow> display_product \<Rightarrow> view_state" where
  "view_initial vp product =
     \<lparr>vw_center_m = (f64lit 0, f64lit 0), vw_m_per_px = fit_range DEFAULT_RANGE_M vp, vw_product = product,
      vw_elevation_number = 0, vw_show_reference = True, vw_show_highways = True\<rparr>"

definition reset_navigation :: "viewport \<Rightarrow> view_state \<Rightarrow> view_state" where
  "reset_navigation vp v =
     v\<lparr>vw_center_m := (f64lit 0, f64lit 0), vw_m_per_px := fit_range DEFAULT_RANGE_M vp\<rparr>"

text \<open>The distance of a pixel from the middle of an axis, in pixels.\<close>

definition from_middle :: "fp \<Rightarrow> fp \<Rightarrow> fp" where
  "from_middle px extent = fsub F64 (f32_to_f64 px) (fdiv F64 (f32_to_f64 extent) (f64lit 2))"

definition screen_to_world :: "fp \<Rightarrow> fp \<Rightarrow> view_state \<Rightarrow> viewport \<Rightarrow> fp \<times> fp" where
  "screen_to_world px py v vp =
     (fadd F64 (fst (vw_center_m v)) (fmul F64 (from_middle px (fst vp)) (vw_m_per_px v)),
      fsub F64 (snd (vw_center_m v)) (fmul F64 (from_middle py (snd vp)) (vw_m_per_px v)))"

definition world_to_screen :: "fp \<times> fp \<Rightarrow> view_state \<Rightarrow> viewport \<Rightarrow> fp \<times> fp" where
  "world_to_screen world v vp =
     (let sx = fadd F64 (fdiv F64 (f32_to_f64 (fst vp)) (f64lit 2))
                 (fdiv F64 (fsub F64 (fst world) (fst (vw_center_m v))) (vw_m_per_px v));
          sy = fsub F64 (fdiv F64 (f32_to_f64 (snd vp)) (f64lit 2))
                 (fdiv F64 (fsub F64 (snd world) (snd (vw_center_m v))) (vw_m_per_px v))
      in (f64_to_f32 sx, f64_to_f32 sy))"

definition pan_by_pixels :: "fp \<Rightarrow> fp \<Rightarrow> view_state \<Rightarrow> view_state" where
  "pan_by_pixels dx dy v =
     v\<lparr>vw_center_m :=
        (fadd F64 (fst (vw_center_m v)) (fmul F64 (f32_to_f64 dx) (vw_m_per_px v)),
         fsub F64 (snd (vw_center_m v)) (fmul F64 (f32_to_f64 dy) (vw_m_per_px v)))\<rparr>"

definition zoom_about :: "fp \<Rightarrow> fp \<Rightarrow> fp \<Rightarrow> viewport \<Rightarrow> view_state \<Rightarrow> view_state" where
  "zoom_about cursor_px cursor_py factor vp v =
     (let anchor = screen_to_world cursor_px cursor_py v vp;
          m = fclamp (fmul F64 (vw_m_per_px v) factor) MIN_M_PER_PX MAX_M_PER_PX
      in v\<lparr>vw_m_per_px := m,
           vw_center_m := (fsub F64 (fst anchor) (fmul F64 (from_middle cursor_px (fst vp)) m),
                           fadd F64 (snd anchor) (fmul F64 (from_middle cursor_py (snd vp)) m))\<rparr>)"

definition on_resize :: "viewport \<Rightarrow> viewport \<Rightarrow> view_state \<Rightarrow> view_state" where
  "on_resize old new v = v"

section \<open>The key map\<close>

definition PAN_STEP_FRACTION :: fp where "PAN_STEP_FRACTION = f32lit (125 / 1000)"
definition ZOOM_IN_FACTOR :: fp where "ZOOM_IN_FACTOR = f64lit (8 / 10)"
definition ZOOM_OUT_FACTOR :: fp where "ZOOM_OUT_FACTOR = f64lit (125 / 100)"

datatype action =
  SelectProduct display_product | ElevationUp | ElevationDown | Pan fp fp | ZoomIn | ZoomOut | ResetView
| ToggleReference | ToggleHighways | ToggleHelp | Quit

text \<open>The key codes of \<open>winit\<close> that are bound; any other is \<open>Other_Key\<close>.\<close>

datatype key_code =
  Digit1 | Digit2 | Digit3 | Digit4 | Digit5 | Digit6 | Digit7 | PageUp | PageDown
| ArrowLeft | ArrowRight | ArrowUp | ArrowDown | Equal_Key | NumpadAdd | Minus_Key | NumpadSubtract
| Home | KeyR | KeyH | KeyQ | F1 | Other_Key utext

definition product_by_index :: "nat \<Rightarrow> action option" where
  "product_by_index i = (if i < length ALL_PRODUCTS then Some (SelectProduct (ALL_PRODUCTS ! i)) else None)"

fun unmodified_action :: "key_code \<Rightarrow> action option" where
  "unmodified_action Digit1 = product_by_index 0"
| "unmodified_action Digit2 = product_by_index 1"
| "unmodified_action Digit3 = product_by_index 2"
| "unmodified_action Digit4 = product_by_index 3"
| "unmodified_action Digit5 = product_by_index 4"
| "unmodified_action Digit6 = product_by_index 5"
| "unmodified_action Digit7 = product_by_index 6"
| "unmodified_action PageUp = Some ElevationUp"
| "unmodified_action PageDown = Some ElevationDown"
| "unmodified_action ArrowLeft = Some (Pan (fneg PAN_STEP_FRACTION) (f32lit 0))"
| "unmodified_action ArrowRight = Some (Pan PAN_STEP_FRACTION (f32lit 0))"
| "unmodified_action ArrowUp = Some (Pan (f32lit 0) (fneg PAN_STEP_FRACTION))"
| "unmodified_action ArrowDown = Some (Pan (f32lit 0) PAN_STEP_FRACTION)"
| "unmodified_action Equal_Key = Some ZoomIn"
| "unmodified_action NumpadAdd = Some ZoomIn"
| "unmodified_action Minus_Key = Some ZoomOut"
| "unmodified_action NumpadSubtract = Some ZoomOut"
| "unmodified_action Home = Some ResetView"
| "unmodified_action KeyR = Some ToggleReference"
| "unmodified_action KeyH = Some ToggleHighways"
| "unmodified_action F1 = Some ToggleHelp"
| "unmodified_action _ = None"

definition action_for_key :: "key_code \<Rightarrow> bool \<Rightarrow> action option" where
  "action_for_key code ctrl =
     (if ctrl then (if code = KeyQ then Some Quit else None) else unmodified_action code)"

definition action_for_char :: "utext \<Rightarrow> action option" where
  "action_for_char s =
     (if s = lit ''?'' then Some ToggleHelp else if s = lit ''+'' then Some ZoomIn else None)"

section \<open>Labels\<close>

definition CHAR_W :: fp where "CHAR_W = f32lit (66 / 10)"
definition LINE_H :: fp where "LINE_H = f32lit 14"
definition PAD :: fp where "PAD = f32lit 3"

record label_candidate =
  lc_world :: "fp \<times> fp"
  lc_rank :: u16
  lc_text :: utext

record placed_label =
  pd_screen :: "fp \<times> fp"
  pd_text :: utext

record screen_box =
  sb_min :: "fp \<times> fp"
  sb_max :: "fp \<times> fp"

definition candidate_box :: "fp \<times> fp \<Rightarrow> utext \<Rightarrow> screen_box" where
  "candidate_box screen t =
     (let w = fadd F32 (fmul F32 CHAR_W (fp_of_nat F32 (length t))) (fmul F32 (f32lit 2) PAD);
          h = fadd F32 LINE_H (fmul F32 (f32lit 2) PAD);
          min_x = fadd F32 (fst screen) (f32lit 5);
          max_y = fsub F32 (snd screen) (f32lit 3)
      in \<lparr>sb_min = (min_x, fsub F32 max_y h), sb_max = (fadd F32 min_x w, max_y)\<rparr>)"

definition overlaps :: "screen_box \<Rightarrow> screen_box \<Rightarrow> bool" where
  "overlaps a b =
     (flt (fst (sb_min a)) (fst (sb_max b)) \<and> flt (fst (sb_min b)) (fst (sb_max a)) \<and>
      flt (snd (sb_min a)) (snd (sb_max b)) \<and> flt (snd (sb_min b)) (snd (sb_max a)))"

text \<open>The available rectangle as \<open>(min_x, min_y, max_x, max_y)\<close>.\<close>

definition within_rect :: "screen_box \<Rightarrow> fp \<times> fp \<times> fp \<times> fp \<Rightarrow> bool" where
  "within_rect b avail =
     (case avail of (x0, y0, x1, y1) \<Rightarrow>
        fle x0 (fst (sb_min b)) \<and> fle y0 (snd (sb_min b)) \<and> fle (fst (sb_max b)) x1 \<and> fle (snd (sb_max b)) y1)"

fun place_labels ::
  "view_state \<Rightarrow> viewport \<Rightarrow> fp \<times> fp \<times> fp \<times> fp \<Rightarrow> label_candidate list \<Rightarrow> screen_box list \<Rightarrow> placed_label list \<Rightarrow>
   placed_label list" where
  "place_labels v vp avail [] boxes out = out"
| "place_labels v vp avail (c # cs) boxes out =
     (let screen = world_to_screen (f32_to_f64 (fst (lc_world c)), f32_to_f64 (snd (lc_world c))) v vp;
          candidate = candidate_box screen (lc_text c)
      in if \<not> within_rect candidate avail then place_labels v vp avail cs boxes out
         else if list_ex (\<lambda>p. overlaps p candidate) boxes then place_labels v vp avail cs boxes out
         else place_labels v vp avail cs (boxes @ [candidate]) (out @ [\<lparr>pd_screen = screen, pd_text = lc_text c\<rparr>]))"

text \<open>The candidates come ranked; the \<open>debug_assert\<close> on their order is no part of the release build.\<close>

definition select_labels ::
  "label_candidate list \<Rightarrow> view_state \<Rightarrow> viewport \<Rightarrow> fp \<times> fp \<times> fp \<times> fp \<Rightarrow> placed_label list" where
  "select_labels cs v vp avail = place_labels v vp avail cs [] []"

section \<open>The zoom stays in its range\<close>

definition zoom_ok :: "view_state \<Rightarrow> bool" where
  "zoom_ok v \<longleftrightarrow> fp_is_finite (vw_m_per_px v) \<and> 60 \<le> fp_val (vw_m_per_px v) \<and> fp_val (vw_m_per_px v) \<le> 3000"

lemma zoom_limits: "MIN_M_PER_PX = FFin False 60" "MAX_M_PER_PX = FFin False 3000"
  by (simp_all add: MIN_M_PER_PX_def MAX_M_PER_PX_def float_eval)

lemma clamp_zoom:
  assumes "x \<noteq> FNaN"
  shows "fp_is_finite (fclamp x MIN_M_PER_PX MAX_M_PER_PX) \<and> 60 \<le> fp_val (fclamp x MIN_M_PER_PX MAX_M_PER_PX) \<and>
    fp_val (fclamp x MIN_M_PER_PX MAX_M_PER_PX) \<le> 3000"
  using assms by (cases x) (auto simp: zoom_limits fclamp_def Let_def)

lemma fit_range_ok:
  "fp_is_finite (fit_range DEFAULT_RANGE_M vp) \<and> 60 \<le> fp_val (fit_range DEFAULT_RANGE_M vp) \<and>
   fp_val (fit_range DEFAULT_RANGE_M vp) \<le> 3000"
proof -
  have range: "DEFAULT_RANGE_M = FFin False 230000" "f64lit 2 = FFin False 2"
    by (simp_all add: DEFAULT_RANGE_M_def float_eval)
  have one: "f32lit 1 = FFin False 1" by (simp add: float_eval)
  have "fmax2 a (f32lit 1) \<noteq> FNaN" for a by (auto simp: fmax2_def one)
  moreover have "fdiv F64 b (FFin False 2) \<noteq> FNaN" if "b \<noteq> FNaN" for b
    using that by (cases b) (auto simp: round_fp_number)
  moreover have "fdiv F64 (FFin False 230000) c \<noteq> FNaN" if "c \<noteq> FNaN" for c
    using that by (cases c) (auto simp: round_fp_number)
  ultimately show ?thesis
    unfolding fit_range_def Let_def range f32_to_f64_def by (intro clamp_zoom) simp
qed

lemma zoom_ok_keeps:
  "zoom_ok (view_initial vp p)" "zoom_ok (reset_navigation vp v)"
  "zoom_ok (pan_by_pixels dx dy v) \<longleftrightarrow> zoom_ok v" "zoom_ok (on_resize old new v) \<longleftrightarrow> zoom_ok v"
  "zoom_ok (v\<lparr>vw_product := q\<rparr>) \<longleftrightarrow> zoom_ok v" "zoom_ok (v\<lparr>vw_elevation_number := n\<rparr>) \<longleftrightarrow> zoom_ok v"
  "zoom_ok (v\<lparr>vw_show_reference := b\<rparr>) \<longleftrightarrow> zoom_ok v" "zoom_ok (v\<lparr>vw_show_highways := b\<rparr>) \<longleftrightarrow> zoom_ok v"
  using fit_range_ok
  by (simp_all add: zoom_ok_def view_initial_def reset_navigation_def pan_by_pixels_def on_resize_def)

lemma zoom_about_ok:
  assumes "zoom_ok v" "fp_is_finite factor"
  shows "zoom_ok (zoom_about cx cy factor vp v)"
proof -
  have "fmul F64 (vw_m_per_px v) factor \<noteq> FNaN"
    using assms by (cases "vw_m_per_px v"; cases factor) (auto simp: zoom_ok_def round_fp_number)
  then show ?thesis
    using clamp_zoom by (simp add: zoom_ok_def zoom_about_def Let_def)
qed

section \<open>Labels do not collide\<close>

definition label_box :: "view_state \<Rightarrow> viewport \<Rightarrow> label_candidate \<Rightarrow> screen_box" where
  "label_box v vp c =
     candidate_box (world_to_screen (f32_to_f64 (fst (lc_world c)), f32_to_f64 (snd (lc_world c))) v vp) (lc_text c)"

definition placed_of :: "view_state \<Rightarrow> viewport \<Rightarrow> label_candidate \<Rightarrow> placed_label" where
  "placed_of v vp c =
     \<lparr>pd_screen = world_to_screen (f32_to_f64 (fst (lc_world c)), f32_to_f64 (snd (lc_world c))) v vp, pd_text = lc_text c\<rparr>"

text \<open>The candidates that are kept: the reference for the greedy pass.\<close>

fun kept_labels ::
  "view_state \<Rightarrow> viewport \<Rightarrow> fp \<times> fp \<times> fp \<times> fp \<Rightarrow> label_candidate list \<Rightarrow> label_candidate list \<Rightarrow> label_candidate list" where
  "kept_labels v vp avail [] kept = kept"
| "kept_labels v vp avail (c # cs) kept =
     kept_labels v vp avail cs
       (if within_rect (label_box v vp c) avail \<and> \<not> list_ex (\<lambda>k. overlaps (label_box v vp k) (label_box v vp c)) kept
        then kept @ [c] else kept)"

lemma place_labels_kept:
  "place_labels v vp avail cs (map (label_box v vp) kept) (map (placed_of v vp) kept) =
     map (placed_of v vp) (kept_labels v vp avail cs kept)"
proof (induction cs arbitrary: kept)
  case (Cons c cs)
  show ?case
    using Cons.IH [of kept] Cons.IH [of "kept @ [c]"]
    by (simp add: Let_def placed_of_def [of _ _ c, symmetric] label_box_def [of _ _ c, symmetric] list_ex_iff)
qed simp

lemma kept_labels_extends: "\<exists>more. kept_labels v vp avail cs kept = kept @ more \<and> subseq more cs"
proof (induction cs arbitrary: kept)
  case (Cons c cs)
  show ?case
  proof (cases "within_rect (label_box v vp c) avail \<and> \<not> list_ex (\<lambda>k. overlaps (label_box v vp k) (label_box v vp c)) kept")
    case True
    then show ?thesis using Cons [of "kept @ [c]"] by auto
  next
    case False
    then show ?thesis using Cons [of kept] by auto
  qed
qed simp

lemma kept_labels_apart:
  "sorted_wrt (\<lambda>a b. \<not> overlaps (label_box v vp a) (label_box v vp b)) kept \<Longrightarrow>
   \<forall>k\<in>set kept. within_rect (label_box v vp k) avail \<Longrightarrow>
   sorted_wrt (\<lambda>a b. \<not> overlaps (label_box v vp a) (label_box v vp b)) (kept_labels v vp avail cs kept) \<and>
   (\<forall>k\<in>set (kept_labels v vp avail cs kept). within_rect (label_box v vp k) avail)"
proof (induction cs arbitrary: kept)
  case (Cons c cs)
  show ?case
    unfolding kept_labels.simps
    by (rule Cons.IH) (use Cons.prems in \<open>auto simp: sorted_wrt_append list_ex_iff\<close>)
qed simp

lemma kept_labels_complete:
  "c \<in> set cs \<Longrightarrow> within_rect (label_box v vp c) avail \<Longrightarrow>
   c \<in> set (kept_labels v vp avail cs kept) \<or>
   (\<exists>k\<in>set (kept_labels v vp avail cs kept). overlaps (label_box v vp k) (label_box v vp c))"
proof (induction cs arbitrary: kept)
  case (Cons d cs)
  let ?kept = "if within_rect (label_box v vp d) avail \<and> \<not> list_ex (\<lambda>k. overlaps (label_box v vp k) (label_box v vp d)) kept
      then kept @ [d] else kept"
  obtain more where more: "kept_labels v vp avail cs ?kept = ?kept @ more"
    using kept_labels_extends by blast
  show ?case
  proof (cases "c = d")
    case True
    then show ?thesis using Cons.prems(2) more by (auto simp: list_ex_iff split: if_splits)
  next
    case False
    then show ?thesis using Cons.IH [of ?kept] Cons.prems by simp
  qed
qed simp

text \<open>
  C29: no two labels are drawn over each other. The labels placed are candidates in their
  order of priority, each wholly inside the free rectangle, no two of them overlapping; and
  a candidate inside the rectangle is left out only when it overlaps one that was placed.
\<close>

theorem labels_never_collide:
  "\<exists>kept. select_labels cs v vp avail = map (placed_of v vp) kept \<and> subseq kept cs \<and>
    sorted_wrt (\<lambda>a b. \<not> overlaps (label_box v vp a) (label_box v vp b)) kept \<and>
    list_all (\<lambda>k. within_rect (label_box v vp k) avail) kept \<and>
    set (filter (\<lambda>c. within_rect (label_box v vp c) avail \<and>
      \<not> list_ex (\<lambda>k. overlaps (label_box v vp k) (label_box v vp c)) kept) cs) \<subseteq> set kept"
  using place_labels_kept [of v vp avail cs "[]"] kept_labels_extends [of v vp avail cs "[]"]
    kept_labels_apart [of v vp "[]" avail cs] kept_labels_complete [of _ cs v vp avail "[]"]
  by (intro exI [of _ "kept_labels v vp avail cs []"])
    (auto simp: select_labels_def list_all_iff list_ex_iff)
end
