(* ===== verification/Interaction.thy ===== *)
theory Interaction
  imports View Radar_State "HOL-Library.Product_Lexorder"
begin

text \<open>
  The event handling of the render loop, \<open>render/mod.rs\<close>, and what the cursor reads,
  \<open>render/ui.rs\<close>: the actions of keys, wheel and pointer on the view, the choice of the
  sweep that is shown, and the value under the cursor. Drawing is not modelled.
\<close>

section \<open>Choosing the sweep\<close>

text \<open>
  \<open>f32::total_cmp\<close> as a sort key. The sign of a NaN, which the model of floats does not
  carry, is the function \<open>neg\<close> of the elevation number.
\<close>

definition angle_key :: "(u8 \<Rightarrow> bool) \<Rightarrow> display_sweep \<Rightarrow> int \<times> rat \<times> int" where
  "angle_key neg s =
     (case ds_elevation_deg s of
        FNaN \<Rightarrow> (if neg (ds_elevation_number s) then -2 else 2, 0, 0)
      | FInf below \<Rightarrow> (if below then -1 else 1, 0, 0)
      | FFin below m \<Rightarrow> (0, if below then - m else m, if below then 0 else 1))"

definition by_angle :: "(u8 \<Rightarrow> bool) \<Rightarrow> display_sweep list \<Rightarrow> u8 list" where
  "by_angle neg sweeps = map ds_elevation_number (sort_key (angle_key neg) sweeps)"

definition step_elevation :: "(u8 \<Rightarrow> bool) \<Rightarrow> display_sweep list \<Rightarrow> int \<Rightarrow> view_state \<Rightarrow> view_state" where
  "step_elevation neg sweeps dir v =
     (let elevations = by_angle neg sweeps in
      if elevations = [] then v
      else
        let next_idx = (case position (\<lambda>n. n = vw_elevation_number v) elevations of
                          Some i \<Rightarrow> int i + dir | None \<Rightarrow> 0)
        in if 0 \<le> next_idx \<and> nat next_idx < length elevations
           then v\<lparr>vw_elevation_number := elevations ! nat next_idx\<rparr> else v)"

definition is_derived :: "display_product \<Rightarrow> bool" where
  "is_derived p = (p = EchoTops \<or> p = Vil)"

definition resolve_selection ::
  "(u8 \<Rightarrow> bool) \<Rightarrow> 'site state_snapshot \<Rightarrow> view_state \<Rightarrow> view_state \<times> sweep_grid option \<times> fp option" where
  "resolve_selection neg snap v =
     (let v = (if vw_elevation_number v = 0 \<and> ss_sweeps snap \<noteq> []
               then v\<lparr>vw_elevation_number := ds_elevation_number (arg_min_list (angle_key neg) (ss_sweeps snap))\<rparr>
               else v)
      in if is_derived (vw_product v) then
           let g = find (\<lambda>g. g_product g = vw_product v) (ss_derived snap) in (v, g, map_option g_elevation_deg g)
         else
           let sweep = find (\<lambda>s. ds_elevation_number s = vw_elevation_number v) (ss_sweeps snap);
               grid = Option.bind sweep (\<lambda>s. find (\<lambda>g. g_product g = vw_product v) (ds_grids s))
           in (v, grid, map_option ds_elevation_deg sweep))"

section \<open>Actions and window events\<close>

record ui_state =
  ui_view :: view_state
  ui_show_help :: bool
  ui_cursor_pos :: "(fp \<times> fp) option"
  ui_drag_anchor :: "(fp \<times> fp) option"
  ui_exiting :: bool

definition on_view :: "(view_state \<Rightarrow> view_state) \<Rightarrow> ui_state \<Rightarrow> ui_state" where
  "on_view f u = u\<lparr>ui_view := f (ui_view u)\<rparr>"

fun apply_action ::
  "(u8 \<Rightarrow> bool) \<Rightarrow> 'site state_snapshot \<Rightarrow> viewport \<Rightarrow> action \<Rightarrow> ui_state \<Rightarrow> ui_state" where
  "apply_action neg snap vp (SelectProduct p) u = on_view (\<lambda>v. v\<lparr>vw_product := p\<rparr>) u"
| "apply_action neg snap vp ElevationUp u = on_view (step_elevation neg (ss_sweeps snap) 1) u"
| "apply_action neg snap vp ElevationDown u = on_view (step_elevation neg (ss_sweeps snap) (-1)) u"
| "apply_action neg snap vp (Pan fx fy) u = on_view (pan_by_pixels (fmul F32 fx (fst vp)) (fmul F32 fy (snd vp))) u"
| "apply_action neg snap vp ZoomIn u =
     on_view (zoom_about (fdiv F32 (fst vp) (f32lit 2)) (fdiv F32 (snd vp) (f32lit 2)) ZOOM_IN_FACTOR vp) u"
| "apply_action neg snap vp ZoomOut u =
     on_view (zoom_about (fdiv F32 (fst vp) (f32lit 2)) (fdiv F32 (snd vp) (f32lit 2)) ZOOM_OUT_FACTOR vp) u"
| "apply_action neg snap vp ResetView u = on_view (reset_navigation vp) u"
| "apply_action neg snap vp ToggleReference u = on_view (\<lambda>v. v\<lparr>vw_show_reference := \<not> vw_show_reference v\<rparr>) u"
| "apply_action neg snap vp ToggleHighways u = on_view (\<lambda>v. v\<lparr>vw_show_highways := \<not> vw_show_highways v\<rparr>) u"
| "apply_action neg snap vp ToggleHelp u = u\<lparr>ui_show_help := \<not> ui_show_help u\<rparr>"
| "apply_action neg snap vp Quit u = u\<lparr>ui_exiting := True\<rparr>"

datatype scroll_delta = LineDelta fp | PixelDelta fp

text \<open>The window events that egui did not consume, each with what it carries.\<close>

datatype window_input =
  CloseRequested
| Resized viewport
| KeyPressed "key_code option" bool "utext option"
| CursorMoved fp fp
| CursorLeft
| LeftButton bool
| MouseWheel scroll_delta
| RedrawRequested
| Other_Event

definition key_action :: "key_code option \<Rightarrow> bool \<Rightarrow> utext option \<Rightarrow> action option" where
  "key_action code ctrl glyph =
     (case Option.bind code (\<lambda>c. action_for_key c ctrl) of
        Some a \<Rightarrow> Some a
      | None \<Rightarrow> Option.bind glyph action_for_char)"

definition f64_epsilon :: fp where
  "f64_epsilon = FFin False (1 / 2 ^ 52)"

definition wheel_factor :: "scroll_delta \<Rightarrow> fp option" where
  "wheel_factor delta =
     (let scroll = (case delta of LineDelta y \<Rightarrow> f32_to_f64 y | PixelDelta y \<Rightarrow> fdiv F64 y (f64lit 40))
      in if flt f64_epsilon (fabs scroll)
         then Some (if flt (f64lit 0) scroll then ZOOM_IN_FACTOR else ZOOM_OUT_FACTOR) else None)"

definition window_event ::
  "(u8 \<Rightarrow> bool) \<Rightarrow> 'site state_snapshot \<Rightarrow> viewport \<Rightarrow> window_input \<Rightarrow> ui_state \<Rightarrow> ui_state" where
  "window_event neg snap vp e u =
     (case e of
        CloseRequested \<Rightarrow> u\<lparr>ui_exiting := True\<rparr>
      | Resized new \<Rightarrow> on_view (on_resize vp new) u
      | KeyPressed code ctrl glyph \<Rightarrow>
          (case key_action code ctrl glyph of None \<Rightarrow> u | Some a \<Rightarrow> apply_action neg snap vp a u)
      | CursorMoved x y \<Rightarrow>
          (let u = (case (ui_drag_anchor u, ui_cursor_pos u) of
                      (Some (ax, ay), Some _) \<Rightarrow>
                        (let dx = f64_to_f32 (fsub F64 x ax); dy = f64_to_f32 (fsub F64 y ay)
                         in on_view (pan_by_pixels (fneg dx) (fneg dy)) u\<lparr>ui_drag_anchor := Some (x, y)\<rparr>)
                    | _ \<Rightarrow> u)
           in u\<lparr>ui_cursor_pos := Some (x, y)\<rparr>)
      | CursorLeft \<Rightarrow> u\<lparr>ui_cursor_pos := None, ui_drag_anchor := None\<rparr>
      | LeftButton pressed \<Rightarrow> u\<lparr>ui_drag_anchor := if pressed then ui_cursor_pos u else None\<rparr>
      | MouseWheel delta \<Rightarrow>
          (case wheel_factor delta of
             None \<Rightarrow> u
           | Some factor \<Rightarrow>
               (let (cx, cy) = (case ui_cursor_pos u of
                                  Some (x, y) \<Rightarrow> (f64_to_f32 x, f64_to_f32 y)
                                | None \<Rightarrow> (fdiv F32 (fst vp) (f32lit 2), fdiv F32 (snd vp) (f32lit 2)))
                in on_view (zoom_about cx cy factor vp) u))
      | RedrawRequested \<Rightarrow> on_view (\<lambda>v. fst (resolve_selection neg snap v)) u
      | Other_Event \<Rightarrow> u)"

section \<open>The value under the cursor\<close>

datatype cursor_sample = Cursor_NoData | Cursor_RangeFolded | Cursor_Value fp | OutsideCoverage

text \<open>\<open>f64::rem_euclid\<close>: the exact remainder, made nonnegative with one rounded addition.\<close>

fun frem :: "fp \<Rightarrow> fp \<Rightarrow> fp" where
  "frem (FFin s m) (FFin t n) = (if n = 0 then FNaN else FFin s (m - n * of_int \<lfloor>m / n\<rfloor>))"
| "frem (FFin s m) (FInf t) = FFin s m"
| "frem _ _ = FNaN"

definition frem_euclid :: "fp \<Rightarrow> fp \<Rightarrow> fp" where
  "frem_euclid x y = (let r = frem x y in if flt r (FFin False 0) then fadd F64 r (fabs y) else r)"

definition sample_at :: "libm \<Rightarrow> sweep_grid \<Rightarrow> fp \<Rightarrow> fp \<Rightarrow> fault + cursor_sample" where
  "sample_at lm g ground_m az_deg =
     (let axis_m = (if is_derived (g_product g) then ground_m
                    else fst (slant_range_and_height lm ground_m (f32_to_f64 (g_elevation_deg g))))
      in if g_gate_width_m g = 0 then Ok OutsideCoverage
         else
           let gate = ffloor (fdiv F64 (fsub F64 axis_m (fp_of_nat F64 (unat (g_first_gate_m g))))
                        (fp_of_nat F64 (unat (g_gate_width_m g))))
           in if \<not> fp_is_finite gate \<or> flt gate (f64lit 0) \<or> fle (fp_of_nat F64 (unat (g_gate_count g))) gate
              then Ok OutsideCoverage
              else
                rbind (azimuth_slot (f64_to_f32 (frem_euclid az_deg (f64lit 360))) (g_azimuth_count g)) (\<lambda>slot.
                rbind (grid_cell g slot (fp_to_u16 gate)) (\<lambda>raw.
                Ok (if raw = 0 then Cursor_NoData
                    else if raw = 1 then Cursor_RangeFolded
                    else Cursor_Value (fdiv F32 (fsub F32 (fp_of_nat F32 (unat raw)) (g_offset g)) (g_scale g))))))"

section \<open>The view moves only by input\<close>

definition ui_step ::
  "(u8 \<Rightarrow> bool) \<Rightarrow> ui_state \<Rightarrow> 'site state_snapshot \<times> viewport \<times> window_input \<Rightarrow> ui_state" where
  "ui_step neg u i = (case i of (snap, vp, e) \<Rightarrow> window_event neg snap vp e u)"

definition ui_new :: "viewport \<Rightarrow> display_product \<Rightarrow> bool \<Rightarrow> bool \<Rightarrow> ui_state" where
  "ui_new vp product highways reference =
     \<lparr>ui_view = (view_initial vp product)\<lparr>vw_show_highways := highways, vw_show_reference := reference\<rparr>,
      ui_show_help = False, ui_cursor_pos = None, ui_drag_anchor = None, ui_exiting = False\<rparr>"

definition ui_run ::
  "(u8 \<Rightarrow> bool) \<Rightarrow> ui_state \<Rightarrow> ('site state_snapshot \<times> viewport \<times> window_input) list \<Rightarrow> ui_state" where
  "ui_run neg = foldl (ui_step neg)"

lemma step_elevation_zoom [simp]: "zoom_ok (step_elevation neg sweeps dir v) \<longleftrightarrow> zoom_ok v"
  by (simp add: step_elevation_def Let_def zoom_ok_keeps)

lemma zoom_factors: "fp_is_finite ZOOM_IN_FACTOR" "fp_is_finite ZOOM_OUT_FACTOR"
  by (simp_all add: ZOOM_IN_FACTOR_def ZOOM_OUT_FACTOR_def float_eval)

lemma apply_action_zoom: "zoom_ok (ui_view u) \<Longrightarrow> zoom_ok (ui_view (apply_action neg snap vp a u))"
  by (cases a) (simp_all add: on_view_def zoom_ok_keeps zoom_about_ok zoom_factors)

lemma resolve_zoom: "zoom_ok v \<Longrightarrow> zoom_ok (fst (resolve_selection neg snap v))"
  by (simp add: resolve_selection_def Let_def zoom_ok_keeps)

lemma wheel_factor_finite: "wheel_factor d = Some f \<Longrightarrow> fp_is_finite f"
  by (auto simp: wheel_factor_def Let_def zoom_factors split: if_splits)

lemma window_event_zoom:
  assumes "zoom_ok (ui_view u)"
  shows "zoom_ok (ui_view (window_event neg snap vp e u))"
proof (cases e)
  case (MouseWheel delta)
  then show ?thesis
    using assms wheel_factor_finite [of delta]
    by (simp add: window_event_def on_view_def zoom_about_ok split: option.split prod.split)
qed (use assms in \<open>simp_all add: window_event_def on_view_def zoom_ok_keeps apply_action_zoom resolve_zoom Let_def
    split: option.split prod.split\<close>)

text \<open>
  C30: whatever keys, wheel turns, drags, resizes and data arrive, in any order and of any
  size, the zoom stays a finite number of metres per pixel between 60 and 3000.
\<close>

theorem zoom_always_in_range:
  "fp_is_finite (vw_m_per_px (ui_view (ui_run neg (ui_new vp product highways reference) inputs))) \<and>
   60 \<le> fp_val (vw_m_per_px (ui_view (ui_run neg (ui_new vp product highways reference) inputs))) \<and>
   fp_val (vw_m_per_px (ui_view (ui_run neg (ui_new vp product highways reference) inputs))) \<le> 3000"
proof -
  have "zoom_ok (ui_view (foldl (ui_step neg) u inputs))" if "zoom_ok (ui_view u)" for u
    using that by (induction inputs arbitrary: u) (auto simp: ui_step_def window_event_zoom)
  moreover have "zoom_ok (ui_view (ui_new vp product highways reference))"
    by (simp add: ui_new_def zoom_ok_keeps)
  ultimately show ?thesis unfolding ui_run_def zoom_ok_def by blast
qed

text \<open>The events that the user makes.\<close>

fun user_input :: "window_input \<Rightarrow> bool" where
  "user_input (KeyPressed _ _ _) = True"
| "user_input (CursorMoved _ _) = True"
| "user_input (MouseWheel _) = True"
| "user_input _ = False"

text \<open>
  Arriving data never moves the map. An event that is not the user's, a redraw with any
  snapshot or a resize of the window included, leaves the centre, the zoom, the product and
  the layers alone, and an elevation once chosen too; the first redraw with data chooses
  the lowest sweep there is.
\<close>

theorem data_never_moves_view:
  assumes "\<not> user_input e"
  shows "\<exists>n. ui_view (window_event neg snap vp e u) = (ui_view u)\<lparr>vw_elevation_number := n\<rparr> \<and>
    (n = vw_elevation_number (ui_view u) \<or>
     vw_elevation_number (ui_view u) = 0 \<and>
       (\<exists>s\<in>set (ss_sweeps snap). n = ds_elevation_number s \<and>
          list_all (\<lambda>s'. angle_key neg s \<le> angle_key neg s') (ss_sweeps snap)))"
proof (cases "e = RedrawRequested")
  case True
  show ?thesis
  proof (cases "vw_elevation_number (ui_view u) = 0 \<and> ss_sweeps snap \<noteq> []")
    case True
    let ?s = "arg_min_list (angle_key neg) (ss_sweeps snap)"
    have "?s \<in> set (ss_sweeps snap)" using True by (simp add: arg_min_list_in)
    moreover have "angle_key neg ?s \<le> angle_key neg s'" if "s' \<in> set (ss_sweeps snap)" for s'
    proof -
      have "angle_key neg ?s = Min (angle_key neg ` set (ss_sweeps snap))"
        using True f_arg_min_list_f [of "ss_sweeps snap" "angle_key neg"] by simp
      then show ?thesis using that by simp
    qed
    ultimately show ?thesis
      using True \<open>e = RedrawRequested\<close>
      by (intro exI [of _ "ds_elevation_number ?s"])
        (auto simp: window_event_def on_view_def resolve_selection_def Let_def list_all_iff)
  next
    case False
    then show ?thesis
      using \<open>e = RedrawRequested\<close>
      by (intro exI [of _ "vw_elevation_number (ui_view u)"])
        (auto simp: window_event_def on_view_def resolve_selection_def Let_def)
  qed
next
  case False
  then show ?thesis
    using assms
    by (intro exI [of _ "vw_elevation_number (ui_view u)"], cases e)
      (simp_all add: window_event_def on_view_def on_resize_def)
qed

theorem data_never_moves_view_witness:
  "\<exists>n. ui_view (window_event (\<lambda>_. False) (snapshot (app_new () ingest_status_default)) (f32lit 800, f32lit 600)
       RedrawRequested (ui_new (f32lit 800, f32lit 600) Vil True True)) =
     (ui_view (ui_new (f32lit 800, f32lit 600) Vil True True))\<lparr>vw_elevation_number := n\<rparr>"
  using data_never_moves_view [of RedrawRequested "\<lambda>_. False" "snapshot (app_new () ingest_status_default)"
      "(f32lit 800, f32lit 600)" "ui_new (f32lit 800, f32lit 600) Vil True True"] by auto

section \<open>Steps between the tilts\<close>

lemma by_angle_set: "set (by_angle neg sweeps) = ds_elevation_number ` set sweeps"
  by (simp add: by_angle_def)

text \<open>A step goes to the neighbour in the order of the angles, or stays at the end.\<close>

lemma step_elevation_neighbour:
  assumes "position (\<lambda>n. n = vw_elevation_number v) (by_angle neg sweeps) = Some i"
  shows "vw_elevation_number (step_elevation neg sweeps dir v) =
    (let j = int i + dir in
     if 0 \<le> j \<and> nat j < length (by_angle neg sweeps) then by_angle neg sweeps ! nat j
     else vw_elevation_number v)"
  using assms assms [unfolded position_Some] by (auto simp: step_elevation_def Let_def)

lemma step_elevation_present:
  "vw_elevation_number (step_elevation neg sweeps dir v) = vw_elevation_number v \<or>
   vw_elevation_number (step_elevation neg sweeps dir v) \<in> ds_elevation_number ` set sweeps"
  using by_angle_set [of neg sweeps] nth_mem [of _ "by_angle neg sweeps"]
  by (auto simp: step_elevation_def Let_def)

section \<open>The readout\<close>

lemma nat_representable: "n < 2 ^ 53 \<Longrightarrow> fp_of_nat F64 n = FFin False (of_nat n)"
proof -
  assume n: "n < 2 ^ 53"
  then have "of_nat n < (of_nat (2 ^ 53) :: rat)" by (simp only: of_nat_less_iff)
  also have "\<dots> = pow2 53" by (simp add: pow2_def)
  also have "\<dots> < pow2 1024" by simp
  finally have "representable F64 (of_nat n)"
    unfolding representable_def using n
    by (intro exI [of _ "int n"] exI [of _ 0]) (simp add: F64_def pow2_def)
  then show ?thesis unfolding fp_of_nat_def by (rule round_fp_exact)
qed

lemma f64_zero: "f64lit 0 = FFin False 0"
  by (simp add: f64lit_def round_rat_def)

lemma gate_in_range:
  assumes gate: "fp_is_finite (ffloor x)" "\<not> flt (ffloor x) (f64lit 0)" "\<not> fle (fp_of_nat F64 n) (ffloor x)"
    and n: "n < 65536"
  shows "unat (fp_to_u16 (ffloor x)) < n"
proof -
  obtain sn m where x: "x = FFin sn m" using gate(1) by (cases x) auto
  let ?k = "if sn then - \<lceil>m\<rceil> else \<lfloor>m\<rfloor>"
  have val: "fp_val (ffloor x) = of_int ?k" by (simp add: x)
  have "\<not> of_int ?k < (0 :: rat)"
    using gate(2) val by (cases sn) (simp_all add: x f64_zero)
  then have lo: "0 \<le> ?k" by (cases sn) simp_all
  have "fp_of_nat F64 n = FFin False (of_nat n)" using n by (intro nat_representable) simp
  then have "\<not> (of_nat n :: rat) \<le> of_int ?k"
    using gate(3) val by (cases sn) (auto simp: x fle_def)
  then have "\<not> (of_int (int n) :: rat) \<le> of_int ?k" by simp
  then have hi: "?k < int n" by (simp only: of_int_le_iff not_le)
  have "fp_to_int 0 65535 (ffloor x) = ?k"
    using lo hi n by (cases sn) (simp_all add: x)
  then have "unat (fp_to_u16 (ffloor x)) = nat ?k"
    using lo hi n by (simp add: fp_to_u16_def unsigned_of_int take_bit_int_eq_self)
  then show ?thesis using lo hi by simp
qed

lemma grid_cell_total:
  assumes "wf_grid g" "unat a < unat (g_azimuth_count g)" "unat i < unat (g_gate_count g)"
  shows "\<exists>v. grid_cell g a i = Ok v"
  using assms row_index [OF assms(2,3)] by (simp add: grid_cell_def at_index_def wf_grid_def)

lemma sample_at_cases:
  assumes "wf_grid g"
  shows "\<exists>c. sample_at lm g ground_m az_deg = Ok c \<and>
    (case c of
       Cursor_Value v \<Rightarrow> \<exists>a i raw. grid_cell g a i = Ok raw \<and> 2 \<le> raw \<and>
         v = fdiv F32 (fsub F32 (fp_of_nat F32 (unat raw)) (g_offset g)) (g_scale g)
     | Cursor_RangeFolded \<Rightarrow> \<exists>a i. grid_cell g a i = Ok 1
     | Cursor_NoData \<Rightarrow> \<exists>a i. grid_cell g a i = Ok 0
     | OutsideCoverage \<Rightarrow> True)"
proof -
  let ?axis = "if is_derived (g_product g) then ground_m
      else fst (slant_range_and_height lm ground_m (f32_to_f64 (g_elevation_deg g)))"
  let ?x = "fdiv F64 (fsub F64 ?axis (fp_of_nat F64 (unat (g_first_gate_m g))))
      (fp_of_nat F64 (unat (g_gate_width_m g)))"
  let ?outside = "g_gate_width_m g = 0 \<or> \<not> fp_is_finite (ffloor ?x) \<or> flt (ffloor ?x) (f64lit 0) \<or>
      fle (fp_of_nat F64 (unat (g_gate_count g))) (ffloor ?x)"
  show ?thesis
  proof (cases ?outside)
    case True
    then have "sample_at lm g ground_m az_deg = Ok OutsideCoverage"
      unfolding sample_at_def Let_def by auto
    then show ?thesis by simp
  next
    case False
    obtain slot where slot: "azimuth_slot (f64_to_f32 (frem_euclid az_deg (f64lit 360))) (g_azimuth_count g) = Ok slot"
        "unat slot < unat (g_azimuth_count g)"
      using azimuth_slot_total assms unfolding wf_grid_def by blast
    have gate: "unat (fp_to_u16 (ffloor ?x)) < unat (g_gate_count g)"
      using False by (intro gate_in_range) auto
    obtain raw where raw: "grid_cell g slot (fp_to_u16 (ffloor ?x)) = Ok raw"
      using grid_cell_total [OF assms slot(2) gate] by blast
    have two: "2 \<le> raw" if "raw \<noteq> 0" "raw \<noteq> 1"
    proof -
      have "unat raw \<noteq> 0" using that(1) by (simp add: unat_eq_zero)
      moreover have "unat raw \<noteq> 1" using that(2) by (metis unat_1 word_unat_eq_iff)
      ultimately show ?thesis by (simp add: word_le_nat_alt)
    qed
    have "sample_at lm g ground_m az_deg = Ok (if raw = 0 then Cursor_NoData
        else if raw = 1 then Cursor_RangeFolded
        else Cursor_Value (fdiv F32 (fsub F32 (fp_of_nat F32 (unat raw)) (g_offset g)) (g_scale g)))"
      unfolding sample_at_def Let_def using False slot(1) raw by simp
    then show ?thesis using raw two by auto
  qed
qed

text \<open>
  The readout never panics. For a grid as the compute stage makes it and any position of
  the cursor, the sample is a value of the grid or says why there is none; and a value is
  shown only for a cell that holds one.
\<close>

theorem sample_at_total:
  assumes "wf_grid g"
  shows "\<exists>c. sample_at lm g ground_m az_deg = Ok c \<and>
    (case c of
       Cursor_Value v \<Rightarrow> \<exists>a i raw. grid_cell g a i = Ok raw \<and> 2 \<le> raw \<and>
         v = fdiv F32 (fsub F32 (fp_of_nat F32 (unat raw)) (g_offset g)) (g_scale g)
     | Cursor_RangeFolded \<Rightarrow> \<exists>a i. grid_cell g a i = Ok 1
     | Cursor_NoData \<Rightarrow> \<exists>a i. grid_cell g a i = Ok 0
     | OutsideCoverage \<Rightarrow> True)"
  using sample_at_cases [OF assms] .

theorem sample_at_total_witness: "\<exists>c. sample_at sample_libm sample_tilt (f64lit 1000) (f64lit 90) = Ok c"
proof -
  have "wf_grid sample_tilt" using wf_sample_tilt by simp
  then show ?thesis using sample_at_total [of sample_tilt sample_libm "f64lit 1000" "f64lit 90"] by blast
qed
end
