(* ===== verification/Texture_Cache.thy ===== *)
theory Texture_Cache
  imports Radar_State Palette View Tree_Map "HOL-Library.AList" "HOL-Library.Option_ord"
    "HOL-Library.Product_Lexorder"
begin

text \<open>
  The caches of the radar pass, \<open>render/radar.rs\<close>: a texture for every grid of the
  snapshot and a lookup table for every product, scale and offset. The identity of an
  \<open>Arc\<close> is its address. A new \<open>Arc\<close> gets an address from the argument
  \<open>fresh\<close>, a function of the addresses in use; the only law a client needs is that the
  address is none of those. Textures and buffers are what was written to them.
\<close>

section \<open>Keys and entries\<close>

record arc =
  arc_addr :: nat
  arc_grid :: sweep_grid

type_synonym grid_key = "display_product \<times> u8 option"

definition grid_key :: "sweep_grid \<Rightarrow> grid_key" where
  "grid_key g =
     (case g_product g of
        EchoTops \<Rightarrow> (g_product g, None)
      | Vil \<Rightarrow> (g_product g, None)
      | other \<Rightarrow> (other, Some (g_elevation_number g)))"

text \<open>The snapshot holds its grids as \<open>Arc\<close>s; \<open>at_addr i\<close> is the address of the \<open>i\<close>-th.\<close>

definition snapshot_entries :: "(nat \<Rightarrow> nat) \<Rightarrow> 'site state_snapshot \<Rightarrow> (grid_key \<times> arc) list" where
  "snapshot_entries at_addr snap =
     (let grids = concat (map ds_grids (ss_sweeps snap)) @ ss_derived snap
      in map (\<lambda>(i, g). (grid_key g, \<lparr>arc_addr = at_addr i, arc_grid = g\<rparr>)) (List.enumerate 0 grids))"

section \<open>The plan\<close>

text \<open>A \<open>HashMap\<close> is an association list in its iteration order.\<close>

type_synonym ('k, 'v) hash_map = "('k \<times> 'v) list"

record sync_plan =
  to_upload :: "grid_key list"
  to_evict :: "grid_key list"

definition same_arc :: "arc \<Rightarrow> arc \<Rightarrow> bool" where
  "same_arc a b = (arc_addr a = arc_addr b)"

definition cached_same :: "(grid_key, arc) hash_map \<Rightarrow> grid_key \<times> arc \<Rightarrow> bool" where
  "cached_same cached e =
     (case map_of cached (fst e) of Some existing \<Rightarrow> same_arc existing (snd e) | None \<Rightarrow> False)"

definition plan_sync :: "(grid_key, arc) hash_map \<Rightarrow> (grid_key \<times> arc) list \<Rightarrow> sync_plan" where
  "plan_sync cached entries =
     \<lparr>to_upload = sort (map fst (filter (\<lambda>e. \<not> cached_same cached e) entries)),
      to_evict = sort (filter (\<lambda>k. \<not> list_ex (\<lambda>e. fst e = k) entries) (map fst cached))\<rparr>"

section \<open>Lookup tables\<close>

text \<open>A uniform is a sequence of 32-bit words; each is written little endian.\<close>

datatype uniform_word = Float_Word fp | Int_Word u32

definition srgb_to_linear :: "libm \<Rightarrow> u8 \<Rightarrow> fp" where
  "srgb_to_linear lm c =
     (let s = fdiv F32 (fp_of_nat F32 (unat c)) (f32lit 255)
      in if fle s (f32lit (4045 / 100000)) then fdiv F32 s (f32lit (1292 / 100))
         else m_powf lm (fdiv F32 (fadd F32 s (f32lit (55 / 1000))) (f32lit (1055 / 1000))) (f32lit (24 / 10)))"

definition plain_channel :: "u8 \<Rightarrow> fp" where
  "plain_channel c = fdiv F32 (fp_of_nat F32 (unat c)) (f32lit 255)"

definition lut_uniform_words :: "libm \<Rightarrow> rgba list \<Rightarrow> bool \<Rightarrow> uniform_word list" where
  "lut_uniform_words lm lut surface_is_srgb =
     concat (map (\<lambda>entry.
       map (\<lambda>c. Float_Word (if surface_is_srgb then srgb_to_linear lm c else plain_channel c)) (take 3 entry) @
       [Float_Word (plain_channel (entry ! 3))]) lut)"

definition deg_to_radians_f32 :: "fp \<Rightarrow> fp" where
  "deg_to_radians_f32 x = fmul F32 x (fdiv F32 (f32lit (314159265358979323846 / 10 ^ 20)) (f32lit 180))"

definition view_uniform_words :: "sweep_grid \<Rightarrow> camera \<Rightarrow> uniform_word list" where
  "view_uniform_words g cam =
     (let is_ground = (g_product g = EchoTops \<or> g_product g = Vil) in
      [Float_Word (f64_to_f32 (fst (cm_center_m cam))), Float_Word (f64_to_f32 (snd (cm_center_m cam))),
       Float_Word (f64_to_f32 (cm_m_per_px cam)), Float_Word (f32lit 0),
       Float_Word (fst (cm_viewport cam)), Float_Word (snd (cm_viewport cam)),
       Float_Word (f32lit 0), Float_Word (f32lit 0),
       Int_Word (ucast (g_azimuth_count g)), Int_Word (ucast (g_gate_count g)),
       Float_Word (fp_of_nat F32 (unat (g_first_gate_m g))), Float_Word (fp_of_nat F32 (unat (g_gate_width_m g))),
       Float_Word (deg_to_radians_f32 (g_elevation_deg g)), Int_Word (if is_ground then 1 else 0),
       Float_Word (f32lit 0), Float_Word (f32lit 0)])"

section \<open>The caches\<close>

record texture =
  tx_width :: u32
  tx_height :: u32
  tx_cells :: bytes

record cached_grid =
  cg_source :: arc
  cg_texture :: texture

text \<open>The key has the bits of scale and offset: here the floats, a NaN without its payload.\<close>

type_synonym lut_key = "display_product \<times> fp \<times> fp"

definition lut_key :: "sweep_grid \<Rightarrow> lut_key" where
  "lut_key g = (g_product g, g_scale g, g_offset g)"

definition LUT_CACHE_CAP :: nat where
  "LUT_CACHE_CAP = 32"

record radar_cache =
  rc_grids :: "(grid_key, cached_grid) hash_map"
  rc_luts :: "(lut_key, uniform_word list) hash_map"
  rc_surface_is_srgb :: bool
  rc_max_texture_dimension :: u32

definition radar_cache_new :: "bool \<Rightarrow> u32 \<Rightarrow> radar_cache" where
  "radar_cache_new srgb max_dim =
     \<lparr>rc_grids = [], rc_luts = [], rc_surface_is_srgb = srgb, rc_max_texture_dimension = max_dim\<rparr>"

definition ensure_lut :: "libm \<Rightarrow> sweep_grid \<Rightarrow> palette \<Rightarrow> radar_cache \<Rightarrow> radar_cache \<times> event option" where
  "ensure_lut lm g p c =
     (if map_of (rc_luts c) (lut_key g) \<noteq> None then (c, None)
      else
        let (luts, event) = (if LUT_CACHE_CAP \<le> length (rc_luts c) then ([], Some (RetainedGridSetBounded 0))
                             else (rc_luts c, None));
            words = lut_uniform_words lm (compile_lut p (g_scale g) (g_offset g)) (rc_surface_is_srgb c)
        in (c\<lparr>rc_luts := AList.update (lut_key g) words luts\<rparr>, event))"

text \<open>\<open>upload_grid\<close> keeps a copy of the grid, in an \<open>Arc\<close> of its own.\<close>

definition upload_grid :: "nat \<Rightarrow> sweep_grid \<Rightarrow> cached_grid" where
  "upload_grid new_addr g =
     \<lparr>cg_source = \<lparr>arc_addr = new_addr, arc_grid = g\<rparr>,
      cg_texture = \<lparr>tx_width = ucast (g_gate_count g), tx_height = ucast (g_azimuth_count g), tx_cells = g_cells g\<rparr>\<rparr>"

definition too_large :: "radar_cache \<Rightarrow> sweep_grid \<Rightarrow> bool" where
  "too_large c g = (rc_max_texture_dimension c < ucast (g_gate_count g) \<or>
     rc_max_texture_dimension c < ucast (g_azimuth_count g))"

definition sources :: "radar_cache \<Rightarrow> (grid_key, arc) hash_map" where
  "sources c = map (\<lambda>(k, v). (k, cg_source v)) (rc_grids c)"

definition addrs :: "(grid_key \<times> arc) list \<Rightarrow> nat list" where
  "addrs entries = map (\<lambda>(k, a). arc_addr a) entries"

definition ensure_for ::
  "libm \<Rightarrow> (display_product, palette) tree_map \<Rightarrow> sweep_grid \<Rightarrow> radar_cache \<times> event list \<Rightarrow>
   radar_cache \<times> event list" where
  "ensure_for lm palettes g s =
     (case tm_get palettes (g_product g) of
        None \<Rightarrow> s
      | Some p \<Rightarrow>
          let (c, e) = ensure_lut lm g p (fst s)
          in (c, case e of None \<Rightarrow> snd s | Some e \<Rightarrow> snd s @ [e]))"

definition upload_key ::
  "(nat list \<Rightarrow> nat) \<Rightarrow> libm \<Rightarrow> (display_product, palette) tree_map \<Rightarrow> (grid_key \<times> arc) list \<Rightarrow> grid_key \<Rightarrow>
   radar_cache \<times> event list \<Rightarrow> radar_cache \<times> event list" where
  "upload_key fresh lm palettes entries key s =
     (let (c, events) = s in
      case map_of entries key of
        None \<Rightarrow> (c, events)
      | Some a \<Rightarrow>
          let g = arc_grid a in
          if too_large c g then (c, events @ [DegenerateGateGeometry (g_product g) (g_elevation_number g)])
          else
            let c = c\<lparr>rc_grids := AList.update key
                        (upload_grid (fresh (addrs entries @ addrs (sources c))) g) (rc_grids c)\<rparr>
            in ensure_for lm palettes g (c, events))"

definition sync_entries ::
  "(nat list \<Rightarrow> nat) \<Rightarrow> libm \<Rightarrow> (display_product, palette) tree_map \<Rightarrow> (grid_key \<times> arc) list \<Rightarrow>
   radar_cache \<Rightarrow> radar_cache \<times> event list" where
  "sync_entries fresh lm palettes entries c =
     (let plan = plan_sync (sources c) entries;
          c = c\<lparr>rc_grids := fold AList.delete (to_evict plan) (rc_grids c)\<rparr>
      in fold (upload_key fresh lm palettes entries) (to_upload plan) (c, []))"

definition sync_radar ::
  "(nat list \<Rightarrow> nat) \<Rightarrow> libm \<Rightarrow> (nat \<Rightarrow> nat) \<Rightarrow> (display_product, palette) tree_map \<Rightarrow> 'site state_snapshot \<Rightarrow>
   radar_cache \<Rightarrow> radar_cache \<times> event list" where
  "sync_radar fresh lm at_addr palettes snap c =
     sync_entries fresh lm palettes (snapshot_entries at_addr snap) c"

text \<open>What \<open>draw\<close> binds for the selected grid; nothing is drawn without a texture and a table.\<close>

definition draw_radar ::
  "radar_cache \<Rightarrow> sweep_grid \<Rightarrow> camera \<Rightarrow> (texture \<times> uniform_word list \<times> uniform_word list) option" where
  "draw_radar c g cam =
     Option.bind (map_of (rc_grids c) (grid_key g)) (\<lambda>cached.
     Option.bind (map_of (rc_luts c) (lut_key g)) (\<lambda>lut.
       Some (cg_texture cached, lut, view_uniform_words g cam)))"

section \<open>The gate on the revision\<close>

record upload_state =
  up_cache :: radar_cache
  up_last_revision :: "u64 option"

definition upload_frame ::
  "(nat list \<Rightarrow> nat) \<Rightarrow> libm \<Rightarrow> (nat \<Rightarrow> nat) \<Rightarrow> (display_product, palette) tree_map \<Rightarrow> 'site state_snapshot \<Rightarrow>
   upload_state \<Rightarrow> upload_state \<times> event list" where
  "upload_frame fresh lm at_addr palettes snap u =
     (if up_last_revision u \<noteq> Some (ss_revision snap) then
        let (c, events) = sync_radar fresh lm at_addr palettes snap (up_cache u)
        in (\<lparr>up_cache = c, up_last_revision = Some (ss_revision snap)\<rparr>, events)
      else (u, []))"


section \<open>The plan is exact\<close>

lemma list_ex_key: "list_ex (\<lambda>e. fst e = k) entries \<longleftrightarrow> k \<in> fst ` set entries"
  by (auto simp: list_ex_iff)

text \<open>
  The upload plan is exact. A key is uploaded when one of its entries is not the very
  \<open>Arc\<close> the cache holds, and evicted when the snapshot no longer has it; both lists are
  in key order. So a snapshot whose \<open>Arc\<close>s are all in the cache uploads nothing.
\<close>

theorem plan_sync_exact:
  "set (to_upload (plan_sync cached entries)) = fst ` (set entries - {e. cached_same cached e}) \<and>
   set (to_evict (plan_sync cached entries)) = fst ` set cached - fst ` set entries \<and>
   sorted (to_upload (plan_sync cached entries)) \<and> sorted (to_evict (plan_sync cached entries))"
  by (auto simp: plan_sync_def list_ex_key)

section \<open>What a synchronisation leaves\<close>

lemma map_of_sources: "map_of (sources c) k = map_option cg_source (map_of (rc_grids c) k)"
  unfolding sources_def by (induction "rc_grids c" arbitrary: c) (auto simp: map_of_map)

lemma ensure_lut_grids [simp]:
  "rc_grids (fst (ensure_lut lm g p c)) = rc_grids c"
  "rc_max_texture_dimension (fst (ensure_lut lm g p c)) = rc_max_texture_dimension c"
  by (auto simp: ensure_lut_def Let_def)

lemma ensure_for_grids [simp]:
  "rc_grids (fst (ensure_for lm palettes g s)) = rc_grids (fst s)"
  "rc_max_texture_dimension (fst (ensure_for lm palettes g s)) = rc_max_texture_dimension (fst s)"
  by (auto simp: ensure_for_def case_prod_beta Let_def split: option.splits)

lemma upload_key_grids:
  "rc_grids (fst (upload_key fresh lm palettes entries key (c, events))) =
     (case map_of entries key of
        None \<Rightarrow> rc_grids c
      | Some a \<Rightarrow> if too_large c (arc_grid a) then rc_grids c
                  else AList.update key (upload_grid (fresh (addrs entries @ addrs (sources c))) (arc_grid a)) (rc_grids c))"
  by (simp add: upload_key_def Let_def split: option.splits)

lemma upload_key_dimension [simp]:
  "rc_max_texture_dimension (fst (upload_key fresh lm palettes entries key s)) = rc_max_texture_dimension (fst s)"
  by (cases s) (simp add: upload_key_def Let_def split: option.splits)

lemma map_of_delete_all:
  "map_of (fold AList.delete ks m) k = (if k \<in> set ks then None else map_of m k)"
  by (induction ks arbitrary: m) (auto simp: delete_conv')


definition texture_of :: "sweep_grid \<Rightarrow> texture" where
  "texture_of g = \<lparr>tx_width = ucast (g_gate_count g), tx_height = ucast (g_azimuth_count g), tx_cells = g_cells g\<rparr>"

text \<open>
  A cached texture is that of its source. An address holds one grid at a time: while the cache
  keeps an \<open>Arc\<close> alive, an \<open>Arc\<close> of the snapshot with its address is the same one, with the same
  grid. The allocator gives this at every synchronisation of a history.
\<close>

definition textures_true :: "radar_cache \<Rightarrow> bool" where
  "textures_true c = list_all (\<lambda>(k, v). cg_texture v = texture_of (arc_grid (cg_source v))) (rc_grids c)"

definition one_object :: "(grid_key \<times> arc) list \<Rightarrow> radar_cache \<Rightarrow> bool" where
  "one_object entries c = list_all (\<lambda>(k, v).
     list_all (\<lambda>(_, a). arc_addr (cg_source v) = arc_addr a \<longrightarrow> arc_grid (cg_source v) = arc_grid a) entries) (rc_grids c)"

fun allocated ::
  "(nat list \<Rightarrow> nat) \<Rightarrow> libm \<Rightarrow> (display_product, palette) tree_map \<Rightarrow> (grid_key \<times> arc) list list \<Rightarrow>
   radar_cache \<Rightarrow> bool" where
  "allocated fresh lm palettes [] c = True"
| "allocated fresh lm palettes (entries # history) c =
     (one_object entries c \<and> allocated fresh lm palettes history (fst (sync_entries fresh lm palettes entries c)))"

definition shown :: "radar_cache \<Rightarrow> grid_key \<Rightarrow> texture option" where
  "shown c k = map_option cg_texture (map_of (rc_grids c) k)"

lemma cg_texture_upload [simp]:
  "cg_texture (upload_grid x g) = texture_of g" "arc_grid (cg_source (upload_grid x g)) = g"
  by (simp_all add: upload_grid_def texture_of_def)

lemma too_large_upload [simp]:
  "too_large (fst (upload_key fresh lm palettes entries' key s)) g = too_large (fst s) g"
  by (simp add: too_large_def)

lemma shown_upload:
  "shown (fst (upload_key fresh lm palettes entries key s)) k =
    (case map_of entries k of
       Some a \<Rightarrow> if k = key \<and> \<not> too_large (fst s) (arc_grid a) then Some (texture_of (arc_grid a)) else shown (fst s) k
     | None \<Rightarrow> shown (fst s) k)"
  by (cases s) (auto simp: shown_def upload_key_grids update_conv' split: option.splits)

lemma shown_uploads:
  "shown (fst (fold (upload_key fresh lm palettes entries) ks s)) k =
    (case map_of entries k of
       Some a \<Rightarrow> if k \<in> set ks \<and> \<not> too_large (fst s) (arc_grid a) then Some (texture_of (arc_grid a)) else shown (fst s) k
     | None \<Rightarrow> shown (fst s) k)"
proof (induction ks arbitrary: s)
  case Nil
  then show ?case by (simp split: option.split)
next
  case (Cons key ks)
  then show ?case by (auto simp: shown_upload split: option.splits)
qed

lemma set_update_subset: "set (AList.update k v m) \<subseteq> insert (k, v) (set m)"
  by (induction m) auto

lemma set_delete_all: "set (fold AList.delete ks m) \<subseteq> set m"
  by (induction ks arbitrary: m) (fastforce simp: AList.delete_eq)+

lemma textures_true_upload:
  "textures_true (fst s) \<Longrightarrow> textures_true (fst (upload_key fresh lm palettes entries key s))"
proof (cases s)
  case (Pair c events)
  assume "textures_true (fst s)"
  moreover have "textures_true (c\<lparr>rc_grids := AList.update key (upload_grid x g) (rc_grids c)\<rparr>)"
    if "textures_true c" for x g
    using that set_update_subset [of key "upload_grid x g" "rc_grids c"]
    unfolding textures_true_def list_all_iff by fastforce
  ultimately show ?thesis
    unfolding textures_true_def Pair upload_key_grids by (simp split: option.splits)
qed

lemma textures_true_sync:
  assumes "textures_true c"
  shows "textures_true (fst (sync_entries fresh lm palettes entries c))"
proof -
  have "textures_true (c\<lparr>rc_grids := fold AList.delete ks (rc_grids c)\<rparr>)" for ks
    using assms set_delete_all [of ks "rc_grids c"] unfolding textures_true_def list_all_iff by fastforce
  moreover have "textures_true (fst s) \<Longrightarrow> textures_true (fst (fold (upload_key fresh lm palettes entries) ks s))" for ks s
    by (induction ks arbitrary: s) (simp_all add: textures_true_upload)
  ultimately show ?thesis unfolding sync_entries_def Let_def by simp
qed

lemma allocated_run:
  "allocated fresh lm palettes (history @ [entries]) c \<Longrightarrow> textures_true c \<Longrightarrow>
   one_object entries (fold (\<lambda>entries c. fst (sync_entries fresh lm palettes entries c)) history c) \<and>
   textures_true (fold (\<lambda>entries c. fst (sync_entries fresh lm palettes entries c)) history c)"
  by (induction history arbitrary: c) (simp_all add: textures_true_sync)

lemma sync_shown:
  assumes "textures_true c" "one_object entries c"
  shows "shown (fst (sync_entries fresh lm palettes entries c)) k =
    (case map_of entries k of
       None \<Rightarrow> None
     | Some a \<Rightarrow> if too_large c (arc_grid a) then shown c k else Some (texture_of (arc_grid a)))"
proof -
  let ?plan = "plan_sync (sources c) entries"
  let ?c = "c\<lparr>rc_grids := fold AList.delete (to_evict ?plan) (rc_grids c)\<rparr>"
  have uploads: "set (to_upload ?plan) = fst ` (set entries - {e. cached_same (sources c) e})"
    and evicts: "set (to_evict ?plan) = fst ` set (sources c) - fst ` set entries"
    by (auto simp: plan_sync_def list_ex_key)
  have fit: "too_large ?c g = too_large c g" for g by (simp add: too_large_def)
  have kept: "shown ?c k = (if k \<in> set (to_evict ?plan) then None else shown c k)"
    by (simp add: shown_def map_of_delete_all)
  have after: "shown (fst (sync_entries fresh lm palettes entries c)) k =
      (case map_of entries k of
         Some a \<Rightarrow> if k \<in> set (to_upload ?plan) \<and> \<not> too_large c (arc_grid a) then Some (texture_of (arc_grid a))
           else shown ?c k
       | None \<Rightarrow> shown ?c k)"
    unfolding sync_entries_def Let_def by (simp only: shown_uploads fst_conv fit)
  show ?thesis
  proof (cases "map_of entries k")
    case None
    then have absent: "k \<notin> fst ` set entries" by (simp add: map_of_eq_None_iff)
    have "shown ?c k = None"
    proof (cases "k \<in> fst ` set (sources c)")
      case True
      then show ?thesis using kept evicts absent by simp
    next
      case False
      then have "map_of (sources c) k = None" by (simp add: map_of_eq_None_iff)
      then have "shown c k = None" by (simp add: map_of_sources shown_def)
      then show ?thesis using kept by simp
    qed
    then show ?thesis using after None by simp
  next
    case (Some a)
    then have entry: "(k, a) \<in> set entries" by (rule map_of_SomeD)
    have here: "k \<notin> set (to_evict ?plan)" using evicts entry by force
    show ?thesis
    proof (cases "k \<in> set (to_upload ?plan)")
      case True
      then show ?thesis using after Some kept here by simp
    next
      case False
      then have "cached_same (sources c) (k, a)" using uploads entry by force
      then obtain v where v: "map_of (rc_grids c) k = Some v" "same_arc (cg_source v) a"
        by (auto simp: cached_same_def map_of_sources split: option.splits)
      have "(k, v) \<in> set (rc_grids c)" using v(1) by (rule map_of_SomeD)
      then have "cg_texture v = texture_of (arc_grid a)"
        using assms entry v(2) unfolding textures_true_def one_object_def same_arc_def list_all_iff by fastforce
      then show ?thesis using after kept here False Some v(1) by (simp add: shown_def)
    qed
  qed
qed

text \<open>
  C31: The textures follow the snapshot. After any history of synchronisations that began with
  an empty cache, the next one leaves for every key exactly the texture of the snapshot's grid
  of that key, and nothing for a key the snapshot does not have; only for a grid too large for
  the device the key keeps what it showed before. The \<open>Arc\<close>s must come from an allocator: an
  address the cache holds is never that of another grid.
\<close>

theorem sync_shows_snapshot:
  assumes "allocated fresh lm palettes (history @ [entries]) (radar_cache_new srgb max_dim)"
    and "c = fold (\<lambda>entries c. fst (sync_entries fresh lm palettes entries c)) history (radar_cache_new srgb max_dim)"
  shows "shown (fst (sync_entries fresh lm palettes entries c)) k =
    (case map_of entries k of
       None \<Rightarrow> None
     | Some a \<Rightarrow> if too_large c (arc_grid a) then shown c k else Some (texture_of (arc_grid a)))"
proof -
  have "textures_true (radar_cache_new srgb max_dim)" by (simp add: textures_true_def radar_cache_new_def)
  from allocated_run [OF assms(1) this] show ?thesis unfolding assms(2) by (intro sync_shown) simp_all
qed

definition fresh_above :: "nat list \<Rightarrow> nat" where
  "fresh_above live = Suc (fold max live 0)"

definition sample_entries :: "(grid_key \<times> arc) list" where
  "sample_entries = [(grid_key sample_tilt, \<lparr>arc_addr = 7, arc_grid = sample_tilt\<rparr>)]"

text \<open>The witness: a second snapshot replaces the grid that the first one left in the cache.\<close>

definition second_entries :: "(grid_key \<times> arc) list" where
  "second_entries =
     [((Reflectivity, Some 1), \<lparr>arc_addr = 20, arc_grid = sample_tilt\<lparr>g_cells := [9, 9]\<rparr>\<rparr>),
      ((Velocity, Some 1), \<lparr>arc_addr = 21, arc_grid = sample_tilt\<rparr>)]"

theorem sync_shows_snapshot_witness:
  "shown (fst (sync_entries fresh_above sample_libm [] second_entries
     (fst (sync_entries fresh_above sample_libm [] sample_entries (radar_cache_new True 2048)))))
     (Reflectivity, Some 1) = Some (texture_of (sample_tilt\<lparr>g_cells := [9, 9]\<rparr>))"
proof -
  let ?c = "fst (sync_entries fresh_above sample_libm [] sample_entries (radar_cache_new True 2048))"
  have grids: "rc_grids ?c = [(grid_key sample_tilt, upload_grid 8 sample_tilt)] \<and> rc_max_texture_dimension ?c = 2048"
    by (simp add: sync_entries_def plan_sync_def sources_def radar_cache_new_def sample_entries_def cached_same_def
        upload_key_def ensure_for_def tm_get_def too_large_def sample_tilt_def addrs_def fresh_above_def Let_def)
  then have "allocated fresh_above sample_libm [] ([sample_entries] @ [second_entries]) (radar_cache_new True 2048)"
    by (simp add: one_object_def second_entries_def radar_cache_new_def upload_grid_def)
  from sync_shows_snapshot [OF this refl, of "(Reflectivity, Some 1)"] grids show ?thesis
    by (simp add: second_entries_def too_large_def sample_tilt_def)
qed

section \<open>The table cache is bounded\<close>

lemma length_update_le: "length (AList.update k v m) \<le> Suc (length m)"
  by (induction m) auto

lemma ensure_lut_bounded:
  assumes "length (rc_luts c) \<le> LUT_CACHE_CAP"
  shows "length (rc_luts (fst (ensure_lut lm g p c))) \<le> LUT_CACHE_CAP"
proof (cases "LUT_CACHE_CAP \<le> length (rc_luts c)")
  case True
  then show ?thesis using assms by (auto simp: ensure_lut_def Let_def LUT_CACHE_CAP_def)
next
  case False
  then have "length (AList.update k v (rc_luts c)) \<le> LUT_CACHE_CAP" for k v
    using length_update_le [of k v "rc_luts c"] by linarith
  then show ?thesis using assms False by (auto simp: ensure_lut_def Let_def)
qed

lemma upload_key_bounded:
  "length (rc_luts (fst s)) \<le> LUT_CACHE_CAP \<Longrightarrow>
   length (rc_luts (fst (upload_key fresh lm palettes entries key s))) \<le> LUT_CACHE_CAP"
  by (cases s) (auto simp: upload_key_def ensure_for_def Let_def case_prod_beta ensure_lut_bounded split: option.splits)

lemma uploads_bounded:
  "length (rc_luts (fst s)) \<le> LUT_CACHE_CAP \<Longrightarrow>
   length (rc_luts (fst (fold (upload_key fresh lm palettes entries) ks s))) \<le> LUT_CACHE_CAP"
  by (induction ks arbitrary: s) (auto simp: upload_key_bounded)

lemma sync_bounded:
  "length (rc_luts c) \<le> LUT_CACHE_CAP \<Longrightarrow>
   length (rc_luts (fst (sync_entries fresh lm palettes entries c))) \<le> LUT_CACHE_CAP"
  by (simp add: sync_entries_def Let_def uploads_bounded)

text \<open>
  C32: The table cache never outgrows its cap. Whatever snapshots are synchronised, in
  any order and with whatever scales and offsets, at most 32 lookup tables are held.
\<close>

theorem lut_cache_bounded:
  "length (rc_luts (fold (\<lambda>entries c. fst (sync_entries fresh lm palettes entries c)) history
     (radar_cache_new srgb max_dim))) \<le> LUT_CACHE_CAP"
proof -
  have "length (rc_luts c) \<le> LUT_CACHE_CAP \<Longrightarrow>
    length (rc_luts (fold (\<lambda>entries c. fst (sync_entries fresh lm palettes entries c)) history c)) \<le> LUT_CACHE_CAP" for c
    by (induction history arbitrary: c) (auto simp: sync_bounded)
  then show ?thesis by (simp add: radar_cache_new_def)
qed

section \<open>Where the caches fail\<close>

text \<open>
  The cache holds a copy of every grid in a new \<open>Arc\<close>, so no entry is ever found
  unchanged: the same snapshot synchronised again uploads every grid again.
\<close>

definition fresh_law :: "(nat list \<Rightarrow> nat) \<Rightarrow> bool" where
  "fresh_law fresh = (\<forall>live. fresh live \<notin> set live)"

lemma fresh_above_law: "fresh_law fresh_above"
proof -
  have "b \<le> fold max live b \<and> (\<forall>x\<in>set live. x \<le> fold max live b)" for live :: "nat list" and b
    by (induction live arbitrary: b) (auto intro: le_trans [OF max.cobounded1] le_trans [OF max.cobounded2])
  then show ?thesis unfolding fresh_law_def fresh_above_def by (metis Suc_n_not_le_n)
qed

definition apart :: "(grid_key \<times> arc) list \<Rightarrow> radar_cache \<Rightarrow> bool" where
  "apart entries c = (set (addrs entries) \<inter> set (addrs (sources c)) = {})"

lemma apart_grids:
  "apart entries c = list_all (\<lambda>(k, v). arc_addr (cg_source v) \<notin> set (addrs entries)) (rc_grids c)"
proof -
  have "addrs (sources c) = map (\<lambda>(k, v). arc_addr (cg_source v)) (rc_grids c)"
    by (auto simp: addrs_def sources_def)
  then show ?thesis unfolding apart_def list_all_iff by (auto simp del: set_map simp: set_map)
qed

lemma apart_upload:
  assumes "fresh_law fresh" "apart entries (fst s)"
  shows "apart entries (fst (upload_key fresh lm palettes entries key s))"
proof (cases s)
  case (Pair c events)
  let ?new = "fresh (addrs entries @ addrs (sources c))"
  have "?new \<notin> set (addrs entries @ addrs (sources c))" using assms(1) unfolding fresh_law_def by blast
  then have new: "?new \<notin> set (addrs entries)" by simp
  have old: "\<forall>(k, v) \<in> set (rc_grids c). arc_addr (cg_source v) \<notin> set (addrs entries)"
    using assms(2) unfolding Pair apart_grids list_all_iff by simp
  have "\<forall>(k, v) \<in> set (AList.update key (upload_grid ?new g) (rc_grids c)).
      arc_addr (cg_source v) \<notin> set (addrs entries)" for g
    using new old set_update_subset [of key "upload_grid ?new g" "rc_grids c"] by (force simp: upload_grid_def)
  then show ?thesis
    using old unfolding Pair apart_grids upload_key_grids list_all_iff by (simp split: option.splits)
qed

lemma apart_uploads:
  "fresh_law fresh \<Longrightarrow> apart entries (fst s) \<Longrightarrow>
   apart entries (fst (fold (upload_key fresh lm palettes entries) ks s))"
  by (induction ks arbitrary: s) (auto simp: apart_upload)

lemma not_cached_same: "apart entries c \<Longrightarrow> e \<in> set entries \<Longrightarrow> \<not> cached_same (sources c) e"
  by (cases e) (force simp: apart_def addrs_def cached_same_def same_arc_def split: option.splits dest: map_of_SomeD)

lemma same_snapshot_uploads_all_again:
  assumes "fresh_law fresh" "apart entries c"
  shows "to_upload (plan_sync (sources (fst (sync_entries fresh lm palettes entries c))) entries) =
    sort (map fst entries)"
proof -
  let ?c = "c\<lparr>rc_grids := fold AList.delete (to_evict (plan_sync (sources c) entries)) (rc_grids c)\<rparr>"
  have "apart entries ?c"
    using assms(2) set_delete_all [of _ "rc_grids c"] unfolding apart_grids list_all_iff by fastforce
  then have "apart entries (fst (sync_entries fresh lm palettes entries c))"
    unfolding sync_entries_def Let_def using apart_uploads [OF assms(1)] by simp
  then have "filter (\<lambda>e. \<not> cached_same (sources (fst (sync_entries fresh lm palettes entries c))) e) entries = entries"
    using not_cached_same by (simp add: filter_id_conv)
  then show ?thesis by (simp add: plan_sync_def)
qed

text \<open>
  At the cap every table is dropped, those of grids on the screen too: after the table of
  another grid is made, a grid whose texture is cached has no table and is not drawn.
\<close>

lemma lut_reset_blanks:
  assumes "LUT_CACHE_CAP \<le> length (rc_luts c)" "map_of (rc_luts c) (lut_key g) = None" "lut_key h \<noteq> lut_key g"
  shows "draw_radar (fst (ensure_lut lm g p c)) h cam = None"
  using assms by (auto simp: draw_radar_def ensure_lut_def Let_def)

text \<open>A grid too large for the device leaves the texture of an older grid under its key.\<close>

lemma oversized_keeps_stale:
  assumes "map_of entries key = Some a" "too_large c (arc_grid a)"
  shows "shown (fst (upload_key fresh lm palettes entries key (c, events))) key = shown c key"
  using assms by (simp add: shown_def upload_key_grids)

end
