(* ===== verification/Scene.thy ===== *)
theory Scene
  imports Overlay_Project Texture_Cache
begin

text \<open>
  The line work of a frame: the reference geometry of \<open>render/reference.rs\<close> (range rings,
  spokes, the site's marker) and the underlay of \<open>render/overlay.rs\<close> (index ranges per
  layer, markers and labels of the other sites). The 32-bit sine and cosine are an argument.
  Buffers are lists of vertices and words; the loops over floating-point counters are
  functions that may not return.
\<close>

section \<open>Reference geometry\<close>

definition RING_STEP_KM :: fp where "RING_STEP_KM = f32lit 50"
definition RING_MAX_KM :: fp where "RING_MAX_KM = f32lit 300"
definition EMPHASIS_RING_KM :: fp where "EMPHASIS_RING_KM = f32lit 230"
definition SPOKE_STEP_DEG :: fp where "SPOKE_STEP_DEG = f32lit 30"
definition SPOKE_INNER_KM :: fp where "SPOKE_INNER_KM = f32lit 50"
definition MARKER_ARM_KM :: fp where "MARKER_ARM_KM = f32lit 4"
definition RING_SEGMENTS :: nat where "RING_SEGMENTS = 240"

type_synonym colour = "fp list"

definition RING_COLOR :: colour where
  "RING_COLOR = map f32lit [52 / 100, 54 / 100, 60 / 100, 45 / 100]"
definition EMPHASIS_COLOR :: colour where
  "EMPHASIS_COLOR = map f32lit [72 / 100, 78 / 100, 85 / 100, 75 / 100]"
definition SPOKE_COLOR :: colour where
  "SPOKE_COLOR = map f32lit [45 / 100, 47 / 100, 52 / 100, 35 / 100]"
definition MARKER_COLOR :: colour where
  "MARKER_COLOR = map f32lit [95 / 100, 95 / 100, 1, 95 / 100]"

type_synonym sin_cos = "fp \<Rightarrow> fp \<times> fp"

definition polar :: "sin_cos \<Rightarrow> fp \<Rightarrow> fp \<Rightarrow> fp \<times> fp" where
  "polar sc range_m az_deg =
     (let (s, c) = sc (deg_to_radians_f32 az_deg) in (fmul F32 range_m s, fmul F32 range_m c))"

partial_function (option) ring_steps :: "fp \<Rightarrow> fp list option" where
  "ring_steps km =
     (if fle km (fadd F32 RING_MAX_KM (f32lit (1 / 10)))
      then Option.bind (ring_steps (fadd F32 km RING_STEP_KM)) (\<lambda>kms. Some (km # kms))
      else Some [])"

text \<open>\<open>f32::total_cmp\<close>; the radii are no NaNs.\<close>

definition ring_radii_km :: "(fp \<times> bool) list option" where
  "ring_radii_km =
     map_option (\<lambda>kms. sort_key (\<lambda>r. fp_val (fst r)) (map (\<lambda>km. (km, False)) kms @ [(EMPHASIS_RING_KM, True)]))
       (ring_steps RING_STEP_KM)"

text \<open>\<open>{km:.0}\<close> of a nonnegative number.\<close>

definition whole_number :: "fp \<Rightarrow> utext" where
  "whole_number x = decimal (nat (round_half_even (fp_val x)))"

definition ring_labels :: "sin_cos \<Rightarrow> ((fp \<times> fp) \<times> utext) list option" where
  "ring_labels sc =
     map_option (map (\<lambda>(km, emphasis).
       (polar sc (fmul F32 km (f32lit 1000)) (f32lit 45),
        if emphasis then whole_number km @ lit '' km'' else whole_number km))) ring_radii_km"

record vertex =
  vx_pos :: "fp \<times> fp"
  vx_color :: colour

definition ring_point :: "sin_cos \<Rightarrow> fp \<Rightarrow> nat \<Rightarrow> fp \<times> fp" where
  "ring_point sc range_m i =
     polar sc range_m (fmul F32 (fdiv F32 (fp_of_nat F32 i) (fp_of_nat F32 RING_SEGMENTS)) (f32lit 360))"

fun ring_from :: "sin_cos \<Rightarrow> fp \<Rightarrow> colour \<Rightarrow> fp \<times> fp \<Rightarrow> nat list \<Rightarrow> vertex list" where
  "ring_from sc range_m color prev [] = []"
| "ring_from sc range_m color prev (i # is) =
     (let n = ring_point sc range_m i in
      \<lparr>vx_pos = prev, vx_color = color\<rparr> # \<lparr>vx_pos = n, vx_color = color\<rparr> # ring_from sc range_m color n is)"

definition ring_vertices :: "sin_cos \<Rightarrow> fp \<Rightarrow> colour \<Rightarrow> vertex list" where
  "ring_vertices sc range_m color =
     ring_from sc range_m color (polar sc range_m (f32lit 0)) [1..<RING_SEGMENTS + 1]"

partial_function (option) spokes :: "sin_cos \<Rightarrow> fp \<Rightarrow> vertex list option" where
  "spokes sc az =
     (if flt az (fsub F32 (f32lit 360) (f32lit (1 / 10)))
      then Option.bind (spokes sc (fadd F32 az SPOKE_STEP_DEG)) (\<lambda>vs. Some (
        \<lparr>vx_pos = polar sc (fmul F32 SPOKE_INNER_KM (f32lit 1000)) az, vx_color = SPOKE_COLOR\<rparr> #
        \<lparr>vx_pos = polar sc (fmul F32 RING_MAX_KM (f32lit 1000)) az, vx_color = SPOKE_COLOR\<rparr> # vs))
      else Some [])"

definition marker_vertices :: "vertex list" where
  "marker_vertices =
     (let arm = fmul F32 MARKER_ARM_KM (f32lit 1000); zero = f32lit 0 in
      map (\<lambda>p. \<lparr>vx_pos = p, vx_color = MARKER_COLOR\<rparr>) [(fneg arm, zero), (arm, zero), (zero, fneg arm), (zero, arm)])"

definition build_vertices :: "sin_cos \<Rightarrow> vertex list option" where
  "build_vertices sc =
     Option.bind ring_radii_km (\<lambda>radii.
     Option.bind (spokes sc (f32lit 0)) (\<lambda>sp.
     Some (concat (map (\<lambda>(km, emphasis).
             ring_vertices sc (fmul F32 km (f32lit 1000)) (if emphasis then EMPHASIS_COLOR else RING_COLOR)) radii) @
           sp @ marker_vertices)))"

definition vertex_words :: "vertex list \<Rightarrow> uniform_word list" where
  "vertex_words vs =
     concat (map (\<lambda>v. map Float_Word (fst (vx_pos v) # snd (vx_pos v) # vx_color v)) vs)"

definition ref_uniform_words :: "camera \<Rightarrow> uniform_word list" where
  "ref_uniform_words cam =
     map Float_Word
       [f64_to_f32 (fst (cm_center_m cam)), f64_to_f32 (snd (cm_center_m cam)), f64_to_f32 (cm_m_per_px cam), f32lit 0,
        fst (cm_viewport cam), snd (cm_viewport cam), f32lit 0, f32lit 0]"

section \<open>The underlay\<close>

definition COUNTIES_KIND :: u32 where "COUNTIES_KIND = 1"
definition STATES_KIND :: u32 where "STATES_KIND = 2"
definition COASTLINE_KIND :: u32 where "COASTLINE_KIND = 3"
definition ROADS_KIND :: u32 where "ROADS_KIND = 4"

definition DRAW_ORDER :: "(u32 \<times> colour) list" where
  "DRAW_ORDER =
     [(COUNTIES_KIND, map f32lit [36 / 100, 38 / 100, 43 / 100, 55 / 100]),
      (STATES_KIND, map f32lit [58 / 100, 62 / 100, 70 / 100, 75 / 100]),
      (COASTLINE_KIND, map f32lit [58 / 100, 62 / 100, 70 / 100, 75 / 100]),
      (ROADS_KIND, map f32lit [72 / 100, 55 / 100, 30 / 100, 60 / 100])]"

definition SITE_MARKER_COLOR :: colour where
  "SITE_MARKER_COLOR = map f32lit [75 / 100, 78 / 100, 85 / 100, 55 / 100]"

definition overlay_uniform_words :: "camera \<Rightarrow> colour \<Rightarrow> uniform_word list" where
  "overlay_uniform_words cam color = ref_uniform_words cam @ map Float_Word color"

record geometry_layer =
  gl_kind :: u32
  gl_index_range :: "nat \<times> nat"
  gl_color :: colour

record overlay_renderer =
  or_vertices :: "(fp \<times> fp) list"
  or_indices :: "nat list"
  or_layers :: "geometry_layer list"
  or_site_markers :: "(fp \<times> fp) list"
  or_label_candidates :: "label_candidate list"

definition layer_range :: "projected \<Rightarrow> u32 \<Rightarrow> nat \<times> nat" where
  "layer_range p kind =
     (case find (\<lambda>l. pl_kind l = kind) (pj_layers p) of Some l \<Rightarrow> pl_index_range l | None \<Rightarrow> (0, 0))"

definition site_position :: "libm \<Rightarrow> site \<Rightarrow> site \<Rightarrow> fp \<times> fp" where
  "site_position lm s other = to_world lm s (st_lon other, st_lat other)"

definition marker_cross :: "fp \<times> fp \<Rightarrow> (fp \<times> fp) list" where
  "marker_cross p =
     (let arm = fmul F32 MARKER_ARM_KM (f32lit 1000); (x, y) = p in
      [(fsub F32 x arm, y), (fadd F32 x arm, y), (x, fsub F32 y arm), (x, fadd F32 y arm)])"

definition overlay_new :: "libm \<Rightarrow> projected \<Rightarrow> site \<Rightarrow> overlay_renderer" where
  "overlay_new lm p s =
     (let others = filter (\<lambda>other. st_id other \<noteq> st_id s) SITES in
      \<lparr>or_vertices = pj_vertices p, or_indices = pj_indices p,
       or_layers = map (\<lambda>(kind, color).
         \<lparr>gl_kind = kind, gl_index_range = layer_range p kind, gl_color = color\<rparr>) DRAW_ORDER,
       or_site_markers = concat (map (\<lambda>other. marker_cross (site_position lm s other)) others),
       or_label_candidates =
         map (\<lambda>other. \<lparr>lc_world = site_position lm s other, lc_rank = 0, lc_text = st_id other\<rparr>) others @
         map (\<lambda>l. \<lparr>lc_world = pb_world l, lc_rank = pb_rank l, lc_text = pb_name l\<rparr>) (pj_labels p)\<rparr>)"

text \<open>The indexed draws of a frame: the range of each and the uniform written for it.\<close>

definition draw_overlay :: "overlay_renderer \<Rightarrow> camera \<Rightarrow> bool \<Rightarrow> ((nat \<times> nat) \<times> uniform_word list) list" where
  "draw_overlay r cam show_highways =
     map (\<lambda>l. (gl_index_range l, overlay_uniform_words cam (gl_color l)))
       (filter (\<lambda>l. \<not> (gl_kind l = ROADS_KIND \<and> \<not> show_highways) \<and>
          fst (gl_index_range l) < snd (gl_index_range l)) (or_layers r))"

definition draw_site_markers :: "overlay_renderer \<Rightarrow> camera \<Rightarrow> (nat \<times> uniform_word list) option" where
  "draw_site_markers r cam =
     (if or_site_markers r = [] then None
      else Some (length (or_site_markers r), overlay_uniform_words cam SITE_MARKER_COLOR))"

definition buffer_bytes :: "overlay_renderer \<Rightarrow> nat" where
  "buffer_bytes r = 8 * length (or_vertices r) + 4 * length (or_indices r) + 8 * length (or_site_markers r)"


section \<open>What is drawn\<close>

lemma scene_values:
  "RING_STEP_KM = FFin False 50" "RING_MAX_KM = FFin False 300" "EMPHASIS_RING_KM = FFin False 230"
  "SPOKE_STEP_DEG = FFin False 30" "f32lit 0 = FFin False 0"
  by (simp_all add: RING_STEP_KM_def RING_MAX_KM_def EMPHASIS_RING_KM_def SPOKE_STEP_DEG_def float_eval)

lemma ring_bound: "k \<le> 300 \<Longrightarrow> fle (FFin False k) (fadd F32 (FFin False 300) (f32lit (1 / 10)))"
  "\<not> fle (FFin False 350) (fadd F32 (FFin False 300) (f32lit (1 / 10)))"
  by (simp_all add: float_eval fle_def)

lemma ring_step:
  "k \<le> 300 \<Longrightarrow> ring_steps (FFin False k) =
     Option.bind (ring_steps (fadd F32 (FFin False k) (FFin False 50))) (\<lambda>kms. Some (FFin False k # kms))"
  by (subst ring_steps.simps) (simp add: scene_values ring_bound)

lemma ring_steps_end: "ring_steps (FFin False 350) = Some []"
  by (subst ring_steps.simps) (simp add: scene_values ring_bound)

lemma ring_sums:
  "round_rat F32 False 100 = FFin False 100" "round_rat F32 False 150 = FFin False 150"
  "round_rat F32 False 200 = FFin False 200" "round_rat F32 False 250 = FFin False 250"
  "round_rat F32 False 300 = FFin False 300" "round_rat F32 False 350 = FFin False 350"
  by (simp_all add: float_eval)

lemma ring_steps_exact:
  "ring_steps RING_STEP_KM = Some (map (\<lambda>k. FFin False k) [50, 100, 150, 200, 250, 300])"
  by (simp add: scene_values ring_step ring_sums ring_steps_end)

lemma ring_radii_exact:
  "ring_radii_km = Some (map (\<lambda>(k, e). (FFin False k, e))
     [(50, False), (100, False), (150, False), (200, False), (230, True), (250, False), (300, False)])"
  unfolding ring_radii_km_def ring_steps_exact by (simp add: scene_values)

lemma spoke_bound: "k \<le> 359 \<Longrightarrow> flt (FFin False k) (fsub F32 (f32lit 360) (f32lit (1 / 10)))"
  "\<not> flt (FFin False 360) (fsub F32 (f32lit 360) (f32lit (1 / 10)))"
  by (simp_all add: float_eval fsub_def)

lemma spoke_step:
  "k \<le> 359 \<Longrightarrow> spokes sc (FFin False k) =
     Option.bind (spokes sc (fadd F32 (FFin False k) (FFin False 30))) (\<lambda>vs. Some (
        \<lparr>vx_pos = polar sc (fmul F32 SPOKE_INNER_KM (f32lit 1000)) (FFin False k), vx_color = SPOKE_COLOR\<rparr> #
        \<lparr>vx_pos = polar sc (fmul F32 RING_MAX_KM (f32lit 1000)) (FFin False k), vx_color = SPOKE_COLOR\<rparr> # vs))"
  by (subst spokes.simps) (simp add: scene_values(4) spoke_bound)

lemma spokes_end: "spokes sc (FFin False 360) = Some []"
  by (subst spokes.simps) (simp add: spoke_bound)

lemma spoke_sums:
  "round_rat F32 False 30 = FFin False 30" "round_rat F32 False 60 = FFin False 60"
  "round_rat F32 False 90 = FFin False 90" "round_rat F32 False 120 = FFin False 120"
  "round_rat F32 False 180 = FFin False 180" "round_rat F32 False 210 = FFin False 210"
  "round_rat F32 False 240 = FFin False 240" "round_rat F32 False 270 = FFin False 270"
  "round_rat F32 False 330 = FFin False 330" "round_rat F32 False 360 = FFin False 360"
  by (simp_all add: float_eval)

lemma spokes_exact: "\<exists>vs. spokes sc (f32lit 0) = Some vs \<and> length vs = 24"
  by (simp add: scene_values(5) spoke_step spoke_sums ring_sums spokes_end)

lemma length_ring [simp]: "length (ring_from sc r c p is) = 2 * length is"
  by (induction "is" arbitrary: p) (simp_all add: Let_def)

text \<open>A ring is one closed run of segments: each begins where the one before it ended.\<close>

lemma ring_connected:
  "map vx_pos (ring_from sc r c p is) =
     concat (map (\<lambda>(a, b). [a, b]) (zip (p # map (ring_point sc r) is) (map (ring_point sc r) is)))"
  by (induction "is" arbitrary: p) (simp_all add: Let_def)

text \<open>
  The reference geometry is finite and complete. Whatever the sine and cosine give,
  building it ends, with the rings at 50 to 300 km and the emphasised one at 230 km in order,
  twelve spokes and the marker: 3388 vertices, so a whole number of lines.
\<close>

theorem reference_geometry_complete:
  "\<exists>vs. build_vertices sc = Some vs \<and> length vs = 3388 \<and>
     map_option (map (\<lambda>(km, e). (fp_val km, e))) ring_radii_km =
       Some [(50, False), (100, False), (150, False), (200, False), (230, True), (250, False), (300, False)] \<and>
     map_option (map snd) (ring_labels sc) =
       Some (map lit [''50'', ''100'', ''150'', ''200'', ''230 km'', ''250'', ''300''])"
proof -
  obtain sp where sp: "spokes sc (f32lit 0) = Some sp" "length sp = 24" using spokes_exact by blast
  have "whole_number (FFin False 50) = lit ''50''" "whole_number (FFin False 100) = lit ''100''"
    "whole_number (FFin False 150) = lit ''150''" "whole_number (FFin False 200) = lit ''200''"
    "whole_number (FFin False 230) = lit ''230''" "whole_number (FFin False 250) = lit ''250''"
    "whole_number (FFin False 300) = lit ''300''"
    by code_simp+
  then have labels: "map_option (map snd) (ring_labels sc) =
       Some (map lit [''50'', ''100'', ''150'', ''200'', ''230 km'', ''250'', ''300''])"
    by (simp add: ring_labels_def ring_radii_exact comp_def) (simp add: lit_def)
  have rings: "length (ring_vertices sc r c) = 480" for r c
    by (simp add: ring_vertices_def RING_SEGMENTS_def)
  have "\<exists>vs. build_vertices sc = Some vs \<and> length vs = 3388"
    using sp by (simp add: build_vertices_def ring_radii_exact rings marker_vertices_def Let_def)
  then show ?thesis using labels by (auto simp: ring_radii_exact)
qed

section \<open>The underlay is drawn inside its buffers\<close>

lemma layer_range_ordered:
  assumes "list_all (\<lambda>r. fst (pl_index_range r) \<le> snd (pl_index_range r)) (pj_layers p)"
    and "concat (map (\<lambda>r. [fst (pl_index_range r) ..< snd (pl_index_range r)]) (pj_layers p)) = [0 ..< length (pj_indices p)]"
  shows "set [fst (layer_range p kind) ..< snd (layer_range p kind)] \<subseteq> {0 ..< length (pj_indices p)}"
proof (cases "find (\<lambda>l. pl_kind l = kind) (pj_layers p)")
  case None
  then show ?thesis by (simp add: layer_range_def)
next
  case (Some l)
  then have "l \<in> set (pj_layers p)" by (auto simp: find_Some_iff)
  then have "set [fst (pl_index_range l) ..< snd (pl_index_range l)] \<subseteq>
      set (concat (map (\<lambda>r. [fst (pl_index_range r) ..< snd (pl_index_range r)]) (pj_layers p)))" by auto
  then show ?thesis unfolding assms(2) using Some by (simp add: layer_range_def)
qed

lemma list_allI': "(\<And>x. x \<in> set xs \<Longrightarrow> P x) \<Longrightarrow> list_all P xs"
  by (simp add: list_all_iff)

lemma overlay_layer_range:
  "l \<in> set (or_layers (overlay_new lm p s)) \<Longrightarrow> \<exists>kind. gl_index_range l = layer_range p kind"
  by (auto simp: overlay_new_def Let_def)

lemma overlay_buffers [simp]:
  "or_indices (overlay_new lm p s) = pj_indices p" "or_vertices (overlay_new lm p s) = pj_vertices p"
  by (simp_all add: overlay_new_def Let_def)

text \<open>
  C38: No draw of the underlay leaves its buffers. For every bundle of fewer than \<open>2^31\<close>
  projected points, every site, camera and setting, each range drawn is a part of the index
  buffer, not empty, and each of its indices is that of a vertex; highways are drawn only
  when they are switched on.
\<close>

theorem underlay_draws_in_bounds:
  assumes "projected_points b (layers b) < 2 ^ 31"
  shows "\<exists>p events. project lm b s = Some (p, events) \<and>
    list_all (\<lambda>((first, end_index), _). first < end_index \<and> end_index \<le> length (or_indices (overlay_new lm p s)) \<and>
        list_all (\<lambda>i. i < length (or_vertices (overlay_new lm p s)))
          (take (end_index - first) (drop first (or_indices (overlay_new lm p s)))))
      (draw_overlay (overlay_new lm p s) cam show_highways) \<and>
    length (draw_overlay (overlay_new lm p s) cam show_highways) \<le> (if show_highways then 4 else 3)"
proof -
  obtain p events where p: "project lm b s = Some (p, events)"
      "\<forall>i\<in>set (pj_indices p). i < length (pj_vertices p)"
      "concat (map (\<lambda>r. [fst (pl_index_range r) ..< snd (pl_index_range r)]) (pj_layers p)) = [0 ..< length (pj_indices p)]"
      "\<forall>r\<in>set (pj_layers p). fst (pl_index_range r) \<le> snd (pl_index_range r)"
    using projected_buffers_safe [OF assms] by blast
  have inside: "end_index \<le> length (pj_indices p)"
    if "layer_range p kind = (first, end_index)" "first < end_index" for kind first end_index
  proof -
    have "set [first ..< end_index] \<subseteq> {0 ..< length (pj_indices p)}"
      using layer_range_ordered [of p kind] p(3,4) that(1) by (simp add: list_all_iff)
    moreover have "end_index - 1 \<in> set [first ..< end_index]" using that(2) by auto
    ultimately have "end_index - 1 < length (pj_indices p)" by (meson atLeastLessThan_iff subsetD)
    then show ?thesis using that(2) by linarith
  qed
  have vertex: "list_all (\<lambda>i. i < length (pj_vertices p)) (take n (drop m (pj_indices p)))" for n m
    using p(2) by (auto simp: list_all_iff dest!: in_set_takeD in_set_dropD)
  have "length (filter P xs) \<le> length xs" for P and xs :: "geometry_layer list" by simp
  then have few: "length (draw_overlay (overlay_new lm p s) cam show_highways) \<le> (if show_highways then 4 else 3)"
    by (auto simp: draw_overlay_def overlay_new_def Let_def DRAW_ORDER_def COUNTIES_KIND_def STATES_KIND_def
        COASTLINE_KIND_def ROADS_KIND_def)
  have "list_all (\<lambda>((first, end_index), _). first < end_index \<and> end_index \<le> length (pj_indices p) \<and>
        list_all (\<lambda>i. i < length (pj_vertices p)) (take (end_index - first) (drop first (pj_indices p))))
      (draw_overlay (overlay_new lm p s) cam show_highways)"
  proof (rule list_allI')
    fix d
    assume "d \<in> set (draw_overlay (overlay_new lm p s) cam show_highways)"
    then obtain l where l: "l \<in> set (or_layers (overlay_new lm p s))" "fst (gl_index_range l) < snd (gl_index_range l)"
        "fst d = gl_index_range l"
      unfolding draw_overlay_def by auto
    obtain kind where "gl_index_range l = layer_range p kind" using l(1) overlay_layer_range by blast
    then show "(\<lambda>((first, end_index), _). first < end_index \<and> end_index \<le> length (pj_indices p) \<and>
        list_all (\<lambda>i. i < length (pj_vertices p)) (take (end_index - first) (drop first (pj_indices p)))) d"
      using l(2,3) inside [of kind "fst (fst d)" "snd (fst d)"] vertex by (simp add: split_beta)
  qed
  then show ?thesis using p(1) few by auto
qed

theorem underlay_draws_in_bounds_witness:
  "\<exists>p events. project sample_libm (bundle_of sample_bundle []) (hd SITES) = Some (p, events) \<and>
    length (draw_overlay (overlay_new sample_libm p (hd SITES)) \<lparr>cm_center_m = (f64lit 0, f64lit 0), cm_m_per_px = f64lit 60,
      cm_viewport = (f32lit 1, f32lit 1)\<rparr> False) \<le> 3"
proof -
  have "projected_points (bundle_of sample_bundle []) (layers (bundle_of sample_bundle [])) < 2 ^ 31"
    by (simp add: sample_bundle_points)
  from underlay_draws_in_bounds [OF this, of sample_libm "hd SITES" "\<lparr>cm_center_m = (f64lit 0, f64lit 0), cm_m_per_px = f64lit 60,
      cm_viewport = (f32lit 1, f32lit 1)\<rparr>" False] show ?thesis by auto
qed

end
