(* ===== verification/Calendar.thy ===== *)
theory Calendar
  imports Text "HOL-Library.Signed_Division"
begin

text \<open>
  The scan time of the status bar, \<open>render/time.rs\<close>: a NEXRAD day count and milliseconds
  of the day become a civil date and time. The \<open>i64\<close> arithmetic stays far from its ends
  for the day counts a \<open>u16\<close> gives, so it is integer arithmetic here; where the dividend
  may be negative the division is the truncating one of the source.
\<close>

section \<open>The conversion\<close>

definition year_of_era :: "int \<Rightarrow> int" where
  "year_of_era doe = (doe - doe div 1460 + doe div 36524 - doe div 146096) div 365"

definition civil_from_days :: "int \<Rightarrow> int \<times> int \<times> int" where
  "civil_from_days z =
     (let z = z + 719468;
          era = (if 0 \<le> z then z else z - 146096) sdiv 146097;
          doe = z - era * 146097;
          yoe = year_of_era doe;
          y = yoe + era * 400;
          doy = doe - (365 * yoe + yoe div 4 - yoe div 100);
          mp = (5 * doy + 2) div 153;
          d = doy - (153 * mp + 2) div 5 + 1;
          m = (if mp < 10 then mp + 3 else mp - 9);
          year = (if m \<le> 2 then y + 1 else y)
      in (year, m, d))"

type_synonym civil_time = "int \<times> int \<times> int \<times> int \<times> int \<times> int"

definition utc_from_nexrad :: "u16 \<Rightarrow> u32 \<Rightarrow> civil_time" where
  "utc_from_nexrad julian_date scan_time_ms =
     (let (year, month, day) = civil_from_days (uint julian_date - 1);
          secs_of_day = min (uint scan_time_ms div 1000) 86399
      in (year, month, day, secs_of_day div 3600, secs_of_day mod 3600 div 60, secs_of_day mod 60))"

section \<open>The calendar it has to agree with\<close>

definition leap_year :: "int \<Rightarrow> bool" where
  "leap_year y = (y mod 4 = 0 \<and> (y mod 100 \<noteq> 0 \<or> y mod 400 = 0))"

definition month_length :: "int \<Rightarrow> int \<Rightarrow> int" where
  "month_length y m =
     (if m = 2 then if leap_year y then 29 else 28
      else if m \<in> {4, 6, 9, 11} then 30 else 31)"

definition days_before_month :: "int \<Rightarrow> int \<Rightarrow> int" where
  "days_before_month y m = (\<Sum>k\<leftarrow>[1..m - 1]. month_length y k)"

text \<open>Leap years up to a year, and the days from 1970-01-01 to a date.\<close>

definition leap_years_to :: "int \<Rightarrow> int" where
  "leap_years_to y = y div 4 - y div 100 + y div 400"

definition day_number :: "int \<Rightarrow> int \<Rightarrow> int \<Rightarrow> int" where
  "day_number y m d =
     365 * (y - 1970) + (leap_years_to (y - 1) - leap_years_to 1969) + days_before_month y m + (d - 1)"

definition civil_date :: "int \<Rightarrow> int \<Rightarrow> int \<Rightarrow> bool" where
  "civil_date y m d = (1 \<le> m \<and> m \<le> 12 \<and> 1 \<le> d \<and> d \<le> month_length y m)"

lemma dvd_numeral_400: "(100 :: int) dvd 400" and dvd_numeral_100: "(4 :: int) dvd 100"
  by simp_all

lemma leap_years_to_step: "leap_years_to y = leap_years_to (y - 1) + (if leap_year y then 1 else 0)"
proof -
  have step: "y div n = (y - 1) div n + (if y mod n = 0 then 1 else 0)" if "0 < n" for n :: int
  proof (cases "y mod n = 0")
    case True
    then obtain k where k: "y = n * k" by (metis mod_0_imp_dvd dvdE)
    have "(n * k - 1) div n = k - 1"
      using that by (intro int_div_pos_eq [of _ _ _ "n - 1"]) (auto simp: algebra_simps)
    then show ?thesis using k that by simp
  next
    case False
    have "0 \<le> y mod n" "y mod n < n" using that by simp_all
    then have "(y - 1) div n = y div n"
      using False by (intro int_div_pos_eq [of _ _ _ "y mod n - 1"]) (auto simp: algebra_simps)
    then show ?thesis using False by simp
  qed
  have nested: "y mod 400 = 0 \<Longrightarrow> y mod 100 = 0" "y mod 100 = 0 \<Longrightarrow> y mod 4 = 0"
    by (metis dvd_eq_mod_eq_0 dvd_trans dvd_numeral_400) (metis dvd_eq_mod_eq_0 dvd_trans dvd_numeral_100)
  define by4 by100 by400 where flags: "by4 = (y mod 4 = 0)" "by100 = (y mod 100 = 0)" "by400 = (y mod 400 = 0)"
  have "y div 4 = (y - 1) div 4 + (if by4 then 1 else 0)" "y div 100 = (y - 1) div 100 + (if by100 then 1 else 0)"
    "y div 400 = (y - 1) div 400 + (if by400 then 1 else 0)"
    unfolding flags by (rule step, simp)+
  moreover have "by400 \<Longrightarrow> by100" "by100 \<Longrightarrow> by4" unfolding flags by (fact nested)+
  moreover have "leap_year y = (by4 \<and> (\<not> by100 \<or> by400))" unfolding leap_year_def flags by blast
  ultimately show ?thesis unfolding leap_years_to_def by (cases by4; cases by100; cases by400; simp only: if_True if_False simp_thms; linarith)
qed

section \<open>The year of the era\<close>

definition era_year_start :: "int \<Rightarrow> int" where
  "era_year_start y = 365 * y + leap_years_to y"

lemma era_years_checked:
  "list_all (\<lambda>y. 0 \<le> era_year_start y \<and> year_of_era (era_year_start y) = y \<and>
     year_of_era (era_year_start (y + 1) - 1) = y) [0..399]"
  by code_simp

lemma era_year_ends:
  assumes "0 \<le> y" "y \<le> 399"
  shows "0 \<le> era_year_start y" "year_of_era (era_year_start y) = y"
    "year_of_era (era_year_start (y + 1) - 1) = y"
  using era_years_checked assms by (auto simp: list_all_iff)

lemma div_step: "(a + 1) div n \<le> a div n + 1" if "1 \<le> n" for a n :: int
proof -
  have "(a + 1) div n \<le> (a + n) div n" using that by (intro zdiv_mono1) auto
  moreover have "(a + n) div n = a div n + 1" using that by (intro div_add_self2) simp
  ultimately show ?thesis by simp
qed

lemma year_of_era_step:
  assumes "0 \<le> a"
  shows "year_of_era a \<le> year_of_era (a + 1)"
proof -
  have "(a + 1) div 1460 - a div 1460 \<le> 1" using div_step [of 1460 a] by simp
  moreover have "(a + 1) div 146096 - a div 146096 \<le> (a + 1) div 36524 - a div 36524"
  proof -
    have "(a + 1) div 36524 div 4 \<le> a div 36524 div 4 + ((a + 1) div 36524 - a div 36524)"
    proof -
      have le: "a div 36524 \<le> (a + 1) div 36524" by (intro zdiv_mono1) auto
      have "p div 4 \<le> q div 4 + (p - q)" if "q \<le> p" for p q :: int using that by presburger
      then show ?thesis using le by blast
    qed
    then show ?thesis by (simp flip: zdiv_zmult2_eq)
  qed
  ultimately show ?thesis unfolding year_of_era_def by (intro zdiv_mono1) auto
qed

lemma year_of_era_mono:
  assumes "0 \<le> a" "a \<le> b"
  shows "year_of_era a \<le> year_of_era b"
  using assms(2)
proof (induction b rule: int_ge_induct)
  case (step b)
  then show ?case using year_of_era_step [of b] assms(1) by linarith
qed simp

lemma year_of_era_bounds:
  assumes "0 \<le> doe" "doe \<le> 146096"
  defines "y \<equiv> year_of_era doe"
  shows "0 \<le> y" "y \<le> 399" "era_year_start y \<le> doe" "doe < era_year_start (y + 1)"
proof -
  have "year_of_era 0 = 0" "year_of_era 146096 = 399" by code_simp+
  then show bounds: "0 \<le> y" "y \<le> 399"
    using year_of_era_mono [of 0 doe] year_of_era_mono [of doe 146096] assms by auto
  show "era_year_start y \<le> doe"
  proof (rule ccontr)
    assume early: "\<not> era_year_start y \<le> doe"
    have "y \<noteq> 0" using early assms(1) by (auto simp: era_year_start_def leap_years_to_def)
    then have "year_of_era (era_year_start y - 1) = y - 1"
      using era_year_ends(3) [of "y - 1"] bounds by simp
    then show False using year_of_era_mono [of doe "era_year_start y - 1"] early assms by auto
  qed
  show "doe < era_year_start (y + 1)"
  proof (cases "y = 399")
    case True
    have "era_year_start (399 + 1) = 146097" by code_simp
    then have "era_year_start (y + 1) = 146097" using True by simp
    then show ?thesis using assms(2) by simp
  next
    case False
    show ?thesis
    proof (rule ccontr)
      assume late: "\<not> doe < era_year_start (y + 1)"
      have "0 \<le> era_year_start (y + 1)"
        using era_year_ends(1) [of "y + 1"] bounds False by simp
      then have "year_of_era (era_year_start (y + 1)) \<le> y"
        using year_of_era_mono [of "era_year_start (y + 1)" doe] late unfolding y_def by linarith
      then show False using era_year_ends(2) [of "y + 1"] bounds False by linarith
    qed
  qed
qed

section \<open>The day of the year\<close>

definition march_month_start :: "int list" where
  "march_month_start = [0, 31, 61, 92, 122, 153, 184, 214, 245, 275, 306, 337]"

definition march_month_length :: "int list" where
  "march_month_length = [31, 30, 31, 30, 31, 31, 30, 31, 30, 31, 31, 29]"

definition month_of_year :: "int \<Rightarrow> int \<times> int" where
  "month_of_year doy = (let mp = (5 * doy + 2) div 153 in (mp, doy - (153 * mp + 2) div 5 + 1))"

lemma months_checked:
  "list_all (\<lambda>doy. let (mp, d) = month_of_year doy in
     0 \<le> mp \<and> mp \<le> 11 \<and> 1 \<le> d \<and> d \<le> march_month_length ! nat mp \<and>
     doy = march_month_start ! nat mp + (d - 1) \<and> (mp = 11 \<and> doy \<le> 364 \<longrightarrow> d \<le> 28)) [0..365]"
  by code_simp

lemma month_of_year_exact:
  assumes "0 \<le> doy" "doy \<le> 365" "month_of_year doy = (mp, d)"
  shows "0 \<le> mp" "mp \<le> 11" "1 \<le> d" "d \<le> march_month_length ! nat mp"
    "doy = march_month_start ! nat mp + (d - 1)" "mp = 11 \<Longrightarrow> doy \<le> 364 \<Longrightarrow> d \<le> 28"
proof -
  have "doy \<in> set [0..365]" using assms by simp
  from months_checked [unfolded list_all_iff, rule_format, OF this]
  show "0 \<le> mp" "mp \<le> 11" "1 \<le> d" "d \<le> march_month_length ! nat mp"
    "doy = march_month_start ! nat mp + (d - 1)" "mp = 11 \<Longrightarrow> doy \<le> 364 \<Longrightarrow> d \<le> 28"
    unfolding assms(3) by auto
qed

lemma days_before_month_march:
  assumes "0 \<le> mp" "mp \<le> 11" "m = (if mp < 10 then mp + 3 else mp - 9)"
  shows "days_before_month y m =
    (if mp < 10 then march_month_start ! nat mp + (if leap_year y then 60 else 59)
     else march_month_start ! nat mp - 306)"
    and "month_length y m = (if mp = 11 then if leap_year y then 29 else 28 else march_month_length ! nat mp)"
proof -
  have cases12: "mp \<in> {0, 1, 2, 3, 4, 5, 6, 7, 8, 9, 10, 11}"
    using assms(1,2) by (simp, presburger)
  show "days_before_month y m =
    (if mp < 10 then march_month_start ! nat mp + (if leap_year y then 60 else 59)
     else march_month_start ! nat mp - 306)"
    using cases12 unfolding assms(3) days_before_month_def march_month_start_def
    by (elim insertE emptyE) (simp_all add: upto.simps month_length_def)
  show "month_length y m = (if mp = 11 then if leap_year y then 29 else 28 else march_month_length ! nat mp)"
    using cases12 unfolding assms(3) march_month_length_def
    by (elim insertE emptyE) (simp_all add: month_length_def)
qed

section \<open>The conversion is exact\<close>

lemma era_floor: "(if 0 \<le> z then z else z - 146096) sdiv 146097 = z div 146097" for z :: int
proof (cases "0 \<le> z")
  case True
  then have "z sdiv 146097 = z div 146097"
    by (cases "z = 0") (simp_all add: signed_divide_int_def)
  then show ?thesis using True by simp
next
  case False
  have "(z - 146096) sdiv 146097 = - ((146096 - z) div 146097)"
    using False by (simp add: signed_divide_int_def)
  also have "- ((146096 - z) div 146097) = z div 146097"
  proof -
    define q r where qr: "q = z div 146097" "r = z mod 146097"
    have z: "z = 146097 * q + r" "0 \<le> r" "r < 146097" unfolding qr by simp_all
    have "(146096 - z) div 146097 = - q" using z by (intro int_div_pos_eq [of _ _ _ "146096 - r"]) auto
    then show ?thesis using qr by simp
  qed
  finally show ?thesis using False by simp
qed

lemma leap_years_to_era: "leap_years_to (y + e * 400) = leap_years_to y + 97 * e"
proof -
  have "(y + (100 * e) * 4) div 4 = 100 * e + y div 4" "(y + (4 * e) * 100) div 100 = 4 * e + y div 100"
    "(y + e * 400) div 400 = e + y div 400"
    by (rule div_mult_self1, simp)+
  then show ?thesis unfolding leap_years_to_def by (simp add: algebra_simps)
qed

lemma leap_year_era: "leap_year (y + e * 400) = leap_year y"
proof -
  have "(y + (100 * e) * 4) mod 4 = y mod 4" "(y + (4 * e) * 100) mod 100 = y mod 100"
    "(y + e * 400) mod 400 = y mod 400"
    by (rule mod_mult_self1)+
  then show ?thesis unfolding leap_year_def by (simp add: algebra_simps)
qed

lemma civil_from_days_parts:
  obtains e y mp d doy where
    "civil_from_days z =
       (y + e * 400 + (if mp < 10 then 0 else 1), if mp < 10 then mp + 3 else mp - 9, d)"
    "0 \<le> y" "y \<le> 399" "z + 719468 = e * 146097 + era_year_start y + doy"
    "0 \<le> doy" "doy \<le> 364 + (if leap_year (y + 1) then 1 else 0)"
    "(mp, d) = month_of_year doy"
proof -
  define e where "e = (z + 719468) div 146097"
  define doe where "doe = z + 719468 - e * 146097"
  have doe: "0 \<le> doe" "doe \<le> 146096"
    unfolding doe_def e_def using pos_mod_bound [of 146097 "z + 719468"] pos_mod_sign [of 146097 "z + 719468"]
    by (simp_all add: minus_div_mult_eq_mod)
  define y where "y = year_of_era doe"
  have y: "0 \<le> y" "y \<le> 399" "era_year_start y \<le> doe" "doe < era_year_start (y + 1)"
    unfolding y_def using year_of_era_bounds [OF doe] by auto
  define doy where "doy = doe - era_year_start y"
  obtain mp d where md: "month_of_year doy = (mp, d)" by fastforce
  have "y div 400 = 0" using y by simp
  then have start: "era_year_start y = 365 * y + y div 4 - y div 100"
    unfolding era_year_start_def leap_years_to_def by simp
  have month: "mp = (5 * doy + 2) div 153" "d = doy - (153 * mp + 2) div 5 + 1"
    using md unfolding month_of_year_def by (auto simp: Let_def)
  have short: "0 \<le> doy" "doy \<le> 364 + (if leap_year (y + 1) then 1 else 0)"
    using y(3,4) leap_years_to_step [of "y + 1"] unfolding doy_def era_year_start_def by auto
  then have mp: "0 \<le> mp" "mp \<le> 11"
    using month_of_year_exact(1,2) [OF short(1) _ md] by (auto split: if_splits)
  have "civil_from_days z =
      (y + e * 400 + (if mp < 10 then 0 else 1), if mp < 10 then mp + 3 else mp - 9, d)"
    unfolding civil_from_days_def Let_def era_floor
    unfolding e_def [symmetric] doe_def [symmetric] y_def [symmetric] start [symmetric] doy_def [symmetric]
      month(1) [symmetric] month(2) [symmetric]
    using mp by (cases "mp < 10") auto
  then show ?thesis
    by (intro that [of y e mp d doy]) (use y short md in \<open>auto simp: doy_def doe_def\<close>)
qed


lemma civil_from_days_exact:
  assumes "civil_from_days z = (year, month, day)"
  shows "civil_date year month day" "day_number year month day = z"
proof -
  obtain e y mp d doy where civil: "civil_from_days z =
        (y + e * 400 + (if mp < 10 then 0 else 1), if mp < 10 then mp + 3 else mp - 9, d)"
    and y: "0 \<le> y" "y \<le> 399" "z + 719468 = e * 146097 + era_year_start y + doy"
    and doy: "0 \<le> doy" "doy \<le> 364 + (if leap_year (y + 1) then 1 else 0)"
    and md: "(mp, d) = month_of_year doy"
    by (rule civil_from_days_parts)
  have within_year: "doy \<le> 365" using doy(2) by (auto split: if_splits)
  note parts = month_of_year_exact [OF doy(1) within_year md [symmetric]]
  have out: "year = y + e * 400 + (if mp < 10 then 0 else 1)" "month = (if mp < 10 then mp + 3 else mp - 9)" "day = d"
    using assms civil by auto
  note march = days_before_month_march [OF parts(1,2) out(2), of year]
  have leap: "leap_year year = leap_year (if mp < 10 then y else y + 1)"
    unfolding out(1) using leap_year_era [of y e] leap_year_era [of "y + 1" e] by (auto simp: algebra_simps)
  have "d \<le> month_length year month"
    unfolding march(2) using parts(4,6) doy(2) leap by (cases "mp = 11") (auto simp: march_month_length_def)
  then show "civil_date year month day"
    unfolding civil_date_def out(2,3) using parts(1,2,3) out(2) by auto
  have until: "leap_years_to (year - 1) =
      97 * e + leap_years_to y - (if mp < 10 \<and> leap_year y then 1 else 0)"
    using leap_years_to_era [of y e] leap_years_to_step [of "y + e * 400"] leap_year_era [of y e] out(1)
    by (auto simp: algebra_simps)
  have "leap_years_to 1969 = 477" by code_simp
  then show "day_number year month day = z"
    unfolding day_number_def march(1) until out(3)
    using y(3) parts(5) leap out(1) by (auto simp: era_year_start_def algebra_simps)
qed


lemma time_of_day:
  fixes secs :: int
  assumes "0 \<le> secs" "secs \<le> 86399"
  shows "secs div 3600 < 24" "secs mod 3600 div 60 < 60"
    "(secs div 3600 * 60 + secs mod 3600 div 60) * 60 + secs mod 60 = secs"
proof -
  show "secs div 3600 < 24" using assms by (simp add: div_less_iff_less_mult)
  have "secs mod 3600 < 3600" by simp
  then show "secs mod 3600 div 60 < 60" by (simp add: div_less_iff_less_mult)
  have "secs mod 3600 mod 60 = secs mod 60" by (rule mod_mod_cancel) simp
  then have "secs mod 3600 = 60 * (secs mod 3600 div 60) + secs mod 60"
    using mult_div_mod_eq [of 60 "secs mod 3600"] by simp
  moreover have "(h * 60 + m) * 60 + s = 3600 * h + (60 * m + s)" for h m s :: int by simp
  ultimately show "(secs div 3600 * 60 + secs mod 3600 div 60) * 60 + secs mod 60 = secs"
    using mult_div_mod_eq [of 3600 secs] by metis
qed

text \<open>
  C26: The status bar shows the true scan time: for every day count and every
  millisecond field the date is a date of the Gregorian calendar, it is as many days after
  1970-01-01 as the NEXRAD field says (day 1 is the epoch), and the time is that of the
  second of the day, which a malformed field cannot carry past 23:59:59.
\<close>

theorem scan_time_exact:
  "case utc_from_nexrad julian_date scan_time_ms of (year, month, day, hour, minute, second) \<Rightarrow>
     civil_date year month day \<and> day_number year month day = uint julian_date - 1 \<and>
     0 \<le> hour \<and> hour < 24 \<and> 0 \<le> minute \<and> minute < 60 \<and> 0 \<le> second \<and> second < 60 \<and>
     (hour * 60 + minute) * 60 + second = min (uint scan_time_ms div 1000) 86399"
proof -
  obtain year month day where civil: "civil_from_days (uint julian_date - 1) = (year, month, day)"
    by (cases "civil_from_days (uint julian_date - 1)") auto
  define secs where "secs = min (uint scan_time_ms div 1000) 86399"
  have "0 \<le> uint scan_time_ms div 1000" by (simp add: pos_imp_zdiv_nonneg_iff)
  then have "0 \<le> secs" "secs \<le> 86399" unfolding secs_def by auto
  then show ?thesis
    unfolding utc_from_nexrad_def civil Let_def prod.case secs_def [symmetric]
    using civil_from_days_exact [OF civil] time_of_day [of secs] by (auto simp: pos_imp_zdiv_nonneg_iff)
qed

section \<open>The text\<close>

text \<open>Zero-padded decimal, as \<open>{:04}\<close> and \<open>{:02}\<close> print it; every field is nonnegative here.\<close>

definition pad_decimal :: "nat \<Rightarrow> int \<Rightarrow> utext" where
  "pad_decimal width n = (let d = decimal (nat n) in replicate (width - length d) 48 @ d)"

definition format_utc :: "civil_time \<Rightarrow> utext" where
  "format_utc t =
     (let (y, mo, d, h, mi, s) = t in
      pad_decimal 4 y @ lit ''-'' @ pad_decimal 2 mo @ lit ''-'' @ pad_decimal 2 d @ lit '' '' @
      pad_decimal 2 h @ lit '':'' @ pad_decimal 2 mi @ lit '':'' @ pad_decimal 2 s @ lit ''Z'')"

lemma format_utc_example: "format_utc (utc_from_nexrad 20634 65460000) = lit ''2026-06-29 18:11:00Z''"
  by code_simp

end
