(* ===== verification/Gpu_Adapter.thy ===== *)
theory Gpu_Adapter
  imports Text "HOL-Library.Product_Lexorder" "HOL-Library.Sublist"
begin

text \<open>
  The choice of the graphics adapter, \<open>render/adapter.rs\<close>: the ranking of the adapters that
  can present, the operator's override, and the discovery of the connected displays in
  sysfs. The file system is a record of the outcomes of its reads; the debug texts of names
  and backends in the error report are arguments.
\<close>

section \<open>Facts\<close>

record display_device =
  dd_pci_address :: utext
  dd_vendor_id :: u32
  dd_device_id :: u32

text \<open>The kinds of \<open>wgpu\<close> that the code tells apart; any other is \<open>Other_Type\<close>, \<open>Other_Backend\<close>.\<close>

datatype device_type = IntegratedGpu | DiscreteGpu | Cpu | Other_Type utext
datatype backend = Vulkan | Other_Backend utext

record adapter_facts =
  af_index :: nat
  af_name :: utext
  af_pci_address :: utext
  af_vendor :: u32
  af_device :: u32
  af_device_type :: device_type
  af_backend :: backend
  af_presents_to_surface :: bool

datatype selection_reason =
  MatchedDisplay | MatchedDisplayVendorDevice | NoDisplayInfo | ForcedByOverride | SoftwareRasteriser

definition same_ignoring_case :: "utext \<Rightarrow> utext \<Rightarrow> bool" where
  "same_ignoring_case a b = (ascii_lower a = ascii_lower b)"

section \<open>Ranking\<close>

definition pci_match :: "adapter_facts \<Rightarrow> display_device list \<Rightarrow> bool" where
  "pci_match a displays =
     (af_pci_address a \<noteq> [] \<and> list_ex (\<lambda>d. same_ignoring_case (dd_pci_address d) (af_pci_address a)) displays)"

definition device_match :: "adapter_facts \<Rightarrow> display_device list \<Rightarrow> bool" where
  "device_match a displays =
     list_ex (\<lambda>d. dd_vendor_id d = af_vendor a \<and> dd_device_id d = af_device a) displays"

definition score :: "adapter_facts \<Rightarrow> display_device list \<Rightarrow> bool \<Rightarrow> int" where
  "score a displays have_display_info =
     (let s = (if pci_match a displays then 1000 else if device_match a displays then 500 else 0);
          s = (if \<not> have_display_info \<and> af_device_type a = DiscreteGpu then s + 100 else s)
      in if af_backend a = Vulkan then s + 10 else s)"

definition candidates :: "adapter_facts list \<Rightarrow> adapter_facts list" where
  "candidates adapters =
     (let hardware = filter (\<lambda>a. af_presents_to_surface a \<and> af_device_type a \<noteq> Cpu) adapters
      in if hardware = [] then filter af_presents_to_surface adapters else hardware)"

definition rank :: "adapter_facts list \<Rightarrow> display_device list \<Rightarrow> nat list" where
  "rank adapters displays =
     (let have_display_info = (displays \<noteq> []);
          scored = map (\<lambda>a. (score a displays have_display_info, af_index a)) (candidates adapters)
      in map snd (sort_key (\<lambda>(s, i). (- s, i)) scored))"

definition reason_for :: "adapter_facts \<Rightarrow> display_device list \<Rightarrow> selection_reason" where
  "reason_for chosen displays =
     (if af_device_type chosen = Cpu then SoftwareRasteriser
      else if pci_match chosen displays then MatchedDisplay
      else if device_match chosen displays then MatchedDisplayVendorDevice
      else NoDisplayInfo)"

section \<open>The override\<close>

datatype gpu_override = PciAddress utext | NameSubstring utext | Discrete | Integrated

record override_unmatched =
  ou_requested :: utext
  ou_available :: "utext list"

definition hex_char :: "nat \<Rightarrow> bool" where
  "hex_char c = (char_digit c \<or> (65 \<le> c \<and> c \<le> 70) \<or> (97 \<le> c \<and> c \<le> 102))"

text \<open>Every one of the twelve bytes is tested for an ASCII character, so characters are bytes.\<close>

definition looks_like_pci :: "utext \<Rightarrow> bool" where
  "looks_like_pci s =
     (length s = 12 \<and> list_all hex_char (take 4 s) \<and> s ! 4 = 58 \<and> list_all hex_char (take 2 (drop 5 s)) \<and>
      s ! 7 = 58 \<and> list_all hex_char (take 2 (drop 8 s)) \<and> s ! 10 = 46 \<and> char_digit (s ! 11))"

definition parse_override :: "utext \<Rightarrow> gpu_override option" where
  "parse_override raw =
     (let v = trim raw in
      if v = [] then None
      else let lower = ascii_lower v in
        Some (if lower = lit ''discrete'' then Discrete
              else if lower = lit ''integrated'' then Integrated
              else if looks_like_pci lower then PciAddress lower
              else NameSubstring lower))"

fun contains :: "utext \<Rightarrow> utext \<Rightarrow> bool" where
  "contains s [] = (s = [])"
| "contains s (c # t) = (prefix s (c # t) \<or> contains s t)"

fun override_matches :: "gpu_override \<Rightarrow> adapter_facts \<Rightarrow> bool" where
  "override_matches (PciAddress p) a = same_ignoring_case (af_pci_address a) p"
| "override_matches (NameSubstring s) a = contains s (ascii_lower (af_name a))"
| "override_matches Discrete a = (af_device_type a = DiscreteGpu)"
| "override_matches Integrated a = (af_device_type a = IntegratedGpu)"

definition pci_or_dash :: "utext \<Rightarrow> utext" where
  "pci_or_dash pci = (if pci = [] then lit ''-'' else pci)"

text \<open>\<open>debug_text\<close> and \<open>debug_backend\<close> are the debug renderings of the standard library and \<open>wgpu\<close>.\<close>

fun describe :: "(utext \<Rightarrow> utext) \<Rightarrow> gpu_override \<Rightarrow> utext" where
  "describe debug_text (PciAddress p) = lit ''PCI address '' @ p"
| "describe debug_text (NameSubstring s) = lit ''name containing '' @ debug_text s"
| "describe debug_text Discrete = lit ''discrete''"
| "describe debug_text Integrated = lit ''integrated''"

definition select_override ::
  "(utext \<Rightarrow> utext) \<Rightarrow> (backend \<Rightarrow> utext) \<Rightarrow> gpu_override \<Rightarrow> adapter_facts list \<Rightarrow> override_unmatched + nat list" where
  "select_override debug_text debug_backend ov adapters =
     (let hits = map af_index (filter (override_matches ov) adapters) in
      if hits = [] then
        Err \<lparr>ou_requested = describe debug_text ov,
             ou_available = map (\<lambda>a. af_name a @ lit '' ('' @ debug_backend (af_backend a) @ lit '', '' @
               pci_or_dash (af_pci_address a) @ lit '')'') adapters\<rparr>
      else Ok hits)"

section \<open>The displays\<close>

text \<open>Outcomes of the reads below \<open>class/drm\<close>: \<open>None\<close> where a read fails or a name is not UTF-8.\<close>

record sysfs =
  sf_entries :: "utext option list option"
  sf_read :: "utext \<Rightarrow> utext option"
  sf_link :: "utext \<Rightarrow> utext option"

definition hex_value :: "utext \<Rightarrow> nat" where
  "hex_value ds = foldl (\<lambda>n d. 16 * n + (if d \<le> 57 then d - 48 else if d \<le> 70 then d - 55 else d - 87)) 0 ds"

definition parse_hex_u32 :: "utext \<Rightarrow> u32 option" where
  "parse_hex_u32 t =
     (let ds = (case t of [] \<Rightarrow> [] | c # cs \<Rightarrow> if c = 43 then cs else t)
      in if ds = [] \<or> \<not> list_all hex_char ds \<or> 2 ^ 32 \<le> hex_value ds then None else Some (of_nat (hex_value ds)))"

definition read_hex :: "sysfs \<Rightarrow> utext \<Rightarrow> u32 option" where
  "read_hex fs path =
     Option.bind (sf_read fs path) (\<lambda>raw.
       let raw = trim raw in
       parse_hex_u32 (if prefix (lit ''0x'') raw then drop 2 raw else raw))"

text \<open>\<open>Path::file_name\<close>: the last component, unless it is the parent directory.\<close>

definition file_name :: "utext \<Rightarrow> utext option" where
  "file_name path =
     (let parts = filter (\<lambda>s. s \<noteq> [] \<and> s \<noteq> lit ''.'') (split_on 47 path) in
      if parts = [] \<or> List.last parts = lit ''..'' then None else Some (List.last parts))"

definition read_pci_device :: "sysfs \<Rightarrow> utext \<Rightarrow> display_device option" where
  "read_pci_device fs device_link =
     Option.bind (Option.bind (sf_link fs device_link) file_name) (\<lambda>pci_address.
     Option.bind (read_hex fs (device_link @ lit ''/vendor'')) (\<lambda>vendor_id.
     Option.bind (read_hex fs (device_link @ lit ''/device'')) (\<lambda>device_id.
     Some \<lparr>dd_pci_address = pci_address, dd_vendor_id = vendor_id, dd_device_id = device_id\<rparr>)))"

definition connector_device :: "sysfs \<Rightarrow> utext option \<Rightarrow> display_device option" where
  "connector_device fs entry =
     Option.bind entry (\<lambda>name.
     Option.bind (split_once 45 name) (\<lambda>(card, _).
     if \<not> prefix (lit ''card'') card then None
     else Option.bind (sf_read fs (name @ lit ''/status'')) (\<lambda>status.
       if same_ignoring_case (trim status) (lit ''connected'') then read_pci_device fs (card @ lit ''/device'')
       else None)))"

fun add_displays :: "sysfs \<Rightarrow> utext option list \<Rightarrow> display_device list \<Rightarrow> display_device list" where
  "add_displays fs [] out = out"
| "add_displays fs (entry # entries) out =
     (case connector_device fs entry of
        None \<Rightarrow> add_displays fs entries out
      | Some device \<Rightarrow>
          add_displays fs entries
            (if list_ex (\<lambda>d. dd_pci_address d = dd_pci_address device) out then out else out @ [device]))"

definition discover_displays :: "sysfs \<Rightarrow> display_device list" where
  "discover_displays fs = (case sf_entries fs of None \<Rightarrow> [] | Some entries \<Rightarrow> add_displays fs entries [])"

section \<open>Properties\<close>

lemma score_pci: "pci_match a displays \<longleftrightarrow> 1000 \<le> score a displays info"
  by (simp add: score_def Let_def)

lemma insort_key_map: "insort_key k (f x) (map f xs) = map f (insort_key (\<lambda>x. k (f x)) x xs)"
  by (induction xs) simp_all

lemma sort_key_map: "sort_key k (map f xs) = map f (sort_key (\<lambda>x. k (f x)) xs)"
  by (induction xs) (simp_all add: insort_key_map)

definition preference :: "display_device list \<Rightarrow> adapter_facts \<Rightarrow> int \<times> nat" where
  "preference displays a = (- score a displays (displays \<noteq> []), af_index a)"

lemma rank_sorted: "rank adapters displays = map af_index (sort_key (preference displays) (candidates adapters))"
proof -
  have "sort_key (\<lambda>(s, i). (- s, i)) (map (\<lambda>a. (score a displays (displays \<noteq> []), af_index a)) (candidates adapters)) =
      map (\<lambda>a. (score a displays (displays \<noteq> []), af_index a)) (sort_key (preference displays) (candidates adapters))"
    by (simp add: sort_key_map preference_def [abs_def])
  then show ?thesis by (simp add: rank_def Let_def comp_def)
qed

lemma candidates_hardware:
  "a \<in> set adapters \<Longrightarrow> af_presents_to_surface a \<Longrightarrow> af_device_type a \<noteq> Cpu \<Longrightarrow>
   candidates adapters = filter (\<lambda>a. af_presents_to_surface a \<and> af_device_type a \<noteq> Cpu) adapters"
  by (auto simp: candidates_def filter_empty_conv Let_def)

text \<open>
  C27: the adapter that drives the display is chosen. When some hardware adapter that can
  present is the one of a connected display, the first in the ranking is such an adapter.
  In every case the ranking holds each candidate once, by falling score and rising index;
  an adapter that cannot present is never in it, a software one only when there is nothing
  else, and it is empty only when nothing can present.
\<close>

theorem display_adapter_first:
  "(\<exists>ranked. rank adapters displays = map af_index ranked \<and> mset ranked = mset (candidates adapters) \<and>
      sorted (map (preference displays) ranked) \<and>
      (\<forall>a. a \<in> set ranked \<longrightarrow> a \<in> set adapters \<and> af_presents_to_surface a) \<and>
      (\<forall>a b. a \<in> set ranked \<and> af_device_type a = Cpu \<and> b \<in> set adapters \<and> af_presents_to_surface b \<longrightarrow>
         af_device_type b = Cpu) \<and>
      (ranked = [] \<longleftrightarrow> \<not> list_ex af_presents_to_surface adapters)) \<and>
   (\<forall>a. a \<in> set adapters \<and> af_presents_to_surface a \<and> af_device_type a \<noteq> Cpu \<and> pci_match a displays \<longrightarrow>
      (\<exists>b rest. rank adapters displays = af_index b # rest \<and> b \<in> set adapters \<and> pci_match b displays \<and>
         reason_for b displays = MatchedDisplay))"
proof -
  let ?r = "sort_key (preference displays) (candidates adapters)"
  have mset: "mset ?r = mset (candidates adapters)" "set ?r = set (candidates adapters)" by simp_all
  have sorted: "sorted (map (preference displays) ?r)" by simp
  have sub: "a \<in> set (candidates adapters) \<Longrightarrow> a \<in> set adapters \<and> af_presents_to_surface a" for a
    by (auto simp: candidates_def Let_def split: if_splits)
  have soft: "af_device_type b = Cpu" if "a \<in> set (candidates adapters)" "af_device_type a = Cpu"
      "b \<in> set adapters" "af_presents_to_surface b" for a b
  proof (rule ccontr)
    assume hw: "af_device_type b \<noteq> Cpu"
    from that(1,2) show False unfolding candidates_hardware [OF that(3,4) hw] by simp
  qed
  have empty: "?r = [] \<longleftrightarrow> \<not> list_ex af_presents_to_surface adapters"
  proof -
    have "?r = [] \<longleftrightarrow> candidates adapters = []" using mset(1) by (metis mset_zero_iff)
    then show ?thesis by (auto simp: candidates_def Let_def filter_empty_conv list_ex_iff)
  qed
  have first: "\<exists>b rest. rank adapters displays = af_index b # rest \<and> b \<in> set adapters \<and> pci_match b displays \<and>
         reason_for b displays = MatchedDisplay"
    if a: "a \<in> set adapters" "af_presents_to_surface a" "af_device_type a \<noteq> Cpu" "pci_match a displays" for a
  proof -
    note hw = candidates_hardware [OF a(1-3)]
    have mem: "a \<in> set ?r" using a hw by simp
    then obtain b rest where r: "?r = b # rest" by (cases ?r) auto
    have b: "b \<in> set (candidates adapters)" using mset(2) r by (metis list.set_intros(1))
    have "preference displays b \<le> preference displays a"
      using sorted mem unfolding r by auto
    then have "score a displays (displays \<noteq> []) \<le> score b displays (displays \<noteq> [])"
      by (auto simp: preference_def less_eq_prod_def)
    then have "pci_match b displays" using a(4) by (simp add: score_pci [of _ _ "displays \<noteq> []"])
    moreover have "af_device_type b \<noteq> Cpu" using b unfolding hw by simp
    ultimately show ?thesis
      using r sub [OF b] by (auto simp: rank_sorted reason_for_def)
  qed
  show ?thesis
    using mset sorted sub soft empty first rank_sorted
    by (intro conjI exI [of _ ?r] allI impI) (auto simp only:)
qed

definition sample_adapters :: "adapter_facts list" where
  "sample_adapters =
     [\<lparr>af_index = 0, af_name = lit ''igpu'', af_pci_address = lit ''0000:00:02.0'', af_vendor = 1, af_device = 2,
       af_device_type = IntegratedGpu, af_backend = Vulkan, af_presents_to_surface = True\<rparr>,
      \<lparr>af_index = 1, af_name = lit ''dgpu'', af_pci_address = lit ''0000:01:00.0'', af_vendor = 3, af_device = 4,
       af_device_type = DiscreteGpu, af_backend = Vulkan, af_presents_to_surface = True\<rparr>]"

theorem display_adapter_first_witness:
  "\<exists>rest. rank sample_adapters [\<lparr>dd_pci_address = lit ''0000:01:00.0'', dd_vendor_id = 3, dd_device_id = 4\<rparr>] = 1 # rest"
proof -
  let ?d = "[\<lparr>dd_pci_address = lit ''0000:01:00.0'', dd_vendor_id = 3, dd_device_id = 4\<rparr>] :: display_device list"
  have mem: "sample_adapters ! 1 \<in> set sample_adapters \<and> af_presents_to_surface (sample_adapters ! 1) \<and>
      af_device_type (sample_adapters ! 1) \<noteq> Cpu \<and> pci_match (sample_adapters ! 1) ?d"
    by (simp add: sample_adapters_def pci_match_def same_ignoring_case_def lit_def)
  obtain b rest where b: "rank sample_adapters ?d = af_index b # rest" "b \<in> set sample_adapters" "pci_match b ?d"
    using display_adapter_first [of sample_adapters ?d, THEN conjunct2, rule_format, OF mem] by blast
  then have "af_index b = 1"
    by (auto simp: sample_adapters_def pci_match_def same_ignoring_case_def ascii_lower_def lit_def)
  then show ?thesis using b(1) by auto
qed

lemma add_displays_distinct:
  "distinct (map dd_pci_address out) \<Longrightarrow> distinct (map dd_pci_address (add_displays fs entries out))"
proof (induction fs entries out rule: add_displays.induct)
  case (1 fs out)
  then show ?case by simp
next
  case (2 fs entry entries out)
  show ?case
  proof (cases "connector_device fs entry")
    case None
    then show ?thesis using 2 by simp
  next
    case (Some device)
    let ?out = "if list_ex (\<lambda>d. dd_pci_address d = dd_pci_address device) out then out else out @ [device]"
    have "distinct (map dd_pci_address ?out)" using 2(3) by (auto simp: list_ex_iff)
    then show ?thesis unfolding add_displays.simps Some option.case by (rule 2(2) [OF Some])
  qed
qed

lemma add_displays_sources:
  "d \<in> set (add_displays fs entries out) \<Longrightarrow> d \<in> set out \<or> (\<exists>e\<in>set entries. connector_device fs e = Some d)"
proof (induction fs entries out rule: add_displays.induct)
  case (1 fs out)
  then show ?case by simp
next
  case (2 fs entry entries out)
  show ?case
  proof (cases "connector_device fs entry")
    case None
    then show ?thesis using 2 by auto
  next
    case (Some device)
    from 2(2) [OF Some] 2(3) Some show ?thesis by (auto split: if_splits)
  qed
qed

text \<open>Each GPU of a connected display is found once, and nothing else is.\<close>

lemma discover_displays_distinct: "distinct (map dd_pci_address (discover_displays fs))"
  by (simp add: discover_displays_def add_displays_distinct split: option.split)

lemma discover_displays_sources:
  assumes "d \<in> set (discover_displays fs)"
  obtains e entries where "sf_entries fs = Some entries" "e \<in> set entries" "connector_device fs e = Some d"
proof (cases "sf_entries fs")
  case None
  then show ?thesis using assms by (simp add: discover_displays_def)
next
  case (Some entries)
  then have "d \<in> set (add_displays fs entries [])" using assms by (simp add: discover_displays_def)
  from add_displays_sources [OF this] show ?thesis using that Some by auto
qed
end
