(* ===== verification/Gpu_Bring_Up.thy ===== *)
theory Gpu_Bring_Up
  imports Gpu_Adapter
begin

text \<open>
  Bringing the graphics device up, \<open>render/gpu.rs\<close>: the adapters the instance enumerates are
  ordered by the ranking or the override, and tried in that order until one gives a device, a
  configured surface and a frame. What \<open>wgpu\<close> answers is an argument: a record per adapter.
\<close>

section \<open>Errors\<close>

datatype render_error =
  Surface utext
| NoAdapter utext
| Device utext
| NoPresentableAdapter "utext list"
| PresentationLost utext
| EventLoop utext

definition em_dash :: utext where
  "em_dash = [32, 8212, 32]"

fun show_render_error :: "render_error \<Rightarrow> utext" where
  "show_render_error (Surface e) = lit ''could not create a render surface: '' @ e"
| "show_render_error (NoAdapter e) = lit ''no usable GPU adapter: '' @ e"
| "show_render_error (Device e) = lit ''could not create a GPU device: '' @ e"
| "show_render_error (NoPresentableAdapter tried) =
     lit ''no GPU adapter could present to this window. Tried:'' @ [10] @
     concat (map (\<lambda>entry. lit ''  - '' @ entry @ [10]) tried) @
     lit ''set RADAR_GPU to a PCI address (0000:01:00.0), an adapter-name substring, or 'discrete' / 'integrated' to override adapter selection''"
| "show_render_error (PresentationLost adapter) =
     lit ''the GPU stopped being able to present partway through the session (adapter: '' @ adapter @
     lit ''). On a hybrid-GPU system this usually means the selected GPU does not drive the display'' @ em_dash @
     lit ''set RADAR_GPU to the PCI address or name of the GPU that does''"
| "show_render_error (EventLoop e) = lit ''the windowing event loop failed: '' @ e"

definition describe_facts :: "(backend \<Rightarrow> utext) \<Rightarrow> adapter_facts \<Rightarrow> utext" where
  "describe_facts debug_backend a =
     af_name a @ lit '' ('' @ debug_backend (af_backend a) @ lit '', '' @ pci_or_dash (af_pci_address a) @ lit '')''"

section \<open>One adapter\<close>

text \<open>A surface format, and what \<open>wgpu\<close> answers while one adapter is brought up.\<close>

record surface_format =
  sfm_name :: utext
  sfm_is_srgb :: bool

datatype acquired = Acq_Success | Acq_Suboptimal | Acq_Other

record adapter_answers =
  an_device_error :: "utext option"
  an_formats :: "surface_format list"
  an_configure_error :: "utext option"
  an_acquired :: acquired
  an_acquire_error :: "utext option"

record brought_up =
  bu_format :: surface_format
  bu_width :: nat
  bu_height :: nat
  bu_max_texture_dimension :: nat

definition MAX_TEXTURE_DIMENSION_2D :: nat where
  "MAX_TEXTURE_DIMENSION_2D = 2048"

definition bring_up :: "adapter_answers \<Rightarrow> nat \<times> nat \<Rightarrow> utext + brought_up" where
  "bring_up an dims =
     (case an_device_error an of
        Some e \<Rightarrow> Err (lit ''device request failed: '' @ e)
      | None \<Rightarrow>
          (case an_formats an of
             [] \<Rightarrow> Err (lit ''surface has no compatible format on this adapter'')
           | format # _ \<Rightarrow>
               (case an_configure_error an of
                  Some e \<Rightarrow> Err (lit ''surface configuration rejected: '' @ e)
                | None \<Rightarrow>
                    (case an_acquire_error an of
                       Some e \<Rightarrow> Err (lit ''surface frame acquisition raised a validation error: '' @ e)
                     | None \<Rightarrow>
                         if an_acquired an = Acq_Other
                         then Err (lit ''the adapter could not produce a frame for this window'')
                         else Ok \<lparr>bu_format = format, bu_width = max (fst dims) 1, bu_height = max (snd dims) 1,
                                  bu_max_texture_dimension = MAX_TEXTURE_DIMENSION_2D\<rparr>))))"

section \<open>The device\<close>

record gpu =
  gp_brought_up :: brought_up
  gp_adapter :: adapter_facts
  gp_selection_reason :: selection_reason
  gp_uncaptured_error :: "utext option"

text \<open>What the instance enumerates: the facts of each adapter but its index and whether it presents.\<close>

definition collect_facts :: "(adapter_facts \<times> adapter_answers) list \<Rightarrow> adapter_facts list" where
  "collect_facts adapters =
     map (\<lambda>(i, a, an). a\<lparr>af_index := i, af_presents_to_surface := (an_formats an \<noteq> [])\<rparr>)
       (List.enumerate 0 adapters)"

fun try_adapters ::
  "(backend \<Rightarrow> utext) \<Rightarrow> adapter_facts list \<Rightarrow> display_device list \<Rightarrow> bool \<Rightarrow> (nat \<Rightarrow> utext + brought_up) \<Rightarrow>
   nat list \<Rightarrow> utext list \<Rightarrow> render_error + gpu" where
  "try_adapters debug_backend facts displays forced up [] tried = Err (NoPresentableAdapter tried)"
| "try_adapters debug_backend facts displays forced up (i # order) tried =
     (case up i of
        Inr built \<Rightarrow>
          Ok \<lparr>gp_brought_up = built, gp_adapter = facts ! i,
              gp_selection_reason = (if forced then ForcedByOverride else reason_for (facts ! i) displays),
              gp_uncaptured_error = None\<rparr>
      | Inl why \<Rightarrow>
          try_adapters debug_backend facts displays forced up order
            (tried @ [describe_facts debug_backend (facts ! i) @ em_dash @ why]))"

text \<open>What \<open>std::env::var\<close> finds, and the \<open>ok()\<close> that drops a value that is not Unicode.\<close>

datatype env_var = Env_Unset | Env_Not_Unicode | Env_Value utext

fun env_ok :: "env_var \<Rightarrow> utext option" where
  "env_ok (Env_Value v) = Some v"
| "env_ok Env_Unset = None"
| "env_ok Env_Not_Unicode = None"

definition choose_order ::
  "(utext \<Rightarrow> utext) \<Rightarrow> (backend \<Rightarrow> utext) \<Rightarrow> env_var \<Rightarrow> adapter_facts list \<Rightarrow> display_device list \<Rightarrow>
   render_error + nat list \<times> bool" where
  "choose_order debug_text debug_backend radar_gpu facts displays =
     (case Option.bind (env_ok radar_gpu) parse_override of
        Some ov \<Rightarrow>
          (case select_override debug_text debug_backend ov facts of
             Inr picks \<Rightarrow> Ok (picks, True)
           | Inl u \<Rightarrow> Err (NoPresentableAdapter
               ((lit ''RADAR_GPU set to '' @ ou_requested u @ em_dash @ lit ''no adapter matched'') #
                map (\<lambda>a. lit ''available: '' @ a) (ou_available u))))
      | None \<Rightarrow> Ok (rank facts displays, False))"

definition gpu_new ::
  "(utext \<Rightarrow> utext) \<Rightarrow> (backend \<Rightarrow> utext) \<Rightarrow> utext + unit \<Rightarrow> (adapter_facts \<times> adapter_answers) list \<Rightarrow> sysfs \<Rightarrow>
   env_var \<Rightarrow> nat \<times> nat \<Rightarrow> render_error + gpu" where
  "gpu_new debug_text debug_backend surface adapters fs radar_gpu dims =
     (case surface of
        Inl e \<Rightarrow> Err (Surface e)
      | Inr _ \<Rightarrow>
          if adapters = [] then Err (NoAdapter (lit ''no Vulkan or GL adapter was enumerated for this window''))
          else
            let facts = collect_facts adapters; displays = discover_displays fs in
            rbind (choose_order debug_text debug_backend radar_gpu facts displays) (\<lambda>(order, forced).
              if order = [] then Err (NoPresentableAdapter (map (describe_facts debug_backend) facts))
              else try_adapters debug_backend facts displays forced
                     (\<lambda>i. bring_up (snd (adapters ! i)) dims) order []))"

definition gpu_resize :: "nat \<Rightarrow> nat \<Rightarrow> gpu \<Rightarrow> gpu" where
  "gpu_resize width height g =
     (if width = 0 \<or> height = 0 then g
      else g\<lparr>gp_brought_up := (gp_brought_up g)\<lparr>bu_width := width, bu_height := height\<rparr>\<rparr>)"

definition take_uncaptured_error :: "gpu \<Rightarrow> gpu \<times> utext option" where
  "take_uncaptured_error g = (g\<lparr>gp_uncaptured_error := None\<rparr>, gp_uncaptured_error g)"

section \<open>The first adapter that works\<close>

definition works :: "(nat \<Rightarrow> utext + brought_up) \<Rightarrow> nat \<Rightarrow> bool" where
  "works up i = (case up i of Inr _ \<Rightarrow> True | Inl _ \<Rightarrow> False)"

definition complaint ::
  "(backend \<Rightarrow> utext) \<Rightarrow> adapter_facts list \<Rightarrow> (nat \<Rightarrow> utext + brought_up) \<Rightarrow> nat \<Rightarrow> utext" where
  "complaint debug_backend facts up i =
     describe_facts debug_backend (facts ! i) @ em_dash @ (case up i of Inl why \<Rightarrow> why | Inr _ \<Rightarrow> [])"

lemma try_adapters_exact:
  "try_adapters debug_backend facts displays forced up order tried =
     (case find (works up) order of
        None \<Rightarrow> Err (NoPresentableAdapter (tried @ map (complaint debug_backend facts up) order))
      | Some i \<Rightarrow> Ok \<lparr>gp_brought_up = projr (up i), gp_adapter = facts ! i,
          gp_selection_reason = (if forced then ForcedByOverride else reason_for (facts ! i) displays),
          gp_uncaptured_error = None\<rparr>)"
proof (induction order arbitrary: tried)
  case (Cons a order)
  show ?case
  proof (cases "up a")
    case (Inl why)
    then show ?thesis by (simp add: Cons.IH works_def [of up a] complaint_def [of _ _ up a] split: option.split)
  next
    case (Inr built)
    then show ?thesis by (simp add: works_def [of up a])
  qed
qed simp

lemma collect_facts_index: "map af_index (collect_facts adapters) = [0..<length adapters]"
  by (simp add: collect_facts_def comp_def split_beta enumerate_eq_zip)

lemma collect_facts_length [simp]: "length (collect_facts adapters) = length adapters"
  by (simp add: collect_facts_def)

lemma bring_up_size:
  "bring_up an dims = Inr b \<Longrightarrow> 1 \<le> bu_width b \<and> 1 \<le> bu_height b \<and> bu_max_texture_dimension b = 2048"
  by (auto simp: bring_up_def MAX_TEXTURE_DIMENSION_2D_def split: option.splits list.splits if_splits)


lemma order_in_range:
  assumes "choose_order debug_text debug_backend radar_gpu (collect_facts adapters) displays = Inr (order, forced)"
  shows "set order \<subseteq> {0..<length adapters}"
proof -
  have facts: "af_index ` set (collect_facts adapters) = {0..<length adapters}"
    using collect_facts_index [of adapters] by (metis set_map set_upt)
  have "set (candidates (collect_facts adapters)) \<subseteq> set (collect_facts adapters)"
    by (auto simp: candidates_def Let_def)
  then have "set (rank (collect_facts adapters) displays) \<subseteq> {0..<length adapters}"
    unfolding rank_sorted set_map set_sort facts [symmetric] by blast
  moreover have "set picks \<subseteq> {0..<length adapters}"
    if "select_override debug_text debug_backend ov (collect_facts adapters) = Inr picks" for ov picks
    using that unfolding facts [symmetric] by (auto simp: select_override_def Let_def split: if_splits)
  ultimately show ?thesis
    using assms by (auto simp: choose_order_def split: option.splits sum.splits)
qed

text \<open>
  C37: The first adapter that works is used, and no failure is silent. When a device is
  returned, it is of an adapter of the chosen order that came up, and every adapter before it
  in that order failed; otherwise the error names every adapter that was tried, one entry
  each in the order of the attempts, and none of them came up.
\<close>

theorem gpu_first_working:
  assumes "adapters \<noteq> []"
    and "choose_order debug_text debug_backend radar_gpu (collect_facts adapters) (discover_displays fs) =
      Inr (order, forced)" "order \<noteq> []"
  shows "case gpu_new debug_text debug_backend (Inr ()) adapters fs radar_gpu dims of
      Inr g \<Rightarrow> \<exists>before i after. order = before @ i # after \<and> i < length adapters \<and>
        bring_up (snd (adapters ! i)) dims = Inr (gp_brought_up g) \<and> gp_adapter g = collect_facts adapters ! i \<and>
        list_all (\<lambda>j. \<not> works (\<lambda>i. bring_up (snd (adapters ! i)) dims) j) before
    | Inl e \<Rightarrow> e = NoPresentableAdapter (map (complaint debug_backend (collect_facts adapters)
          (\<lambda>i. bring_up (snd (adapters ! i)) dims)) order) \<and>
        list_all (\<lambda>j. \<not> works (\<lambda>i. bring_up (snd (adapters ! i)) dims) j) order"
proof -
  let ?up = "\<lambda>i. bring_up (snd (adapters ! i)) dims"
  let ?facts = "collect_facts adapters"
  have new: "gpu_new debug_text debug_backend (Inr ()) adapters fs radar_gpu dims =
      try_adapters debug_backend ?facts (discover_displays fs) forced ?up order []"
    using assms by (simp add: gpu_new_def Let_def rbind_def)
  show ?thesis
  proof (cases "find (works ?up) order")
    case None
    then have "list_all (\<lambda>j. \<not> works ?up j) order" by (simp add: find_None_iff list_all_iff)
    then show ?thesis unfolding new try_adapters_exact None by simp
  next
    case (Some i)
    then obtain n where n: "n < length order" "works ?up (order ! n)" "i = order ! n"
        "\<forall>m<n. \<not> works ?up (order ! m)"
      by (auto simp: find_Some_iff)
    have "list_all (\<lambda>j. \<not> works ?up j) (take n order)"
      using n(1,4) by (auto simp: list_all_iff in_set_conv_nth)
    moreover have "order = take n order @ i # drop (Suc n) order"
      using n(1,3) id_take_nth_drop by metis
    moreover have "i < length adapters"
      using order_in_range [OF assms(2)] n(1,3) by (metis atLeastLessThan_iff nth_mem subsetD)
    moreover have "?up i = Inr (projr (?up i))"
      using n(2,3) by (auto simp: works_def split: sum.splits)
    ultimately show ?thesis
      unfolding new try_adapters_exact Some
      by simp (intro exI [of _ "take n order"] exI [of _ i] exI [of _ "drop (Suc n) order"] conjI; assumption?; simp?)
  qed
qed

definition sample_answers :: "(adapter_facts \<times> adapter_answers) list" where
  "sample_answers = map (\<lambda>a. (a,
     \<lparr>an_device_error = None, an_formats = [\<lparr>sfm_name = lit ''Bgra8UnormSrgb'', sfm_is_srgb = True\<rparr>],
      an_configure_error = None, an_acquired = (if af_device_type a = IntegratedGpu then Acq_Other else Acq_Success),
      an_acquire_error = None\<rparr>)) sample_adapters"

text \<open>The integrated adapter gives no frame, so the override for its kind fails, and says so.\<close>

theorem gpu_first_working_witness:
  "\<exists>why. gpu_new (\<lambda>t. t) (\<lambda>_. []) (Inr ()) sample_answers \<lparr>sf_entries = None, sf_read = \<lambda>_. None, sf_link = \<lambda>_. None\<rparr>
     (Env_Value (lit ''Integrated'')) (1280, 800) = Inl (NoPresentableAdapter [why])"
proof -
  let ?fs = "\<lparr>sf_entries = None, sf_read = \<lambda>_. None, sf_link = \<lambda>_. None\<rparr> :: sysfs"
  let ?r = "gpu_new (\<lambda>t. t) (\<lambda>_. []) (Inr ()) sample_answers ?fs (Env_Value (lit ''Integrated'')) (1280, 800)"
  have order: "choose_order (\<lambda>t. t) (\<lambda>_. []) (Env_Value (lit ''Integrated'')) (collect_facts sample_answers) (discover_displays ?fs) =
      Inr ([0], True)"
    by (simp add: choose_order_def parse_override_def trim_def trim_start_def trim_end_def is_white_def ascii_lower_def lit_def
        select_override_def collect_facts_def sample_answers_def sample_adapters_def)
  have fails: "\<not> works (\<lambda>i. bring_up (snd (sample_answers ! i)) (1280, 800)) 0"
    by (simp add: works_def bring_up_def sample_answers_def sample_adapters_def)
  have "sample_answers \<noteq> []" by (simp add: sample_answers_def sample_adapters_def)
  from gpu_first_working [OF this order, of "(1280, 800)"] show ?thesis
    using fails by (auto simp: Cons_eq_append_conv works_def split: sum.splits)
qed

section \<open>The override\<close>

text \<open>
  What a value of \<open>RADAR_GPU\<close> asks for, in the words of its documentation: \<open>discrete\<close> or
  \<open>integrated\<close> is a kind of device, a PCI address is the adapter with that address, and any other
  text is a part of the name; letter case and surrounding blanks do not count.
\<close>

definition pci_shape :: "utext \<Rightarrow> bool" where
  "pci_shape v =
     (\<exists>a b c d e f g h i. v = [a, b, c, d, 58, e, f, 58, g, h, 46, i] \<and>
        {a, b, c, d, e, f, g, h} \<subseteq> set (lit ''0123456789abcdef'') \<and> i \<in> set (lit ''0123456789''))"

definition asked_for :: "utext \<Rightarrow> adapter_facts \<Rightarrow> bool" where
  "asked_for raw a =
     (let v = ascii_lower (trim raw) in
      if v = lit ''discrete'' then af_device_type a = DiscreteGpu
      else if v = lit ''integrated'' then af_device_type a = IntegratedGpu
      else if pci_shape v then ascii_lower (af_pci_address a) = v
      else sublist v (ascii_lower (af_name a)))"

definition request_text :: "(utext \<Rightarrow> utext) \<Rightarrow> utext \<Rightarrow> utext" where
  "request_text debug_text raw =
     (let v = ascii_lower (trim raw) in
      if v = lit ''discrete'' \<or> v = lit ''integrated'' then v
      else if pci_shape v then lit ''PCI address '' @ v
      else lit ''name containing '' @ debug_text v)"

lemma contains_sublist: "contains s t \<longleftrightarrow> sublist s t"
  by (induction s t rule: contains.induct) (auto simp: sublist_Cons_right)

lemma lower_idem [simp]: "ascii_lower (ascii_lower t) = ascii_lower t"
  by (simp add: ascii_lower_def)

lemma lower_not_upper: "c \<in> set (ascii_lower t) \<Longrightarrow> \<not> (65 \<le> c \<and> c \<le> 90)"
  by (auto simp: ascii_lower_def split: if_splits)

lemma lower_Nil [simp]: "ascii_lower t = [] \<longleftrightarrow> t = []"
  by (simp add: ascii_lower_def)

lemma hex_digit_set: "set (lit ''0123456789abcdef'') = {48..<58} \<union> {97..<103}"
proof -
  have "lit ''0123456789abcdef'' = [48..<58] @ [97..<103]" by (simp add: lit_def upt_rec)
  then show ?thesis by (simp only: set_append set_upt)
qed

lemma dec_digit_set: "set (lit ''0123456789'') = {48..<58}"
proof -
  have "lit ''0123456789'' = [48..<58]" by (simp add: lit_def upt_rec)
  then show ?thesis by (simp only: set_append set_upt)
qed

lemma hex_char_lower: "\<not> (65 \<le> c \<and> c \<le> 90) \<Longrightarrow> hex_char c \<longleftrightarrow> c \<in> set (lit ''0123456789abcdef'')"
  unfolding hex_digit_set by (auto simp: hex_char_def char_digit_def)

lemma char_digit_mem: "char_digit c \<longleftrightarrow> c \<in> set (lit ''0123456789'')"
  unfolding dec_digit_set by (auto simp: char_digit_def)

lemma length_12:
  assumes "length s = 12"
  shows "s = [s ! 0, s ! 1, s ! 2, s ! 3, s ! 4, s ! 5, s ! 6, s ! 7, s ! 8, s ! 9, s ! 10, s ! 11]"
proof -
  have "s = map ((!) s) [0..<12]" using map_nth [of s] assms by simp
  moreover have "[0..<12] = [0, 1, 2, 3, 4, 5, 6, 7, 8, 9, 10, 11 :: nat]" by (simp add: upt_rec)
  ultimately show ?thesis by simp
qed

lemma pci_shapeI:
  assumes "{a, b, c, d, e, f, g, h} \<subseteq> set (lit ''0123456789abcdef'')" "i \<in> set (lit ''0123456789'')"
  shows "pci_shape [a, b, c, d, 58, e, f, 58, g, h, 46, i]"
  unfolding pci_shape_def by (intro exI conjI, rule refl, rule assms, rule assms)

lemma looks_like_pci_shape: "looks_like_pci (ascii_lower t) \<longleftrightarrow> pci_shape (ascii_lower t)"
proof
  assume pci: "looks_like_pci (ascii_lower t)"
  then obtain a b c d j e f k g h l i where s: "ascii_lower t = [a, b, c, d, j, e, f, k, g, h, l, i]"
    using length_12 [of "ascii_lower t"] by (fastforce simp: looks_like_pci_def)
  have low: "\<forall>x\<in>{a, b, c, d, e, f, g, h}. \<not> (65 \<le> x \<and> x \<le> 90)"
    using lower_not_upper [of _ t] unfolding s by auto
  have parts: "\<forall>x\<in>{a, b, c, d, e, f, g, h}. hex_char x" "j = 58 \<and> k = 58 \<and> l = 46 \<and> char_digit i"
    using pci unfolding s by (simp_all add: looks_like_pci_def eval_nat_numeral)
  have sub: "{a, b, c, d, e, f, g, h} \<subseteq> set (lit ''0123456789abcdef'')"
    using low parts(1) hex_char_lower by blast
  have i: "i \<in> set (lit ''0123456789'')" using char_digit_mem parts(2) [THEN conjunct2, THEN conjunct2, THEN conjunct2] by (rule iffD1)
  have seps: "j = 58" "k = 58" "l = 46" using parts(2) by simp_all
  show "pci_shape (ascii_lower t)" unfolding s seps by (rule pci_shapeI [OF sub i])
next
  assume "pci_shape (ascii_lower t)"
  then obtain a b c d e f g h i where s: "ascii_lower t = [a, b, c, d, 58, e, f, 58, g, h, 46, i]"
    and digits: "{a, b, c, d, e, f, g, h} \<subseteq> set (lit ''0123456789abcdef'')" "i \<in> set (lit ''0123456789'')"
    unfolding pci_shape_def by (elim exE conjE) (rule that; assumption)
  have low: "\<forall>x\<in>{a, b, c, d, e, f, g, h}. \<not> (65 \<le> x \<and> x \<le> 90)"
    using lower_not_upper [of _ t] unfolding s by auto
  have "\<forall>x\<in>{a, b, c, d, e, f, g, h}. hex_char x"
  proof
    fix x
    assume x: "x \<in> {a, b, c, d, e, f, g, h}"
    show "hex_char x" using hex_char_lower [OF bspec [OF low x]] subsetD [OF digits(1) x] by (rule iffD2)
  qed
  moreover have "char_digit i" using char_digit_mem digits(2) by (rule iffD2)
  ultimately show "looks_like_pci (ascii_lower t)"
    unfolding s by (simp add: looks_like_pci_def eval_nat_numeral)
qed

lemma trim_Nil_iff: "trim t = [] \<longleftrightarrow> list_all is_white t"
proof -
  have "trim_end u = [] \<longleftrightarrow> list_all is_white u" for u
    by (simp add: trim_end_def list_all_iff)
  moreover have "list_all is_white (dropWhile is_white t) \<longleftrightarrow> list_all is_white t"
    by (induction t) auto
  ultimately show ?thesis by (simp add: trim_def trim_start_def)
qed

lemma parse_override_asks:
  assumes "trim raw \<noteq> []"
  obtains ov where "parse_override raw = Some ov" "override_matches ov = asked_for raw"
    "describe debug_text ov = request_text debug_text raw"
proof -
  let ?v = "ascii_lower (trim raw)"
  let ?ov = "if ?v = lit ''discrete'' then Discrete else if ?v = lit ''integrated'' then Integrated
    else if looks_like_pci ?v then PciAddress ?v else NameSubstring ?v"
  have "parse_override raw = Some ?ov" using assms by (simp add: parse_override_def)
  moreover have "override_matches ?ov = asked_for raw"
    by (rule ext) (simp add: asked_for_def Let_def same_ignoring_case_def contains_sublist looks_like_pci_shape)
  moreover have "describe debug_text ?ov = request_text debug_text raw"
    by (simp add: request_text_def Let_def looks_like_pci_shape)
  ultimately show thesis by (rule that)
qed

text \<open>
  C28: \<open>RADAR_GPU\<close> is honoured or refused. A value that is not blank selects exactly the
  adapters it asks for (a kind, a PCI address or a part of the name), in the order they were
  enumerated and over the ranking; when it asks for none of them the start fails with an error
  whose first line names the request and whose other lines name every adapter with its backend
  and address. A blank value is no override. So is, silently, one that is not Unicode.
\<close>

theorem override_honoured:
  "choose_order debug_text debug_backend (Env_Value raw) facts displays =
     (if list_all is_white raw then Inr (rank facts displays, False)
      else if list_ex (asked_for raw) facts
      then Inr ([af_index a. a \<leftarrow> facts, asked_for raw a], True)
      else Inl (NoPresentableAdapter
        ((lit ''RADAR_GPU set to '' @ request_text debug_text raw @ em_dash @ lit ''no adapter matched'') #
         map (\<lambda>a. lit ''available: '' @ describe_facts debug_backend a) facts))) \<and>
   choose_order debug_text debug_backend Env_Unset facts displays = Inr (rank facts displays, False) \<and>
   choose_order debug_text debug_backend Env_Not_Unicode facts displays = Inr (rank facts displays, False)"
proof (cases "list_all is_white raw")
  case True
  then have "trim raw = []" by (simp add: trim_Nil_iff)
  then show ?thesis using True by (simp add: choose_order_def parse_override_def)
next
  case False
  then have "trim raw \<noteq> []" by (simp add: trim_Nil_iff)
  then obtain ov where ov: "parse_override raw = Some ov" "override_matches ov = asked_for raw"
      "describe debug_text ov = request_text debug_text raw"
    by (rule parse_override_asks)
  have picks: "[af_index a. a \<leftarrow> facts, asked_for raw a] = map af_index (filter (asked_for raw) facts)"
    by (induction facts) simp_all
  show ?thesis
    using False ov
    by (auto simp: choose_order_def select_override_def Let_def picks filter_empty_conv list_ex_iff
        describe_facts_def comp_def)
qed

end
