(* ===== verification/Chrome.thy ===== *)
theory Chrome
  imports Interaction Scene Calendar Gpu_Bring_Up
begin

text \<open>
  The chrome, \<open>render/ui.rs\<close>: what the status bar, the legend, the readout and the loading
  indicator say. Their layout is egui's. The text of a float with a number of decimals and
  \<open>atan2\<close> are arguments; an item is its text and whether it is in the accent colour.
\<close>

section \<open>The status bar\<close>

type_synonym chrome_item = "utext \<times> bool"

record chrome_input =
  ci_site :: site
  ci_snapshot :: "site state_snapshot"
  ci_view :: view_state
  ci_selected_grid :: "sweep_grid option"
  ci_selected_elevation_deg :: "fp option"
  ci_displayed_volume :: "volume_id option"
  ci_palette :: "palette option"
  ci_cursor_world :: "(fp \<times> fp) option"
  ci_pointer_in_window :: bool
  ci_recent_event :: "utext option"
  ci_show_help :: bool
  ci_now :: nat
  ci_viewport :: viewport
  ci_placed_labels :: "placed_label list"

text \<open>Whole seconds of a saturating difference of nanosecond times.\<close>

definition age_secs :: "nat option \<Rightarrow> nat \<Rightarrow> nat option" where
  "age_secs since now = map_option (\<lambda>t. (now - t) div 1000000000) since"

definition ingest_label :: "ingest_status \<Rightarrow> chrome_item" where
  "ingest_label status =
     (case is_state status of
        Polling \<Rightarrow> (lit ''polling'', False)
      | Retrying attempts \<Rightarrow> (lit ''retrying ('' @ decimal attempts @ lit '')'', False)
      | Stalled \<Rightarrow> (lit ''STALLED'', True)
      | ReAnchoring \<Rightarrow> (lit ''re-anchoring'', False))"

definition elevation_item :: "(nat \<Rightarrow> fp \<Rightarrow> utext) \<Rightarrow> chrome_input \<Rightarrow> chrome_item" where
  "elevation_item fixed i =
     (let el = lit ''el '' @ decimal (unat (vw_elevation_number (ci_view i))) in
      case (ci_selected_grid i, ci_selected_elevation_deg i) of
        (Some _, Some deg) \<Rightarrow> (el @ lit '' ('' @ fixed 2 deg @ [176] @ lit '')'', False)
      | _ \<Rightarrow> (el @ em_dash @ lit ''no data on this cut'', True))"

fun scan_time_of :: "volume_id \<Rightarrow> utext" where
  "scan_time_of (Volume_Id julian_date scan_time_ms) = format_utc (utc_from_nexrad julian_date scan_time_ms)"

definition status_bar :: "(nat \<Rightarrow> fp \<Rightarrow> utext) \<Rightarrow> chrome_input \<Rightarrow> chrome_item list" where
  "status_bar fixed i =
     [(st_id (ci_site i) @ em_dash @ st_name (ci_site i), False),
      (product_name (vw_product (ci_view i)), False), elevation_item fixed i] @
     (case ci_displayed_volume i of None \<Rightarrow> [] | Some v \<Rightarrow> [(scan_time_of v, False)]) @
     [(case age_secs (is_last_success (ss_ingest (ci_snapshot i))) (ci_now i) of
         Some secs \<Rightarrow> lit ''updated '' @ decimal secs @ lit ''s ago''
       | None \<Rightarrow> lit ''no data yet'', False),
      ingest_label (ss_ingest (ci_snapshot i))] @
     (case ci_recent_event i of None \<Rightarrow> [] | Some e \<Rightarrow> [(e, True)])"

section \<open>The legend\<close>

text \<open>The colour bands of a bar of a height: the value and the colour of each pixel row.\<close>

definition legend_bands :: "palette \<Rightarrow> fp \<Rightarrow> (fp \<times> rgba) list" where
  "legend_bands p height =
     (case threshold_range p of
        None \<Rightarrow> []
      | Some (lo, hi) \<Rightarrow>
          let steps = nat (fp_to_int 0 (2 ^ 64 - 1) (fmax2 height (f32lit 1)))
          in map (\<lambda>i.
               let t = fdiv F32 (fp_of_nat F32 i) (fp_of_nat F32 steps);
                   v = fsub F32 hi (fmul F32 t (fsub F32 hi lo))
               in (v, sample p v)) [0..<steps])"

definition legend_step :: "palette \<Rightarrow> fp \<Rightarrow> fp \<Rightarrow> fp" where
  "legend_step p lo hi =
     (case pal_step p of
        Some s \<Rightarrow> if flt (f32lit 0) s then s else fdiv F32 (fsub F32 hi lo) (f32lit 4)
      | None \<Rightarrow> fdiv F32 (fsub F32 hi lo) (f32lit 4))"

text \<open>The tick loop, from the low end up: the place of a tick on the bar and its value.\<close>

partial_function (option) tick_loop :: "fp \<Rightarrow> fp \<Rightarrow> fp \<Rightarrow> fp \<Rightarrow> (fp \<times> fp) list option" where
  "tick_loop lo hi step v =
     (if fle v (fadd F32 hi (f32lit (1 / 1000)))
      then Option.bind (tick_loop lo hi step (fadd F32 v step))
             (\<lambda>ticks. Some ((fdiv F32 (fsub F32 hi v) (fsub F32 hi lo), v) # ticks))
      else Some [])"

definition legend_ticks :: "palette \<Rightarrow> (fp \<times> fp) list option" where
  "legend_ticks p =
     (case threshold_range p of
        None \<Rightarrow> Some []
      | Some (lo, hi) \<Rightarrow> tick_loop lo hi (legend_step p lo hi) lo)"

definition fold_limit :: "(nat \<Rightarrow> fp \<Rightarrow> utext) \<Rightarrow> sweep_grid option \<Rightarrow> display_product \<Rightarrow> utext option" where
  "fold_limit fixed g product =
     (if product = Velocity
      then map_option (\<lambda>nyq. [177] @ fixed 1 nyq @ lit '' m/s'') (Option.bind g g_nyquist_velocity_mps)
      else None)"

text \<open>The legend: the bands are a function of the height of the bar, which egui decides.\<close>

record legend_view =
  lg_units :: utext
  lg_bands :: "fp \<Rightarrow> (fp \<times> rgba) list"
  lg_ticks :: "(fp \<times> fp) list"
  lg_fold_limit :: "utext option"
  lg_range_folded :: "(rgba \<times> utext) option"

definition legend_of ::
  "(nat \<Rightarrow> fp \<Rightarrow> utext) \<Rightarrow> palette \<Rightarrow> sweep_grid option \<Rightarrow> display_product \<Rightarrow> legend_view option" where
  "legend_of fixed p g product =
     map_option (\<lambda>ticks.
       \<lparr>lg_units = pal_units p, lg_bands = legend_bands p, lg_ticks = ticks,
        lg_fold_limit = (if threshold_range p = None then None else fold_limit fixed g product),
        lg_range_folded = (if threshold_range p = None \<or> product \<noteq> Velocity then None
           else Some (pal_range_folded p, lit ''RF''))\<rparr>) (legend_ticks p)"

section \<open>The readout\<close>

definition to_degrees :: "fp \<Rightarrow> fp" where
  "to_degrees x =
     fmul F64 x (fdiv F64 (f64lit 180) (f64lit (314159265358979323846264338327950288 / 10 ^ 35)))"

definition value_line :: "(nat \<Rightarrow> fp \<Rightarrow> utext) \<Rightarrow> palette option \<Rightarrow> cursor_sample option \<Rightarrow> utext" where
  "value_line fixed p s =
     (case s of
        Some (Cursor_Value v) \<Rightarrow> fixed 1 v @ lit '' '' @ (case p of Some p \<Rightarrow> pal_units p | None \<Rightarrow> [])
      | Some Cursor_NoData \<Rightarrow> lit ''ND''
      | Some Cursor_RangeFolded \<Rightarrow> lit ''RF''
      | Some OutsideCoverage \<Rightarrow> [8212]
      | None \<Rightarrow> [8212])"

text \<open>The point the readout is for: its ground range, its azimuth, and its height in feet.\<close>

definition cursor_polar :: "libm \<Rightarrow> (fp \<Rightarrow> fp \<Rightarrow> fp) \<Rightarrow> fp \<times> fp \<Rightarrow> fp \<times> fp" where
  "cursor_polar lm atan2 world =
     (let (wx, wy) = world in
      (m_sqrt lm (fadd F64 (fmul F64 wx wx) (fmul F64 wy wy)), frem_euclid (to_degrees (atan2 wx wy)) (f64lit 360)))"

definition cursor_height_kft :: "libm \<Rightarrow> sweep_grid option \<Rightarrow> fp \<Rightarrow> fp" where
  "cursor_height_kft lm g ground_m =
     (let deg = (case g of Some g \<Rightarrow> f32_to_f64 (g_elevation_deg g) | None \<Rightarrow> f64lit (1 / 2))
      in fdiv F64 (fdiv F64 (snd (slant_range_and_height lm ground_m deg)) (f64lit (3048 / 10000))) (f64lit 1000))"

definition cursor_readout ::
  "libm \<Rightarrow> (fp \<Rightarrow> fp \<Rightarrow> fp) \<Rightarrow> (nat \<Rightarrow> fp \<Rightarrow> utext) \<Rightarrow> chrome_input \<Rightarrow> fault + (fp \<times> fp \<times> fp \<times> utext) option" where
  "cursor_readout lm atan2 fixed i =
     (case if ci_pointer_in_window i then ci_cursor_world i else None of
        None \<Rightarrow> Ok None
      | Some world \<Rightarrow>
          let (ground_m, az_deg) = cursor_polar lm atan2 world;
              height_kft = cursor_height_kft lm (ci_selected_grid i) ground_m
          in (case ci_selected_grid i of
                None \<Rightarrow> Ok (Some (ground_m, az_deg, height_kft, value_line fixed (ci_palette i) None))
              | Some g \<Rightarrow> rbind (sample_at lm g ground_m az_deg) (\<lambda>s.
                  Ok (Some (ground_m, az_deg, height_kft, value_line fixed (ci_palette i) (Some s))))))"

section \<open>What a frame shows\<close>

text \<open>The labels of the rings that are in the window.\<close>

definition visible_ring_labels :: "sin_cos \<Rightarrow> view_state \<Rightarrow> viewport \<Rightarrow> ((fp \<times> fp) \<times> utext) list option" where
  "visible_ring_labels sc v vp =
     map_option (\<lambda>ls. filter (\<lambda>((sx, sy), _).
         \<not> (flt sx (f32lit 0) \<or> flt sy (f32lit 0) \<or> flt (fst vp) sx \<or> flt (snd vp) sy))
       (map (\<lambda>(world, l). (world_to_screen (f32_to_f64 (fst world), f32_to_f64 (snd world)) v vp, l)) ls))
       (ring_labels sc)"

text \<open>The text and its shadow: two copies of a label, a pixel apart.\<close>

definition city_label :: "placed_label \<Rightarrow> ((fp \<times> fp) \<times> utext) list" where
  "city_label l =
     (let pos = (fadd F32 (fst (pd_screen l)) (f32lit 5), fsub F32 (snd (pd_screen l)) (f32lit 3)) in
      [((fadd F32 (fst pos) (f32lit 1), fadd F32 (snd pos) (f32lit 1)), pd_text l), (pos, pd_text l)])"

definition loading_lines :: "chrome_input \<Rightarrow> utext list" where
  "loading_lines i =
     [lit ''Waiting for '' @ st_id (ci_site i) @ [32, 8230], fst (ingest_label (ss_ingest (ci_snapshot i)))]"

record chrome =
  ch_status :: "chrome_item list"
  ch_legend :: "legend_view option"
  ch_ring_labels :: "((fp \<times> fp) \<times> utext) list"
  ch_city_labels :: "((fp \<times> fp) \<times> utext) list"
  ch_loading :: "utext list option"
  ch_readout :: "(fp \<times> fp \<times> fp \<times> utext) option"
  ch_help :: bool

text \<open>\<open>None\<close>: the frame never ends; a fault: it panics.\<close>

definition draw_chrome ::
  "libm \<Rightarrow> sin_cos \<Rightarrow> (fp \<Rightarrow> fp \<Rightarrow> fp) \<Rightarrow> (nat \<Rightarrow> fp \<Rightarrow> utext) \<Rightarrow> chrome_input \<Rightarrow> (fault + chrome) option" where
  "draw_chrome lm sc atan2 fixed i =
     Option.bind (case ci_palette i of None \<Rightarrow> Some None
       | Some p \<Rightarrow> map_option Some (legend_of fixed p (ci_selected_grid i) (vw_product (ci_view i)))) (\<lambda>legend.
     Option.bind (if vw_show_reference (ci_view i) then visible_ring_labels sc (ci_view i) (ci_viewport i) else Some [])
       (\<lambda>rings.
     let empty = (ss_sweeps (ci_snapshot i) = []) in
     Some (rbind (if empty then Ok None else cursor_readout lm atan2 fixed i) (\<lambda>readout.
       Ok \<lparr>ch_status = status_bar fixed i, ch_legend = legend, ch_ring_labels = rings,
           ch_city_labels = concat (map city_label (ci_placed_labels i)),
           ch_loading = (if empty then Some (loading_lines i) else None),
           ch_readout = readout, ch_help = ci_show_help i\<rparr>))))"

section \<open>The tick loop\<close>

definition tick_at :: "fp \<Rightarrow> nat \<Rightarrow> fp \<Rightarrow> fp" where
  "tick_at step n v = ((\<lambda>v. fadd F32 v step) ^^ n) v"

definition below_top :: "fp \<Rightarrow> fp \<Rightarrow> bool" where
  "below_top hi v = fle v (fadd F32 hi (f32lit (1 / 1000)))"

lemma tick_at_Suc: "tick_at step (Suc n) v = tick_at step n (fadd F32 v step)"
  by (simp add: tick_at_def funpow_Suc_right del: funpow.simps)

lemma tick_loop_leaves:
  assumes "tick_loop lo hi step v = Some ticks"
  shows "\<not> below_top hi (tick_at step (length ticks) v)"
  using assms
proof (induction ticks arbitrary: v)
  case Nil
  then show ?case
    by (subst (asm) tick_loop.simps) (auto simp: below_top_def tick_at_def bind_eq_Some_conv split: if_splits)
next
  case (Cons t ticks)
  then have "tick_loop lo hi step (fadd F32 v step) = Some ticks"
    by (subst (asm) (2) tick_loop.simps) (auto simp: bind_eq_Some_conv split: if_splits)
  then show ?case using Cons.IH by (simp add: tick_at_Suc)
qed

lemma tick_loop_ends: "\<not> below_top hi (tick_at step n v) \<Longrightarrow> \<exists>ticks. tick_loop lo hi step v = Some ticks \<and> length ticks \<le> n"
proof (induction n arbitrary: v)
  case 0
  then show ?case by (subst tick_loop.simps) (simp add: tick_at_def below_top_def)
next
  case (Suc n)
  then show ?case
    by (subst tick_loop.simps) (fastforce simp: tick_at_Suc below_top_def)
qed

lemma tick_at_stuck: "fadd F32 v step = v \<Longrightarrow> tick_at step n v = v"
  by (induction n) (simp_all add: tick_at_def)

text \<open>
  When the legend can be drawn. A table without entries has no ticks; otherwise the tick
  loop returns exactly when repeated addition of the step, with its rounding, carries the low
  end above the high one.
\<close>

theorem legend_ends_exactly:
  "case threshold_range p of
     None \<Rightarrow> legend_ticks p = Some []
   | Some (lo, hi) \<Rightarrow> legend_ticks p \<noteq> None \<longleftrightarrow> (\<exists>n. \<not> below_top hi (tick_at (legend_step p lo hi) n lo))"
proof (cases "threshold_range p")
  case None
  then show ?thesis by (simp add: legend_ticks_def)
next
  case (Some r)
  obtain lo hi where r: "r = (lo, hi)" by (cases r)
  have "legend_ticks p = tick_loop lo hi (legend_step p lo hi) lo" by (simp add: legend_ticks_def Some r)
  then show ?thesis using tick_loop_leaves tick_loop_ends by (simp add: Some r) blast
qed

text \<open>A table of one colour and no step: the step is zero, and the legend never ends.\<close>

definition one_colour :: palette where
  "one_colour = (palette_empty Reflectivity)\<lparr>pal_entries :=
     [\<lparr>pe_threshold = FFin False 5, pe_from = [255, 0, 0, 255], pe_to = None\<rparr>]\<rparr>"

lemma one_colour_numbers:
  "rat_of_nat (digits_value [53]) * pow10 0 = 5" "rat_of_nat (digits_value [50, 53, 53]) * pow10 0 = 255"
  "rat_of_nat (digits_value [48]) * pow10 0 = 0"
  by (simp_all add: digits_value_def pow10_def)

lemma one_colour_rounds:
  "round_fp F32 False 5 = FFin False 5" "round_fp F32 False 255 = FFin False 255" "round_fp F32 False 0 = FFin False 0"
  by (simp_all add: float_eval)

lemma one_colour_channels: "color_from [FFin False 255, FFin False 0, FFin False 0] False = [255, 0, 0, 255]"
  by code_simp

lemma one_colour_read: "read_into (lit ''SolidColor: 5 255 0 0'') q =
    push_entry \<lparr>pe_threshold = FFin False 5, pe_from = [255, 0, 0, 255], pe_to = None\<rparr> q"
proof -
  have "read_into (lit ''SolidColor: 5 255 0 0'') q = push_entry
      \<lparr>pe_threshold = round_fp F32 False (rat_of_nat (digits_value [53]) * pow10 0),
       pe_from = color_from [round_fp F32 False (rat_of_nat (digits_value [50, 53, 53]) * pow10 0),
         round_fp F32 False (rat_of_nat (digits_value [48]) * pow10 0),
         round_fp F32 False (rat_of_nat (digits_value [48]) * pow10 0)] False, pe_to = None\<rparr> q"
    by (simp add: plain_eval read_into_def)
  then show ?thesis by (simp only: one_colour_numbers one_colour_rounds one_colour_channels)
qed

lemma one_colour_good: "bad_events product 0 [lit ''SolidColor: 5 255 0 0''] = []"
  by (simp add: plain_eval bad_events_def)

lemma one_colour_is_read: "parse_palette unsorted (lit ''SolidColor: 5 255 0 0'') Reflectivity = Some (one_colour, [])"
proof -
  have "text_lines (lit ''SolidColor: 5 255 0 0'') = [lit ''SolidColor: 5 255 0 0'']"
    by (simp add: text_lines_def lit_def strip_cr_def)
  then show ?thesis
    by (simp add: parse_palette_fold one_colour_read one_colour_good push_entry_def one_colour_def palette_empty_def sort_entries_def Let_def)
qed

lemma legend_floats: "f32lit (1 / 1000) = FFin False (8589935 / 8589934592)" "f32lit 5 = FFin False 5" "f32lit 4 = FFin False 4"
  by (simp_all add: float_eval)

lemma one_colour_top: "below_top (FFin False 5) (FFin False 5)"
  by (simp add: below_top_def legend_floats fle_def float_eval)

lemma one_colour_legend_hangs: "legend_ticks one_colour = None"
proof -
  have limits: "threshold_range one_colour = Some (FFin False 5, FFin False 5)"
    by (simp add: one_colour_def threshold_range_def legend_floats)
  have zero: "legend_step one_colour (FFin False 5) (FFin False 5) = FFin False 0"
    by (simp add: legend_step_def one_colour_def palette_empty_def fsub_def legend_floats float_eval)
  have "fadd F32 (FFin False 5) (FFin False 0) = FFin False 5" by (simp add: float_eval)
  from tick_at_stuck [OF this] have "below_top (FFin False 5) (tick_at (FFin False 0) n (FFin False 5))" for n
    using one_colour_top by simp
  then have "tick_loop (FFin False 5) (FFin False 5) (FFin False 0) (FFin False 5) = None"
    using tick_loop_leaves by (metis option.exhaust)
  then show ?thesis by (simp add: legend_ticks_def limits zero)
qed

text \<open>With a step of five the legend of thresholds from 0 to 80 ends.\<close>

lemma even_legend_ends: "\<exists>ticks. tick_loop (FFin False 0) (FFin False 80) (FFin False 5) (FFin False 0) = Some ticks"
proof -
  have "tick_at (FFin False 5) 17 (FFin False 0) = FFin False 85" by code_simp
  moreover have "\<not> below_top (FFin False 80) (FFin False 85)"
    by (simp add: below_top_def legend_floats fle_def float_eval)
  ultimately show ?thesis using tick_loop_ends [of "FFin False 80" "FFin False 5" 17] by metis
qed

section \<open>The readout never panics\<close>

text \<open>
  C34: A frame never panics over its data. For a selected grid as the compute stage makes it, the
  chrome of every frame is drawn whatever the cursor, the view and the health of the feed are,
  unless the legend's loop does not end.
\<close>

theorem chrome_drawn:
  assumes "pred_option wf_grid (ci_selected_grid i)"
    and "pred_option (\<lambda>p. legend_ticks p \<noteq> None) (ci_palette i)"
  shows "\<exists>c. draw_chrome lm sc atan2 fixed i = Some (Ok c) \<and>
    (ch_loading c = None \<longleftrightarrow> ss_sweeps (ci_snapshot i) \<noteq> []) \<and> length (ch_city_labels c) = 2 * length (ci_placed_labels i)"
proof -
  have "\<exists>r. cursor_readout lm atan2 fixed i = Ok r"
  proof (cases "if ci_pointer_in_window i then ci_cursor_world i else None")
    case None
    then show ?thesis by (simp add: cursor_readout_def)
  next
    case (Some world)
    obtain ground_m az_deg where cp: "cursor_polar lm atan2 world = (ground_m, az_deg)" by fastforce
    show ?thesis
    proof (cases "ci_selected_grid i")
      case None
      then show ?thesis by (simp add: cursor_readout_def Some cp)
    next
      case (Some g)
      then have "wf_grid g" using assms(1) by simp
      then obtain c where "sample_at lm g ground_m az_deg = Ok c" using sample_at_cases by blast
      then show ?thesis
        using \<open>(if ci_pointer_in_window i then ci_cursor_world i else None) = Some world\<close>
        by (simp add: cursor_readout_def Some cp Let_def)
    qed
  qed
  then obtain r where r: "cursor_readout lm atan2 fixed i = Ok r" by blast
  obtain legend where legend: "(case ci_palette i of None \<Rightarrow> Some None
       | Some p \<Rightarrow> map_option Some (legend_of fixed p (ci_selected_grid i) (vw_product (ci_view i)))) = Some legend"
    using assms(2) by (cases "ci_palette i") (auto simp: legend_of_def)
  have "\<exists>rings. (if vw_show_reference (ci_view i) then visible_ring_labels sc (ci_view i) (ci_viewport i) else Some []) =
      Some rings"
    by (simp add: visible_ring_labels_def ring_labels_def ring_radii_exact)
  then obtain rings where rings:
      "(if vw_show_reference (ci_view i) then visible_ring_labels sc (ci_view i) (ci_viewport i) else Some []) = Some rings"
    by blast
  have two: "length (concat (map city_label ls)) = 2 * length ls" for ls
    by (induction ls) (simp_all add: city_label_def Let_def)
  show ?thesis
    unfolding draw_chrome_def legend rings using r two by (auto simp: Let_def)
qed

definition sample_chrome :: chrome_input where
  "sample_chrome =
     \<lparr>ci_site = hd SITES, ci_snapshot = snapshot (app_new (hd SITES) ingest_status_default),
      ci_view = view_initial (f32lit 1280, f32lit 800) Reflectivity, ci_selected_grid = Some sample_tilt,
      ci_selected_elevation_deg = Some (f32lit (1 / 2)), ci_displayed_volume = None, ci_palette = None,
      ci_cursor_world = Some (f64lit 1, f64lit 2), ci_pointer_in_window = True, ci_recent_event = None,
      ci_show_help = False, ci_now = 0, ci_viewport = (f32lit 1280, f32lit 800), ci_placed_labels = []\<rparr>"

theorem chrome_drawn_witness:
  "\<exists>c. draw_chrome sample_libm (\<lambda>x. (x, x)) (\<lambda>x y. x) (\<lambda>n x. []) sample_chrome = Some (Ok c) \<and> ch_city_labels c = []"
proof -
  have "pred_option wf_grid (ci_selected_grid sample_chrome)"
    using wf_sample_tilt by (simp add: sample_chrome_def)
  moreover have "pred_option (\<lambda>p. legend_ticks p \<noteq> None) (ci_palette sample_chrome)" by (simp add: sample_chrome_def)
  ultimately obtain c where "draw_chrome sample_libm (\<lambda>x. (x, x)) (\<lambda>x y. x) (\<lambda>n x. []) sample_chrome = Some (Ok c)"
      "length (ch_city_labels c) = 2 * length (ci_placed_labels sample_chrome)"
    using chrome_drawn [of sample_chrome sample_libm "\<lambda>x. (x, x)" "\<lambda>x y. x" "\<lambda>n x. []"] by blast
  then show ?thesis by (simp add: sample_chrome_def)
qed

end
