(* ===== verification/Frame_Loop.thy ===== *)
theory Frame_Loop
  imports Chrome
begin

text \<open>
  The frame loop, \<open>render/mod.rs\<close>: what a frame computes and remembers, when the next one
  is asked for, and how a surface that cannot be presented to ends the program. Times are
  nanoseconds. What \<open>wgpu\<close>, \<open>winit\<close> and egui answer is an argument of the step.
\<close>

section \<open>Labels are kept until the view moves\<close>

definition STATUS_BAR_HEIGHT_PX :: fp where "STATUS_BAR_HEIGHT_PX = f32lit 28"
definition LEGEND_WIDTH_PX :: fp where "LEGEND_WIDTH_PX = f32lit 84"

definition label_area :: "viewport \<Rightarrow> fp \<times> fp \<times> fp \<times> fp" where
  "label_area vp = (f32lit 0, f32lit 0, fsub F32 (fst vp) LEGEND_WIDTH_PX, fsub F32 (snd vp) STATUS_BAR_HEIGHT_PX)"

text \<open>The bits of the floats; a NaN without its payload.\<close>

record labels_cache_key =
  lk_center_m :: "fp \<times> fp"
  lk_m_per_px :: fp
  lk_viewport :: viewport
  lk_avail :: "fp \<times> fp \<times> fp \<times> fp"

type_synonym label_cache = "labels_cache_key option \<times> placed_label list"

definition refresh_labels :: "label_candidate list \<Rightarrow> view_state \<Rightarrow> viewport \<Rightarrow> label_cache \<Rightarrow> label_cache" where
  "refresh_labels cs v vp cache =
     (let avail = label_area vp;
          key = \<lparr>lk_center_m = vw_center_m v, lk_m_per_px = vw_m_per_px v, lk_viewport = vp, lk_avail = avail\<rparr>
      in if fst cache \<noteq> Some key then (Some key, select_labels cs v vp avail) else cache)"

section \<open>The late-failure guard\<close>

definition STARTUP_WINDOW :: nat where "STARTUP_WINDOW = 2 * 1000000000"
definition MAX_STARTUP_RECONFIGURES :: nat where "MAX_STARTUP_RECONFIGURES = 3"
definition PRESENTATION_LOSS_GRACE :: nat where "PRESENTATION_LOSS_GRACE = 10 * 1000000000"
definition IDLE_TICK :: nat where "IDLE_TICK = 500000000"

datatype surface_texture = Frame_Success | Frame_Suboptimal | Frame_Outdated | Frame_Lost | Frame_Timeout
  | Frame_Occluded | Frame_Validation

record guard_state =
  gs_first_frame_at :: "nat option"
  gs_reconfigure_count :: nat
  gs_fatal_error :: "render_error option"
  gs_exiting :: bool

definition guard_new :: guard_state where
  "guard_new = \<lparr>gs_first_frame_at = None, gs_reconfigure_count = 0, gs_fatal_error = None, gs_exiting = False\<rparr>"

definition first_frame :: "nat \<Rightarrow> guard_state \<Rightarrow> guard_state" where
  "first_frame now s = s\<lparr>gs_first_frame_at := (case gs_first_frame_at s of None \<Rightarrow> Some now | Some t \<Rightarrow> Some t)\<rparr>"

text \<open>\<open>None\<close>: the count of reconfigurations overflows, which the release profile makes a panic.\<close>

definition on_surface_lost ::
  "(backend \<Rightarrow> utext) \<Rightarrow> adapter_facts \<Rightarrow> nat \<Rightarrow> utext option \<Rightarrow> guard_state \<Rightarrow> guard_state option" where
  "on_surface_lost debug_backend adapter now validation_error s =
     (if 2 ^ 32 \<le> gs_reconfigure_count s + 1 then None
      else
        let s = s\<lparr>gs_reconfigure_count := gs_reconfigure_count s + 1\<rparr>;
            within_startup = (case gs_first_frame_at s of Some t \<Rightarrow> now - t < STARTUP_WINDOW | None \<Rightarrow> True)
        in Some (if validation_error \<noteq> None \<or> (within_startup \<and> MAX_STARTUP_RECONFIGURES < gs_reconfigure_count s)
                 then s\<lparr>gs_fatal_error := Some (PresentationLost (describe_facts debug_backend adapter)), gs_exiting := True\<rparr>
                 else s))"

section \<open>Pacing\<close>

record pacing =
  pc_last_drawn_revision :: "u64 option"
  pc_last_chrome_text :: utext
  pc_next_deadline :: nat

definition chrome_age_text :: "ingest_status \<Rightarrow> nat \<Rightarrow> utext" where
  "chrome_age_text ingest now =
     (case is_last_success ingest of
        Some t \<Rightarrow> decimal ((now - t) div 1000000000)
      | None \<Rightarrow> lit ''none'')"

text \<open>The end of a frame; \<open>delays\<close> are egui's, one per viewport.\<close>

definition set_deadline :: "nat list \<Rightarrow> nat \<Rightarrow> pacing \<Rightarrow> pacing" where
  "set_deadline delays now p =
     (let egui_delay = (if delays = [] then IDLE_TICK else Min (set delays))
      in p\<lparr>pc_next_deadline := now + min egui_delay IDLE_TICK\<rparr>)"

text \<open>Before the loop waits: the new state, whether a redraw is asked for, and the time to wait until.\<close>

definition about_to_wait :: "'site state_snapshot \<Rightarrow> nat \<Rightarrow> pacing \<Rightarrow> pacing \<times> bool \<times> nat" where
  "about_to_wait snap now p =
     (let age_text = chrome_age_text (ss_ingest snap) now;
          redraw = (pc_last_drawn_revision p \<noteq> Some (ss_revision snap) \<or> age_text \<noteq> pc_last_chrome_text p);
          p = (if redraw then p\<lparr>pc_last_chrome_text := age_text\<rparr> else p);
          p = (if pc_next_deadline p \<le> now then p\<lparr>pc_next_deadline := now + IDLE_TICK\<rparr> else p)
      in (p, redraw, pc_next_deadline p))"

section \<open>A frame\<close>

record render_app =
  ra_ui :: ui_state
  ra_upload :: upload_state
  ra_labels :: label_cache
  ra_pacing :: pacing
  ra_guard :: guard_state
  ra_gpu :: gpu
  ra_overlay :: "overlay_renderer option"

text \<open>What is the same in every frame.\<close>

record frame_env =
  fe_libm :: libm
  fe_sin_cos :: sin_cos
  fe_atan2 :: "fp \<Rightarrow> fp \<Rightarrow> fp"
  fe_fixed :: "nat \<Rightarrow> fp \<Rightarrow> utext"
  fe_neg_nan :: "u8 \<Rightarrow> bool"
  fe_fresh :: "nat list \<Rightarrow> nat"
  fe_debug_backend :: "backend \<Rightarrow> utext"
  fe_show_event :: "event \<Rightarrow> utext"
  fe_site :: site
  fe_palettes :: "(display_product, palette) tree_map"

text \<open>What a frame meets.\<close>

record frame_input =
  fi_app_state :: "site app_state"
  fi_at_addr :: "nat \<Rightarrow> nat"
  fi_now :: nat
  fi_surface :: surface_texture
  fi_validation_error :: "utext option"
  fi_pointer_in_window :: bool
  fi_repaint_delays :: "nat list"

record frame =
  fr_underlay :: "((nat \<times> nat) \<times> uniform_word list) list"
  fr_radar :: "(texture \<times> uniform_word list \<times> uniform_word list) option"
  fr_reference :: "uniform_word list option"
  fr_site_markers :: "(nat \<times> uniform_word list) option"
  fr_chrome :: chrome

datatype frame_result = Drawn frame | Not_Drawn | Panics | Hangs

definition app_viewport :: "render_app \<Rightarrow> viewport" where
  "app_viewport a =
     (fp_of_nat F32 (bu_width (gp_brought_up (ra_gpu a))), fp_of_nat F32 (bu_height (gp_brought_up (ra_gpu a))))"

definition overlay_candidates :: "render_app \<Rightarrow> label_candidate list" where
  "overlay_candidates a = (case ra_overlay a of None \<Rightarrow> [] | Some r \<Rightarrow> or_label_candidates r)"

text \<open>What precedes the acquisition of the surface: selection, labels and uploads; with the events to report.\<close>

definition prepare_frame ::
  "frame_env \<Rightarrow> frame_input \<Rightarrow> render_app \<Rightarrow> render_app \<times> sweep_grid option \<times> fp option \<times> event list" where
  "prepare_frame env i a =
     (let snap = snapshot (fi_app_state i);
          (v, grid, deg) = resolve_selection (fe_neg_nan env) snap (ui_view (ra_ui a));
          (up, events) = upload_frame (fe_fresh env) (fe_libm env) (fi_at_addr i) (fe_palettes env) snap (ra_upload a)
      in (a\<lparr>ra_ui := (ra_ui a)\<lparr>ui_view := v\<rparr>,
            ra_labels := refresh_labels (overlay_candidates a) v (app_viewport a) (ra_labels a),
            ra_upload := up,
            ra_pacing := (ra_pacing a)\<lparr>pc_last_drawn_revision := Some (ss_revision snap)\<rparr>,
            ra_guard := first_frame (fi_now i) (ra_guard a)\<rparr>,
          grid, deg, events))"

definition chrome_of :: "frame_env \<Rightarrow> frame_input \<Rightarrow> render_app \<Rightarrow> sweep_grid option \<Rightarrow> fp option \<Rightarrow> chrome_input" where
  "chrome_of env i a grid deg =
     (let snap = snapshot (fi_app_state i); v = ui_view (ra_ui a); vp = app_viewport a in
      \<lparr>ci_site = fe_site env, ci_snapshot = snap, ci_view = v, ci_selected_grid = grid,
       ci_selected_elevation_deg = deg,
       ci_displayed_volume =
         map_option ds_volume (find (\<lambda>s. ds_elevation_number s = vw_elevation_number v) (ss_sweeps snap)),
       ci_palette = tm_get (fe_palettes env) (vw_product v),
       ci_cursor_world = map_option (\<lambda>(x, y). screen_to_world (f64_to_f32 x) (f64_to_f32 y) v vp) (ui_cursor_pos (ra_ui a)),
       ci_pointer_in_window = fi_pointer_in_window i,
       ci_recent_event =
         (let r = log_recent (fe_show_event env) (as_events (fi_app_state i)) 1
          in if r = [] then None else Some (snd (List.last r))),
       ci_show_help = ui_show_help (ra_ui a), ci_now = fi_now i, ci_viewport = vp, ci_placed_labels = snd (ra_labels a)\<rparr>)"

definition draw_frame :: "frame_env \<Rightarrow> render_app \<Rightarrow> sweep_grid option \<Rightarrow> chrome \<Rightarrow> frame" where
  "draw_frame env a grid c =
     (let v = ui_view (ra_ui a); cam = camera_from_view v (app_viewport a) in
      \<lparr>fr_underlay = (case ra_overlay a of None \<Rightarrow> [] | Some r \<Rightarrow> draw_overlay r cam (vw_show_highways v)),
       fr_radar = Option.bind grid (\<lambda>g. draw_radar (up_cache (ra_upload a)) g cam),
       fr_reference = (if vw_show_reference v then Some (ref_uniform_words cam) else None),
       fr_site_markers = Option.bind (ra_overlay a) (\<lambda>r. draw_site_markers r cam),
       fr_chrome = c\<rparr>)"

definition redraw :: "frame_env \<Rightarrow> frame_input \<Rightarrow> render_app \<Rightarrow> render_app \<times> frame_result \<times> event list" where
  "redraw env i a =
     (let (a, grid, deg, events) = prepare_frame env i a in
      if fi_surface i = Frame_Outdated \<or> fi_surface i = Frame_Lost then
        (case on_surface_lost (fe_debug_backend env) (gp_adapter (ra_gpu a)) (fi_now i)
                (fi_validation_error i) (ra_guard a) of
           None \<Rightarrow> (a, Panics, events)
         | Some g \<Rightarrow> (a\<lparr>ra_guard := g, ra_gpu := (ra_gpu a)\<lparr>gp_uncaptured_error := None\<rparr>\<rparr>, Not_Drawn, events))
      else if fi_surface i \<noteq> Frame_Success \<and> fi_surface i \<noteq> Frame_Suboptimal then (a, Not_Drawn, events)
      else
        (case draw_chrome (fe_libm env) (fe_sin_cos env) (fe_atan2 env) (fe_fixed env) (chrome_of env i a grid deg) of
           None \<Rightarrow> (a, Hangs, events)
         | Some (Inl _) \<Rightarrow> (a, Panics, events)
         | Some (Inr c) \<Rightarrow>
             (a\<lparr>ra_gpu := (ra_gpu a)\<lparr>gp_uncaptured_error := None\<rparr>,
                ra_pacing := set_deadline (fi_repaint_delays i) (fi_now i) (ra_pacing a)\<rparr>,
              Drawn (draw_frame env a grid c), events)))"

section \<open>The start of the loop\<close>

text \<open>
  \<open>resumed\<close> on an application with no window: the outcome of the window, of the bring-up
  (\<open>None\<close> when it panics, which is caught), and the bytes of the bundle. The underlay is the
  reader's and the projection's; a panic of the projection is not caught.
\<close>

datatype resume_outcome = Resume_Failed render_error | Resume_Panics | Resume_Ready render_app "event list"

definition overlay_start :: "frame_env \<Rightarrow> bytes \<Rightarrow> (overlay_renderer option \<times> event list) option" where
  "overlay_start env overlay_bin =
     (case bundled overlay_bin of
        None \<Rightarrow> Some (None, [OverlayBundleInvalid ''compiled-in bundle failed structural validation''])
      | Some b \<Rightarrow>
          map_option (\<lambda>(p, events). (Some (overlay_new (fe_libm env) p (fe_site env)), events))
            (project (fe_libm env) b (fe_site env)))"

definition resumed ::
  "frame_env \<Rightarrow> bytes \<Rightarrow> utext + unit \<Rightarrow> (render_error + gpu) option \<Rightarrow> ui_state \<Rightarrow> pacing \<Rightarrow> guard_state \<Rightarrow>
   resume_outcome" where
  "resumed env overlay_bin window init u p s =
     (case window of
        Inl e \<Rightarrow> Resume_Failed (Surface e)
      | Inr _ \<Rightarrow>
          (case init of
             None \<Rightarrow> Resume_Failed (Device
               (lit ''the GPU rejected the render surface (this can happen under a nested or headless compositor)''))
           | Some (Inl e) \<Rightarrow> Resume_Failed e
           | Some (Inr g) \<Rightarrow>
               (case overlay_start env overlay_bin of
                  None \<Rightarrow> Resume_Panics
                | Some (overlay, events) \<Rightarrow>
                    Resume_Ready
                      \<lparr>ra_ui = u,
                       ra_upload = \<lparr>up_cache = radar_cache_new (sfm_is_srgb (bu_format (gp_brought_up g)))
                           (of_nat (bu_max_texture_dimension (gp_brought_up g))), up_last_revision = None\<rparr>,
                       ra_labels = (None, []), ra_pacing = p, ra_guard = s, ra_gpu = g, ra_overlay = overlay\<rparr>
                      events)))"

section \<open>The end of the loop\<close>

record persisted_view =
  pv_width :: nat
  pv_height :: nat
  pv_product :: display_product
  pv_show_highways :: bool
  pv_show_reference :: bool

text \<open>\<open>run\<close> after the event loop: its outcome, the time it ended, and the size of the window.\<close>

definition run_result ::
  "(backend \<Rightarrow> utext) \<Rightarrow> gpu option \<Rightarrow> guard_state \<Rightarrow> view_state \<Rightarrow> utext + unit \<Rightarrow> nat \<Rightarrow> nat \<times> nat \<Rightarrow>
   render_error + persisted_view" where
  "run_result debug_backend g s v loop_result now dims =
     (case gs_fatal_error s of
        Some e \<Rightarrow> Err e
      | None \<Rightarrow>
          (case loop_result of
             Inl e \<Rightarrow>
               (case (g, gs_first_frame_at s) of
                  (Some g, Some t) \<Rightarrow>
                    if now - t < PRESENTATION_LOSS_GRACE
                    then Err (PresentationLost (describe_facts debug_backend (gp_adapter g)))
                    else Err (EventLoop e)
                | _ \<Rightarrow> Err (EventLoop e))
           | Inr _ \<Rightarrow> Ok \<lparr>pv_width = fst dims, pv_height = snd dims, pv_product = vw_product v,
               pv_show_highways = vw_show_highways v, pv_show_reference = vw_show_reference v\<rparr>))"

section \<open>Kept labels are the current ones\<close>

lemma world_to_screen_view:
  assumes "vw_center_m v = vw_center_m v'" "vw_m_per_px v = vw_m_per_px v'"
  shows "world_to_screen w v vp = world_to_screen w v' vp"
  using assms by (simp add: world_to_screen_def)

lemma place_labels_view:
  assumes "vw_center_m v = vw_center_m v'" "vw_m_per_px v = vw_m_per_px v'"
  shows "place_labels v vp avail cs boxes out = place_labels v' vp avail cs boxes out"
  by (induction cs arbitrary: boxes out) (simp_all add: world_to_screen_view [OF assms] Let_def)

definition labels_match :: "label_candidate list \<Rightarrow> label_cache \<Rightarrow> bool" where
  "labels_match cs cache =
     (\<forall>v vp. fst cache = Some \<lparr>lk_center_m = vw_center_m v, lk_m_per_px = vw_m_per_px v, lk_viewport = vp,
        lk_avail = label_area vp\<rparr> \<longrightarrow> snd cache = select_labels cs v vp (label_area vp))"

lemma refresh_labels_match:
  assumes "labels_match cs cache"
  shows "labels_match cs (refresh_labels cs v vp cache)"
    and "snd (refresh_labels cs v vp cache) = select_labels cs v vp (label_area vp)"
proof -
  let ?key = "\<lparr>lk_center_m = vw_center_m v, lk_m_per_px = vw_m_per_px v, lk_viewport = vp, lk_avail = label_area vp\<rparr>"
  have same: "select_labels cs v vp (label_area vp) = select_labels cs v' vp (label_area vp)"
    if "vw_center_m v = vw_center_m v'" "vw_m_per_px v = vw_m_per_px v'" for v'
    unfolding select_labels_def using place_labels_view [OF that] .
  have new: "labels_match cs (Some ?key, select_labels cs v vp (label_area vp))"
    unfolding labels_match_def
  proof (intro allI impI)
    fix v' :: view_state and vp' :: viewport
    assume "fst (Some ?key, select_labels cs v vp (label_area vp)) =
      Some \<lparr>lk_center_m = vw_center_m v', lk_m_per_px = vw_m_per_px v', lk_viewport = vp', lk_avail = label_area vp'\<rparr>"
    then have "vw_center_m v = vw_center_m v'" "vw_m_per_px v = vw_m_per_px v'" "vp = vp'" by simp_all
    then show "snd (Some ?key, select_labels cs v vp (label_area vp)) = select_labels cs v' vp' (label_area vp')"
      using same by simp
  qed
  show "labels_match cs (refresh_labels cs v vp cache)"
    using assms new by (simp add: refresh_labels_def Let_def)
  show "snd (refresh_labels cs v vp cache) = select_labels cs v vp (label_area vp)"
    using assms [unfolded labels_match_def, rule_format, of v vp] unfolding refresh_labels_def Let_def by simp
qed

text \<open>
  C33: The labels on the screen are never stale. After any frames, with any pans, zooms and
  resizes between them, the labels kept from frame to frame are those that placing them
  anew for the current view would give.
\<close>

theorem labels_always_current:
  "snd (fold (\<lambda>(v, vp). refresh_labels cs v vp) (frames @ [(v, vp)]) (None, [])) =
     select_labels cs v vp (label_area vp)"
proof -
  have "labels_match cs cache \<Longrightarrow> labels_match cs (fold (\<lambda>(v, vp). refresh_labels cs v vp) frames cache)" for cache
    by (induction frames arbitrary: cache) (simp_all add: split_beta refresh_labels_match(1))
  then have "labels_match cs (fold (\<lambda>(v, vp). refresh_labels cs v vp) frames (None, []))"
    by (simp add: labels_match_def)
  then show ?thesis by (simp add: refresh_labels_match)
qed

section \<open>The loop never sleeps past the tick\<close>

datatype pace_step = Frame_Ended "nat list" | Waits

text \<open>Steps with the time that passed before each; the state, the clock, and the last wait.\<close>

fun pace ::
  "'site state_snapshot \<Rightarrow> pacing \<times> nat \<times> nat option \<Rightarrow> nat \<times> pace_step \<Rightarrow> pacing \<times> nat \<times> nat option" where
  "pace snap (p, now, w) (dt, Frame_Ended delays) = (set_deadline delays (now + dt) p, now + dt, w)"
| "pace snap (p, now, w) (dt, Waits) =
     (let (p, _, until) = about_to_wait snap (now + dt) p in (p, now + dt, Some until))"

lemma pace_deadline:
  "pc_next_deadline (fst (foldl (pace snap) (p, now, w) steps)) \<le>
     max (pc_next_deadline p) (fst (snd (foldl (pace snap) (p, now, w) steps)) + IDLE_TICK) \<and>
   now \<le> fst (snd (foldl (pace snap) (p, now, w) steps))"
proof (induction steps arbitrary: p now w rule: rev_induct)
  case (snoc s steps)
  obtain p' now' w' where before: "foldl (pace snap) (p, now, w) steps = (p', now', w')" by (cases "foldl (pace snap) (p, now, w) steps")
  obtain dt k where s: "s = (dt, k)" by (cases s)
  have ih: "pc_next_deadline p' \<le> max (pc_next_deadline p) (now' + IDLE_TICK)" "now \<le> now'"
    using snoc [of p now w] before by simp_all
  show ?case
  proof (cases k)
    case (Frame_Ended delays)
    then show ?thesis using ih by (simp add: before s set_deadline_def Let_def)
  next
    case Waits
    then show ?thesis using ih by (auto simp: before s about_to_wait_def Let_def)
  qed
qed simp

text \<open>
  C40: The loop wakes within half a second. Whatever frames ended and whatever repaint delays
  egui asked for, a wait ends later than now and at most one idle tick after it, so a change
  of the data or of the age shown is never noticed later than that.
\<close>

theorem wakes_within_tick:
  assumes "pc_next_deadline p \<le> now"
    and "foldl (pace snap) (p, now, w) (steps @ [(dt, Waits)]) = (p', now', Some until)"
  shows "now' < until \<and> until \<le> now' + IDLE_TICK"
proof -
  obtain p1 now1 w1 where before: "foldl (pace snap) (p, now, w) steps = (p1, now1, w1)"
    by (cases "foldl (pace snap) (p, now, w) steps")
  have "pc_next_deadline p1 \<le> max (pc_next_deadline p) (now1 + IDLE_TICK)" "now \<le> now1"
    using pace_deadline [of snap p now w steps] before by simp_all
  then have "pc_next_deadline p1 \<le> now1 + IDLE_TICK" using assms(1) by simp
  moreover have "0 < IDLE_TICK" by (simp add: IDLE_TICK_def)
  ultimately show ?thesis
    using assms(2) by (auto simp: before about_to_wait_def Let_def split: if_splits)
qed

definition sample_pacing :: pacing where
  "sample_pacing = \<lparr>pc_last_drawn_revision = None, pc_last_chrome_text = [], pc_next_deadline = 0\<rparr>"

theorem wakes_within_tick_witness:
  "\<exists>p' until. foldl (pace (snapshot (app_new (hd SITES) ingest_status_default))) (sample_pacing, 0, None)
      ([(7, Frame_Ended [3])] @ [(5, Waits)]) = (p', 12, Some until) \<and> 12 < until \<and> until \<le> 12 + IDLE_TICK"
proof -
  let ?snap = "snapshot (app_new (hd SITES) ingest_status_default)"
  let ?r = "foldl (pace ?snap) (sample_pacing, 0, None) ([(7, Frame_Ended [3])] @ [(5, Waits)])"
  obtain p' until where r: "?r = (p', 12, Some until)"
    by (cases "fst (snd (about_to_wait ?snap 12 (set_deadline [3] 7 sample_pacing)))") (auto simp: split_beta)
  have "pc_next_deadline sample_pacing \<le> 0" by (simp add: sample_pacing_def)
  from wakes_within_tick [OF this r] r show ?thesis by blast
qed

text \<open>
  A repaint egui asks for is not drawn: when it is due, no redraw is asked for unless the
  data or the age changed; and one that is due at once waits a whole tick.
\<close>

lemma repaint_not_honoured:
  assumes "pc_last_drawn_revision p = Some (ss_revision snap)"
    and "pc_last_chrome_text p = chrome_age_text (ss_ingest snap) now"
  shows "\<not> fst (snd (about_to_wait snap now p))"
    and "snd (snd (about_to_wait snap now (set_deadline [0] now p))) = now + IDLE_TICK"
  using assms by (simp_all add: about_to_wait_def set_deadline_def Let_def)

section \<open>The late-failure guard\<close>

definition lost_run ::
  "(backend \<Rightarrow> utext) \<Rightarrow> adapter_facts \<Rightarrow> (nat \<times> utext option) list \<Rightarrow> guard_state \<Rightarrow> guard_state option" where
  "lost_run debug_backend adapter losses s =
     foldl (\<lambda>s (now, e). Option.bind s (on_surface_lost debug_backend adapter now e \<circ> first_frame now)) (Some s) losses"

lemma lost_run_snoc:
  "lost_run debug_backend adapter (losses @ [(now, e)]) s =
     Option.bind (lost_run debug_backend adapter losses s) (on_surface_lost debug_backend adapter now e \<circ> first_frame now)"
  by (simp add: lost_run_def)

text \<open>The losses that end the program: one with a validation error, or one within two seconds of
  the first frame with three losses, of whatever time, before it.\<close>

definition loss_ends :: "nat \<Rightarrow> (nat \<times> utext option) list \<Rightarrow> nat \<Rightarrow> bool" where
  "loss_ends t losses i =
     (snd (losses ! i) \<noteq> None \<or> (fst (losses ! i) - t < 2000000000 \<and> 3 \<le> i))"

lemma loss_ends_snoc:
  "(\<exists>i<length (losses @ [x]). loss_ends t (losses @ [x]) i) \<longleftrightarrow>
     (\<exists>i<length losses. loss_ends t losses i) \<or>
     snd x \<noteq> None \<or> (fst x - t < 2000000000 \<and> 3 \<le> length losses)"
  by (auto simp: loss_ends_def nth_append less_Suc_eq)

lemma lost_run_state:
  assumes "length losses < 2 ^ 32"
  shows "\<exists>s. lost_run debug_backend adapter losses (first_frame t guard_new) = Some s \<and>
    gs_reconfigure_count s = length losses \<and> gs_first_frame_at s = Some t \<and>
    gs_fatal_error s =
      (if \<exists>i<length losses. loss_ends t losses i
       then Some (PresentationLost (describe_facts debug_backend adapter)) else None) \<and>
    gs_exiting s = (\<exists>i<length losses. loss_ends t losses i)"
  using assms
proof (induction losses rule: rev_induct)
  case Nil
  then show ?case by (simp add: lost_run_def first_frame_def guard_new_def)
next
  case (snoc x losses)
  obtain now e where x: "x = (now, e)" by (cases x)
  obtain s where s: "lost_run debug_backend adapter losses (first_frame t guard_new) = Some s"
      "gs_reconfigure_count s = length losses" "gs_first_frame_at s = Some t"
      "gs_fatal_error s = (if \<exists>i<length losses. loss_ends t losses i
         then Some (PresentationLost (describe_facts debug_backend adapter)) else None)"
      "gs_exiting s = (\<exists>i<length losses. loss_ends t losses i)"
    using snoc by auto
  have fits: "\<not> 2 ^ 32 \<le> length losses + 1" using snoc(2) by simp
  have late: "(STARTUP_WINDOW :: nat) = 2000000000" by (simp add: STARTUP_WINDOW_def)
  have three: "(MAX_STARTUP_RECONFIGURES < length losses + 1) = (3 \<le> length losses)"
    by (auto simp: MAX_STARTUP_RECONFIGURES_def)
  show ?case
    using fits s unfolding x lost_run_snoc loss_ends_snoc
    by (auto simp: on_surface_lost_def first_frame_def Let_def late three simp del: One_nat_def)
qed

text \<open>
  C39: A lost surface ends the program exactly when it cannot recover. Over any losses, early
  and late in any mixture, the program is told to end if and only if one of them came with a
  validation error, or came within two seconds of the first frame with at least three losses
  before it; the error is then the loss of the presentation on the adapter in use. Any other
  run of losses, however long, is survived.
\<close>

theorem presentation_loss_exact:
  assumes "length losses < 2 ^ 32"
  shows "\<exists>s. lost_run debug_backend adapter losses (first_frame t guard_new) = Some s \<and>
    (gs_exiting s \<longleftrightarrow> (\<exists>i<length losses. snd (losses ! i) \<noteq> None \<or>
        (fst (losses ! i) - t < 2000000000 \<and> 3 \<le> i))) \<and>
    gs_fatal_error s =
      (if gs_exiting s then Some (PresentationLost (describe_facts debug_backend adapter)) else None)"
proof -
  obtain s where "lost_run debug_backend adapter losses (first_frame t guard_new) = Some s"
      "gs_fatal_error s = (if \<exists>i<length losses. loss_ends t losses i
         then Some (PresentationLost (describe_facts debug_backend adapter)) else None)"
      "gs_exiting s = (\<exists>i<length losses. loss_ends t losses i)"
    using lost_run_state [OF assms, of debug_backend adapter t] by blast
  then show ?thesis by (intro exI [of _ s]) (simp add: loss_ends_def)
qed

text \<open>
  The witness: three losses at the start, then one after the two seconds, are survived; a
  validation error after that ends the program.
\<close>

theorem presentation_loss_exact_witness:
  "(\<exists>s. lost_run (\<lambda>_. []) (hd sample_adapters)
        [(5, None), (6, None), (7, None), (3000000000, None)] (first_frame 5 guard_new) = Some s \<and>
      gs_fatal_error s = None) \<and>
   (\<exists>s. lost_run (\<lambda>_. []) (hd sample_adapters)
        [(5, None), (3000000000, None), (3000000001, Some [])] (first_frame 5 guard_new) = Some s \<and>
      gs_fatal_error s \<noteq> None)"
proof -
  let ?survived = "[(5, None), (6, None), (7, None), (3000000000, None)] :: (nat \<times> utext option) list"
  let ?fatal = "[(5, None), (3000000000, None), (3000000001, Some [])] :: (nat \<times> utext option) list"
  have "length ?survived < 2 ^ 32" "length ?fatal < 2 ^ 32" by simp_all
  note runs = this [THEN presentation_loss_exact, of "\<lambda>_. []" "hd sample_adapters" 5]
  have "\<not> (\<exists>i<length ?survived. snd (?survived ! i) \<noteq> None \<or> (fst (?survived ! i) - 5 < 2000000000 \<and> 3 \<le> i))"
  proof (intro notI, elim exE conjE)
    fix i :: nat
    assume "i < length ?survived"
    then have "i = 0 \<or> i = 1 \<or> i = 2 \<or> i = 3" by (simp, arith)
    moreover assume "snd (?survived ! i) \<noteq> None \<or> (fst (?survived ! i) - 5 < 2000000000 \<and> 3 \<le> i)"
    ultimately show False by auto
  qed
  moreover have "\<exists>i<length ?fatal. snd (?fatal ! i) \<noteq> None \<or> (fst (?fatal ! i) - 5 < 2000000000 \<and> 3 \<le> i)"
    by (rule exI [of _ 2]) simp
  ultimately show ?thesis using runs by auto
qed

end
