(* ===== verification/Main_Program.thy ===== *)
theory Main_Program
  imports Frame_Loop Startup
begin

text \<open>
  The program itself, \<open>main.rs\<close>, and its mode without a window, \<open>headless.rs\<close>: from the command
  line and the configuration to the exit code, and what a clean shutdown saves. Paths are
  text; the file a path leads to and the outcome of the render loop are arguments.
\<close>

section \<open>Start-up\<close>

definition RUNTIME_WORKER_THREADS :: nat where "RUNTIME_WORKER_THREADS = 2"

record started =
  sd_site :: site
  sd_config :: config
  sd_config_path :: "utext option"
  sd_headless :: bool
  sd_events :: "event list"

datatype start_outcome =
  Shows_Help
| Shows_Version
| Bad_Arguments utext
| Unknown_Site utext
| No_Site
| No_Runtime
| Runs started

fun exit_code :: "start_outcome \<Rightarrow> nat" where
  "exit_code Shows_Help = 0"
| "exit_code Shows_Version = 0"
| "exit_code (Bad_Arguments _) = 2"
| "exit_code (Unknown_Site _) = 2"
| "exit_code No_Site = 2"
| "exit_code No_Runtime = 1"
| "exit_code (Runs _) = 0"

definition start_up :: "utext list \<Rightarrow> environment \<Rightarrow> (utext \<Rightarrow> file_read) \<Rightarrow> bool \<Rightarrow> start_outcome" where
  "start_up argv env read_file runtime_ok =
     (case parse_args argv of
        Help \<Rightarrow> Shows_Help
      | Version \<Rightarrow> Shows_Version
      | Args_Error message \<Rightarrow> Bad_Arguments message
      | Args_Given a \<Rightarrow>
          let path = (case ar_config_path a of
                        Some p \<Rightarrow> Some p
                      | None \<Rightarrow> map_option (\<lambda>dir. path_join dir (lit ''config'')) (config_dir env));
              (cfg, events) = (case path of Some p \<Rightarrow> load_config p (read_file p) | None \<Rightarrow> (config_default, []))
          in (case resolve_site (ar_site a) (cf_site cfg) of
                Inl (UnknownCliSite i) \<Rightarrow> Unknown_Site i
              | Inl NoSiteSpecified \<Rightarrow> No_Site
              | Inr s \<Rightarrow>
                  if \<not> runtime_ok then No_Runtime
                  else Runs \<lparr>sd_site = s, sd_config = cfg, sd_config_path = path,
                         sd_headless = ar_headless a, sd_events = events\<rparr>))"

section \<open>The window and what it leaves\<close>

definition initial_window :: "config \<Rightarrow> nat \<times> nat" where
  "initial_window cfg =
     ((case cf_window_width cfg of Some w \<Rightarrow> w | None \<Rightarrow> 1280),
      (case cf_window_height cfg of Some h \<Rightarrow> h | None \<Rightarrow> 800))"

definition first_view :: "config \<Rightarrow> view_state" where
  "first_view cfg =
     (let (w, h) = initial_window cfg;
          v = view_initial (fp_of_nat F32 w, fp_of_nat F32 h)
                (case cf_view_product cfg of Some p \<Rightarrow> p | None \<Rightarrow> Reflectivity)
      in v\<lparr>vw_show_highways := (case cf_show_highways cfg of Some b \<Rightarrow> b | None \<Rightarrow> True),
           vw_show_reference := (case cf_show_reference cfg of Some b \<Rightarrow> b | None \<Rightarrow> True)\<rparr>)"

definition show_bool :: "bool \<Rightarrow> utext" where
  "show_bool b = (if b then lit ''true'' else lit ''false'')"

definition change :: "utext \<Rightarrow> 'a option \<Rightarrow> 'a \<Rightarrow> ('a \<Rightarrow> utext) \<Rightarrow> (utext \<times> utext) list" where
  "change key old new show_value = (if old \<noteq> Some new then [(key, show_value new)] else [])"

definition view_changes :: "config \<Rightarrow> persisted_view \<Rightarrow> (utext \<times> utext) list" where
  "view_changes cfg pv =
     change WINDOW_WIDTH_KEY (cf_window_width cfg) (pv_width pv) decimal @
     change WINDOW_HEIGHT_KEY (cf_window_height cfg) (pv_height pv) decimal @
     change VIEW_PRODUCT_KEY (cf_view_product cfg) (pv_product pv) product_name @
     change VIEW_HIGHWAYS_KEY (cf_show_highways cfg) (pv_show_highways pv) show_bool @
     change VIEW_REFERENCE_KEY (cf_show_reference cfg) (pv_show_reference pv) show_bool"

fun headless_helps :: "render_error \<Rightarrow> bool" where
  "headless_helps (Surface _) = True"
| "headless_helps (NoAdapter _) = True"
| "headless_helps (Device _) = True"
| "headless_helps (NoPresentableAdapter _) = True"
| "headless_helps _ = False"

text \<open>The exit code, what is printed to the error output, and the files afterwards.\<close>

definition run_render ::
  "nat \<Rightarrow> bool \<Rightarrow> write_fault \<Rightarrow> config \<Rightarrow> config_path option \<Rightarrow> render_error + persisted_view \<Rightarrow> file_system \<Rightarrow>
   nat \<times> utext list \<times> file_system" where
  "run_render pid readable fault cfg path result fs =
     (case result of
        Inl e \<Rightarrow> (1, (lit ''radar-workstation: '' @ show_render_error e) #
            (if headless_helps e
             then [lit ''radar-workstation: run with --headless to use the workstation without a display.''] else []), fs)
      | Inr pv \<Rightarrow>
          (case path of
             None \<Rightarrow> (0, [], fs)
           | Some path \<Rightarrow>
               if view_changes cfg pv = [] then (0, [], fs)
               else
                 (case save_config pid readable fault path (view_changes cfg pv) fs of
                    (fs', Inr _) \<Rightarrow> (0, [], fs')
                  | (fs', Inl (Io_Error reason)) \<Rightarrow>
                      (0, [lit ''radar-workstation: could not save configuration: '' @ lit reason], fs'))))"

section \<open>Without a window\<close>

text \<open>What half a second of waiting for the end of the input gave, and the loop's printed states.\<close>

datatype 'site headless_wait = Input_Closed | Timed_Out "'site state_snapshot"

fun headless_run :: "u64 option \<Rightarrow> 'site headless_wait list \<Rightarrow> 'site state_snapshot list \<times> bool" where
  "headless_run printed [] = ([], False)"
| "headless_run printed (Input_Closed # ws) = ([], True)"
| "headless_run printed (Timed_Out snap # ws) =
     (if printed \<noteq> Some (ss_revision snap)
      then (let (lines, ended) = headless_run (Some (ss_revision snap)) ws in (snap # lines, ended))
      else headless_run printed ws)"

text \<open>The line of a state; the debug texts and the fixed-point texts are arguments.\<close>

definition fill_percent :: "sweep_grid \<Rightarrow> fp" where
  "fill_percent g =
     (if 0 < g_azimuth_count g
      then fmul F32 (fdiv F32 (fp_of_nat F32 (unat (g_filled_azimuths g))) (fp_of_nat F32 (unat (g_azimuth_count g))))
             (f32lit 100)
      else f32lit 0)"

definition grid_dims :: "sweep_grid \<Rightarrow> utext" where
  "grid_dims g = lit '' '' @ product_name (g_product g) @ lit '' '' @ decimal (unat (g_azimuth_count g)) @ lit ''x'' @
     decimal (unat (g_gate_count g))"

definition format_state_line ::
  "(nat \<Rightarrow> fp \<Rightarrow> utext) \<Rightarrow> (u16 option \<Rightarrow> utext) \<Rightarrow> (ingest_state \<Rightarrow> utext) \<Rightarrow> site state_snapshot \<Rightarrow> utext" where
  "format_state_line fixed debug_vcp debug_ingest snap =
     lit ''['' @ st_id (ss_site snap) @ lit ''] rev='' @ decimal (unat (ss_revision snap)) @
     lit '' sweeps='' @ decimal (length (ss_sweeps snap)) @ lit '' derived='' @ decimal (length (ss_derived snap)) @
     lit '' last_complete_vcp='' @ debug_vcp (map_option sm_vcp_number (ss_last_complete snap)) @
     lit '' ingest='' @ debug_ingest (is_state (ss_ingest snap)) @
     concat (map (\<lambda>s. lit '' el='' @ decimal (unat (ds_elevation_number s)) @ lit '' ('' @ fixed 2 (ds_elevation_deg s) @
         [176] @ lit '')'' @
         concat (map (\<lambda>g. grid_dims g @ lit '' '' @ fixed 0 (fill_percent g) @ [37]) (ds_grids s))) (ss_sweeps snap)) @
     (if ss_derived snap \<noteq> [] then lit '' derived:'' @ concat (map grid_dims (ss_derived snap)) else [])"

end
