(* ===== verification/Restart.thy ===== *)
theory Restart
  imports Main_Program "HOL-Library.Sublist"
begin

text \<open>
  What one run of the program leaves for the next: the saved window and view are the ones the
  next start reads. A loaded configuration is a function of the map its lines make, and a save
  updates that map.
\<close>

section \<open>A file read as its map\<close>

definition config_of_map :: "(utext \<rightharpoonup> utext) \<Rightarrow> config" where
  "config_of_map m =
     \<lparr>cf_site = Option.bind (m SITE_KEY) (by_id SITES),
      cf_poll_interval = (case Option.bind (m POLL_INTERVAL_KEY) (parse_uint 64) of
         Some secs \<Rightarrow> max POLL_INTERVAL_MIN (min POLL_INTERVAL_MAX secs) | None \<Rightarrow> DEFAULT_POLL_INTERVAL),
      cf_window_width = Option.bind (m WINDOW_WIDTH_KEY) (\<lambda>v. fst (parse_dimension WINDOW_WIDTH_KEY v WINDOW_WIDTH_RANGE)),
      cf_window_height = Option.bind (m WINDOW_HEIGHT_KEY) (\<lambda>v. fst (parse_dimension WINDOW_HEIGHT_KEY v WINDOW_HEIGHT_RANGE)),
      cf_view_product = Option.bind (m VIEW_PRODUCT_KEY) parse_product_name,
      cf_show_highways = Option.bind (m VIEW_HIGHWAYS_KEY) (\<lambda>v. fst (parse_bool VIEW_HIGHWAYS_KEY v)),
      cf_show_reference = Option.bind (m VIEW_REFERENCE_KEY) (\<lambda>v. fst (parse_bool VIEW_REFERENCE_KEY v))\<rparr>"

lemmas key_defs = SITE_KEY_def POLL_INTERVAL_KEY_def WINDOW_WIDTH_KEY_def WINDOW_HEIGHT_KEY_def VIEW_PRODUCT_KEY_def
  VIEW_HIGHWAYS_KEY_def VIEW_REFERENCE_KEY_def

lemma keys_differ:
  "distinct [SITE_KEY, POLL_INTERVAL_KEY, WINDOW_WIDTH_KEY, WINDOW_HEIGHT_KEY, VIEW_PRODUCT_KEY, VIEW_HIGHWAYS_KEY,
     VIEW_REFERENCE_KEY]"
  "distinct [VIEW_REFERENCE_KEY, VIEW_HIGHWAYS_KEY, VIEW_PRODUCT_KEY, WINDOW_HEIGHT_KEY, WINDOW_WIDTH_KEY,
     POLL_INTERVAL_KEY, SITE_KEY]"
  by (simp_all add: key_defs lit_def)

lemmas keys_distinct = keys_differ [simplified]

lemma put_pair_keys: "fst ` set (put_pair k v ps) = insert k (fst ` set ps)"
  by (induction k v ps rule: put_pair.induct) auto

lemma put_pair_distinct: "distinct (map fst ps) \<Longrightarrow> distinct (map fst (put_pair k v ps))"
  by (induction k v ps rule: put_pair.induct) (auto simp: put_pair_keys)

lemma parse_lines_distinct:
  "distinct (map fst ps) \<Longrightarrow> distinct (map fst (fst (parse_config_lines n ls ps sk)))"
  by (induction n ls ps sk rule: parse_config_lines.induct) (auto split: line_kind.split simp: put_pair_distinct)

lemma config_of_map_upd:
  "config_of_map (m(SITE_KEY \<mapsto> v)) = (config_of_map m)\<lparr>cf_site := by_id SITES v\<rparr>"
  "config_of_map (m(POLL_INTERVAL_KEY \<mapsto> v)) = (config_of_map m)\<lparr>cf_poll_interval := (case parse_uint 64 v of Some secs \<Rightarrow> max POLL_INTERVAL_MIN (min POLL_INTERVAL_MAX secs) | None \<Rightarrow> DEFAULT_POLL_INTERVAL)\<rparr>"
  "config_of_map (m(WINDOW_WIDTH_KEY \<mapsto> v)) = (config_of_map m)\<lparr>cf_window_width := fst (parse_dimension WINDOW_WIDTH_KEY v WINDOW_WIDTH_RANGE)\<rparr>"
  "config_of_map (m(WINDOW_HEIGHT_KEY \<mapsto> v)) = (config_of_map m)\<lparr>cf_window_height := fst (parse_dimension WINDOW_HEIGHT_KEY v WINDOW_HEIGHT_RANGE)\<rparr>"
  "config_of_map (m(VIEW_PRODUCT_KEY \<mapsto> v)) = (config_of_map m)\<lparr>cf_view_product := parse_product_name v\<rparr>"
  "config_of_map (m(VIEW_HIGHWAYS_KEY \<mapsto> v)) = (config_of_map m)\<lparr>cf_show_highways := fst (parse_bool VIEW_HIGHWAYS_KEY v)\<rparr>"
  "config_of_map (m(VIEW_REFERENCE_KEY \<mapsto> v)) = (config_of_map m)\<lparr>cf_show_reference := fst (parse_bool VIEW_REFERENCE_KEY v)\<rparr>"
  by (simp_all add: config_of_map_def keys_distinct)

lemma config_of_map_other:
  "k \<notin> {SITE_KEY, POLL_INTERVAL_KEY, WINDOW_WIDTH_KEY, WINDOW_HEIGHT_KEY, VIEW_PRODUCT_KEY, VIEW_HIGHWAYS_KEY,
     VIEW_REFERENCE_KEY} \<Longrightarrow> config_of_map (m(k \<mapsto> v)) = config_of_map m"
  unfolding config_of_map_def by (subst fun_upd_other, blast)+ (rule refl)

lemma config_of_map_none:
  "m SITE_KEY = None \<Longrightarrow> (config_of_map m)\<lparr>cf_site := None\<rparr> = config_of_map m"
  "m POLL_INTERVAL_KEY = None \<Longrightarrow> (config_of_map m)\<lparr>cf_poll_interval := DEFAULT_POLL_INTERVAL\<rparr> = config_of_map m"
  "m VIEW_PRODUCT_KEY = None \<Longrightarrow> (config_of_map m)\<lparr>cf_view_product := None\<rparr> = config_of_map m"
  by (simp_all add: config_of_map_def)

lemma apply_key_field:
  assumes "m k = None"
  shows "fst (apply_key k v (config_of_map m)) = config_of_map (m(k \<mapsto> v))"
proof -
  consider "k = SITE_KEY" | "k = POLL_INTERVAL_KEY" | "k = WINDOW_WIDTH_KEY" | "k = WINDOW_HEIGHT_KEY"
    | "k = VIEW_PRODUCT_KEY" | "k = VIEW_HIGHWAYS_KEY" | "k = VIEW_REFERENCE_KEY"
    | "k \<notin> {SITE_KEY, POLL_INTERVAL_KEY, WINDOW_WIDTH_KEY, WINDOW_HEIGHT_KEY, VIEW_PRODUCT_KEY, VIEW_HIGHWAYS_KEY,
        VIEW_REFERENCE_KEY}" by blast
  then show ?thesis
    by cases (use assms in \<open>simp_all add: config_of_map_upd config_of_map_none config_of_map_other apply_key_def
      keys_distinct Let_def split_beta split: option.split\<close>)
qed

lemma apply_pairs_field:
  assumes "distinct (map fst ps)" "dom m \<inter> fst ` set ps = {}"
  shows "fst (apply_pairs ps (config_of_map m) es) = config_of_map (m ++ map_of ps)"
  using assms
proof (induction ps arbitrary: m es)
  case (Cons kv ps)
  obtain k v where kv: "kv = (k, v)" by (cases kv)
  have "fst (apply_key k v (config_of_map m)) = config_of_map (m(k \<mapsto> v))"
    using Cons(3) by (intro apply_key_field) (auto simp: kv dom_def)
  moreover have "m(k \<mapsto> v) ++ map_of ps = m ++ map_of (kv # ps)"
    using Cons(2) unfolding kv map_of.simps fst_conv snd_conv map_add_upd
    by (simp add: map_add_upd_left dom_map_of_conv_image_fst)
  moreover have "fst (apply_pairs ps (config_of_map (m(k \<mapsto> v))) (es @ snd (apply_key k v (config_of_map m)))) =
      config_of_map (m(k \<mapsto> v) ++ map_of ps)"
    using Cons(2,3) by (intro Cons(1), unfold dom_fun_upd) (simp_all add: kv)
  moreover have "apply_pairs (kv # ps) c es = apply_pairs ps (fst (apply_key k v c)) (es @ snd (apply_key k v c))" for c
    by (simp add: kv split_beta)
  ultimately show ?case by (simp only:)
qed simp

lemma load_config_map:
  "fst (load_config path (File_Text t)) = config_of_map (map_of (fst (parse_config t)))"
proof -
  have "config_default = config_of_map Map.empty" by (simp add: config_default_def config_of_map_def)
  then show ?thesis
    using apply_pairs_field [of "fst (parse_config t)" Map.empty] parse_lines_distinct [of "[]"]
    by (simp add: parse_config_def split_beta)
qed

section \<open>Numbers and names are read back\<close>

lemma digits_append: "digits_value (ds @ [d]) = 10 * digits_value ds + (d - 48)"
  by (simp add: digits_value_def)

lemma decimal_digits: "decimal n \<noteq> [] \<and> list_all char_digit (decimal n) \<and> digits_value (decimal n) = n"
proof (induction n rule: decimal.induct)
  case (1 n)
  show ?case
  proof (cases "n < 10")
    case True
    then show ?thesis by (simp add: decimal.simps [of n] char_digit_def digits_value_def)
  next
    case False
    then show ?thesis using 1 by (simp add: decimal.simps [of n] digits_append char_digit_def)
  qed
qed

lemma parse_decimal: "n < 2 ^ w \<Longrightarrow> parse_uint w (decimal n) = Some n"
proof -
  assume n: "n < 2 ^ w"
  obtain d ds where d: "decimal n = d # ds" using decimal_digits [of n] by (cases "decimal n") auto
  then have "d \<noteq> 43" using decimal_digits [of n] by (auto simp: char_digit_def)
  then show ?thesis using decimal_digits [of n] n by (simp add: parse_uint_def d)
qed

lemma digit_plain: "char_digit c \<Longrightarrow> \<not> is_white c \<and> c \<noteq> 10"
  by (auto simp: char_digit_def is_white_def)

lemma decimal_plain: "trim (decimal n) = decimal n \<and> 10 \<notin> set (decimal n)"
proof -
  have d: "decimal n \<noteq> []" "\<And>c. c \<in> set (decimal n) \<Longrightarrow> \<not> is_white c \<and> c \<noteq> 10"
    using decimal_digits [of n] digit_plain by (auto simp: list_all_iff)
  then show ?thesis using trim_nothing [of "decimal n"] by auto
qed

lemma name_plain: "trim (product_name p) = product_name p \<and> 10 \<notin> set (product_name p)"
  by (cases p) (simp_all add: lit_def trim_def trim_start_def trim_end_def is_white_def)

lemma bool_plain: "trim (show_bool b) = show_bool b \<and> 10 \<notin> set (show_bool b) \<and> fst (parse_bool k (show_bool b)) = Some b"
  by (cases b) (simp_all add: show_bool_def lit_def trim_def trim_start_def trim_end_def is_white_def parse_bool_def ascii_lower_def)

lemma keys_valid:
  "is_valid_key WINDOW_WIDTH_KEY" "is_valid_key WINDOW_HEIGHT_KEY" "is_valid_key VIEW_PRODUCT_KEY"
  "is_valid_key VIEW_HIGHWAYS_KEY" "is_valid_key VIEW_REFERENCE_KEY"
  by (simp_all add: key_defs lit_def is_valid_key_def is_key_char_def char_alnum_def char_digit_def)

section \<open>The view survives\<close>

lemma map_of_change:
  "map_of (change key old new sv) = (if old \<noteq> Some new then [key \<mapsto> sv new] else Map.empty)"
  by (simp add: change_def)

lemma changes_map:
  "map_of (view_changes cfg pv) WINDOW_WIDTH_KEY =
     (if cf_window_width cfg \<noteq> Some (pv_width pv) then Some (decimal (pv_width pv)) else None)"
  "map_of (view_changes cfg pv) WINDOW_HEIGHT_KEY =
     (if cf_window_height cfg \<noteq> Some (pv_height pv) then Some (decimal (pv_height pv)) else None)"
  "map_of (view_changes cfg pv) VIEW_PRODUCT_KEY =
     (if cf_view_product cfg \<noteq> Some (pv_product pv) then Some (product_name (pv_product pv)) else None)"
  "map_of (view_changes cfg pv) VIEW_HIGHWAYS_KEY =
     (if cf_show_highways cfg \<noteq> Some (pv_show_highways pv) then Some (show_bool (pv_show_highways pv)) else None)"
  "map_of (view_changes cfg pv) VIEW_REFERENCE_KEY =
     (if cf_show_reference cfg \<noteq> Some (pv_show_reference pv) then Some (show_bool (pv_show_reference pv)) else None)"
  "map_of (view_changes cfg pv) SITE_KEY = None"
  "map_of (view_changes cfg pv) POLL_INTERVAL_KEY = None"
  by (simp_all add: view_changes_def map_of_change keys_distinct map_add_def)

lemma changes_distinct: "distinct (map fst (view_changes cfg pv))"
  by (simp add: view_changes_def change_def keys_distinct)

definition view_keys :: "utext list" where
  "view_keys = [WINDOW_WIDTH_KEY, WINDOW_HEIGHT_KEY, VIEW_PRODUCT_KEY, VIEW_HIGHWAYS_KEY, VIEW_REFERENCE_KEY]"

lemma changes_writable:
  "(k, v) \<in> set (view_changes cfg pv) \<Longrightarrow> writable k v \<and> k \<in> set view_keys"
  using keys_valid decimal_plain name_plain bool_plain
  by (auto simp: view_changes_def change_def view_keys_def writable_def split: if_splits)

definition saved_text :: "config \<Rightarrow> persisted_view \<Rightarrow> utext \<Rightarrow> utext" where
  "saved_text cfg pv existing =
     (if view_changes cfg pv = [] then existing else save_text existing (view_changes cfg pv))"

lemma saved_text_map:
  assumes "list_all (unique_key (text_lines existing)) view_keys"
  shows "map_of (fst (parse_config (saved_text cfg pv existing))) =
    map_of (fst (parse_config existing)) ++ map_of (view_changes cfg pv)"
proof -
  have ok: "\<forall>(k, v)\<in>set (view_changes cfg pv). writable k v"
    "\<forall>(k, v)\<in>set (view_changes cfg pv). writable k v \<and> unique_key (text_lines existing) k"
    using changes_writable assms by (fastforce simp: list_all_iff)+
  show ?thesis
    using parse_saved [OF changes_distinct ok(1)] saved_lines_update [OF changes_distinct ok(2)]
    by (simp add: saved_text_def parse_config_update)
qed

definition file_at :: "config_path \<Rightarrow> file_system \<Rightarrow> file_read" where
  "file_at path fs =
     (case Option.bind (cp_dir path) (\<lambda>dir. fs (dir, cp_name path)) of Some t \<Rightarrow> File_Text t | None \<Rightarrow> File_Missing)"

definition text_at :: "config_path \<Rightarrow> file_system \<Rightarrow> utext" where
  "text_at path fs = (case Option.bind (cp_dir path) (\<lambda>dir. fs (dir, cp_name path)) of Some t \<Rightarrow> t | None \<Rightarrow> [])"

lemma load_file_at: "fst (load_config p (file_at path fs)) = config_of_map (map_of (fst (parse_config (text_at path fs))))"
proof (cases "Option.bind (cp_dir path) (\<lambda>dir. fs (dir, cp_name path))")
  case None
  have "config_default = config_of_map Map.empty" by (simp add: config_default_def config_of_map_def)
  then show ?thesis
    by (simp add: file_at_def text_at_def None parse_config_def text_lines_def)
next
  case (Some t)
  show ?thesis unfolding file_at_def text_at_def Some option.case by (rule load_config_map)
qed

lemma run_render_saves:
  assumes "cp_dir path = Some dir"
  shows "\<exists>fs'. run_render pid True No_Fault cfg (Some path) (Inr pv) fs = (0, [], fs') \<and>
    text_at path fs' = saved_text cfg pv (text_at path fs)"
  using assms tmp_name_other [of pid "cp_name path"]
  by (auto simp: run_render_def save_config_def write_atomic_def text_at_def saved_text_def Let_def split: option.split)

text \<open>A field after the save: the new value where it was not that already.\<close>

lemma bind_changed:
  assumes "ch K = (if Option.bind (m K) f \<noteq> Some new then Some txt else None)"
  shows "Option.bind ((m ++ ch) K) f = (if Option.bind (m K) f \<noteq> Some new then f txt else Some new)"
  using assms by (auto simp: map_add_def split: option.split)

lemma dimension_saved:
  assumes "n < 2 ^ 32"
  shows "(if Option.bind old (\<lambda>v. fst (parse_dimension k v r)) \<noteq> Some n then fst (parse_dimension k (decimal n) r) else Some n) =
    (if fst r \<le> n \<and> n \<le> snd r then Some n else None)"
  using parse_decimal [OF assms]
  by (cases old) (auto simp: parse_dimension_def split: option.splits if_splits)

lemma saved_config:
  assumes "cfg = config_of_map m" and dims: "pv_width pv < 2 ^ 32" "pv_height pv < 2 ^ 32"
  shows "config_of_map (m ++ map_of (view_changes cfg pv)) =
    cfg\<lparr>cf_window_width := (if 640 \<le> pv_width pv \<and> pv_width pv \<le> 7680 then Some (pv_width pv) else None),
        cf_window_height := (if 480 \<le> pv_height pv \<and> pv_height pv \<le> 4320 then Some (pv_height pv) else None),
        cf_view_product := Some (pv_product pv), cf_show_highways := Some (pv_show_highways pv),
        cf_show_reference := Some (pv_show_reference pv)\<rparr>"
proof -
  let ?ch = "map_of (view_changes cfg pv)"
  have kept: "(m ++ ?ch) SITE_KEY = m SITE_KEY" "(m ++ ?ch) POLL_INTERVAL_KEY = m POLL_INTERVAL_KEY"
    by (simp_all add: map_add_def changes_map)
  have "parse_product_name (product_name q) = Some q" for q by (simp add: parse_product_name_iff)
  then have view:
    "Option.bind ((m ++ ?ch) VIEW_PRODUCT_KEY) parse_product_name = Some (pv_product pv)"
    "Option.bind ((m ++ ?ch) VIEW_HIGHWAYS_KEY) (\<lambda>v. fst (parse_bool VIEW_HIGHWAYS_KEY v)) = Some (pv_show_highways pv)"
    "Option.bind ((m ++ ?ch) VIEW_REFERENCE_KEY) (\<lambda>v. fst (parse_bool VIEW_REFERENCE_KEY v)) = Some (pv_show_reference pv)"
    using changes_map(3-5) [of cfg pv] bool_plain
    by (simp_all add: assms(1) config_of_map_def bind_changed)
  have window:
    "Option.bind ((m ++ ?ch) WINDOW_WIDTH_KEY) (\<lambda>v. fst (parse_dimension WINDOW_WIDTH_KEY v WINDOW_WIDTH_RANGE)) =
       (if 640 \<le> pv_width pv \<and> pv_width pv \<le> 7680 then Some (pv_width pv) else None)"
    "Option.bind ((m ++ ?ch) WINDOW_HEIGHT_KEY) (\<lambda>v. fst (parse_dimension WINDOW_HEIGHT_KEY v WINDOW_HEIGHT_RANGE)) =
       (if 480 \<le> pv_height pv \<and> pv_height pv \<le> 4320 then Some (pv_height pv) else None)"
    using changes_map(1,2) [of cfg pv] dimension_saved [OF dims(1)] dimension_saved [OF dims(2)]
    by (simp_all add: assms(1) config_of_map_def bind_changed WINDOW_WIDTH_RANGE_def WINDOW_HEIGHT_RANGE_def)
  have "config_of_map (m ++ ?ch) =
      (config_of_map m)\<lparr>cf_window_width := (if 640 \<le> pv_width pv \<and> pv_width pv \<le> 7680 then Some (pv_width pv) else None),
        cf_window_height := (if 480 \<le> pv_height pv \<and> pv_height pv \<le> 4320 then Some (pv_height pv) else None),
        cf_view_product := Some (pv_product pv), cf_show_highways := Some (pv_show_highways pv),
        cf_show_reference := Some (pv_show_reference pv)\<rparr>"
    unfolding config_of_map_def kept view window by simp
  then show ?thesis unfolding assms(1) .
qed

text \<open>
  C36: The window and the view survive a restart, when the path of the configuration has a
  directory, its file gives each of the five view keys at most once, and no write fails. A
  clean shutdown then exits with 0 and without a complaint, and the next start loads the
  product and the two layers the run ended with, the window's width and height when they are
  within the accepted ranges (and none when they are not), and the site and the interval the
  file had; the file may hold anything else.
\<close>

theorem view_survives_restart:
  assumes "cp_dir path = Some dir" and "pv_width pv < 2 ^ 32" "pv_height pv < 2 ^ 32"
    and "list_all (unique_key (text_lines (text_at path fs))) view_keys"
    and "cfg = fst (load_config p (file_at path fs))"
  shows "\<exists>fs'. run_render pid True No_Fault cfg (Some path) (Inr pv) fs = (0, [], fs') \<and>
    fst (load_config p (file_at path fs')) =
      cfg\<lparr>cf_window_width := (if 640 \<le> pv_width pv \<and> pv_width pv \<le> 7680 then Some (pv_width pv) else None),
          cf_window_height := (if 480 \<le> pv_height pv \<and> pv_height pv \<le> 4320 then Some (pv_height pv) else None),
          cf_view_product := Some (pv_product pv), cf_show_highways := Some (pv_show_highways pv),
          cf_show_reference := Some (pv_show_reference pv)\<rparr>"
proof -
  have cfg: "cfg = config_of_map (map_of (fst (parse_config (text_at path fs))))"
    using assms(5) load_file_at by simp
  obtain fs' where fs': "run_render pid True No_Fault cfg (Some path) (Inr pv) fs = (0, [], fs')"
      "text_at path fs' = saved_text cfg pv (text_at path fs)"
    using run_render_saves [OF assms(1)] by blast
  then show ?thesis
    unfolding load_file_at using saved_config [OF cfg assms(2,3)] saved_text_map [OF assms(4)] by simp
qed

theorem view_survives_restart_witness:
  "\<exists>fs'. run_render 7 True No_Fault config_default (Some \<lparr>cp_dir = Some [100], cp_name = [99]\<rparr>)
      (Inr \<lparr>pv_width = 1000, pv_height = 300, pv_product = Vil, pv_show_highways = False, pv_show_reference = True\<rparr>)
      Map.empty = (0, [], fs') \<and>
    cf_view_product (fst (load_config [] (file_at \<lparr>cp_dir = Some [100], cp_name = [99]\<rparr> fs'))) = Some Vil \<and>
    cf_window_height (fst (load_config [] (file_at \<lparr>cp_dir = Some [100], cp_name = [99]\<rparr> fs'))) = None"
proof -
  let ?path = "\<lparr>cp_dir = Some [100], cp_name = [99]\<rparr>"
  have "list_all (unique_key (text_lines (text_at ?path Map.empty))) view_keys"
    by (simp add: text_at_def text_lines_def unique_key_def list_all_iff)
  from view_survives_restart [of ?path "[100]" "\<lparr>pv_width = 1000, pv_height = 300, pv_product = Vil,
      pv_show_highways = False, pv_show_reference = True\<rparr>" Map.empty config_default "[]" 7, OF _ _ _ this]
  show ?thesis by (auto simp: file_at_def)
qed

text \<open>
  A window smaller than the accepted range is saved all the same; the next start rejects the
  saved size, says so, and opens at the default size.
\<close>

lemma small_window_rejected:
  assumes "pv_width pv < 640" "list_all (unique_key (text_lines existing)) view_keys"
    "pv_height pv < 2 ^ 32" "cfg = fst (load_config p (File_Text existing))"
  shows "(WINDOW_WIDTH_KEY, decimal (pv_width pv)) \<in> set (view_changes cfg pv) \<and>
    fst (initial_window (fst (load_config p (File_Text (saved_text cfg pv existing))))) = 1280"
proof -
  have cfg: "cfg = config_of_map (map_of (fst (parse_config existing)))"
    using assms(4) load_config_map by simp
  have "cf_window_width cfg \<noteq> Some (pv_width pv)"
    using assms(1) unfolding cfg
    by (auto simp: config_of_map_def parse_dimension_def WINDOW_WIDTH_RANGE_def split: bind_splits option.splits if_splits)
  then have "map_of (view_changes cfg pv) WINDOW_WIDTH_KEY = Some (decimal (pv_width pv))" by (simp add: changes_map)
  moreover have "cf_window_width (config_of_map (map_of (fst (parse_config existing)) ++ map_of (view_changes cfg pv))) = None"
    using saved_config [OF cfg] assms(1,3) by simp
  ultimately show ?thesis
    unfolding load_config_map saved_text_map [OF assms(2)] by (auto simp: initial_window_def dest: map_of_SomeD)
qed

text \<open>A path without a directory is loaded and can never be saved.\<close>

lemma bare_path_never_saved:
  assumes "cp_dir path = None"
  shows "\<exists>e. snd (save_config pid readable fault path changes fs) = Err e"
  using assms by (simp add: save_config_def write_atomic_def Let_def)

section \<open>Without a window\<close>

text \<open>The states the loop saw: one for each wait before the input ended.\<close>

fun seen :: "'site headless_wait list \<Rightarrow> 'site state_snapshot list" where
  "seen (Timed_Out snap # ws) = snap # seen ws"
| "seen _ = []"

lemma headless_after:
  "r # map ss_revision (fst (headless_run (Some r) ws)) = remdups_adj (r # map ss_revision (seen ws))"
proof (induction ws arbitrary: r rule: seen.induct)
  case (1 snap ws)
  then show ?case using 1 [of r] 1 [of "ss_revision snap"] by (auto simp: split_beta Let_def)
qed auto

text \<open>
  Without a window every change is printed once. The revisions printed are those of the
  states seen at the half-second ticks with repetitions in a row left out, each line is of a
  state that was seen, in order, and the run ends exactly when the input does.
\<close>

theorem headless_prints_changes:
  "map ss_revision (fst (headless_run None ws)) = remdups_adj (map ss_revision (seen ws)) \<and>
   subseq (fst (headless_run None ws)) (seen ws) \<and>
   (snd (headless_run None ws) \<longleftrightarrow> Input_Closed \<in> set ws)"
proof -
  have "subseq (fst (headless_run r ws)) (seen ws)" for r
    by (induction r ws rule: headless_run.induct) (auto simp: split_beta Let_def)
  moreover have "snd (headless_run r ws) \<longleftrightarrow> Input_Closed \<in> set ws" for r
    by (induction r ws rule: headless_run.induct) (auto simp: split_beta Let_def)
  moreover have "map ss_revision (fst (headless_run None ws)) = remdups_adj (map ss_revision (seen ws))"
  proof (cases ws rule: seen.cases)
    case (1 snap ws')
    then show ?thesis using headless_after [of "ss_revision snap" ws'] by (auto simp: split_beta Let_def)
  qed auto
  ultimately show ?thesis by blast
qed

end
