(* ===== verification/Spec2Isabelle.thy ===== *)
theory Spec2Isabelle
  imports Poll_Delivery Pipeline Overlay_Project Palette_Load Restart
begin

text \<open>
  Radar Workstation, verified in Isabelle/HOL.

  The program shows live NEXRAD weather radar. A poller lists and fetches the chunks of a radar
  site from a public S3 bucket over an HTTP client of its own; chunks are decompressed, walked
  for messages and decoded; an assembler turns radials into sweeps and volumes; the compute
  stage grids the sweeps and derives the volume products; an applier updates the shared state;
  and a render loop on the main thread draws a snapshot of that state with a map underlay,
  reference geometry, labels and text. The sources are under \<open>src/crates\<close>:
  \<open>nexrad-decoder\<close>, \<open>http-ingest\<close> and \<open>radar-workstation\<close>. Every definition is a translation of
  the Rust code that its theory names; every theorem is about those definitions.

  \<^bold>\<open>Conventions.\<close> A fixed-width integer is a word of its width, \<open>usize\<close> and durations are
  natural numbers (durations and instants in nanoseconds unless said otherwise), text is a list
  of code points, bytes are 8-bit words. A fallible function returns a sum with \<open>Err\<close> and \<open>Ok\<close>, a
  panic is a fault value or \<open>None\<close>; the release profile keeps overflow checks on, so an addition
  that can overflow has that branch. Floating-point values and operations are those of theory
  Floats: binary32 and binary64 with correct rounding, signed zeros, infinities and one NaN. A
  loop whose end is not evident is a partial function into \<open>option\<close>, so that not returning is
  \<open>None\<close>; there is no fuel anywhere in the development. The iteration order of a \<open>HashMap\<close>, the functions of
  libm, bzip2, the XML tokenizer, the peer of a connection, the file system, \<open>wgpu\<close>, \<open>winit\<close> and
  egui are parameters or arguments, never definitions made up.

  \<^bold>\<open>Foundations.\<close> Prelude has the machine integers, the result type and its bind, checked slices
  and codecs, and the locales of the development: \<open>io_machine\<close> (a machine that takes inputs and gives
  outputs, with an invariant and a promise about its outputs), \<open>monitored_machine\<close> (its outputs
  also follow a protocol and conserve what goes in), \<open>keyed_store\<close> (a map with lookup-after-insert laws)
  and \<open>growing_parser\<close> (a parser over a buffer that grows, whose answer does not depend on how the
  input is split). Each is interpreted on the models: the assembler, the compute stage, the event log,
  the applier, the application state and the poller; the product map and the ordered map; the response
  head and the chunk-size line. Text, Ascii, Floats and Tree_Map model the parts of the standard
  library the code uses.

  \<^bold>\<open>Decoding\<close> (\<open>nexrad-decoder\<close>). Decoder_Types: the data types and \<open>ProductMap\<close>. Cursor: the bounds-checked
  cursor, with one locale \<open>field_codec\<close> for all its reads. Decoder: RVOL, RRAD, moment blocks,
  Message 31 and Message 5, with round trips from encoders of the format. Message_Walk: the framing
  walk visits exactly the framed records.

  \<^bold>\<open>Ingest.\<close> Http_Error, Http_Request, Http_Response and Http_Connection are the crate \<open>http-ingest\<close>: requests,
  the incremental head parser with its rules against ambiguous framing, both body framings, the retry
  rule; the head parser is shown equal to a grammar of heads that stands beside it. Listing reads an S3
  listing from XML events, with whatever else the service puts into it. Ingest_Status and S3_Poll are
  the poller with its paging, recovery and published health; Poll_Delivery composes them with a bucket
  that keeps the documented contract of S3, with opaque continuation tokens and pages of any size:
  every chunk is delivered once, in order. Chunk detects and decompresses chunks.
  Assembly is the volume assembler with its context, watchdog and end-chunk rules. Pipeline is the
  supervisor, its backoff and the applier task.

  \<^bold>\<open>Products and state.\<close> Display_Product: the products and their names. Grid: gridding of a sweep. Derived: echo tops and
  VIL. Compute: the stage with its bounded set of retained tilts, against a specification that reads
  what is sent off the events alone. Event: the typed events and the
  bounded log. Radar_State: the shared state and the pure applier.

  \<^bold>\<open>Configuration and start.\<close> Config_File: reading, validating, and saving line by line through an
  atomic rename. Sites: the generated site table. Startup: the command line and directories.
  Main_Program: \<open>main.rs\<close> and \<open>headless.rs\<close>, from arguments to exit code. Restart: what a run saves is
  what the next start loads.

  \<^bold>\<open>Rendering.\<close> Overlay_Bundle and Overlay_Project: the map underlay's binary format and its projection
  into vertex and index buffers. Palette, Palette_Files, Palette_Load: colour tables. Gpu_Adapter and
  Gpu_Bring_Up: the choice of the graphics adapter and its bring-up. View: the camera, key map and
  label placement. Interaction: window events and the value under the cursor. Texture_Cache: the
  textures and lookup tables of the radar pass. Calendar: the scan time. Scene: range rings, spokes and
  the draws of the underlay. Chrome: the text of a frame, the legend and the readout. Frame_Loop: the
  start of the graphics, a frame, pacing and the late-failure guard.

  \<^bold>\<open>What the theorems show.\<close> The claims C1 to C40 stand in their component's theory, each after a text block that
  states it. In outline: no radial, chunk, event line or response byte is lost, duplicated or
  reordered on its way (assembly, poller, connection, text formats); what is accepted is exactly what
  a declarative description of the format admits (response heads, framing, listings, palettes);
  the state shown is that of the newest volume, the labels and textures shown are those of
  the current snapshot and view; buffers, caches and counters stay in their bounds; the loops
  that must end do; what is written is read back (decoder, configuration, restart); failures
  have the outcome the code promises (retries, atomic saves, adapter overrides, surface
  losses). Lemmas that show where the code departs from its intent stand beside the theorems they
  limit; they are the ones the manifest's findings name.

  \<^bold>\<open>Bounds.\<close> Bounds of the code are kept: event log 64 entries, retained tilts 40, lookup tables 32, response
  heads and bodies by the limits of the client, configuration ranges. Theorems about index buffers
  assume fewer than \<open>2^31\<close> projected points, since indices are 32-bit; those about parsed
  numbers keep the width the code parses them at.

  \<^bold>\<open>Not modelled.\<close> Pipeline objects, shaders and command encoding of \<open>wgpu\<close>, the layout and painting of
  egui, and the WGSL programs: they are glue to libraries and code of the device. The tokio runtime:
  tasks are composed as functions on the sequences of messages they exchange. The TLS configuration of
  \<open>tls.rs\<close> and TCP: outcomes of the environment. The printed help and usage texts and the debug texts of values,
  which are arguments where they are shown. Test code (\<open>offscreen.rs\<close>, \<open>test_server.rs\<close>, \<open>test_support.rs\<close>,
  \<open>fuzz-support\<close> and the fuzz targets) and the Python and shell tools that bake data. The developer tools under \<open>src/utility\<close>
  (\<open>radar-viz\<close>, \<open>nexrad-sample\<close>) are no part of the program.
\<close>

end
